(* ===== verification/Rust_Base.thy ===== *)
theory Rust_Base
  imports Main "HOL-Library.Word" "HOL-Library.Monad_Syntax"
begin

text \<open>
  The part of Rust and its standard library that the modelled code uses.

  \<^item> A function that can panic returns \<open>'a rust\<close>: \<open>None\<close> is a panic (an arithmetic overflow, an
    index or a slice out of range, a failed \<^verbatim>\<open>assert!\<close>, \<^verbatim>\<open>unwrap\<close> or \<^verbatim>\<open>expect\<close>). Arithmetic is the
    overflow-checked arithmetic of the development profile (\<^verbatim>\<open>overflow-checks = true\<close> in
    \<^verbatim>\<open>tenderlink/Cargo.toml\<close>); where a theorem shows that no panic occurs, the unchecked build
    computes the same values.
  \<^item> Machine integers are words of their width. A \<^verbatim>\<open>usize\<close> used as an index or a length is a \<open>nat\<close>.
  \<^item> A byte array of a fixed size is a byte list, with its length stated where a lemma needs it.
\<close>

unbundle bit_operations_syntax

type_synonym u8 = "8 word"
type_synonym u16 = "16 word"
type_synonym u32 = "32 word"
type_synonym u64 = "64 word"
type_synonym bytes = "u8 list"
type_synonym 'a rust = "'a option"
type_synonym 'a reader = "bytes \<Rightarrow> ('a \<times> bytes) option"

named_theorems codec_simps \<open>equations that run a reader on the bytes a writer produced\<close>
named_theorems codec_iff \<open>what a reader accepts, as an equivalence\<close>

section \<open>Panicking operations\<close>

definition rassert :: "bool \<Rightarrow> unit rust" where
  "rassert b = (if b then Some () else None)"

definition index :: "'a list \<Rightarrow> nat \<Rightarrow> 'a rust" where
  "index xs i = (if i < length xs then Some (xs ! i) else None)"

definition set_index :: "'a list \<Rightarrow> nat \<Rightarrow> 'a \<Rightarrow> 'a list rust" where
  "set_index xs i v = (if i < length xs then Some (xs[i := v]) else None)"

text \<open>\<^verbatim>\<open>&xs[a..b]\<close>: it panics when \<open>b < a\<close> and when \<open>b\<close> is past the end.\<close>

definition slice :: "'a list \<Rightarrow> nat \<Rightarrow> nat \<Rightarrow> 'a list rust" where
  "slice xs a b = (if a \<le> b \<and> b \<le> length xs then Some (take (b - a) (drop a xs)) else None)"

text \<open>\<^verbatim>\<open>buf[o..o+n].copy_from_slice(ys)\<close> with \<open>n\<close> the length of \<open>ys\<close>.\<close>

definition copy_into :: "'a list \<Rightarrow> nat \<Rightarrow> 'a list \<Rightarrow> 'a list rust" where
  "copy_into buf pos ys =
     (if pos + length ys \<le> length buf
      then Some (take pos buf @ ys @ drop (pos + length ys) buf) else None)"

definition checked_add :: "'w::len word \<Rightarrow> 'w word \<Rightarrow> 'w word rust" where
  "checked_add a b = (if unat a + unat b < 2 ^ LENGTH('w) then Some (a + b) else None)"

definition checked_sub :: "'w::len word \<Rightarrow> 'w word \<Rightarrow> 'w word rust" where
  "checked_sub a b = (if b \<le> a then Some (a - b) else None)"

definition checked_mul :: "'w::len word \<Rightarrow> 'w word \<Rightarrow> 'w word rust" where
  "checked_mul a b = (if unat a * unat b < 2 ^ LENGTH('w) then Some (a * b) else None)"

definition usize_sub :: "nat \<Rightarrow> nat \<Rightarrow> nat rust" where
  "usize_sub a b = (if b \<le> a then Some (a - b) else None)"

section \<open>Searching sorted vectors\<close>

text \<open>
  \<^verbatim>\<open>slice::partition_point\<close> and \<^verbatim>\<open>slice::binary_search_by_key\<close>, on slices that are partitioned
  by the predicate and sorted by the key: the position of the first element that fails the
  predicate, and the position of the key or the place where it belongs.
\<close>

definition partition_point :: "('a \<Rightarrow> bool) \<Rightarrow> 'a list \<Rightarrow> nat" where
  "partition_point P xs = length (takeWhile P xs)"

definition binary_search_by_key :: "'k::linorder \<Rightarrow> ('a \<Rightarrow> 'k) \<Rightarrow> 'a list \<Rightarrow> nat + nat" where
  "binary_search_by_key k key xs =
     (let i = partition_point (\<lambda>x. key x < k) xs
      in if i < length xs \<and> key (xs ! i) = k then Inr i else Inl i)"

text \<open>\<^verbatim>\<open>Vec::insert\<close>, at a position within the vector.\<close>

definition vec_insert :: "'a list \<Rightarrow> nat \<Rightarrow> 'a \<Rightarrow> 'a list" where
  "vec_insert xs i x = take i xs @ x # drop i xs"

text \<open>\<^verbatim>\<open>Iterator::position\<close>.\<close>

fun position :: "('a \<Rightarrow> bool) \<Rightarrow> 'a list \<Rightarrow> nat option" where
  "position P [] = None"
| "position P (x # xs) = (if P x then Some 0 else map_option Suc (position P xs))"

section \<open>Little-endian integers and byte readers\<close>

primrec le_bytes :: "nat \<Rightarrow> nat \<Rightarrow> bytes" where
  "le_bytes 0 v = []"
| "le_bytes (Suc n) v = word_of_nat v # le_bytes n (v div 256)"

primrec le_val :: "bytes \<Rightarrow> nat" where
  "le_val [] = 0"
| "le_val (b # bs) = unat b + 256 * le_val bs"

abbreviation u16_le :: "u16 \<Rightarrow> bytes" where "u16_le w \<equiv> le_bytes 2 (unat w)"
abbreviation u32_le :: "u32 \<Rightarrow> bytes" where "u32_le w \<equiv> le_bytes 4 (unat w)"
abbreviation u64_le :: "u64 \<Rightarrow> bytes" where "u64_le w \<equiv> le_bytes 8 (unat w)"

definition read_exact :: "nat \<Rightarrow> bytes reader" where
  "read_exact n buf = (if length buf < n then None else Some (take n buf, drop n buf))"

definition read_word :: "nat \<Rightarrow> ('w::len word) reader" where
  "read_word n buf = do { (b, rest) \<leftarrow> read_exact n buf; Some (word_of_nat (le_val b), rest) }"

text \<open>A loop that reads \<open>n\<close> items in a row, and its writer.\<close>

primrec read_n :: "nat \<Rightarrow> 'a reader \<Rightarrow> 'a list reader" where
  "read_n 0 rd buf = Some ([], buf)"
| "read_n (Suc n) rd buf =
     do { (x, buf') \<leftarrow> rd buf; (xs, buf'') \<leftarrow> read_n n rd buf'; Some (x # xs, buf'') }"

definition write_all :: "('a \<Rightarrow> bytes) \<Rightarrow> 'a list \<Rightarrow> bytes" where
  "write_all wr xs = concat (map wr xs)"

section \<open>Lemmas\<close>

lemma rassert_Some [simp]: "rassert b = Some u \<longleftrightarrow> b"
  by (simp add: rassert_def)

lemma rassert_True [simp]: "rassert True = Some ()"
  by (simp add: rassert_def)

lemma index_Some: "index xs i = Some v \<longleftrightarrow> i < length xs \<and> v = xs ! i"
  by (auto simp: index_def)

lemma index_less [simp]: "i < length xs \<Longrightarrow> index xs i = Some (xs ! i)"
  by (simp add: index_def)

lemma set_index_less [simp]: "i < length xs \<Longrightarrow> set_index xs i v = Some (xs[i := v])"
  by (simp add: set_index_def)

lemma slice_length: "slice xs a b = Some ys \<Longrightarrow> length ys = b - a"
  by (auto simp: slice_def split: if_splits)

lemma copy_into_length: "copy_into buf pos ys = Some buf' \<Longrightarrow> length buf' = length buf"
  by (auto simp: copy_into_def split: if_splits)

lemma checked_add_Some:
  "checked_add a b = Some c \<longleftrightarrow> c = a + b \<and> unat a + unat (b :: 'w::len word) < 2 ^ LENGTH('w)"
  by (auto simp: checked_add_def)

lemma checked_add_unat: "checked_add a b = Some c \<Longrightarrow> unat c = unat a + unat b"
  by (auto simp: checked_add_def unat_word_ariths split: if_splits)

lemma checked_sub_Some: "checked_sub a b = Some c \<longleftrightarrow> c = a - b \<and> b \<le> a"
  by (auto simp: checked_sub_def)

lemma checked_sub_unat: "checked_sub a b = Some c \<Longrightarrow> unat c = unat a - unat b"
  by (auto simp: checked_sub_def unat_sub split: if_splits)

lemma le_bytes_length [simp]: "length (le_bytes n v) = n"
  by (induction n arbitrary: v) simp_all

lemma le_val_le_bytes: "le_val (le_bytes n v) = v mod 256 ^ n"
proof (induction n arbitrary: v)
  case 0
  then show ?case by simp
next
  case (Suc n)
  have "le_val (le_bytes (Suc n) v) = v mod 256 + 256 * (v div 256 mod 256 ^ n)"
    by (simp add: Suc unat_of_nat)
  also have "\<dots> = v mod 256 ^ Suc n"
    by (simp add: mod_mult2_eq)
  finally show ?case .
qed

lemma unat_u8 [simp]: "unat (b :: u8) < 256"
  using unsigned_less [of b, where ?'a = nat] by simp

lemma le_val_bound: "le_val bs < 256 ^ length bs"
proof (induction bs)
  case Nil
  then show ?case by simp
next
  case (Cons b bs)
  have "unat b + 256 * le_val bs < 256 * 256 ^ length bs"
    using Cons.IH unat_u8 [of b] by linarith
  then show ?case by simp
qed

lemma le_bytes_le_val: "le_bytes (length bs) (le_val bs) = bs"
proof (induction bs)
  case Nil
  then show ?case by simp
next
  case (Cons b bs)
  have "unat b < 256" by (rule unat_u8)
  then have d: "le_val (b # bs) div 256 = le_val bs" by simp
  have "(256 :: u8) = 0" by simp
  then have "of_nat (256 * le_val bs) = (0 :: u8)"
    by (metis mult_zero_left of_nat_mult of_nat_numeral)
  then have w: "word_of_nat (le_val (b # bs)) = b" by simp
  from Cons d w show ?case by simp
qed

lemma unat_eq_256: "LENGTH('w::len) = 8 * n \<Longrightarrow> unat (w :: 'w word) < 256 ^ n"
  using unsigned_less [of w, where ?'a = nat] by (simp add: power_mult)

lemma read_exact_append [codec_simps]: "length a = n \<Longrightarrow> read_exact n (a @ rest) = Some (a, rest)"
  by (simp add: read_exact_def)

lemma read_word_append:
  assumes "LENGTH('w::len) = 8 * n"
  shows "read_word n (le_bytes n (unat (w :: 'w word)) @ rest) = Some (w, rest)"
proof -
  have "unat w mod 256 ^ n = unat w"
    using unat_eq_256 [OF assms, of w] by simp
  then show ?thesis
    by (simp add: read_word_def read_exact_append le_val_le_bytes)
qed

end
