(* ===== verification/Codec.thy ===== *)
theory Codec
  imports Rust_Base
begin

text \<open>
  Byte codecs. The locale \<open>codec\<close> is the contract every \<^verbatim>\<open>write\<close>/\<^verbatim>\<open>read\<close> pair of the wire and disk
  formats has to keep: a reader run on what the writer produced returns the value and leaves the
  rest of the stream. \<open>exact_codec\<close> adds the converse: whatever the reader accepts is the one
  encoding of the value it returns, so an encoding cannot be altered without changing the value.
  The leaf codecs are the integers and fixed-size arrays of \<^verbatim>\<open>tenderlink/src/helpers.rs\<close> and the
  combinators of \<^verbatim>\<open>librustzcash/components/zcash_encoding/src/lib.rs\<close>. An I/O error is \<open>None\<close>; the
  error's kind and message are not kept.
\<close>

section \<open>Definitions\<close>

text \<open>\<^verbatim>\<open>SliceRead for u8\<close>; the wider integers are \<open>read_word\<close>.\<close>

definition read_u8 :: "u8 reader" where
  "read_u8 buf = (case buf of [] \<Rightarrow> None | b # rest \<Rightarrow> Some (b, rest))"

definition read_u16 :: "u16 reader" where "read_u16 = read_word 2"
definition read_u32 :: "u32 reader" where "read_u32 = read_word 4"
definition read_u64 :: "u64 reader" where "read_u64 = read_word 8"

subsection \<open>\<^verbatim>\<open>CompactSize\<close>, \<^verbatim>\<open>Vector\<close> and \<^verbatim>\<open>Optional\<close>\<close>

definition MAX_COMPACT_SIZE :: nat where
  "MAX_COMPACT_SIZE = 33554432"

definition compact_size_read :: "nat reader" where
  "compact_size_read buf = do {
     (flag, buf) \<leftarrow> read_u8 buf;
     (result, buf) \<leftarrow>
       (if flag < 253 then Some (unat flag, buf)
        else if flag = 253 then do {
          (n, buf) \<leftarrow> read_u16 buf;
          if n < 253 then None else Some (unat n, buf) }
        else if flag = 254 then do {
          (n, buf) \<leftarrow> read_u32 buf;
          if n < 65536 then None else Some (unat n, buf) }
        else do {
          (n, buf) \<leftarrow> read_u64 buf;
          if n < 4294967296 then None else Some (unat n, buf) });
     if result > MAX_COMPACT_SIZE then None else Some (result, buf) }"

definition compact_size_write :: "nat \<Rightarrow> bytes" where
  "compact_size_write s =
     (if s < 253 then [word_of_nat s]
      else if s \<le> 65535 then 253 # le_bytes 2 s
      else if s \<le> 4294967295 then 254 # le_bytes 4 s
      else 255 # le_bytes 8 s)"

definition compact_serialized_size :: "nat \<Rightarrow> nat" where
  "compact_serialized_size s =
     (if s < 253 then 1 else if s \<le> 65535 then 3 else if s \<le> 4294967295 then 5 else 9)"

definition vector_read :: "'a reader \<Rightarrow> 'a list reader" where
  "vector_read rd buf = do { (count, buf) \<leftarrow> compact_size_read buf; read_n count rd buf }"

definition vector_write :: "('a \<Rightarrow> bytes) \<Rightarrow> 'a list \<Rightarrow> bytes" where
  "vector_write wr xs = compact_size_write (length xs) @ write_all wr xs"

definition optional_read :: "'a reader \<Rightarrow> 'a option reader" where
  "optional_read rd buf = do {
     (flag, buf) \<leftarrow> read_u8 buf;
     if flag = 0 then Some (None, buf)
     else if flag = 1 then do { (x, buf) \<leftarrow> rd buf; Some (Some x, buf) }
     else None }"

definition optional_write :: "('a \<Rightarrow> bytes) \<Rightarrow> 'a option \<Rightarrow> bytes" where
  "optional_write wr v = (case v of None \<Rightarrow> [0] | Some x \<Rightarrow> 1 # wr x)"

section \<open>The contract\<close>

locale codec =
  fixes enc :: "'a \<Rightarrow> bytes"
    and dec :: "'a reader"
    and ok :: "'a \<Rightarrow> bool"
  assumes dec_enc: "ok a \<Longrightarrow> dec (enc a @ rest) = Some (a, rest)"
begin

lemma dec_enc_all: "ok a \<Longrightarrow> dec (enc a) = Some (a, [])"
  using dec_enc [of a "[]"] by simp

lemma enc_prefix_free: "ok a \<Longrightarrow> ok b \<Longrightarrow> enc a @ x = enc b @ y \<Longrightarrow> a = b \<and> x = y"
  by (metis dec_enc option.inject prod.inject)

lemma enc_inject: "ok a \<Longrightarrow> ok b \<Longrightarrow> enc a = enc b \<Longrightarrow> a = b"
  using enc_prefix_free [of a b "[]" "[]"] by simp

lemma read_n_write_all:
  "list_all ok xs \<Longrightarrow> read_n (length xs) dec (write_all enc xs @ rest) = Some (xs, rest)"
  by (induction xs) (simp_all add: write_all_def dec_enc)

lemma optional_dec_enc:
  "pred_option ok v \<Longrightarrow> optional_read dec (optional_write enc v @ rest) = Some (v, rest)"
  by (cases v) (simp_all add: optional_read_def optional_write_def read_u8_def dec_enc)

end

locale exact_codec = codec +
  assumes enc_dec: "dec buf = Some (a, rest) \<Longrightarrow> buf = enc a @ rest \<and> ok a"
begin

lemma dec_ok: "dec buf = Some (a, rest) \<Longrightarrow> ok a"
  using enc_dec by blast

lemma dec_not_malleable: "dec x = Some (a, rest) \<Longrightarrow> dec y = Some (a, rest) \<Longrightarrow> x = y"
  using enc_dec by metis

lemma dec_iff: "dec buf = Some (a, rest) \<longleftrightarrow> ok a \<and> buf = enc a @ rest"
  using dec_enc enc_dec by blast

lemma read_n_exact:
  "read_n n dec buf = Some (xs, rest) \<Longrightarrow>
     buf = write_all enc xs @ rest \<and> length xs = n \<and> list_all ok xs"
proof (induction n arbitrary: buf xs)
  case 0
  then show ?case by (simp add: write_all_def)
next
  case (Suc n)
  from Suc.prems obtain x buf' xs' where
    "dec buf = Some (x, buf')" "read_n n dec buf' = Some (xs', rest)" "xs = x # xs'"
    by (auto simp: bind_eq_Some_conv)
  with Suc.IH enc_dec show ?case by (fastforce simp: write_all_def)
qed

lemma optional_enc_dec:
  "optional_read dec buf = Some (v, rest) \<Longrightarrow> buf = optional_write enc v @ rest"
  by (auto simp: optional_read_def optional_write_def read_u8_def bind_eq_Some_conv
      split: list.splits if_splits dest!: enc_dec)

end

section \<open>The leaf codecs\<close>

lemma read_exact_dec: "read_exact n buf = Some (a, rest) \<Longrightarrow> buf = a @ rest \<and> length a = n"
  by (auto simp: read_exact_def split: if_splits)

lemma read_word_dec:
  assumes "LENGTH('w::len) = 8 * n" and "read_word n buf = Some (w :: 'w word, rest)"
  shows "buf = le_bytes n (unat w) @ rest"
proof -
  from assms(2) obtain b where b: "buf = b @ rest" "length b = n" "w = word_of_nat (le_val b)"
    by (auto simp: read_word_def bind_eq_Some_conv dest!: read_exact_dec)
  have "le_val b < 2 ^ LENGTH('w)"
    using le_val_bound [of b] b(2) assms(1) by (simp add: power_mult)
  then have "unat w = le_val b"
    using b(3) by (simp add: unat_of_nat)
  with b show ?thesis
    using le_bytes_le_val [of b] by simp
qed

interpretation u8c: exact_codec "\<lambda>w. [w]" read_u8 "\<lambda>_. True"
  by unfold_locales (auto simp: read_u8_def split: list.splits)

interpretation u16c: exact_codec u16_le read_u16 "\<lambda>_. True"
  by unfold_locales (auto simp: read_u16_def read_word_append dest: read_word_dec [rotated])

interpretation u32c: exact_codec u32_le read_u32 "\<lambda>_. True"
  by unfold_locales (auto simp: read_u32_def read_word_append dest: read_word_dec [rotated])

interpretation u64c: exact_codec u64_le read_u64 "\<lambda>_. True"
  by unfold_locales (auto simp: read_u64_def read_word_append dest: read_word_dec [rotated])

text \<open>\<^verbatim>\<open>[u8; N]\<close>: the reader takes exactly \<open>N\<close> bytes.\<close>

interpretation arrc: exact_codec "\<lambda>a. a" "read_exact n" "\<lambda>a. length a = n" for n
  by unfold_locales (auto simp: read_exact_append dest: read_exact_dec)

lemmas leaf_dec_enc [codec_simps] =
  u8c.dec_enc u16c.dec_enc u32c.dec_enc u64c.dec_enc

lemmas leaf_dec_iff [codec_iff] =
  u8c.dec_iff u16c.dec_iff u32c.dec_iff u64c.dec_iff arrc.dec_iff

lemma read_u8_Cons [codec_simps]: "read_u8 (b # rest) = Some (b, rest)"
  by (simp add: read_u8_def)

section \<open>\<^verbatim>\<open>CompactSize\<close> and \<^verbatim>\<open>Vector\<close>\<close>

lemma read_le_bytes_u16: "v < 65536 \<Longrightarrow> read_u16 (le_bytes 2 v @ rest) = Some (word_of_nat v, rest)"
  using u16c.dec_enc [of "word_of_nat v" rest] by (simp add: unat_of_nat)

lemma read_le_bytes_u32:
  "v < 4294967296 \<Longrightarrow> read_u32 (le_bytes 4 v @ rest) = Some (word_of_nat v, rest)"
  using u32c.dec_enc [of "word_of_nat v" rest] by (simp add: unat_of_nat)

lemma compact_size_dec_enc:
  assumes "s \<le> MAX_COMPACT_SIZE"
  shows "compact_size_read (compact_size_write s @ rest) = Some (s, rest)"
proof -
  consider (one) "s < 253" | (three) "253 \<le> s" "s \<le> 65535" | (five) "65535 < s"
    by linarith
  then show ?thesis
  proof cases
    case one
    then show ?thesis
      using assms by (simp add: compact_size_read_def compact_size_write_def codec_simps
          unat_of_nat word_less_nat_alt)
  next
    case three
    then show ?thesis
      using assms by (simp add: compact_size_read_def compact_size_write_def codec_simps
          read_le_bytes_u16 unat_of_nat word_less_nat_alt)
  next
    case five
    then show ?thesis
      using assms by (simp add: compact_size_read_def compact_size_write_def codec_simps
          read_le_bytes_u32 unat_of_nat word_less_nat_alt MAX_COMPACT_SIZE_def)
  qed
qed

lemma compact_size_enc_dec:
  assumes "compact_size_read buf = Some (s, rest)"
  shows "buf = compact_size_write s @ rest \<and> s \<le> MAX_COMPACT_SIZE"
proof -
  from assms obtain flag b1 where f: "read_u8 buf = Some (flag, b1)" and le: "s \<le> MAX_COMPACT_SIZE"
    by (auto simp: compact_size_read_def bind_eq_Some_conv split: if_splits)
  from f have buf: "buf = flag # b1" by (auto dest: u8c.enc_dec)
  have "flag < 253 \<or> flag = 253 \<or> flag = 254 \<or> flag = 255"
    unfolding word_less_nat_alt word_unat_eq_iff
    using unat_u8 [of flag] by (simp del: unat_u8) linarith
  then consider (one) "flag < 253" | (two) "flag = 253" | (three) "flag = 254" | (four) "flag = 255"
    by blast
  then show ?thesis
  proof cases
    case one
    with assms f have "s = unat flag" "rest = b1"
      by (auto simp: compact_size_read_def split: if_splits)
    with one buf le show ?thesis
      by (simp add: compact_size_write_def word_less_nat_alt)
  next
    case two
    with assms f obtain n where n: "read_u16 b1 = Some (n, rest)" "\<not> n < 253" "s = unat n"
      by (auto simp: compact_size_read_def bind_eq_Some_conv split: if_splits)
    have "unat n \<le> 65535" using unsigned_less [of n, where ?'a = nat] by simp
    with n two buf le show ?thesis
      by (auto simp: compact_size_write_def word_less_nat_alt dest: u16c.enc_dec)
  next
    case three
    with assms f obtain n where n: "read_u32 b1 = Some (n, rest)" "\<not> n < 65536" "s = unat n"
      by (auto simp: compact_size_read_def bind_eq_Some_conv split: if_splits)
    have "unat n \<le> 4294967295" using unsigned_less [of n, where ?'a = nat] by simp
    with n three buf le show ?thesis
      by (auto simp: compact_size_write_def word_less_nat_alt dest: u32c.enc_dec)
  next
    case four
    with assms f obtain n where n: "\<not> n < (4294967296 :: u64)" "s = unat n"
      by (auto simp: compact_size_read_def bind_eq_Some_conv split: if_splits)
    with le show ?thesis by (simp add: word_less_nat_alt MAX_COMPACT_SIZE_def)
  qed
qed

interpretation csc: exact_codec compact_size_write compact_size_read "\<lambda>s. s \<le> MAX_COMPACT_SIZE"
  by unfold_locales (auto simp: compact_size_dec_enc dest: compact_size_enc_dec)

lemma compact_size_write_length: "length (compact_size_write s) = compact_serialized_size s"
  by (simp add: compact_size_write_def compact_serialized_size_def)

context codec
begin

lemma vector_dec_enc:
  "list_all ok xs \<Longrightarrow> length xs \<le> MAX_COMPACT_SIZE \<Longrightarrow>
     vector_read dec (vector_write enc xs @ rest) = Some (xs, rest)"
  by (simp add: vector_read_def vector_write_def csc.dec_enc read_n_write_all)

end

context exact_codec
begin

lemma vector_enc_dec:
  "vector_read dec buf = Some (xs, rest) \<Longrightarrow>
     buf = vector_write enc xs @ rest \<and> list_all ok xs \<and> length xs \<le> MAX_COMPACT_SIZE"
  by (auto simp: vector_read_def vector_write_def bind_eq_Some_conv
      dest!: csc.enc_dec read_n_exact)

end

end
