(* ===== verification/Bft_Types.thy ===== *)
theory Bft_Types
  imports Codec
begin

text \<open>
  The Crosslink data structures of \<^verbatim>\<open>librustzcash/zcash_primitives/src/bft.rs\<close> (votes, vote signatures,
  fat pointers, BFT blocks) and the proof-of-work block header that carries a fat pointer, of
  \<^verbatim>\<open>librustzcash/zcash_primitives/src/block.rs\<close>. The keyed BLAKE3 hash, SHA-256 and the Ed25519 batch
  verifier are not code of the repository: they are arguments of the definitions that call them.
\<close>

section \<open>Votes\<close>

record Vote =
  validator_address :: bytes
  vote_value :: bytes
  vote_height :: u64
  vote_typ :: bool
  vote_round :: u32

definition Vote_to_bytes :: "Vote \<Rightarrow> bytes" where
  "Vote_to_bytes v =
     (let merged_round_val = vote_round v AND 0x7fffffff;
          merged_round_val = (if vote_typ v then merged_round_val OR 0x80000000 else merged_round_val)
      in validator_address v @ vote_value v @ u64_le (vote_height v) @ u32_le merged_round_val)"

definition Vote_from_bytes :: "bytes \<Rightarrow> Vote rust" where
  "Vote_from_bytes b = do {
     value_hash_bytes \<leftarrow> slice b 32 64;
     h \<leftarrow> slice b 64 72;
     m \<leftarrow> slice b 72 76;
     let merged_round_val = (word_of_nat (le_val m) :: u32);
     addr \<leftarrow> slice b 0 32;
     Some \<lparr>validator_address = addr, vote_value = value_hash_bytes,
           vote_height = word_of_nat (le_val h),
           vote_typ = (merged_round_val AND 0x80000000 \<noteq> 0),
           vote_round = merged_round_val AND 0x7fffffff\<rparr> }"

text \<open>The array lengths of the struct, and a round that fits in the 31 bits the layout gives it.\<close>

definition Vote_ok :: "Vote \<Rightarrow> bool" where
  "Vote_ok v \<longleftrightarrow> length (validator_address v) = 32 \<and> length (vote_value v) = 32 \<and>
     vote_round v AND 0x80000000 = 0"

section \<open>Fat pointers\<close>

record FatPointerSignature =
  fps_pub_key :: bytes
  vote_signature :: bytes

definition FatPointerSignature_to_bytes :: "FatPointerSignature \<Rightarrow> bytes" where
  "FatPointerSignature_to_bytes s = fps_pub_key s @ vote_signature s"

definition FatPointerSignature_from_bytes :: "bytes \<Rightarrow> FatPointerSignature rust" where
  "FatPointerSignature_from_bytes b = do {
     pk \<leftarrow> slice b 0 32;
     sig \<leftarrow> slice b 32 96;
     Some \<lparr>fps_pub_key = pk, vote_signature = sig\<rparr> }"

definition FatPointerSignature_ok :: "FatPointerSignature \<Rightarrow> bool" where
  "FatPointerSignature_ok s \<longleftrightarrow> length (fps_pub_key s) = 32 \<and> length (vote_signature s) = 64"

record FatPointerToBftBlock =
  vote_for_block :: bytes
  fp_signatures :: "FatPointerSignature list"

definition FatPointer_to_bytes :: "FatPointerToBftBlock \<Rightarrow> bytes" where
  "FatPointer_to_bytes p =
     vote_for_block p @ u16_le (word_of_nat (length (fp_signatures p))) @
     write_all FatPointerSignature_to_bytes (fp_signatures p)"

text \<open>\<^verbatim>\<open>chunks_exact(n)\<close>: whole chunks only, a shorter tail is dropped.\<close>

fun chunks_exact :: "nat \<Rightarrow> 'a list \<Rightarrow> 'a list list" where
  "chunks_exact n xs =
     (if n = 0 \<or> length xs < n then [] else take n xs # chunks_exact n (drop n xs))"

declare chunks_exact.simps [simp del]

primrec rust_map :: "('a \<Rightarrow> 'b rust) \<Rightarrow> 'a list \<Rightarrow> 'b list rust" where
  "rust_map f [] = Some []"
| "rust_map f (x # xs) = do { y \<leftarrow> f x; ys \<leftarrow> rust_map f xs; Some (y # ys) }"

text \<open>\<open>Some None\<close> is the value \<^verbatim>\<open>None\<close> of the Rust function, \<open>None\<close> its panic.\<close>

definition FatPointer_try_from_bytes :: "bytes \<Rightarrow> FatPointerToBftBlock option rust" where
  "FatPointer_try_from_bytes b =
     (if length b < 76 - 32 + 2 then Some None
      else do {
        vote \<leftarrow> slice b 0 (76 - 32);
        l \<leftarrow> slice b (76 - 32) 2;
        let len = le_val l;
        if 76 - 32 + 2 + len * (32 + 64) > length b then Some None
        else do {
          rem \<leftarrow> slice b (76 - 32 + 2) (length b);
          sigs \<leftarrow> rust_map FatPointerSignature_from_bytes (chunks_exact (32 + 64) rem);
          Some (Some \<lparr>vote_for_block = vote, fp_signatures = sigs\<rparr>) } })"

definition FatPointer_from_parts ::
  "bytes \<Rightarrow> u64 \<Rightarrow> u32 \<Rightarrow> FatPointerSignature list \<Rightarrow> FatPointerToBftBlock" where
  "FatPointer_from_parts bft_block_hash height round signatures =
     \<lparr>vote_for_block = bft_block_hash @ u64_le height @ u32_le (round OR 0x80000000),
      fp_signatures = signatures\<rparr>"

definition FatPointer_null :: FatPointerToBftBlock where
  "FatPointer_null = \<lparr>vote_for_block = replicate 44 0, fp_signatures = []\<rparr>"

definition get_vote_template :: "FatPointerToBftBlock \<Rightarrow> Vote rust" where
  "get_vote_template p = do {
     vote_bytes \<leftarrow> copy_into (replicate 76 0) 32 (vote_for_block p);
     Vote_from_bytes vote_bytes }"

definition inflate :: "FatPointerToBftBlock \<Rightarrow> (Vote \<times> bytes) list rust" where
  "inflate p = do {
     vote_template \<leftarrow> get_vote_template p;
     Some (map (\<lambda>s. (vote_template\<lparr>validator_address := fps_pub_key s\<rparr>, vote_signature s))
             (fp_signatures p)) }"

definition validate_signatures ::
  "((bytes \<times> bytes \<times> bytes) list \<Rightarrow> bool) \<Rightarrow> FatPointerToBftBlock \<Rightarrow> bool rust" where
  "validate_signatures batch_verify p = do {
     votes \<leftarrow> inflate p;
     Some (batch_verify (map (\<lambda>(v, sig). (validator_address v, sig, Vote_to_bytes v)) votes)) }"

definition points_at_block_hash :: "FatPointerToBftBlock \<Rightarrow> bytes rust" where
  "points_at_block_hash p = slice (vote_for_block p) 0 32"

definition FatPointer_zcash_serialize :: "FatPointerToBftBlock \<Rightarrow> bytes" where
  "FatPointer_zcash_serialize p =
     vote_for_block p @ u16_le (word_of_nat (length (fp_signatures p))) @
     write_all FatPointerSignature_to_bytes (fp_signatures p)"

definition read_FatPointerSignature :: "FatPointerSignature reader" where
  "read_FatPointerSignature buf = do {
     (signature_bytes, buf) \<leftarrow> read_exact (32 + 64) buf;
     s \<leftarrow> FatPointerSignature_from_bytes signature_bytes;
     Some (s, buf) }"

definition FatPointer_zcash_deserialize :: "FatPointerToBftBlock reader" where
  "FatPointer_zcash_deserialize buf = do {
     (vote, buf) \<leftarrow> read_exact (76 - 32) buf;
     (len, buf) \<leftarrow> read_u16 buf;
     (signatures, buf) \<leftarrow> read_n (unat len) read_FatPointerSignature buf;
     Some (\<lparr>vote_for_block = vote, fp_signatures = signatures\<rparr>, buf) }"

definition FatPointer_ok :: "FatPointerToBftBlock \<Rightarrow> bool" where
  "FatPointer_ok p \<longleftrightarrow> length (vote_for_block p) = 44 \<and> length (fp_signatures p) < 65536 \<and>
     list_all FatPointerSignature_ok (fp_signatures p)"

section \<open>Proof-of-work block headers\<close>

record BlockHeaderData =
  hdr_version :: u32
  prev_block :: bytes
  merkle_root :: bytes
  final_sapling_root :: bytes
  hdr_time :: u32
  hdr_bits :: u32
  nonce :: bytes
  solution :: bytes
  fat_pointer_to_bft_block :: FatPointerToBftBlock

definition write_data :: "BlockHeaderData \<Rightarrow> bytes" where
  "write_data d =
     u32_le (hdr_version d) @ prev_block d @ merkle_root d @ final_sapling_root d @
     u32_le (hdr_time d) @ u32_le (hdr_bits d) @ nonce d @
     vector_write (\<lambda>b. [b]) (solution d) @
     FatPointer_zcash_serialize (fat_pointer_to_bft_block d)"

definition read_data :: "BlockHeaderData reader" where
  "read_data buf = do {
     (version, buf) \<leftarrow> read_u32 buf;
     (prev, buf) \<leftarrow> read_exact 32 buf;
     (root, buf) \<leftarrow> read_exact 32 buf;
     (sapling, buf) \<leftarrow> read_exact 32 buf;
     (time, buf) \<leftarrow> read_u32 buf;
     (bits, buf) \<leftarrow> read_u32 buf;
     (nonce, buf) \<leftarrow> read_exact 32 buf;
     (solution, buf) \<leftarrow> vector_read read_u8 buf;
     (fp, buf) \<leftarrow> FatPointer_zcash_deserialize buf;
     Some (\<lparr>hdr_version = version, prev_block = prev, merkle_root = root,
            final_sapling_root = sapling, hdr_time = time, hdr_bits = bits, nonce = nonce,
            solution = solution, fat_pointer_to_bft_block = fp\<rparr>, buf) }"

definition BlockHeaderData_ok :: "BlockHeaderData \<Rightarrow> bool" where
  "BlockHeaderData_ok d \<longleftrightarrow> length (prev_block d) = 32 \<and> length (merkle_root d) = 32 \<and>
     length (final_sapling_root d) = 32 \<and> length (nonce d) = 32 \<and>
     length (solution d) \<le> MAX_COMPACT_SIZE \<and> FatPointer_ok (fat_pointer_to_bft_block d)"

text \<open>The header hash: SHA-256 twice over the serialized header.\<close>

definition from_header_data :: "(bytes \<Rightarrow> bytes) \<Rightarrow> BlockHeaderData \<Rightarrow> bytes" where
  "from_header_data sha256 d = sha256 (sha256 (write_data d))"

section \<open>BFT blocks\<close>

record BftBlock =
  bb_version :: u32
  bb_height :: u32
  previous_block_fat_ptr :: FatPointerToBftBlock
  finalization_candidate_height :: u32
  bb_headers :: "BlockHeaderData list"

definition BftBlock_zcash_serialize :: "BftBlock \<Rightarrow> bytes rust" where
  "BftBlock_zcash_serialize b =
     (if length (bb_headers b) < 2 ^ 32
      then Some (u32_le (bb_version b) @ u32_le (bb_height b) @
        FatPointer_zcash_serialize (previous_block_fat_ptr b) @
        u32_le (finalization_candidate_height b) @ u32_le (word_of_nat (length (bb_headers b))) @
        write_all write_data (bb_headers b))
      else None)"

definition BftBlock_zcash_deserialize :: "BftBlock reader" where
  "BftBlock_zcash_deserialize buf = do {
     (version, buf) \<leftarrow> read_u32 buf;
     (height, buf) \<leftarrow> read_u32 buf;
     (fp, buf) \<leftarrow> FatPointer_zcash_deserialize buf;
     (cand, buf) \<leftarrow> read_u32 buf;
     (header_count, buf) \<leftarrow> read_u32 buf;
     if header_count > 2048 then None
     else do {
       (array, buf) \<leftarrow> read_n (unat header_count) read_data buf;
       Some (\<lparr>bb_version = version, bb_height = height, previous_block_fat_ptr = fp,
              finalization_candidate_height = cand, bb_headers = array\<rparr>, buf) } }"

definition BftBlock_ok :: "BftBlock \<Rightarrow> bool" where
  "BftBlock_ok b \<longleftrightarrow> FatPointer_ok (previous_block_fat_ptr b) \<and>
     length (bb_headers b) \<le> 2048 \<and> list_all BlockHeaderData_ok (bb_headers b)"

definition finalization_candidate :: "BftBlock \<Rightarrow> BlockHeaderData rust" where
  "finalization_candidate b = (case bb_headers b of [] \<Rightarrow> None | h # _ \<Rightarrow> Some h)"

record ZcashCrosslinkParameters =
  bc_confirmation_depth_sigma :: u64
  finalization_gap_bound :: u64

definition PROTOTYPE_PARAMETERS :: ZcashCrosslinkParameters where
  "PROTOTYPE_PARAMETERS = \<lparr>bc_confirmation_depth_sigma = 3, finalization_gap_bound = 7\<rparr>"

datatype InvalidBftBlock = IncorrectConfirmationDepth u64 u64

definition BftBlock_try_from ::
  "ZcashCrosslinkParameters \<Rightarrow> u32 \<Rightarrow> FatPointerToBftBlock \<Rightarrow> u32 \<Rightarrow> BlockHeaderData list \<Rightarrow>
   InvalidBftBlock + BftBlock" where
  "BftBlock_try_from params height fp cand headers =
     (let expected = bc_confirmation_depth_sigma params;
          actual = word_of_nat (length headers)
      in if actual \<noteq> expected then Inl (IncorrectConfirmationDepth expected actual)
         else Inr \<lparr>bb_version = 1, bb_height = height, previous_block_fat_ptr = fp,
                   finalization_candidate_height = cand, bb_headers = headers\<rparr>)"

text \<open>\<open>hash_value_id\<close> is BLAKE3 keyed with \<^verbatim>\<open>HashKeys::default().value_id\<close>.\<close>

definition blake3_hash :: "(bytes \<Rightarrow> bytes) \<Rightarrow> BftBlock \<Rightarrow> bytes rust" where
  "blake3_hash hash_value_id b = map_option hash_value_id (BftBlock_zcash_serialize b)"

definition previous_block_hash :: "BftBlock \<Rightarrow> bytes rust" where
  "previous_block_hash b = points_at_block_hash (previous_block_fat_ptr b)"

record BftBlockAndFatPointerToIt =
  bf_block :: BftBlock
  bf_fat_ptr :: FatPointerToBftBlock

definition BftBlockAndFatPointerToIt_zcash_serialize :: "BftBlockAndFatPointerToIt \<Rightarrow> bytes rust" where
  "BftBlockAndFatPointerToIt_zcash_serialize x = do {
     b \<leftarrow> BftBlock_zcash_serialize (bf_block x);
     Some (b @ FatPointer_zcash_serialize (bf_fat_ptr x)) }"

definition BftBlockAndFatPointerToIt_zcash_deserialize :: "BftBlockAndFatPointerToIt reader" where
  "BftBlockAndFatPointerToIt_zcash_deserialize buf = do {
     (b, buf) \<leftarrow> BftBlock_zcash_deserialize buf;
     (fp, buf) \<leftarrow> FatPointer_zcash_deserialize buf;
     Some (\<lparr>bf_block = b, bf_fat_ptr = fp\<rparr>, buf) }"

definition BftBlockAndFatPointerToIt_from_parts ::
  "(bytes \<Rightarrow> bytes) \<Rightarrow> BftBlock \<Rightarrow> u64 \<Rightarrow> u32 \<Rightarrow> FatPointerSignature list \<Rightarrow>
   BftBlockAndFatPointerToIt rust" where
  "BftBlockAndFatPointerToIt_from_parts hash_value_id block height round signatures = do {
     hash \<leftarrow> blake3_hash hash_value_id block;
     Some \<lparr>bf_block = block, bf_fat_ptr = FatPointer_from_parts hash height round signatures\<rparr> }"

section \<open>Votes and vote signatures: encoding\<close>

lemma slice_append [simp]:
  "length a = i \<Longrightarrow> j = i + length b \<Longrightarrow> slice (a @ b @ c) i j = Some b"
  by (simp add: slice_def)

lemma slice_all: "length b = n \<Longrightarrow> slice b 0 n = Some b"
  by (simp add: slice_def)

lemma slice_prefix: "length a = n \<Longrightarrow> slice (a @ b) 0 n = Some a"
  by (simp add: slice_def)

lemma bit_0x80000000: "bit (0x80000000 :: u32) n \<longleftrightarrow> n = 31"
proof -
  have "(0x80000000 :: u32) = push_bit 31 1" by simp
  then show ?thesis by (simp only: bit_push_bit_iff bit_1_iff) auto
qed

lemma bit_0x7fffffff: "bit (0x7fffffff :: u32) n \<longleftrightarrow> n < 31"
proof -
  have "(0x7fffffff :: u32) = mask 31" by (simp add: mask_eq_exp_minus_1)
  then show ?thesis by (simp only: bit_mask_iff) auto
qed

lemmas round_bits = bit_0x80000000 bit_0x7fffffff bit_and_iff bit_or_iff

declare bit_numeral_word_iff [simp del]

lemma and_0x80000000_eq_0: "r AND 0x80000000 = (0 :: u32) \<longleftrightarrow> \<not> bit r 31"
proof
  assume "r AND 0x80000000 = 0"
  then have "\<not> bit (r AND 0x80000000) 31" by simp
  then show "\<not> bit r 31" by (simp add: round_bits)
qed (auto intro!: bit_word_eqI simp: round_bits)

lemma merged_commit [simp]:
  "((r AND 0x7fffffff) OR 0x80000000) AND 0x7fffffff = r AND (0x7fffffff :: u32)"
  "((r AND 0x7fffffff) OR 0x80000000) AND 0x80000000 = (0x80000000 :: u32)"
  "(r AND 0x7fffffff) AND 0x80000000 = (0 :: u32)"
  "(r AND 0x7fffffff) AND 0x7fffffff = r AND (0x7fffffff :: u32)"
  "(r OR 0x80000000) AND 0x7fffffff = r AND (0x7fffffff :: u32)"
  "(r OR 0x80000000) AND 0x80000000 = (0x80000000 :: u32)"
  by (auto intro!: bit_word_eqI simp: round_bits)

lemma round_ok_and: "r AND 0x80000000 = 0 \<Longrightarrow> r AND 0x7fffffff = (r :: u32)"
  by (rule bit_word_eqI) (auto simp: and_0x80000000_eq_0 round_bits less_Suc_eq numeral_eq_Suc)

lemma merged_split:
  "(if m AND 0x80000000 \<noteq> 0 then (m AND 0x7fffffff AND 0x7fffffff) OR 0x80000000
    else m AND 0x7fffffff AND 0x7fffffff) = (m :: u32)"
  by (rule bit_word_eqI)
    (auto simp: and_0x80000000_eq_0 round_bits less_Suc_eq numeral_eq_Suc)

lemma Vote_to_bytes_length: "Vote_ok v \<Longrightarrow> length (Vote_to_bytes v) = 76"
  by (simp add: Vote_ok_def Vote_to_bytes_def Let_def)

lemma word_of_nat_le_val_le_bytes [simp]:
  "word_of_nat (le_val (u64_le h)) = h" "word_of_nat (le_val (u32_le r)) = r"
  using unat_eq_256 [of 8 h] unat_eq_256 [of 4 r] by (simp_all add: le_val_le_bytes)

lemma slices_76:
  assumes "length a = 32" "length b = 32" "length c = 8" "length d = 4"
  shows "slice (a @ b @ c @ d) 0 32 = Some a" "slice (a @ b @ c @ d) 32 64 = Some b"
    "slice (a @ b @ c @ d) 64 72 = Some c" "slice (a @ b @ c @ d) 72 76 = Some d"
  using assms by (simp_all add: slice_def)

lemma bytes_76:
  assumes "length x = 76"
  obtains a b c d where "x = a @ b @ c @ d" "length a = 32" "length b = 32" "length c = 8"
    "length d = 4"
proof
  show "x = take 32 x @ take 32 (drop 32 x) @ take 8 (drop 64 x) @ drop 72 x"
  proof -
    have "drop 32 (drop 32 x) = drop 64 x" "drop 8 (drop 64 x) = drop 72 x" by simp_all
    then show ?thesis by (metis append_take_drop_id)
  qed
qed (use assms in simp_all)

lemma Vote_from_to_bytes: "Vote_ok v \<Longrightarrow> Vote_from_bytes (Vote_to_bytes v) = Some v"
  by (cases v) (simp add: Vote_ok_def Vote_to_bytes_def Vote_from_bytes_def Let_def slices_76
      round_ok_and)

lemma Vote_from_bytes_parts:
  "length a = 32 \<Longrightarrow> length b = 32 \<Longrightarrow> length c = 8 \<Longrightarrow> length d = 4 \<Longrightarrow>
     Vote_from_bytes (a @ b @ c @ d) =
       Some \<lparr>validator_address = a, vote_value = b, vote_height = word_of_nat (le_val c),
             vote_typ = ((word_of_nat (le_val d) :: u32) AND 0x80000000 \<noteq> 0),
             vote_round = word_of_nat (le_val d) AND 0x7fffffff\<rparr>"
  by (simp add: Vote_from_bytes_def slices_76 Let_def)

lemma Vote_to_from_bytes:
  assumes "length x = 76"
  shows "\<exists>v. Vote_from_bytes x = Some v \<and> Vote_ok v \<and> Vote_to_bytes v = x"
proof -
  obtain a b c d where x: "x = a @ b @ c @ d" and l: "length a = 32" "length b = 32"
    "length c = 8" "length d = 4" using bytes_76 [OF assms] .
  have c: "le_bytes 8 (unat (word_of_nat (le_val c) :: u64)) = c"
    using le_bytes_le_val [of c] le_val_bound [of c] l by (simp add: unat_of_nat)
  have d: "le_bytes 4 (unat (word_of_nat (le_val d) :: u32)) = d"
    using le_bytes_le_val [of d] le_val_bound [of d] l by (simp add: unat_of_nat)
  let ?m = "word_of_nat (le_val d) :: u32"
  have "Vote_to_bytes \<lparr>validator_address = a, vote_value = b, vote_height = word_of_nat (le_val c),
      vote_typ = (?m AND 0x80000000 \<noteq> 0), vote_round = ?m AND 0x7fffffff\<rparr> = x"
    using merged_split [of ?m] c d by (auto simp: Vote_to_bytes_def x Let_def split: if_splits)
  with l show ?thesis by (simp add: x Vote_from_bytes_parts Vote_ok_def)
qed

lemma FatPointerSignature_from_to_bytes:
  "FatPointerSignature_ok s \<Longrightarrow>
     FatPointerSignature_from_bytes (FatPointerSignature_to_bytes s) = Some s"
  by (cases s) (simp add: FatPointerSignature_from_bytes_def FatPointerSignature_to_bytes_def
      FatPointerSignature_ok_def slice_def)

lemma FatPointerSignature_to_from_bytes:
  "FatPointerSignature_from_bytes b = Some s \<Longrightarrow> length b = 96 \<Longrightarrow>
     FatPointerSignature_to_bytes s = b \<and> FatPointerSignature_ok s"
  by (auto simp: FatPointerSignature_from_bytes_def FatPointerSignature_to_bytes_def
      FatPointerSignature_ok_def slice_def)

interpretation fpsc: exact_codec FatPointerSignature_to_bytes read_FatPointerSignature
  FatPointerSignature_ok
proof unfold_locales
  fix s rest assume "FatPointerSignature_ok s"
  then show "read_FatPointerSignature (FatPointerSignature_to_bytes s @ rest) = Some (s, rest)"
    using FatPointerSignature_from_to_bytes [of s]
    by (simp add: read_FatPointerSignature_def read_exact_def FatPointerSignature_to_bytes_def
        FatPointerSignature_ok_def)
next
  fix buf s rest assume "read_FatPointerSignature buf = Some (s, rest)"
  then show "buf = FatPointerSignature_to_bytes s @ rest \<and> FatPointerSignature_ok s"
    by (auto simp: read_FatPointerSignature_def bind_eq_Some_conv codec_iff
        dest!: FatPointerSignature_to_from_bytes)
qed

section \<open>Fat pointers, headers and blocks: encoding\<close>

lemma word_of_nat_eq_u16: "n < 65536 \<Longrightarrow> unat (word_of_nat n :: u16) = n"
  by (simp add: unat_of_nat)

interpretation fpc: exact_codec FatPointer_zcash_serialize FatPointer_zcash_deserialize FatPointer_ok
proof unfold_locales
  fix p rest assume "FatPointer_ok p"
  then show "FatPointer_zcash_deserialize (FatPointer_zcash_serialize p @ rest) = Some (p, rest)"
    by (cases p) (simp add: FatPointer_ok_def FatPointer_zcash_deserialize_def codec_simps
        FatPointer_zcash_serialize_def fpsc.read_n_write_all word_of_nat_eq_u16 read_le_bytes_u16)
next
  fix buf p rest assume "FatPointer_zcash_deserialize buf = Some (p, rest)"
  then obtain len v b1 sigs where r: "buf = v @ u16_le len @ b1" "length v = 44"
      "read_n (unat len) read_FatPointerSignature b1 = Some (sigs, rest)"
      "p = \<lparr>vote_for_block = v, fp_signatures = sigs\<rparr>"
    by (auto simp: FatPointer_zcash_deserialize_def bind_eq_Some_conv codec_iff)
  have "unat len < 65536" using unsigned_less [of len, where ?'a = nat] by simp
  with r fpsc.read_n_exact [OF r(3)]
  show "buf = FatPointer_zcash_serialize p @ rest \<and> FatPointer_ok p"
    by (auto simp: FatPointer_zcash_serialize_def FatPointer_ok_def)
qed


interpretation hdrc: exact_codec write_data read_data BlockHeaderData_ok
proof unfold_locales
  fix d rest assume "BlockHeaderData_ok d"
  then show "read_data (write_data d @ rest) = Some (d, rest)"
    by (cases d) (simp add: BlockHeaderData_ok_def read_data_def write_data_def codec_simps
        u8c.vector_dec_enc fpc.dec_enc list_all_iff)
next
  fix buf d rest assume "read_data buf = Some (d, rest)"
  then show "buf = write_data d @ rest \<and> BlockHeaderData_ok d"
    by (auto simp: read_data_def write_data_def BlockHeaderData_ok_def bind_eq_Some_conv codec_iff
        fpc.dec_iff dest!: u8c.vector_enc_dec)
qed

lemma BftBlock_serialize_ok:
  "BftBlock_ok b \<Longrightarrow> \<exists>bs. BftBlock_zcash_serialize b = Some bs"
  by (auto simp: BftBlock_zcash_serialize_def BftBlock_ok_def)

interpretation bbc: exact_codec "\<lambda>b. the (BftBlock_zcash_serialize b)" BftBlock_zcash_deserialize
  BftBlock_ok
proof unfold_locales
  fix b rest assume ok: "BftBlock_ok b"
  then have "\<not> (word_of_nat (length (bb_headers b)) :: u32) > 2048"
    by (simp add: BftBlock_ok_def word_less_nat_alt unat_of_nat)
  with ok show "BftBlock_zcash_deserialize (the (BftBlock_zcash_serialize b) @ rest) = Some (b, rest)"
    by (cases b) (simp add: BftBlock_ok_def BftBlock_zcash_deserialize_def codec_simps
        BftBlock_zcash_serialize_def fpc.dec_enc hdrc.read_n_write_all unat_of_nat read_le_bytes_u32)
next
  fix buf b rest assume "BftBlock_zcash_deserialize buf = Some (b, rest)"
  then obtain ver ht fp cand cnt b1 hs where
    r: "buf = u32_le ver @ u32_le ht @ FatPointer_zcash_serialize fp @ u32_le cand @ u32_le cnt @ b1"
      "FatPointer_ok fp" "\<not> cnt > 2048" and
    hs: "read_n (unat cnt) read_data b1 = Some (hs, rest)" and
    b: "b = \<lparr>bb_version = ver, bb_height = ht, previous_block_fat_ptr = fp,
        finalization_candidate_height = cand, bb_headers = hs\<rparr>"
    by (auto simp: BftBlock_zcash_deserialize_def bind_eq_Some_conv codec_iff fpc.dec_iff
        split: if_splits)
  have "unat cnt \<le> 2048" using r(3) by (simp add: word_less_nat_alt)
  with r(1,2) hdrc.read_n_exact [OF hs]
  show "buf = the (BftBlock_zcash_serialize b) @ rest \<and> BftBlock_ok b"
    by (auto simp: BftBlock_zcash_serialize_def BftBlock_ok_def b)
qed

interpretation bbfc: exact_codec "\<lambda>x. the (BftBlockAndFatPointerToIt_zcash_serialize x)"
  BftBlockAndFatPointerToIt_zcash_deserialize
  "\<lambda>x. BftBlock_ok (bf_block x) \<and> FatPointer_ok (bf_fat_ptr x)"
proof unfold_locales
  fix x :: BftBlockAndFatPointerToIt and rest
  assume "BftBlock_ok (bf_block x) \<and> FatPointer_ok (bf_fat_ptr x)"
  then show "BftBlockAndFatPointerToIt_zcash_deserialize
      (the (BftBlockAndFatPointerToIt_zcash_serialize x) @ rest) = Some (x, rest)"
    using BftBlock_serialize_ok [of "bf_block x"] bbc.dec_enc [of "bf_block x"]
    by (cases x) (auto simp: BftBlockAndFatPointerToIt_zcash_deserialize_def
        BftBlockAndFatPointerToIt_zcash_serialize_def fpc.dec_enc)
next
  fix buf x rest assume "BftBlockAndFatPointerToIt_zcash_deserialize buf = Some (x, rest)"
  then show "buf = the (BftBlockAndFatPointerToIt_zcash_serialize x) @ rest \<and>
      BftBlock_ok (bf_block x) \<and> FatPointer_ok (bf_fat_ptr x)"
    using BftBlock_serialize_ok [of "bf_block x"]
    by (auto simp: BftBlockAndFatPointerToIt_zcash_deserialize_def bbc.dec_iff fpc.dec_iff
        BftBlockAndFatPointerToIt_zcash_serialize_def bind_eq_Some_conv)
qed

section \<open>What a fat pointer attests\<close>

lemma get_vote_template_bytes:
  assumes "length (vote_for_block p) = 44"
  obtains v where "get_vote_template p = Some v" "Vote_ok v"
    "Vote_to_bytes v = replicate 32 0 @ vote_for_block p"
proof -
  have "copy_into (replicate 76 0) 32 (vote_for_block p) = Some (replicate 32 0 @ vote_for_block p)"
    using assms by (simp add: copy_into_def)
  with Vote_to_from_bytes [of "replicate 32 0 @ vote_for_block p"] assms that
  show ?thesis by (auto simp: get_vote_template_def)
qed

lemma Vote_to_bytes_address:
  "Vote_to_bytes v = a @ m \<Longrightarrow> length (validator_address v) = length a \<Longrightarrow>
     Vote_to_bytes (v\<lparr>validator_address := pk\<rparr>) = pk @ m"
  by (auto simp: Vote_to_bytes_def Let_def append_eq_append_conv)

lemma validate_signatures_eq:
  assumes "FatPointer_ok p"
  shows "validate_signatures batch_verify p =
    Some (batch_verify (map (\<lambda>s. (fps_pub_key s, vote_signature s, fps_pub_key s @ vote_for_block p))
                         (fp_signatures p)))"
proof -
  obtain v where v: "get_vote_template p = Some v" "Vote_ok v"
      "Vote_to_bytes v = replicate 32 0 @ vote_for_block p"
    using assms get_vote_template_bytes by (auto simp: FatPointer_ok_def)
  then have "Vote_to_bytes (v\<lparr>validator_address := pk\<rparr>) = pk @ vote_for_block p" for pk
    using Vote_to_bytes_address [OF v(3)] by (simp add: Vote_ok_def)
  then show ?thesis
    by (simp add: validate_signatures_def inflate_def v(1) comp_def)
qed

text \<open>Every vote a fat pointer expands to is, byte for byte, the finalizer's key followed by the
  44 bytes the pointer carries, so the batch verifier checks each signature over exactly those 76
  bytes, and it never panics.\<close>

theorem validate_signatures_message:
  assumes "FatPointer_ok p"
  shows "validate_signatures batch_verify p =
    Some (batch_verify (map (\<lambda>s. (fps_pub_key s, vote_signature s, fps_pub_key s @ vote_for_block p))
                         (fp_signatures p)))"
  by (rule validate_signatures_eq [OF assms])

definition sample_fat_pointer :: FatPointerToBftBlock where
  "sample_fat_pointer = FatPointer_from_parts (replicate 32 7) 5 2
     [\<lparr>fps_pub_key = replicate 32 1, vote_signature = replicate 64 9\<rparr>]"

lemma sample_fat_pointer_ok: "FatPointer_ok sample_fat_pointer"
  by (simp add: sample_fat_pointer_def FatPointer_from_parts_def FatPointer_ok_def
      FatPointerSignature_ok_def)

theorem validate_signatures_message_witness:
  "validate_signatures (\<lambda>l. length l = 1) sample_fat_pointer = Some True"
  unfolding validate_signatures_message [OF sample_fat_pointer_ok]
  by (simp add: sample_fat_pointer_def FatPointer_from_parts_def)

text \<open>The vote layout of 76 bytes is a bijection: encoding a vote whose round fits 31 bits gives
  76 bytes that decode to the same vote, and every string of 76 bytes is the encoding of the vote it
  decodes to.\<close>

theorem vote_layout:
  "(Vote_ok v \<longrightarrow> length (Vote_to_bytes v) = 76 \<and> Vote_from_bytes (Vote_to_bytes v) = Some v) \<and>
   (length x = 76 \<longrightarrow> (\<exists>w. Vote_from_bytes x = Some w \<and> Vote_ok w \<and> Vote_to_bytes w = x))"
  using Vote_to_bytes_length Vote_from_to_bytes Vote_to_from_bytes by blast

definition sample_vote :: Vote where
  "sample_vote = \<lparr>validator_address = replicate 32 1, vote_value = replicate 32 7, vote_height = 5,
     vote_typ = True, vote_round = 2\<rparr>"

theorem vote_layout_witness:
  "Vote_from_bytes (Vote_to_bytes sample_vote) = Some sample_vote \<and>
   (\<exists>w. Vote_from_bytes (replicate 76 1) = Some w \<and> Vote_to_bytes w = replicate 76 1)"
proof -
  have "Vote_ok sample_vote" by (simp add: Vote_ok_def sample_vote_def)
  with vote_layout [of sample_vote "replicate 76 1"] show ?thesis by auto
qed

text \<open>C28: a BFT block with at most 2048 headers serializes without a panic and deserializes to
  itself, leaving the rest of the stream; and every stream the deserializer accepts starts with the
  serialization of the block it returns, so a block cannot be re-encoded under another hash.\<close>

theorem bft_block_roundtrip:
  "(BftBlock_ok b \<longrightarrow> (\<exists>bs. BftBlock_zcash_serialize b = Some bs \<and>
      BftBlock_zcash_deserialize (bs @ rest) = Some (b, rest))) \<and>
   (BftBlock_zcash_deserialize buf = Some (b, rest) \<longrightarrow>
      (\<exists>bs. BftBlock_zcash_serialize b = Some bs \<and> buf = bs @ rest \<and> BftBlock_ok b))"
  using BftBlock_serialize_ok bbc.dec_enc bbc.enc_dec by (metis option.sel)

definition sample_header :: "nat \<Rightarrow> BlockHeaderData" where
  "sample_header n = \<lparr>hdr_version = 4, prev_block = replicate 32 (word_of_nat n),
     merkle_root = replicate 32 0, final_sapling_root = replicate 32 0, hdr_time = word_of_nat n,
     hdr_bits = 0, nonce = replicate 32 0, solution = [1, 2, 3],
     fat_pointer_to_bft_block = FatPointer_null\<rparr>"

definition sample_block :: BftBlock where
  "sample_block = \<lparr>bb_version = 1, bb_height = 1, previous_block_fat_ptr = sample_fat_pointer,
     finalization_candidate_height = 9, bb_headers = map sample_header [1, 2, 3]\<rparr>"

lemma sample_block_ok: "BftBlock_ok sample_block"
  using sample_fat_pointer_ok
  by (simp add: BftBlock_ok_def sample_block_def BlockHeaderData_ok_def sample_header_def
      FatPointer_ok_def FatPointer_null_def MAX_COMPACT_SIZE_def)

theorem bft_block_roundtrip_witness:
  "\<exists>bs. BftBlock_zcash_serialize sample_block = Some bs \<and>
     BftBlock_zcash_deserialize (bs @ [42]) = Some (sample_block, [42])"
  using bft_block_roundtrip [of sample_block "[42]"] sample_block_ok by blast

text \<open>\<^verbatim>\<open>FatPointerToBftBlock::try_from_bytes\<close> never parses a fat pointer: it answers \<^verbatim>\<open>None\<close> on
  inputs shorter than 46 bytes and panics on every other input, because it slices
  \<^verbatim>\<open>bytes[76 - 32..2]\<close>, a range that ends before it starts.\<close>

theorem try_from_bytes_never_parses:
  "FatPointer_try_from_bytes b = (if length b < 46 then Some None else None)"
  by (simp add: FatPointer_try_from_bytes_def slice_def)

text \<open>A fat pointer built from a block hash, a height and a round expands to a precommit
  template for that hash, height and round, and points at that hash.\<close>

theorem from_parts_template:
  assumes "length h = 32"
  shows "get_vote_template (FatPointer_from_parts h height round sigs) =
      Some \<lparr>validator_address = replicate 32 0, vote_value = h, vote_height = height,
            vote_typ = True, vote_round = round AND 0x7fffffff\<rparr> \<and>
    points_at_block_hash (FatPointer_from_parts h height round sigs) = Some h"
proof -
  have "copy_into (replicate 76 0) 32 (vote_for_block (FatPointer_from_parts h height round sigs)) =
      Some (replicate 32 0 @ h @ u64_le height @ u32_le (round OR 0x80000000))"
    using assms by (simp add: copy_into_def FatPointer_from_parts_def)
  then show ?thesis
    using assms by (simp add: get_vote_template_def Vote_from_bytes_parts points_at_block_hash_def
        FatPointer_from_parts_def slice_prefix)
qed

theorem from_parts_template_witness:
  "points_at_block_hash (FatPointer_from_parts (replicate 32 7) 5 2 []) = Some (replicate 32 7)"
  using from_parts_template [of "replicate 32 7" 5 2 "[]"] by simp

end
