(* ===== verification/Wire.thy ===== *)
theory Wire
  imports Bft_Types
begin

text \<open>
  The packets the finalizers exchange, of \<^verbatim>\<open>tenderlink/src/lib.rs\<close>, with the integer helpers of
  \<^verbatim>\<open>tenderlink/src/helpers.rs\<close>. A \<^verbatim>\<open>write_to\<close> that fills a buffer from an offset is the byte string it
  writes; the offset it returns is the length of that string. A \<^verbatim>\<open>read_from\<close> is a \<open>reader\<close>; where it
  can also panic its result is a \<open>rust\<close> value around the reader's result.
\<close>

section \<open>Definitions\<close>

subsection \<open>\<^verbatim>\<open>helpers.rs\<close>\<close>

definition store_u48 :: "bytes \<Rightarrow> u64 \<Rightarrow> bytes rust" where
  "store_u48 buf v = do { rassert (length buf = 6); Some (take 6 (u64_le v)) }"

definition load_u48 :: "bytes \<Rightarrow> u64 rust" where
  "load_u48 buf = do {
     rassert (length buf = 6);
     tmp \<leftarrow> copy_into (replicate 8 0) 0 buf;
     Some (word_of_nat (le_val tmp)) }"

definition store_u24 :: "bytes \<Rightarrow> u32 \<Rightarrow> bytes rust" where
  "store_u24 buf v = do { rassert (length buf = 3); Some (take 3 (u32_le v)) }"

definition load_u24 :: "bytes \<Rightarrow> u32 rust" where
  "load_u24 buf = do {
     rassert (length buf = 3);
     tmp \<leftarrow> copy_into (replicate 4 0) 0 buf;
     Some (word_of_nat (le_val tmp)) }"

definition saturating_mul :: "u64 \<Rightarrow> u64 \<Rightarrow> u64" where
  "saturating_mul a b = (if unat a * unat b < 2 ^ 64 then a * b else - 1)"

definition best_unit :: "u64 \<Rightarrow> u64 \<times> string" where
  "best_unit bps =
     (if bps \<ge> 1099511627776 then (1099511627776, ''TiB/s'')
      else if bps \<ge> 1073741824 then (1073741824, ''GiB/s'')
      else if bps \<ge> 1048576 then (1048576, ''MiB/s'')
      else if bps \<ge> 1024 then (1024, ''KiB/s'')
      else (1, ''B/s''))"

definition format_value :: "u64 \<Rightarrow> u64 \<Rightarrow> (u64 \<times> u64) rust" where
  "format_value value unit = do {
     rassert (unit \<noteq> 0);
     sum \<leftarrow> checked_add (saturating_mul value 100) (unit div 2);
     let scaled = sum div unit;
     Some (scaled div 100, scaled mod 100) }"

subsection \<open>Addresses\<close>

record STPAddress =
  stp_ip :: bytes
  stp_port :: u16
  stp_magic1 :: u64
  stp_key :: bytes

definition STPAddress_write_to :: "STPAddress \<Rightarrow> bytes rust" where
  "STPAddress_write_to a = do {
     key \<leftarrow> slice (stp_key a) 0 32;
     let port_and_magic1 = (ucast (stp_port a) :: u64) OR push_bit 16 (stp_magic1 a);
     Some (stp_ip a @ u64_le port_and_magic1 @ stp_key a) }"

definition STPAddress_read_from :: "STPAddress reader" where
  "STPAddress_read_from buf = do {
     (ip_bytes, buf) \<leftarrow> read_exact 16 buf;
     (port_and_magic1, buf) \<leftarrow> read_u64 buf;
     (key, buf) \<leftarrow> read_exact 32 buf;
     Some (\<lparr>stp_ip = ip_bytes, stp_port = ucast port_and_magic1,
            stp_magic1 = drop_bit 16 port_and_magic1, stp_key = key\<rparr>, buf) }"

definition STPAddress_ok :: "STPAddress \<Rightarrow> bool" where
  "STPAddress_ok a \<longleftrightarrow> length (stp_ip a) = 16 \<and> length (stp_key a) = 32 \<and>
     stp_magic1 a < 0x1000000000000"

subsection \<open>Packet headers and status\<close>

definition PACKET_TYPE_PROPOSAL_CHUNK :: u8 where "PACKET_TYPE_PROPOSAL_CHUNK = 7"
definition PACKET_TYPE_PREVOTE_SIGNATURES :: u8 where "PACKET_TYPE_PREVOTE_SIGNATURES = 8"
definition PACKET_TYPE_PRECOMMIT_SIGNATURES :: u8 where "PACKET_TYPE_PRECOMMIT_SIGNATURES = 9"
definition PACKET_TYPE_MASK :: u8 where "PACKET_TYPE_MASK = 0x7f"
definition PACKET_TAG_STATUS_FLAG :: u8 where "PACKET_TAG_STATUS_FLAG = 0x80"
definition PACKET_TAG_MASK :: u8 where "PACKET_TAG_MASK = 0xff"
definition STATUS_PROPOSAL_RNGS_N :: nat where "STATUS_PROPOSAL_RNGS_N = 1"
definition STATUS_VOTE_RNGS_N :: nat where "STATUS_VOTE_RNGS_N = 1"
definition PACKET_HEADER_SIZE :: nat where "PACKET_HEADER_SIZE = 8 + 8"

definition PACKET_STATUS_SIZE :: nat where
  "PACKET_STATUS_SIZE = 8 + 4 + STATUS_PROPOSAL_RNGS_N * 8 + 2 * STATUS_VOTE_RNGS_N * 4"

record PacketStatus =
  st_height :: u64
  st_round :: u32
  need_proposal_chunk_rngs :: "(u32 \<times> u32) list"
  need_vote_rngs :: "(u16 \<times> u16) list \<times> (u16 \<times> u16) list"

definition write_rng32 :: "u32 \<times> u32 \<Rightarrow> bytes" where
  "write_rng32 r = u32_le (fst r) @ u32_le (snd r)"

definition read_rng32 :: "(u32 \<times> u32) reader" where
  "read_rng32 buf = do {
     (lo, buf) \<leftarrow> read_u32 buf; (hi, buf) \<leftarrow> read_u32 buf; Some ((lo, hi), buf) }"

definition write_rng16 :: "u16 \<times> u16 \<Rightarrow> bytes" where
  "write_rng16 r = u16_le (fst r) @ u16_le (snd r)"

definition read_rng16 :: "(u16 \<times> u16) reader" where
  "read_rng16 buf = do {
     (lo, buf) \<leftarrow> read_u16 buf; (hi, buf) \<leftarrow> read_u16 buf; Some ((lo, hi), buf) }"

definition PacketStatus_write_to :: "PacketStatus \<Rightarrow> bytes" where
  "PacketStatus_write_to s =
     u64_le (st_height s) @ u32_le (st_round s) @
     write_all write_rng32 (need_proposal_chunk_rngs s) @
     write_all write_rng16 (fst (need_vote_rngs s)) @
     write_all write_rng16 (snd (need_vote_rngs s))"

definition PacketStatus_read_from :: "PacketStatus reader" where
  "PacketStatus_read_from buf = do {
     (height, buf) \<leftarrow> read_u64 buf;
     (round, buf) \<leftarrow> read_u32 buf;
     (chunk_rngs, buf) \<leftarrow> read_n STATUS_PROPOSAL_RNGS_N read_rng32 buf;
     (prevote_rngs, buf) \<leftarrow> read_n STATUS_VOTE_RNGS_N read_rng16 buf;
     (precommit_rngs, buf) \<leftarrow> read_n STATUS_VOTE_RNGS_N read_rng16 buf;
     Some (\<lparr>st_height = height, st_round = round, need_proposal_chunk_rngs = chunk_rngs,
            need_vote_rngs = (prevote_rngs, precommit_rngs)\<rparr>, buf) }"

definition PacketStatus_ok :: "PacketStatus \<Rightarrow> bool" where
  "PacketStatus_ok s \<longleftrightarrow> length (need_proposal_chunk_rngs s) = STATUS_PROPOSAL_RNGS_N \<and>
     length (fst (need_vote_rngs s)) = STATUS_VOTE_RNGS_N \<and>
     length (snd (need_vote_rngs s)) = STATUS_VOTE_RNGS_N"

record PacketHeader =
  ph_tag :: u64

definition PacketHeader_new_unchecked :: "u8 \<Rightarrow> PacketHeader" where
  "PacketHeader_new_unchecked tag = \<lparr>ph_tag = ucast tag\<rparr>"

definition PacketHeader_new :: "u8 \<Rightarrow> PacketHeader rust" where
  "PacketHeader_new tag = do { rassert (tag AND NOT PACKET_TYPE_MASK = 0); Some (PacketHeader_new_unchecked tag) }"

definition has_status :: "PacketHeader \<Rightarrow> bool" where
  "has_status h \<longleftrightarrow> (ucast (ph_tag h) :: u8) AND PACKET_TAG_STATUS_FLAG \<noteq> 0"

definition packet_type :: "PacketHeader \<Rightarrow> u8" where
  "packet_type h = ucast (ph_tag h) AND PACKET_TYPE_MASK"

definition PacketHeader_write_to :: "PacketHeader \<Rightarrow> bytes" where
  "PacketHeader_write_to h = u64_le (ph_tag h) @ u64_le 0"

definition PacketHeader_read_from :: "PacketHeader reader" where
  "PacketHeader_read_from buf = do {
     (tag, buf) \<leftarrow> read_u64 buf;
     (_, buf) \<leftarrow> read_u64 buf;
     Some (\<lparr>ph_tag = tag\<rparr>, buf) }"

definition read_header_and_maybe_status ::
  "bytes \<Rightarrow> (PacketHeader \<times> PacketStatus option \<times> nat) option" where
  "read_header_and_maybe_status msg = do {
     (header, buf) \<leftarrow> PacketHeader_read_from msg;
     (status, buf) \<leftarrow>
       (if has_status header
        then do { (s, buf) \<leftarrow> PacketStatus_read_from buf; Some (Some s, buf) }
        else Some (None, buf));
     Some (header, status, length msg - length buf) }"

subsection \<open>Vote packets\<close>

record PubKeySig =
  pks_roster_i :: u16
  pks_sig :: bytes

record PacketVotes =
  no_votes_n :: u8
  yes_votes_n :: u8
  pv_round :: u32
  pv_height :: u64
  pv_value_id :: bytes
  pv_votes :: "PubKeySig list"

definition PubKeySig_default :: PubKeySig where
  "PubKeySig_default = \<lparr>pks_roster_i = 0, pks_sig = replicate 64 0\<rparr>"

definition PubKeySig_write :: "PubKeySig \<Rightarrow> bytes" where
  "PubKeySig_write v = u16_le (pks_roster_i v) @ pks_sig v"

definition PubKeySig_read :: "PubKeySig reader" where
  "PubKeySig_read buf = do {
     (i, buf) \<leftarrow> read_u16 buf;
     (sig, buf) \<leftarrow> read_exact 64 buf;
     Some (\<lparr>pks_roster_i = i, pks_sig = sig\<rparr>, buf) }"

text \<open>The sum of the two counts is a \<^verbatim>\<open>u8\<close> and may overflow; the loop indexes an array of 18.\<close>

definition PacketVotes_write_to :: "PacketVotes \<Rightarrow> bytes rust" where
  "PacketVotes_write_to p = do {
     n \<leftarrow> checked_add (no_votes_n p) (yes_votes_n p);
     vs \<leftarrow> slice (pv_votes p) 0 (unat n);
     Some ([no_votes_n p] @ [yes_votes_n p] @ u32_le (pv_round p) @ u64_le (pv_height p) @
       pv_value_id p @ write_all PubKeySig_write vs) }"

text \<open>
  The loop of \<^verbatim>\<open>read_from\<close>: at index \<open>i\<close> the vote is read (a short buffer ends the function with
  \<^verbatim>\<open>None\<close>) and stored into \<^verbatim>\<open>votes[i]\<close> (past the array, a panic; the index is evaluated after the
  value on the right).
\<close>

primrec read_votes_loop ::
  "nat \<Rightarrow> nat \<Rightarrow> PubKeySig list \<Rightarrow> bytes \<Rightarrow> (PubKeySig list \<times> bytes) option rust" where
  "read_votes_loop 0 i votes buf = Some (Some (votes, buf))"
| "read_votes_loop (Suc n) i votes buf =
     (case read_u16 buf of
        None \<Rightarrow> Some None
      | Some (ri, buf) \<Rightarrow> do {
          v \<leftarrow> index votes i;
          votes \<leftarrow> set_index votes i (v\<lparr>pks_roster_i := ri\<rparr>);
          (case read_exact 64 buf of
             None \<Rightarrow> Some None
           | Some (sig, buf) \<Rightarrow> do {
               v \<leftarrow> index votes i;
               votes \<leftarrow> set_index votes i (v\<lparr>pks_sig := sig\<rparr>);
               read_votes_loop n (Suc i) votes buf }) })"

definition read_votes_head :: "(u8 \<times> u8 \<times> u32 \<times> u64 \<times> bytes) reader" where
  "read_votes_head buf = do {
     (no, buf) \<leftarrow> read_u8 buf;
     (yes, buf) \<leftarrow> read_u8 buf;
     (round, buf) \<leftarrow> read_u32 buf;
     (height, buf) \<leftarrow> read_u64 buf;
     (value_id, buf) \<leftarrow> read_exact 32 buf;
     Some ((no, yes, round, height, value_id), buf) }"

definition PacketVotes_read_from :: "bytes \<Rightarrow> (PacketVotes \<times> bytes) option rust" where
  "PacketVotes_read_from buf =
     (case read_votes_head buf of
        None \<Rightarrow> Some None
      | Some ((no, yes, round, height, value_id), buf) \<Rightarrow> do {
          n \<leftarrow> checked_add no yes;
          r \<leftarrow> read_votes_loop (unat n) 0 (replicate 18 PubKeySig_default) buf;
          Some (map_option (\<lambda>(votes, buf).
            (\<lparr>no_votes_n = no, yes_votes_n = yes, pv_round = round, pv_height = height,
              pv_value_id = value_id, pv_votes = votes\<rparr>, buf)) r) })"

text \<open>A packet as the packer builds it: unused slots of the array are at their default.\<close>

definition PacketVotes_ok :: "PacketVotes \<Rightarrow> bool" where
  "PacketVotes_ok p \<longleftrightarrow> (let n = unat (no_votes_n p) + unat (yes_votes_n p) in
     n \<le> 18 \<and> length (pv_votes p) = 18 \<and> length (pv_value_id p) = 32 \<and>
     list_all (\<lambda>v. length (pks_sig v) = 64) (pv_votes p) \<and>
     drop n (pv_votes p) = replicate (18 - n) PubKeySig_default)"

subsection \<open>Proposal chunks\<close>

definition PATH_MTU :: nat where "PATH_MTU = 1400 - 22 - 2"
definition PROPOSAL_PACKET_EXTRA :: nat where
  "PROPOSAL_PACKET_EXTRA = PACKET_HEADER_SIZE + PACKET_STATUS_SIZE + 56 + 64"
definition PROPOSAL_CHUNK_DATA_SIZE :: nat where
  "PROPOSAL_CHUNK_DATA_SIZE = PATH_MTU - PROPOSAL_PACKET_EXTRA"

record PacketProposalChunkHeader =
  ch_chunk_i :: u32
  ch_proposal_size :: u32
  ch_round :: u32
  ch_valid_round :: int
  ch_height :: u64
  ch_proposal_id :: bytes

definition PacketProposalChunkHeader_write_to :: "PacketProposalChunkHeader \<Rightarrow> bytes rust" where
  "PacketProposalChunkHeader_write_to c = do {
     valid_round \<leftarrow>
       (if ch_valid_round c \<ge> 0
        then if ch_valid_round c < 2 ^ 32 then Some (word_of_int (ch_valid_round c)) else None
        else Some (- 1));
     Some (u32_le (ch_chunk_i c) @ u32_le (ch_proposal_size c) @ u32_le (ch_round c) @
       u32_le valid_round @ u64_le (ch_height c) @ ch_proposal_id c) }"

definition PacketProposalChunkHeader_read_from :: "PacketProposalChunkHeader reader" where
  "PacketProposalChunkHeader_read_from buf = do {
     (chunk_i, buf) \<leftarrow> read_u32 buf;
     (proposal_size, buf) \<leftarrow> read_u32 buf;
     (round, buf) \<leftarrow> read_u32 buf;
     (v, buf) \<leftarrow> read_u32 buf;
     (height, buf) \<leftarrow> read_u64 buf;
     (proposal_id, buf) \<leftarrow> read_exact 32 buf;
     Some (\<lparr>ch_chunk_i = chunk_i, ch_proposal_size = proposal_size, ch_round = round,
            ch_valid_round = (if v \<noteq> - 1 then uint v else - 1), ch_height = height,
            ch_proposal_id = proposal_id\<rparr>, buf) }"

definition PacketProposalChunkHeader_ok :: "PacketProposalChunkHeader \<Rightarrow> bool" where
  "PacketProposalChunkHeader_ok c \<longleftrightarrow> length (ch_proposal_id c) = 32 \<and>
     - 1 \<le> ch_valid_round c \<and> ch_valid_round c < 2 ^ 32 - 1"

subsection \<open>What is signed\<close>

text \<open>The data of a vote against (first) and for (second) the value.\<close>

definition make_vote_sign_datas ::
  "bytes \<Rightarrow> bool \<Rightarrow> u64 \<Rightarrow> u32 \<Rightarrow> bytes \<Rightarrow> (bytes \<times> bytes) rust" where
  "make_vote_sign_datas pub_key is_precommit height round value_id = do {
     buf \<leftarrow> copy_into (replicate 76 0) 0 pub_key;
     buf \<leftarrow> copy_into buf 64 (u64_le height);
     r \<leftarrow> checked_add round (0x80000000 * of_bool is_precommit);
     sign_data_no \<leftarrow> copy_into buf 72 (u32_le r);
     sign_data_yes \<leftarrow> copy_into sign_data_no 32 value_id;
     Some (sign_data_no, sign_data_yes) }"

section \<open>Codecs\<close>

lemma le_val_append: "le_val (a @ b) = le_val a + 256 ^ length a * le_val b"
  by (induction a) (simp_all add: algebra_simps)

lemma le_val_zeros [simp]: "le_val (replicate n 0) = 0"
  by (induction n) simp_all

lemma take_le_bytes: "m \<le> n \<Longrightarrow> take m (le_bytes n v) = le_bytes m v"
  by (induction n arbitrary: m v) (auto simp: take_Cons split: nat.splits)

lemma load_store_u48:
  "length buf = 6 \<Longrightarrow> (store_u48 buf v \<bind> load_u48) = Some (take_bit 48 v)"
  by (simp add: store_u48_def load_u48_def rassert_def copy_into_def take_le_bytes le_val_append
      le_val_le_bytes word_eq_iff_unsigned unsigned_take_bit_eq take_bit_eq_mod word_unat_eq_iff
      unat_of_nat unat_mod)

interpretation rng32c: exact_codec write_rng32 read_rng32 "\<lambda>_. True"
  by unfold_locales (auto simp: write_rng32_def read_rng32_def codec_simps bind_eq_Some_conv codec_iff)

interpretation rng16c: exact_codec write_rng16 read_rng16 "\<lambda>_. True"
  by unfold_locales (auto simp: write_rng16_def read_rng16_def codec_simps bind_eq_Some_conv codec_iff)

interpretation statusc: exact_codec PacketStatus_write_to PacketStatus_read_from PacketStatus_ok
proof unfold_locales
  fix s :: PacketStatus and rest assume "PacketStatus_ok s"
  then show "PacketStatus_read_from (PacketStatus_write_to s @ rest) = Some (s, rest)"
    using rng32c.read_n_write_all [of "need_proposal_chunk_rngs s"]
      rng16c.read_n_write_all [of "fst (need_vote_rngs s)"]
      rng16c.read_n_write_all [of "snd (need_vote_rngs s)"]
    by (cases s) (auto simp: PacketStatus_ok_def PacketStatus_read_from_def
        PacketStatus_write_to_def codec_simps list_all_iff)
next
  fix buf and s :: PacketStatus and rest assume "PacketStatus_read_from buf = Some (s, rest)"
  then show "buf = PacketStatus_write_to s @ rest \<and> PacketStatus_ok s"
    by (auto simp: PacketStatus_read_from_def PacketStatus_write_to_def PacketStatus_ok_def
        bind_eq_Some_conv codec_iff dest!: rng32c.read_n_exact rng16c.read_n_exact)
qed

interpretation headerc: codec PacketHeader_write_to PacketHeader_read_from "\<lambda>_. True"
  using u64c.dec_enc [of 0]
  by unfold_locales (auto simp: PacketHeader_write_to_def PacketHeader_read_from_def codec_simps)

interpretation pksc: exact_codec PubKeySig_write PubKeySig_read "\<lambda>v. length (pks_sig v) = 64"
  by unfold_locales (auto simp: PubKeySig_write_def PubKeySig_read_def codec_simps bind_eq_Some_conv
      codec_iff)

lemma uint_u32 [simp]: "uint (v :: u32) < 4294967296"
  using uint_lt2p [of v] by simp

lemma u32_minus1: "(v :: u32) \<noteq> - 1 \<Longrightarrow> uint v < 4294967295"
proof -
  assume "v \<noteq> - 1"
  then have "uint v \<noteq> uint (- 1 :: u32)" by (metis word_of_int_uint)
  moreover have "uint (- 1 :: u32) = 4294967295"
    by (simp add: unsigned_minus_1_eq_mask mask_eq_exp_minus_1)
  moreover have "uint v < 4294967296" by (rule uint_u32)
  ultimately show ?thesis by linarith
qed

lemma chunk_header_serialize_ok:
  "PacketProposalChunkHeader_ok c \<Longrightarrow> \<exists>bs. PacketProposalChunkHeader_write_to c = Some bs"
  by (auto simp: PacketProposalChunkHeader_ok_def PacketProposalChunkHeader_write_to_def)

interpretation chunkc: exact_codec "\<lambda>c. the (PacketProposalChunkHeader_write_to c)"
  PacketProposalChunkHeader_read_from PacketProposalChunkHeader_ok
proof unfold_locales
  fix c :: PacketProposalChunkHeader and rest assume ok: "PacketProposalChunkHeader_ok c"
  have "(word_of_int (ch_valid_round c) :: u32) \<noteq> - 1" if "0 \<le> ch_valid_round c"
  proof
    assume "(word_of_int (ch_valid_round c) :: u32) = - 1"
    then have "uint (word_of_int (ch_valid_round c) :: u32) = uint (- 1 :: u32)" by simp
    with that ok show False
      by (simp add: PacketProposalChunkHeader_ok_def uint_word_of_int unsigned_minus_1_eq_mask
          mask_eq_exp_minus_1)
  qed
  moreover have "uint (word_of_int (ch_valid_round c) :: u32) = ch_valid_round c"
    if "0 \<le> ch_valid_round c"
    using that ok by (simp add: PacketProposalChunkHeader_ok_def uint_word_of_int)
  ultimately show "PacketProposalChunkHeader_read_from
      (the (PacketProposalChunkHeader_write_to c) @ rest) = Some (c, rest)"
    using ok by (cases c) (auto simp: PacketProposalChunkHeader_ok_def codec_simps
        PacketProposalChunkHeader_write_to_def PacketProposalChunkHeader_read_from_def)
next
  fix buf and c :: PacketProposalChunkHeader and rest
  assume "PacketProposalChunkHeader_read_from buf = Some (c, rest)"
  then show "buf = the (PacketProposalChunkHeader_write_to c) @ rest \<and> PacketProposalChunkHeader_ok c"
    by (auto simp: PacketProposalChunkHeader_read_from_def PacketProposalChunkHeader_write_to_def
        PacketProposalChunkHeader_ok_def bind_eq_Some_conv codec_iff u32_minus1
        split: if_splits)
qed


section \<open>Addresses\<close>

lemma port_and_magic1_port: "ucast ((ucast p :: u64) OR push_bit 16 m) = (p :: u16)"
  by (rule bit_word_eqI) (auto simp: bit_simps)

lemma port_and_magic1_magic:
  assumes "m < 0x1000000000000"
  shows "drop_bit 16 ((ucast (p :: u16) :: u64) OR push_bit 16 m) = m"
proof -
  have m: "take_bit 48 m = m"
    using assms by (simp add: take_bit_eq_mod word_less_nat_alt word_unat_eq_iff unat_mod)
  have "drop_bit 16 ((ucast p :: u64) OR push_bit 16 m) = take_bit 48 m"
    by (rule bit_word_eqI) (auto simp: bit_simps dest: bit_imp_le_length)
  with m show ?thesis by simp
qed

lemmas port_and_magic1_magic_or = port_and_magic1_magic [unfolded drop_bit_or]

lemma port_and_magic1_join: "(ucast (ucast w :: u16) :: u64) OR push_bit 16 (drop_bit 16 w) = w"
  by (rule bit_word_eqI) (auto simp: bit_simps, metis le_add_diff_inverse not_le)

lemma drop_bit_16_less: "drop_bit 16 (w :: u64) < 0x1000000000000"
  using unsigned_less [of w, where ?'a = nat]
  by (simp add: word_less_nat_alt unsigned_drop_bit_eq drop_bit_eq_div div_less_iff_less_mult unat_div)

lemma STPAddress_serialize_ok: "STPAddress_ok a \<Longrightarrow> \<exists>bs. STPAddress_write_to a = Some bs"
  by (simp add: STPAddress_ok_def STPAddress_write_to_def slice_def Let_def)

interpretation stpc: exact_codec "\<lambda>a. the (STPAddress_write_to a)" STPAddress_read_from STPAddress_ok
  by unfold_locales
    (auto simp: STPAddress_ok_def STPAddress_write_to_def STPAddress_read_from_def codec_simps Let_def
      slice_all port_and_magic1_port port_and_magic1_magic_or port_and_magic1_join bind_eq_Some_conv
      codec_iff drop_bit_16_less)

section \<open>Vote packets\<close>

lemma index_none: "\<not> i < length xs \<Longrightarrow> index xs i = None"
  by (simp add: index_def)

lemma read_votes_loop_write:
  assumes "i + length vs \<le> length votes" "list_all (\<lambda>v. length (pks_sig v) = 64) vs"
  shows "read_votes_loop (length vs) i votes (write_all PubKeySig_write vs @ rest) =
    Some (Some (take i votes @ vs @ drop (i + length vs) votes, rest))"
  using assms
proof (induction vs arbitrary: i votes)
  case Nil
  then show ?case by (simp add: write_all_def)
next
  case (Cons v vs)
  have "take (Suc i) (votes[i := v]) = take i votes @ [v]"
    using Cons.prems by (simp add: take_Suc_conv_app_nth)
  moreover have "votes[i := (votes ! i)\<lparr>pks_roster_i := pks_roster_i v, pks_sig := pks_sig v\<rparr>] = votes[i := v]"
    by (cases v; cases "votes ! i") simp
  ultimately show ?case
    using Cons.prems Cons.IH [of "Suc i" "votes[i := v]"]
    by (simp add: write_all_def PubKeySig_write_def codec_simps)
qed

lemma read_votes_loop_no_panic:
  "i + n \<le> length votes \<Longrightarrow> read_votes_loop n i votes buf \<noteq> None"
proof (induction n arbitrary: i votes buf)
  case (Suc n)
  from Suc.prems Suc.IH [of "Suc i"] show ?case
    by (auto split: option.splits)
qed simp

lemma read_votes_loop_panic:
  "length votes < i + n \<Longrightarrow> i \<le> length votes \<Longrightarrow> 66 * (length votes - i) + 2 \<le> length buf \<Longrightarrow>
     read_votes_loop n i votes buf = None"
proof (induction n arbitrary: i votes buf)
  case (Suc n)
  have "read_u16 buf = Some (word_of_nat (le_val (take 2 buf)), drop 2 buf)"
    using Suc.prems by (simp add: read_u16_def read_word_def read_exact_def)
  moreover have "read_exact 64 (drop 2 buf) = Some (take 64 (drop 2 buf), drop 66 buf)" if "i < length votes"
    using Suc.prems that by (simp add: read_exact_def)
  ultimately show ?case
    using Suc.prems Suc.IH [of _ "Suc i" "drop 66 buf"]
    by (cases "i < length votes") (auto simp: index_none)
qed simp

lemma read_votes_head_length:
  assumes "46 \<le> length buf"
  shows "\<exists>r h v. read_votes_head buf = Some ((buf ! 0, buf ! 1, r, h, v), drop 46 buf)"
proof -
  obtain a b c where "buf = a # b # c" "44 \<le> length c"
    using assms by (cases buf; cases "tl buf") auto
  then show ?thesis
    by (simp add: read_votes_head_def read_u8_def read_u32_def read_u64_def read_word_def read_exact_def)
      linarith
qed

lemma u8_sum_18:
  "unat (a :: u8) + unat b \<le> 18 \<Longrightarrow> checked_add a b = Some (a + b) \<and> unat (a + b) = unat a + unat b"
  by (simp add: checked_add_def unat_word_ariths)

lemma write_votes_length:
  "list_all (\<lambda>v. length (pks_sig v) = 64) vs \<Longrightarrow> length (write_all PubKeySig_write vs) = 66 * length vs"
  by (induction vs) (simp_all add: write_all_def PubKeySig_write_def)

lemma packet_votes_read_write:
  assumes vs: "list_all (\<lambda>v. length (pks_sig v) = 64) vs" "length vs = unat no + unat yes"
    "length vs \<le> 18" "length value_id = 32"
    and p: "p = \<lparr>no_votes_n = no, yes_votes_n = yes, pv_round = r, pv_height = h,
      pv_value_id = value_id, pv_votes = vs @ replicate (18 - length vs) PubKeySig_default\<rparr>"
  shows "\<exists>bs. PacketVotes_write_to p = Some bs \<and> length bs \<le> 1234 \<and>
       PacketVotes_read_from (bs @ rest) = Some (Some (p, rest))"
proof -
  have n: "checked_add no yes = Some (no + yes)" "unat (no + yes) = length vs"
    using u8_sum_18 [of no yes] vs by simp_all
  have l: "read_votes_loop (length vs) 0 (replicate 18 PubKeySig_default)
      (write_all PubKeySig_write vs @ rest) =
      Some (Some (vs @ replicate (18 - length vs) PubKeySig_default, rest))"
    using read_votes_loop_write [of 0 vs "replicate 18 PubKeySig_default"] vs by simp
  let ?bs = "[no] @ [yes] @ u32_le r @ u64_le h @ value_id @ write_all PubKeySig_write vs"
  have "PacketVotes_write_to p = Some ?bs"
    using n vs by (simp add: PacketVotes_write_to_def p slice_def)
  moreover have "length ?bs \<le> 1234"
    using write_votes_length [OF vs(1)] vs by simp
  moreover have "PacketVotes_read_from (?bs @ rest) = Some (Some (p, rest))"
    using n l vs(4) by (simp add: PacketVotes_read_from_def read_votes_head_def codec_simps p)
  ultimately show ?thesis by blast
qed

lemma packet_votes_ok_shape:
  assumes "PacketVotes_ok p"
  obtains vs where "list_all (\<lambda>v. length (pks_sig v) = 64) vs"
    "length vs = unat (no_votes_n p) + unat (yes_votes_n p)" "length vs \<le> 18"
    "pv_votes p = vs @ replicate (18 - length vs) PubKeySig_default"
proof
  let ?vs = "take (unat (no_votes_n p) + unat (yes_votes_n p)) (pv_votes p)"
  show "list_all (\<lambda>v. length (pks_sig v) = 64) ?vs"
    using assms by (auto simp: PacketVotes_ok_def Let_def list_all_iff dest: in_set_takeD)
  show "length ?vs = unat (no_votes_n p) + unat (yes_votes_n p)" "length ?vs \<le> 18"
    using assms by (simp_all add: PacketVotes_ok_def Let_def)
  then show "pv_votes p = ?vs @ replicate (18 - length ?vs) PubKeySig_default"
    using assms unfolding PacketVotes_ok_def Let_def by (metis append_take_drop_id)
qed

text \<open>A vote packet with at most 18 votes is written without a panic and read back unchanged; and
  no received byte string whose two vote counts sum to at most 18 makes the reader panic.\<close>

theorem packet_votes_roundtrip:
  "(PacketVotes_ok p \<longrightarrow> (\<exists>bs. PacketVotes_write_to p = Some bs \<and> length bs \<le> 1234 \<and>
       PacketVotes_read_from (bs @ rest) = Some (Some (p, rest)))) \<and>
   (46 \<le> length buf \<longrightarrow> unat (buf ! 0) + unat (buf ! 1) \<le> 18 \<longrightarrow> PacketVotes_read_from buf \<noteq> None)"
proof (intro conjI impI)
  assume ok: "PacketVotes_ok p"
  then have "length (pv_value_id p) = 32" by (simp add: PacketVotes_ok_def Let_def)
  moreover obtain vs where vs: "list_all (\<lambda>v. length (pks_sig v) = 64) vs"
      "length vs = unat (no_votes_n p) + unat (yes_votes_n p)" "length vs \<le> 18"
      "pv_votes p = vs @ replicate (18 - length vs) PubKeySig_default"
    using packet_votes_ok_shape [OF ok] .
  ultimately show "\<exists>bs. PacketVotes_write_to p = Some bs \<and> length bs \<le> 1234 \<and>
      PacketVotes_read_from (bs @ rest) = Some (Some (p, rest))"
    by (intro packet_votes_read_write [OF vs(1-3), where r = "pv_round p" and h = "pv_height p"]
        PacketVotes.equality) simp_all
next
  assume "46 \<le> length buf" "unat (buf ! 0) + unat (buf ! 1) \<le> 18"
  then show "PacketVotes_read_from buf \<noteq> None"
    using read_votes_head_length [of buf] u8_sum_18 [of "buf ! 0" "buf ! 1"]
      read_votes_loop_no_panic [of 0 "unat (buf ! 0) + unat (buf ! 1)"
        "replicate 18 PubKeySig_default" "drop 46 buf"]
    by (auto simp: PacketVotes_read_from_def)
qed


definition sample_packet_votes :: PacketVotes where
  "sample_packet_votes = \<lparr>no_votes_n = 1, yes_votes_n = 2, pv_round = 3, pv_height = 4,
     pv_value_id = replicate 32 5,
     pv_votes = replicate 3 \<lparr>pks_roster_i = 6, pks_sig = replicate 64 7\<rparr> @
       replicate 15 PubKeySig_default\<rparr>"

theorem packet_votes_roundtrip_witness:
  "(\<exists>bs. PacketVotes_write_to sample_packet_votes = Some bs \<and>
      PacketVotes_read_from (bs @ []) = Some (Some (sample_packet_votes, []))) \<and>
   PacketVotes_read_from (replicate 50 9) \<noteq> None"
proof -
  have "PacketVotes_ok sample_packet_votes"
    by (simp add: PacketVotes_ok_def sample_packet_votes_def PubKeySig_default_def list_all_iff)
  with packet_votes_roundtrip [of sample_packet_votes "[]" "replicate 50 9"] show ?thesis by auto
qed

text \<open>C39: the reader of vote packets indexes a fixed array of 18 with counts taken from the network:
  every message of at least 1236 bytes whose counts sum to more than 18 makes it panic.\<close>

theorem packet_votes_remote_panic:
  assumes "1236 \<le> length buf" and "18 < unat (buf ! 0) + unat (buf ! 1)"
  shows "PacketVotes_read_from buf = None"
proof (cases "checked_add (buf ! 0) (buf ! 1)")
  case None
  with read_votes_head_length [of buf] assms show ?thesis by (auto simp: PacketVotes_read_from_def)
next
  case (Some n)
  with assms(2) have "18 < unat n" using checked_add_unat by fastforce
  then have "read_votes_loop (unat n) 0 (replicate 18 PubKeySig_default) (drop 46 buf) = None"
    using assms(1) by (intro read_votes_loop_panic) simp_all
  with Some read_votes_head_length [of buf] assms(1) show ?thesis
    by (auto simp: PacketVotes_read_from_def)
qed

theorem packet_votes_remote_panic_witness:
  "PacketVotes_read_from (replicate 1236 10) = None"
  by (rule packet_votes_remote_panic) simp_all

section \<open>Packet headers\<close>

lemma status_flag [simp]:
  "(ucast (ucast (t :: u8) :: u64) :: u8) = t"
  "(ucast ((ucast t :: u64) OR 0x80) :: u8) = t OR 0x80"
proof -
  show u: "(ucast (ucast t :: u64) :: u8) = t"
    by (rule bit_word_eqI) (auto simp: bit_simps)
  have "(ucast ((ucast t :: u64) OR 0x80) :: u8) = ucast (ucast t :: u64) OR ucast (0x80 :: u64)"
    by (simp only: unsigned_or_eq)
  then show "(ucast ((ucast t :: u64) OR 0x80) :: u8) = t OR 0x80" by (simp add: u)
qed

lemma bit_0x80_u8: "bit (0x80 :: u8) n \<longleftrightarrow> n = 7"
proof -
  have "(0x80 :: u8) = push_bit 7 1" by simp
  then show ?thesis by (simp only: bit_push_bit_iff bit_1_iff) auto
qed

lemma bit_0x7f_u8: "bit (0x7f :: u8) n \<longleftrightarrow> n < 7"
proof -
  have "(0x7f :: u8) = mask 7" by (simp add: mask_eq_exp_minus_1)
  then show ?thesis by (simp only: bit_mask_iff) auto
qed

lemma tag_no_status: "t AND NOT 0x7f = 0 \<Longrightarrow> \<not> bit (t :: u8) 7"
proof -
  assume "t AND NOT 0x7f = 0"
  then have "\<not> bit (t AND NOT 0x7f) 7" by simp
  then show ?thesis by (simp only: bit_and_iff bit_not_iff bit_0x7f_u8) simp
qed

lemma tag_or_status:
  assumes "t AND NOT 0x7f = (0 :: u8)"
  shows "(t OR 0x80) AND 0x7f = t" "(t OR 0x80) AND 0x80 = 0x80" "t AND 0x80 = 0" "t AND 0x7f = t"
  using tag_no_status [OF assms]
  by (auto intro!: bit_word_eqI simp: bit_simps bit_0x80_u8 bit_0x7f_u8 less_Suc_eq numeral_eq_Suc)

text \<open>The header and optional status as the sender builds them.\<close>

definition write_status_packet :: "u8 \<Rightarrow> PacketStatus option \<Rightarrow> bytes" where
  "write_status_packet tag status =
     (let header = PacketHeader_new_unchecked tag in
      case status of
        None \<Rightarrow> PacketHeader_write_to header
      | Some s \<Rightarrow> PacketHeader_write_to (header\<lparr>ph_tag := ph_tag header OR ucast PACKET_TAG_STATUS_FLAG\<rparr>) @
          PacketStatus_write_to s)"

lemmas tag_defs = PACKET_TYPE_MASK_def PACKET_TAG_STATUS_FLAG_def PacketHeader_new_unchecked_def

text \<open>A receiver parses the header and the optional status exactly as they were sent: the packet
  type, whether a status is present, the status, and the offset of the payload (16 bytes, or 44 with
  a status).\<close>

theorem header_status_roundtrip:
  assumes "tag AND NOT PACKET_TYPE_MASK = 0" and "pred_option PacketStatus_ok status"
  shows "\<exists>h. read_header_and_maybe_status (write_status_packet tag status @ payload) =
      Some (h, status, PACKET_HEADER_SIZE + (if status = None then 0 else PACKET_STATUS_SIZE)) \<and>
    packet_type h = tag \<and> (has_status h \<longleftrightarrow> status \<noteq> None)"
proof (cases status)
  case None
  then show ?thesis
    using headerc.dec_enc [of "\<lparr>ph_tag = ucast tag\<rparr>" payload] assms(1) tag_or_status [of tag]
    by (simp add: read_header_and_maybe_status_def write_status_packet_def has_status_def
        packet_type_def tag_defs Let_def PacketHeader_write_to_def PACKET_HEADER_SIZE_def)
next
  case (Some s)
  with assms(2) have s: "PacketStatus_ok s" by simp
  have "length (PacketStatus_write_to s) = PACKET_STATUS_SIZE"
    using s by (auto simp: PacketStatus_ok_def PacketStatus_write_to_def PACKET_STATUS_SIZE_def
        STATUS_PROPOSAL_RNGS_N_def STATUS_VOTE_RNGS_N_def length_Suc_conv write_all_def
        write_rng32_def write_rng16_def)
  then show ?thesis
    using headerc.dec_enc [of "\<lparr>ph_tag = ucast tag OR 0x80\<rparr>" "PacketStatus_write_to s @ payload"]
      statusc.dec_enc [OF s, of payload] Some assms(1) tag_or_status [of tag]
    by (simp add: read_header_and_maybe_status_def write_status_packet_def has_status_def
        packet_type_def tag_defs Let_def PacketHeader_write_to_def PACKET_HEADER_SIZE_def)
qed

definition sample_status :: PacketStatus where
  "sample_status = \<lparr>st_height = 3, st_round = 1, need_proposal_chunk_rngs = [(0, 4)],
     need_vote_rngs = ([(1, 2)], [(0, 7)])\<rparr>"

theorem header_status_roundtrip_witness:
  "\<exists>h. read_header_and_maybe_status (write_status_packet 7 (Some sample_status) @ [1, 2]) =
     Some (h, Some sample_status, 44) \<and> packet_type h = 7"
  using header_status_roundtrip [of 7 "Some sample_status" "[1, 2]"]
  by (auto simp: PACKET_TYPE_MASK_def PacketStatus_ok_def sample_status_def PACKET_HEADER_SIZE_def
      PACKET_STATUS_SIZE_def STATUS_PROPOSAL_RNGS_N_def STATUS_VOTE_RNGS_N_def)

section \<open>Signed data\<close>

lemma round_commit_or: "r AND 0x80000000 = 0 \<Longrightarrow> r + 0x80000000 = r OR (0x80000000 :: u32)"
  by (rule disjunctive_add_eq_or)

lemma no_commit_bit_less: "r AND 0x80000000 = 0 \<longleftrightarrow> r < (0x80000000 :: u32)"
proof -
  have b: "bit r 31 \<longleftrightarrow> odd (unat r div 2147483648)"
    using bit_unsigned_iff [of r 31, where ?'a = nat] by (simp add: bit_iff_odd)
  have "unat r < 4294967296" using unsigned_less [of r, where ?'a = nat] by simp
  then have "unat r div 2147483648 = (if unat r < 2147483648 then 0 else 1)"
    by (auto simp: div_nat_eqI)
  with b show ?thesis by (simp add: and_0x80000000_eq_0 word_less_nat_alt)
qed

lemma make_vote_sign_datas_eq:
  assumes "length pk = 32" and "length v = 32"
  shows "make_vote_sign_datas pk pc h r v = do {
      r \<leftarrow> checked_add r (0x80000000 * of_bool pc);
      Some (pk @ replicate 32 0 @ u64_le h @ u32_le r, pk @ v @ u64_le h @ u32_le r) }"
  using assms by (cases "checked_add r (0x80000000 * of_bool pc)")
    (simp_all add: make_vote_sign_datas_def copy_into_def)

text \<open>what a finalizer signs in \<^verbatim>\<open>tenderlink\<close> is the encoding of the vote that a fat pointer is
  expanded to: for rounds below \<open>2^31\<close> the two sign data are the bytes of the vote for the value and
  of the vote for nil; for larger rounds a precommit overflows and panics.\<close>

theorem vote_sign_data_is_vote:
  assumes "length pub_key = 32" and "length value_id = 32"
  shows "(round < 0x80000000 \<longrightarrow>
      make_vote_sign_datas pub_key is_precommit height round value_id =
        (let v = \<lparr>validator_address = pub_key, vote_value = value_id, vote_height = height,
                  vote_typ = is_precommit, vote_round = round\<rparr>
         in Some (Vote_to_bytes (v\<lparr>vote_value := replicate 32 0\<rparr>), Vote_to_bytes v))) \<and>
    (0x80000000 \<le> round \<longrightarrow> make_vote_sign_datas pub_key True height round value_id = None)"
proof (intro conjI impI)
  assume r: "round < 0x80000000"
  then have "checked_add round (0x80000000 * of_bool is_precommit) =
      Some (if is_precommit then round OR 0x80000000 else round)"
    using round_commit_or [of round] no_commit_bit_less [of round]
    by (auto simp: checked_add_def word_less_nat_alt)
  moreover have "round AND 0x7fffffff = round"
    using r round_ok_and no_commit_bit_less by blast
  ultimately show "make_vote_sign_datas pub_key is_precommit height round value_id =
        (let v = \<lparr>validator_address = pub_key, vote_value = value_id, vote_height = height,
                  vote_typ = is_precommit, vote_round = round\<rparr>
         in Some (Vote_to_bytes (v\<lparr>vote_value := replicate 32 0\<rparr>), Vote_to_bytes v))"
    using assms by (simp add: make_vote_sign_datas_eq Vote_to_bytes_def Let_def)
next
  assume "0x80000000 \<le> round"
  then show "make_vote_sign_datas pub_key True height round value_id = None"
    using assms by (simp add: make_vote_sign_datas_eq checked_add_def word_le_nat_alt)
qed

theorem vote_sign_data_is_vote_witness:
  "make_vote_sign_datas (replicate 32 1) True 5 2 (replicate 32 7) =
     Some (Vote_to_bytes (sample_vote\<lparr>vote_value := replicate 32 0\<rparr>), Vote_to_bytes sample_vote) \<and>
   make_vote_sign_datas (replicate 32 1) True 5 0x80000000 (replicate 32 7) = None"
  using vote_sign_data_is_vote [of "replicate 32 1" "replicate 32 7" 2 True 5]
    vote_sign_data_is_vote [of "replicate 32 1" "replicate 32 7" "0x80000000" True 5]
  by (simp add: sample_vote_def Let_def)

end
