(* ===== verification/Roster.thy ===== *)
theory Roster
  imports Wire "HOL-Library.List_Lexorder" "HOL-Library.Product_Lexorder"
    "HOL-Library.Multiset"
begin

text \<open>
  The roster of finalizers: how \<^verbatim>\<open>tenderlink_roster_from_internal\<close>
  (\<^verbatim>\<open>zebra-crosslink/zebra-crosslink/src/lib.rs\<close>) sorts it and computes the cumulative stakes, how
  \<^verbatim>\<open>proposer_from_height_round\<close> (\<^verbatim>\<open>tenderlink/src/lib.rs\<close>) draws a proposer from it, and the stake
  thresholds of \<^verbatim>\<open>bft_update\<close>. The locale \<open>weighted_quorum\<close> states what any weighted quorum system gives,
  and is interpreted on the stakes of an active roster.
\<close>

section \<open>Definitions\<close>

subsection \<open>Roster members\<close>

record StakeTxId =
  stx_txid :: bytes
  stx_zats :: u64

definition StakeTxId_write :: "StakeTxId \<Rightarrow> bytes" where
  "StakeTxId_write t = stx_txid t @ u64_le (stx_zats t)"

definition StakeTxId_read :: "StakeTxId reader" where
  "StakeTxId_read buf = do {
     (txid, buf) \<leftarrow> read_exact 32 buf;
     (zats, buf) \<leftarrow> read_u64 buf;
     Some (\<lparr>stx_txid = txid, stx_zats = zats\<rparr>, buf) }"

record RosterMember =
  rm_pub_key :: bytes
  voting_power :: u64
  rm_txids :: "StakeTxId list"

definition RosterMember_write :: "RosterMember \<Rightarrow> bytes" where
  "RosterMember_write m =
     rm_pub_key m @ u64_le (voting_power m) @ u64_le (word_of_nat (length (rm_txids m))) @
     write_all StakeTxId_write (rm_txids m)"

definition RosterMember_read :: "RosterMember reader" where
  "RosterMember_read buf = do {
     (pub_key, buf) \<leftarrow> read_exact 32 buf;
     (power, buf) \<leftarrow> read_u64 buf;
     (txids_len, buf) \<leftarrow> read_u64 buf;
     (txids, buf) \<leftarrow> read_n (unat txids_len) StakeTxId_read buf;
     Some (\<lparr>rm_pub_key = pub_key, voting_power = power, rm_txids = txids\<rparr>, buf) }"

definition RosterMember_ok :: "RosterMember \<Rightarrow> bool" where
  "RosterMember_ok m \<longleftrightarrow> length (rm_pub_key m) = 32 \<and> length (rm_txids m) < 2 ^ 64 \<and>
     list_all (\<lambda>t. length (stx_txid t) = 32) (rm_txids m)"

record SortedRosterMember =
  pub_key :: bytes
  stake :: u64
  cumulative_stake :: u64

type_synonym roster = "SortedRosterMember list"

definition PubKeyID_NIL :: bytes where "PubKeyID_NIL = replicate 32 0"

definition ROSTER_MAX_N :: nat where "ROSTER_MAX_N = 100"

definition active_roster_len :: "roster \<Rightarrow> nat" where
  "active_roster_len roster = min ROSTER_MAX_N (length roster)"

definition roster_i_from_pub_key :: "roster \<Rightarrow> bytes \<Rightarrow> nat option" where
  "roster_i_from_pub_key roster pk = position (\<lambda>m. pub_key m = pk) roster"

subsection \<open>Building the sorted roster\<close>

text \<open>\<^verbatim>\<open>sort_by_key(|m| Reverse(key m))\<close>: a stable sort, largest key first.\<close>

definition sort_by_key_desc :: "('a \<Rightarrow> 'k::linorder) \<Rightarrow> 'a list \<Rightarrow> 'a list" where
  "sort_by_key_desc key xs = rev (sort_key key (rev xs))"

primrec accumulate_stake :: "u64 \<Rightarrow> roster \<Rightarrow> roster rust" where
  "accumulate_stake acc [] = Some []"
| "accumulate_stake acc (m # ms) = do {
     acc \<leftarrow> checked_add acc (stake m);
     ms \<leftarrow> accumulate_stake acc ms;
     Some (m\<lparr>cumulative_stake := acc\<rparr> # ms) }"

definition tenderlink_roster_from_internal :: "RosterMember list \<Rightarrow> roster rust" where
  "tenderlink_roster_from_internal vals =
     (let ret = map (\<lambda>v. \<lparr>pub_key = rm_pub_key v, stake = voting_power v, cumulative_stake = 0\<rparr>) vals;
          ret = sort_by_key_desc (\<lambda>m. (stake m, pub_key m)) ret
      in do {
        rassert (sorted_wrt (\<lambda>a b. stake a \<ge> stake b) ret);
        accumulate_stake 0 ret })"

subsection \<open>The proposer of a round\<close>

text \<open>\<open>hash_proposer\<close> is BLAKE3 keyed with \<^verbatim>\<open>hash_keys.proposer\<close>; its output has 32 bytes.\<close>

definition proposer_from_height_round ::
  "(bytes \<Rightarrow> bytes) \<Rightarrow> roster \<Rightarrow> u64 \<Rightarrow> u32 \<Rightarrow> (nat option \<times> bytes) rust" where
  "proposer_from_height_round hash_proposer roster height round =
     (if length roster = 0 then Some (None, PubKeyID_NIL)
      else do {
        hash_stake_bytes \<leftarrow> slice (hash_proposer (u64_le height @ u32_le round)) 0 8;
        let hash_stake = (word_of_nat (le_val hash_stake_bytes) :: u64);
        let last_included_i = active_roster_len roster - 1;
        last \<leftarrow> index roster last_included_i;
        let total_included_stake = cumulative_stake last;
        if total_included_stake = 0 then Some (None, PubKeyID_NIL)
        else do {
          let proposer_stake = hash_stake mod total_included_stake;
          let roster_i = partition_point (\<lambda>m. cumulative_stake m \<le> proposer_stake) roster;
          m \<leftarrow> index roster roster_i;
          Some (Some roster_i, pub_key m) } })"

subsection \<open>Thresholds\<close>

primrec sum_stake :: "u64 \<Rightarrow> roster \<Rightarrow> u64 rust" where
  "sum_stake acc [] = Some acc"
| "sum_stake acc (m # ms) = do { acc \<leftarrow> checked_add acc (stake m); sum_stake acc ms }"

definition f_from_n :: "u64 \<Rightarrow> u64 rust" where
  "f_from_n n = do { m \<leftarrow> checked_sub n 1; Some (m div 3) }"

text \<open>The pair of \<^verbatim>\<open>big_threshold\<close> and \<^verbatim>\<open>small_threshold\<close>.\<close>

definition thresholds :: "u64 \<Rightarrow> (u64 \<times> u64) rust" where
  "thresholds total_active_stake = do {
     f \<leftarrow> f_from_n total_active_stake;
     if f = 0 then Some (total_active_stake, total_active_stake)
     else do {
       f2 \<leftarrow> checked_mul 2 f;
       big \<leftarrow> checked_add f2 1;
       small \<leftarrow> checked_add f 1;
       Some (big, small) } }"

definition roster_thresholds :: "roster \<Rightarrow> (u64 \<times> u64) rust" where
  "roster_thresholds roster = do {
     total \<leftarrow> sum_stake 0 (take (active_roster_len roster) roster);
     thresholds total }"

text \<open>The stake of a list of members, and the rosters on which the sums do not overflow.\<close>

definition stakes :: "roster \<Rightarrow> nat" where
  "stakes ms = (\<Sum>m\<leftarrow>ms. unat (stake m))"

definition active_stake :: "roster \<Rightarrow> nat" where
  "active_stake roster = stakes (take (active_roster_len roster) roster)"

definition roster_ok :: "roster \<Rightarrow> bool" where
  "roster_ok roster \<longleftrightarrow> stakes roster < 2 ^ 64 \<and>
     (\<forall>i < length roster. unat (cumulative_stake (roster ! i)) = stakes (take (Suc i) roster))"

section \<open>Weighted quorums\<close>

locale weighted_quorum =
  fixes members :: "'m set" and weight :: "'m \<Rightarrow> nat" and quorum :: nat
  assumes finite_members: "finite members"
begin

lemma quorum_overlap:
  assumes "A \<subseteq> members" "B \<subseteq> members" "quorum \<le> sum weight A" "quorum \<le> sum weight B"
  shows "2 * quorum \<le> sum weight (A \<inter> B) + sum weight members"
proof -
  have "finite A" "finite B" using assms finite_members finite_subset by auto
  then have "sum weight A + sum weight B = sum weight (A \<union> B) + sum weight (A \<inter> B)"
    by (rule sum.union_inter [symmetric])
  moreover have "sum weight (A \<union> B) \<le> sum weight members"
    using assms finite_members by (intro sum_mono2) auto
  ultimately show ?thesis using assms by linarith
qed

lemma honest_in_two_quorums:
  assumes "A \<subseteq> members" "B \<subseteq> members" "quorum \<le> sum weight A" "quorum \<le> sum weight B"
    and "F \<subseteq> members" and few: "sum weight F + sum weight members < 2 * quorum"
  shows "\<exists>m \<in> A \<inter> B. m \<notin> F"
proof (rule ccontr)
  assume "\<not> ?thesis"
  then have "A \<inter> B \<subseteq> F" by blast
  then have "sum weight (A \<inter> B) \<le> sum weight F"
    using assms(5) finite_members by (meson finite_subset sum_mono2 zero_le)
  with quorum_overlap [OF assms(1-4)] few show False by linarith
qed

end

section \<open>The sorted roster\<close>

interpretation stxc: exact_codec StakeTxId_write StakeTxId_read "\<lambda>t. length (stx_txid t) = 32"
  by unfold_locales (auto simp: StakeTxId_write_def StakeTxId_read_def codec_simps bind_eq_Some_conv
      codec_iff)

interpretation rmc: exact_codec RosterMember_write RosterMember_read RosterMember_ok
proof unfold_locales
  fix m rest assume "RosterMember_ok m"
  then show "RosterMember_read (RosterMember_write m @ rest) = Some (m, rest)"
    using stxc.read_n_write_all [of "rm_txids m" rest] u64c.dec_enc [of "word_of_nat (length (rm_txids m))"]
    by (cases m) (simp add: RosterMember_ok_def RosterMember_read_def RosterMember_write_def codec_simps
        unat_of_nat)
next
  fix buf m rest assume "RosterMember_read buf = Some (m, rest)"
  then obtain pk pw n b1 txs where r: "buf = pk @ u64_le pw @ u64_le n @ b1" "length pk = 32"
      "read_n (unat n) StakeTxId_read b1 = Some (txs, rest)"
      "m = \<lparr>rm_pub_key = pk, voting_power = pw, rm_txids = txs\<rparr>"
    by (auto simp: RosterMember_read_def bind_eq_Some_conv codec_iff)
  have "unat n < 2 ^ 64" using unsigned_less [of n, where ?'a = nat] by simp
  with r stxc.read_n_exact [OF r(3)]
  show "buf = RosterMember_write m @ rest \<and> RosterMember_ok m"
    by (auto simp: RosterMember_write_def RosterMember_ok_def)
qed

lemma mset_sort_by_key_desc [simp]: "mset (sort_by_key_desc key xs) = mset xs"
  by (simp add: sort_by_key_desc_def)

lemma sort_by_key_desc_sorted: "sorted_wrt (\<lambda>a b. key a \<ge> key b) (sort_by_key_desc key xs)"
proof -
  have "sorted (map key (sort_key key (rev xs)))" by simp
  then have "sorted_wrt (\<lambda>a b. key a \<le> key b) (sort_key key (rev xs))"
    by (simp add: sorted_wrt_map)
  then show ?thesis by (simp add: sort_by_key_desc_def sorted_wrt_rev)
qed

lemma sort_by_key_desc_cong:
  assumes "mset xs = mset ys" and "inj_on key (set xs)"
  shows "sort_by_key_desc key xs = sort_by_key_desc key ys"
proof -
  have "sort_key key (rev xs) = sort_key key (rev ys)"
    using assms by (intro sort_key_inj_key_eq) simp_all
  then show ?thesis by (simp add: sort_by_key_desc_def)
qed

lemma stakes_simps [simp]: "stakes [] = 0" "stakes (m # ms) = unat (stake m) + stakes ms"
  "stakes (xs @ ys) = stakes xs + stakes ys"
  by (simp_all add: stakes_def)

lemma accumulate_stake_ok:
  "unat acc + stakes ms < 2 ^ 64 \<Longrightarrow> \<exists>r. accumulate_stake acc ms = Some r \<and>
     map pub_key r = map pub_key ms \<and> map stake r = map stake ms \<and>
     (\<forall>i < length r. unat (cumulative_stake (r ! i)) = unat acc + stakes (take (Suc i) ms))"
proof (induction ms arbitrary: acc)
  case (Cons m ms)
  let ?acc = "acc + stake m"
  from Cons.prems have a: "checked_add acc (stake m) = Some ?acc" by (simp add: checked_add_def)
  have u: "unat ?acc = unat acc + unat (stake m)" by (rule checked_add_unat [OF a])
  with Cons.prems have "unat ?acc + stakes ms < 2 ^ 64" by simp
  from Cons.IH [OF this] obtain r where r: "accumulate_stake ?acc ms = Some r"
      "map pub_key r = map pub_key ms" "map stake r = map stake ms"
      "\<forall>i < length r. unat (cumulative_stake (r ! i)) = unat ?acc + stakes (take (Suc i) ms)"
    by blast
  have "unat (cumulative_stake ((m\<lparr>cumulative_stake := ?acc\<rparr> # r) ! i)) =
      unat acc + stakes (take (Suc i) (m # ms))" if "i < Suc (length r)" for i
    using that r(4) u by (cases i) simp_all
  with a r show ?case by simp
qed simp

lemma accumulate_stake_overflow:
  "2 ^ 64 \<le> unat acc + stakes ms \<Longrightarrow> accumulate_stake acc ms = None"
proof (induction ms arbitrary: acc)
  case Nil
  then show ?case using unsigned_less [of acc, where ?'a = nat] by simp
next
  case (Cons m ms)
  show ?case
  proof (cases "checked_add acc (stake m)")
    case (Some acc')
    with Cons checked_add_unat [OF Some] show ?thesis by simp
  qed simp
qed

lemma stakes_map_stake: "map stake r = map stake ms \<Longrightarrow> stakes r = stakes ms"
proof -
  assume e: "map stake r = map stake ms"
  have "stakes xs = sum_list (map unat (map stake xs))" for xs
    by (simp add: stakes_def comp_def)
  then show ?thesis by (simp only: e)
qed

lemma stakes_mset: "mset xs = mset ys \<Longrightarrow> stakes xs = stakes ys"
proof -
  assume "mset xs = mset ys"
  then have "sum_mset (image_mset (\<lambda>m. unat (stake m)) (mset xs)) =
      sum_mset (image_mset (\<lambda>m. unat (stake m)) (mset ys))" by simp
  then show ?thesis unfolding stakes_def by (simp only: mset_map [symmetric] sum_mset_sum_list)
qed

lemma roster_from_internal_run:
  fixes vals
  defines "ms \<equiv> sort_by_key_desc (\<lambda>m. (stake m, pub_key m))
    (map (\<lambda>v. \<lparr>pub_key = rm_pub_key v, stake = voting_power v, cumulative_stake = 0\<rparr>) vals)"
  shows "tenderlink_roster_from_internal vals = accumulate_stake 0 ms" "stakes ms = (\<Sum>v\<leftarrow>vals. unat (voting_power v))"
    "sorted_wrt (\<lambda>a b. (stake a, pub_key a) \<ge> (stake b, pub_key b)) ms"
proof -
  show sorted: "sorted_wrt (\<lambda>a b. (stake a, pub_key a) \<ge> (stake b, pub_key b)) ms" unfolding ms_def by (rule sort_by_key_desc_sorted)
  then have "sorted_wrt (\<lambda>a b. stake a \<ge> stake b) ms"
    by (rule sorted_wrt_mono_rel [rotated]) (auto simp: less_eq_prod_def split: if_splits)
  then show "tenderlink_roster_from_internal vals = accumulate_stake 0 ms"
    by (simp add: tenderlink_roster_from_internal_def Let_def rassert_def ms_def)
  have "mset ms = mset (map (\<lambda>v. \<lparr>pub_key = rm_pub_key v, stake = voting_power v, cumulative_stake = 0\<rparr>) vals)" by (simp add: ms_def)
  from stakes_mset [OF this] show "stakes ms = (\<Sum>v\<leftarrow>vals. unat (voting_power v))" by (simp add: stakes_def comp_def)
qed

lemma roster_from_internal_total:
  "(\<Sum>v\<leftarrow>vals. unat (voting_power v)) < 2 ^ 64 \<Longrightarrow> \<exists>r. tenderlink_roster_from_internal vals = Some r"
  unfolding roster_from_internal_run(1) roster_from_internal_run(2) [symmetric]
  by (drule accumulate_stake_ok [of 0, unfolded unsigned_0 add_0]) blast

text \<open>\<^verbatim>\<open>tenderlink_roster_from_internal\<close> panics exactly when the voting powers sum to \<open>2^64\<close> or more.
  Otherwise its result has the same finalizers with the same stakes, sorted by stake and then by key,
  largest first, and each cumulative stake is the sum of the stakes up to and including that member.\<close>

theorem roster_from_internal:
  "if (\<Sum>v\<leftarrow>vals. unat (voting_power v)) < 2 ^ 64
   then \<exists>r. tenderlink_roster_from_internal vals = Some r \<and> roster_ok r \<and>
     mset (map (\<lambda>m. (pub_key m, stake m)) r) = mset (map (\<lambda>v. (rm_pub_key v, voting_power v)) vals) \<and>
     sorted_wrt (\<lambda>a b. (stake a, pub_key a) \<ge> (stake b, pub_key b)) r
   else tenderlink_roster_from_internal vals = None"
proof -
  let ?ms = "map (\<lambda>v. \<lparr>pub_key = rm_pub_key v, stake = voting_power v, cumulative_stake = 0\<rparr>) vals"
  let ?key = "\<lambda>m. (stake m, pub_key m)"
  let ?s = "sort_by_key_desc ?key ?ms"
  note run = roster_from_internal_run(1) [of vals] and sum = roster_from_internal_run(2) [of vals] and
    sorted = roster_from_internal_run(3) [of vals]
  have "mset ?s = mset ?ms" by simp
  show ?thesis
  proof (cases "stakes ?s < 2 ^ 64")
    case True
    with accumulate_stake_ok [of 0 ?s] obtain r where r: "accumulate_stake 0 ?s = Some r"
        "map pub_key r = map pub_key ?s" "map stake r = map stake ?s"
        "\<forall>i < length r. unat (cumulative_stake (r ! i)) = stakes (take (Suc i) ?s)"
      by auto
    have zip: "map (\<lambda>m. (pub_key m, stake m)) xs = zip (map pub_key xs) (map stake xs)"
      for xs :: roster by (induction xs) simp_all
    have "mset (map (\<lambda>m. (pub_key m, stake m)) r) = mset (map (\<lambda>m. (pub_key m, stake m)) ?s)"
      using r(2,3) by (simp only: zip)
    also have "\<dots> = image_mset (\<lambda>m. (pub_key m, stake m)) (mset ?ms)" by (simp only: mset_map \<open>mset ?s = mset ?ms\<close>)
    finally have ms: "mset (map (\<lambda>m. (pub_key m, stake m)) r) =
        mset (map (\<lambda>v. (rm_pub_key v, voting_power v)) vals)"
      by (simp add: image_mset.compositionality comp_def)
    have len: "length r = length ?s" using r(2) map_eq_imp_length_eq by blast
    then have "sorted_wrt (\<lambda>a b. ?key a \<ge> ?key b) r"
      using sorted r(2,3) unfolding sorted_wrt_iff_nth_less
      by (smt (verit, best) nth_map order.strict_trans)
    moreover have "roster_ok r"
      using r(3,4) True stakes_map_stake [OF r(3)] len
        stakes_map_stake [of "take (Suc i) r" "take (Suc i) ?s" for i]
      by (simp add: roster_ok_def take_map [symmetric])
    ultimately show ?thesis using r(1) run ms True sum by simp
  next
    case False
    with run accumulate_stake_overflow [of 0 ?s] sum show ?thesis by simp
  qed
qed

text \<open>Every node computes the same roster whatever the order in which it learnt of the
  finalizers.\<close>

theorem roster_order_independent:
  assumes "mset vals = mset vals'"
  shows "tenderlink_roster_from_internal vals = tenderlink_roster_from_internal vals'"
proof -
  let ?f = "\<lambda>v. \<lparr>pub_key = rm_pub_key v, stake = voting_power v, cumulative_stake = 0\<rparr>"
  have "inj_on (\<lambda>m. (stake m, pub_key m)) (set (map ?f vals))" by (auto simp: inj_on_def)
  then have "sort_by_key_desc (\<lambda>m. (stake m, pub_key m)) (map ?f vals) =
      sort_by_key_desc (\<lambda>m. (stake m, pub_key m)) (map ?f vals')"
    using assms by (intro sort_by_key_desc_cong) simp_all
  then show ?thesis by (simp only: tenderlink_roster_from_internal_def Let_def)
qed

definition sample_member :: "nat \<Rightarrow> u64 \<Rightarrow> RosterMember" where
  "sample_member k v = \<lparr>rm_pub_key = replicate 32 (word_of_nat k), voting_power = v, rm_txids = []\<rparr>"

theorem roster_order_independent_witness:
  "tenderlink_roster_from_internal [sample_member 1 5, sample_member 2 7] =
   tenderlink_roster_from_internal [sample_member 2 7, sample_member 1 5]"
  by (rule roster_order_independent) simp


section \<open>The proposer draw\<close>

lemma stakes_take_mono: "i \<le> j \<Longrightarrow> stakes (take i r) \<le> stakes (take j r)"
  by (metis le_add1 le_add_diff_inverse stakes_simps(3) take_add)

lemma stakes_take_Suc: "i < length r \<Longrightarrow> stakes (take (Suc i) r) = stakes (take i r) + unat (stake (r ! i))"
  by (simp add: take_Suc_conv_app_nth)

lemma partition_point_less: "i < partition_point P xs \<Longrightarrow> i < length xs \<and> P (xs ! i)"
  unfolding partition_point_def by (metis length_takeWhile_le nth_mem order.strict_trans2 set_takeWhileD takeWhile_nth)

lemma partition_point_stop: "partition_point P xs < length xs \<Longrightarrow> \<not> P (xs ! partition_point P xs)"
  unfolding partition_point_def by (rule nth_length_takeWhile)

abbreviation drawn :: "roster \<Rightarrow> u64 \<Rightarrow> nat" where
  "drawn r x \<equiv> partition_point (\<lambda>m. cumulative_stake m \<le> x) r"

lemma drawn_interval:
  assumes ok: "roster_ok r" and n: "n \<le> length r" and x: "unat x < stakes (take n r)"
  shows "drawn r x < n \<and> stakes (take (drawn r x) r) \<le> unat x \<and> unat x < stakes (take (Suc (drawn r x)) r)"
proof -
  let ?i = "drawn r x"
  have cum: "unat (cumulative_stake (r ! j)) = stakes (take (Suc j) r)" if "j < length r" for j
    using ok that by (simp add: roster_ok_def)
  have below: "stakes (take (Suc j) r) \<le> unat x" if "j < ?i" for j
    using partition_point_less [OF that] cum [of j] by (simp add: word_le_nat_alt)
  have "?i < n"
  proof (rule ccontr)
    assume "\<not> ?i < n"
    moreover have n0: "0 < n" using x by (cases n) simp_all
    ultimately have "n - 1 < ?i" by linarith
    then show False using below [of "n - 1"] x n0 by simp
  qed
  moreover from this n have "unat x < stakes (take (Suc ?i) r)"
    using partition_point_stop [of "\<lambda>m. cumulative_stake m \<le> x" r] cum [of ?i]
    by (simp add: word_le_nat_alt)
  moreover have "stakes (take ?i r) \<le> unat x"
    using below by (cases ?i) simp_all
  ultimately show ?thesis by blast
qed

lemma drawn_iff:
  assumes "roster_ok r" "n \<le> length r" "unat x < stakes (take n r)" "i < length r"
  shows "drawn r x = i \<longleftrightarrow> stakes (take i r) \<le> unat x \<and> unat x < stakes (take (Suc i) r)"
proof
  assume "drawn r x = i"
  with drawn_interval [OF assms(1-3)] show "stakes (take i r) \<le> unat x \<and> unat x < stakes (take (Suc i) r)"
    by blast
next
  assume i: "stakes (take i r) \<le> unat x \<and> unat x < stakes (take (Suc i) r)"
  note d = drawn_interval [OF assms(1-3)]
  show "drawn r x = i"
  proof (rule linorder_cases)
    assume "drawn r x < i"
    then have "stakes (take (Suc (drawn r x)) r) \<le> stakes (take i r)" by (intro stakes_take_mono) simp
    with d i show ?thesis by linarith
  next
    assume "i < drawn r x"
    then have "stakes (take (Suc i) r) \<le> stakes (take (drawn r x) r)" by (intro stakes_take_mono) simp
    with d i show ?thesis by linarith
  qed simp
qed

lemma inj_on_word_of_nat: "inj_on (word_of_nat :: nat \<Rightarrow> 'w::len word) {..<2 ^ LENGTH('w)}"
proof (rule inj_onI)
  fix x y :: nat
  assume "x \<in> {..<2 ^ LENGTH('w)}" "y \<in> {..<2 ^ LENGTH('w)}" "(word_of_nat x :: 'w word) = word_of_nat y"
  then have "unat (word_of_nat x :: 'w word) = unat (word_of_nat y :: 'w word)"
      "x < 2 ^ LENGTH('w)" "y < 2 ^ LENGTH('w)" by simp_all
  then show "x = y" by (simp add: unat_of_nat take_bit_nat_eq_self)
qed

lemma roster_active_total:
  "roster_ok r \<Longrightarrow> r \<noteq> [] \<Longrightarrow>
     unat (cumulative_stake (r ! (active_roster_len r - 1))) = active_stake r \<and>
     active_roster_len r - 1 < length r \<and> 0 < active_roster_len r"
  by (cases "length r") (auto simp: roster_ok_def active_roster_len_def ROSTER_MAX_N_def active_stake_def
      min_def)

text \<open>C21: on a roster with correct cumulative stakes, a round has no proposer exactly when the active
  members have no stake; otherwise the proposer is an active member with positive stake, the one whose
  stake interval contains the hash of height and round modulo the active stake.\<close>

theorem proposer_spec:
  assumes "roster_ok r" and "length (hash_proposer (u64_le h @ u32_le rnd)) = 32"
  shows "if active_stake r = 0
    then proposer_from_height_round hash_proposer r h rnd = Some (None, PubKeyID_NIL)
    else \<exists>i. proposer_from_height_round hash_proposer r h rnd = Some (Some i, pub_key (r ! i)) \<and>
      i < active_roster_len r \<and> 0 < unat (stake (r ! i)) \<and>
      stakes (take i r) \<le> le_val (take 8 (hash_proposer (u64_le h @ u32_le rnd))) mod active_stake r \<and>
      le_val (take 8 (hash_proposer (u64_le h @ u32_le rnd))) mod active_stake r < stakes (take (Suc i) r)"
proof (cases "r = []")
  case True
  then show ?thesis
    by (simp add: proposer_from_height_round_def active_stake_def)
next
  case False
  let ?b = "take 8 (hash_proposer (u64_le h @ u32_le rnd))"
  let ?t = "cumulative_stake (r ! (active_roster_len r - 1))"
  let ?x = "(word_of_nat (le_val ?b) :: u64) mod ?t"
  note t = roster_active_total [OF assms(1) False]
  have b: "le_val ?b < 2 ^ 64" using le_val_bound [of ?b] assms(2) by simp
  have x: "unat ?x = le_val ?b mod active_stake r"
    using b t by (simp add: unat_mod unat_of_nat)
  have run: "proposer_from_height_round hash_proposer r h rnd =
      (if ?t = 0 then Some (None, PubKeyID_NIL)
       else do { m \<leftarrow> index r (drawn r ?x); Some (Some (drawn r ?x), pub_key m) })"
    using False t assms(2) by (simp add: proposer_from_height_round_def slice_def Let_def)
  show ?thesis
  proof (cases "active_stake r = 0")
    case True
    then have "?t = 0" using t by (simp add: unat_eq_zero)
    with run True show ?thesis by simp
  next
    case nz: False
    then have "?t \<noteq> 0" using t by auto
    have n: "active_roster_len r \<le> length r" by (simp add: active_roster_len_def)
    have "unat ?x < stakes (take (active_roster_len r) r)"
      using nz x by (simp add: active_stake_def)
    from drawn_interval [OF assms(1) n this] run \<open>?t \<noteq> 0\<close> nz n stakes_take_Suc [of "drawn r ?x" r] x
    show ?thesis by auto
  qed
qed

definition sample_roster :: roster where
  "sample_roster = [\<lparr>pub_key = replicate 32 1, stake = 4, cumulative_stake = 4\<rparr>,
     \<lparr>pub_key = replicate 32 2, stake = 3, cumulative_stake = 7\<rparr>]"

lemma sample_roster_ok: "roster_ok sample_roster"
  by (auto simp: roster_ok_def sample_roster_def less_Suc_eq nth_Cons split: nat.splits)

theorem proposer_spec_witness:
  "\<exists>i. proposer_from_height_round (\<lambda>_. replicate 32 5) sample_roster 3 1 =
     Some (Some i, pub_key (sample_roster ! i)) \<and> i < 2"
  using proposer_spec [OF sample_roster_ok, of "\<lambda>_. replicate 32 5" 3 1]
  by (auto simp: active_stake_def active_roster_len_def ROSTER_MAX_N_def sample_roster_def)




section \<open>Thresholds\<close>

lemma sum_stake_ok:
  "unat acc + stakes ms < 2 ^ 64 \<Longrightarrow> \<exists>t. sum_stake acc ms = Some t \<and> unat t = unat acc + stakes ms"
proof (induction ms arbitrary: acc)
  case (Cons m ms)
  let ?acc = "acc + stake m"
  from Cons.prems have a: "checked_add acc (stake m) = Some ?acc" by (simp add: checked_add_def)
  have "unat ?acc = unat acc + unat (stake m)" by (rule checked_add_unat [OF a])
  with Cons.IH [of ?acc] Cons.prems a show ?case by auto
qed simp

lemma sum_stake_unat: "sum_stake acc ms = Some t \<Longrightarrow> unat t = unat acc + stakes ms"
  by (induction ms arbitrary: acc) (auto simp: bind_eq_Some_conv dest!: checked_add_unat)

lemma unat_div_3: "unat ((m :: u64) div 3) = unat m div 3"
  by (simp add: unat_div)

lemma f_from_n_Some: "f_from_n n = Some f \<longleftrightarrow> 0 < unat n \<and> unat f = (unat n - 1) div 3"
proof -
  have "(1 :: u64) \<le> n \<longleftrightarrow> 0 < unat n"
    by (simp add: word_le_nat_alt) linarith
  then have "f_from_n n = (if 0 < unat n then Some ((n - 1) div 3) else None)"
    by (simp add: f_from_n_def checked_sub_def)
  moreover have "unat ((n - 1) div 3) = (unat n - 1) div 3" if "0 < unat n"
  proof -
    have "unat (n - 1) = unat n - 1" using that by (intro unat_minus_one) auto
    then show ?thesis by (simp only: unat_div_3)
  qed
  ultimately show ?thesis by (auto simp: word_unat_eq_iff)
qed

lemma thresholds_nat:
  assumes "thresholds n = Some (big, small)"
  shows "0 < unat n \<and>
    (if unat n \<le> 3 then unat big = unat n \<and> unat small = unat n
     else unat big = 2 * ((unat n - 1) div 3) + 1 \<and> unat small = (unat n - 1) div 3 + 1)"
proof -
  from assms obtain f where f: "f_from_n n = Some f"
    and r: "(if f = 0 then Some (n, n) else do { f2 \<leftarrow> checked_mul 2 f; b \<leftarrow> checked_add f2 1;
        s \<leftarrow> checked_add f 1; Some (b, s) }) = Some (big, small)"
    by (auto simp: thresholds_def bind_eq_Some_conv)
  have n: "0 < unat n" "unat f = (unat n - 1) div 3" using f by (simp_all add: f_from_n_Some)
  have z: "f = 0 \<longleftrightarrow> unat n \<le> 3" using n by (auto simp: word_unat_eq_iff)
  show ?thesis
  proof (cases "f = 0")
    case True
    with r n z show ?thesis by auto
  next
    case False
    with r obtain f2 where "checked_mul 2 f = Some f2" "checked_add f2 1 = Some big"
        "checked_add f 1 = Some small"
      by (auto simp: bind_eq_Some_conv)
    moreover from this have "unat f2 = 2 * unat f"
      by (auto simp: checked_mul_def unat_word_ariths split: if_splits)
    ultimately show ?thesis using False z n by (simp add: checked_add_unat)
  qed
qed

lemma thresholds_total: "0 < unat n \<Longrightarrow> \<exists>big small. thresholds n = Some (big, small)"
proof -
  assume n: "0 < unat n"
  then obtain f where f: "f_from_n n = Some f" "unat f = (unat n - 1) div 3"
    using f_from_n_Some [of n "word_of_nat ((unat n - 1) div 3)"]
      unsigned_less [of n, where ?'a = nat] by (auto simp: unat_of_nat)
  have "3 * unat f < 2 ^ 64" using f(2) unsigned_less [of n, where ?'a = nat] by simp
  then show ?thesis
    using f(1) by (auto simp: thresholds_def checked_mul_def checked_add_def unat_word_ariths)
qed

lemma sum_stake_index: "stakes ms = (\<Sum>i < length ms. unat (stake (ms ! i)))"
  by (simp add: stakes_def sum_list_sum_nth atLeast0LessThan)

text \<open>The active members of a roster, weighted by stake, are a quorum system.\<close>

interpretation rq: weighted_quorum "{..<active_roster_len r}" "\<lambda>i. unat (stake (r ! i))" q for r q
  by unfold_locales simp

lemma active_stake_sum: "active_stake r = (\<Sum>i < active_roster_len r. unat (stake (r ! i)))"
  by (simp add: active_stake_def sum_stake_index active_roster_len_def)

lemma roster_thresholds_nat:
  "roster_thresholds r = Some (big, small) \<Longrightarrow> 0 < active_stake r \<and>
    (if active_stake r \<le> 3 then unat big = active_stake r \<and> unat small = active_stake r
     else unat big = 2 * ((active_stake r - 1) div 3) + 1 \<and> unat small = (active_stake r - 1) div 3 + 1)"
  by (auto simp: roster_thresholds_def bind_eq_Some_conv active_stake_def dest!: sum_stake_unat thresholds_nat)

text \<open>C13: when the active stake is \<open>3 * f + 1\<close>, the thresholds are \<open>2 * f + 1\<close> and \<open>f + 1\<close>, and any two
  sets of active finalizers that reach the big threshold have in common a finalizer outside every set
  of faulty finalizers of stake at most \<open>f\<close>.\<close>

theorem two_quorums_share_honest:
  assumes "roster_thresholds r = Some (big, small)" and "active_stake r = 3 * f + 1"
    and "A \<subseteq> {..<active_roster_len r}" "unat big \<le> (\<Sum>i\<in>A. unat (stake (r ! i)))"
    and "B \<subseteq> {..<active_roster_len r}" "unat big \<le> (\<Sum>i\<in>B. unat (stake (r ! i)))"
    and "F \<subseteq> {..<active_roster_len r}" "(\<Sum>i\<in>F. unat (stake (r ! i))) \<le> f"
  shows "\<exists>i \<in> A \<inter> B. i \<notin> F"
proof (rule rq.honest_in_two_quorums [OF assms(3,5,4,6,7)])
  have "unat big = 2 * f + 1"
    using roster_thresholds_nat [OF assms(1)] assms(2) by (auto split: if_splits)
  then show "(\<Sum>i\<in>F. unat (stake (r ! i))) + (\<Sum>i<active_roster_len r. unat (stake (r ! i))) < 2 * unat big"
    using assms(2,8) by (simp add: active_stake_sum)
qed

definition equal_roster :: "nat \<Rightarrow> u64 \<Rightarrow> roster" where
  "equal_roster n s = map (\<lambda>i. \<lparr>pub_key = replicate 32 (word_of_nat i), stake = s,
     cumulative_stake = word_of_nat (Suc i) * s\<rparr>) [0..<n]"

lemma equal_roster_simps [simp]:
  "length (equal_roster n s) = n"
  "i < n \<Longrightarrow> stake (equal_roster n s ! i) = s"
  "i < n \<Longrightarrow> cumulative_stake (equal_roster n s ! i) = word_of_nat (Suc i) * s"
  "k \<le> n \<Longrightarrow> take k (equal_roster n s) = equal_roster k s"
  "stakes (equal_roster n s) = n * unat s"
  by (simp_all add: equal_roster_def take_map stakes_def comp_def sum_list_triv)

lemma roster_thresholds_total:
  "active_stake r < 2 ^ 64 \<Longrightarrow> 0 < active_stake r \<Longrightarrow> \<exists>big small. roster_thresholds r = Some (big, small)"
  using sum_stake_ok [of 0 "take (active_roster_len r) r"] thresholds_total
  by (fastforce simp: roster_thresholds_def active_stake_def)

lemma equal_roster_thresholds:
  assumes "3 < n" "n \<le> 100"
  shows "roster_thresholds (equal_roster n 1) =
    Some (word_of_nat (2 * ((n - 1) div 3) + 1), word_of_nat ((n - 1) div 3 + 1))"
proof -
  have a: "active_stake (equal_roster n 1) = n"
    using assms by (simp add: active_stake_def active_roster_len_def ROSTER_MAX_N_def)
  with assms obtain big small where r: "roster_thresholds (equal_roster n 1) = Some (big, small)"
    using roster_thresholds_total [of "equal_roster n 1"] by auto
  with roster_thresholds_nat [OF r] a assms
  have "unat big = 2 * ((n - 1) div 3) + 1" "unat small = (n - 1) div 3 + 1" by auto
  moreover have "word_of_nat (unat big) = big" "word_of_nat (unat small) = small" by simp_all
  ultimately show ?thesis unfolding r by metis
qed

theorem two_quorums_share_honest_witness:
  "\<exists>i \<in> {0, 1, 2} \<inter> {1, 2, 3}. i \<notin> {1 :: nat}"
proof (rule two_quorums_share_honest [of "equal_roster 4 1" 3 2 1])
  show "roster_thresholds (equal_roster 4 1) = Some (3, 2)" by (simp add: equal_roster_thresholds)
qed (simp_all add: active_roster_len_def ROSTER_MAX_N_def active_stake_def)

text \<open>C22: the thresholds are too low for other totals. With six finalizers of stake one, \<open>f\<close> is 1 and
  the big threshold is 3, so two disjoint halves of the roster both reach it.\<close>

theorem disjoint_quorums:
  "\<exists>r A B big small. roster_ok r \<and> roster_thresholds r = Some (big, small) \<and>
     A \<subseteq> {..<active_roster_len r} \<and> B \<subseteq> {..<active_roster_len r} \<and> A \<inter> B = {} \<and>
     unat big \<le> (\<Sum>i\<in>A. unat (stake (r ! i))) \<and> unat big \<le> (\<Sum>i\<in>B. unat (stake (r ! i)))"
proof (intro exI conjI)
  let ?r = "equal_roster 6 1"
  have "unat (word_of_nat (Suc i) :: u64) = Suc i" if "i < 6" for i
    using that by (simp only: unat_of_nat) simp
  then show "roster_ok ?r" by (simp add: roster_ok_def)
  show "roster_thresholds ?r = Some (3, 2)" by (simp add: equal_roster_thresholds)
  show "{0, 1, 2} \<subseteq> {..<active_roster_len ?r}" "{3, 4, 5} \<subseteq> {..<active_roster_len ?r}"
    "{0, 1, 2} \<inter> {3, 4, 5 :: nat} = {}"
    "unat (3 :: u64) \<le> (\<Sum>i\<in>{0, 1, 2}. unat (stake (?r ! i)))"
    "unat (3 :: u64) \<le> (\<Sum>i\<in>{3, 4, 5}. unat (stake (?r ! i)))"
    by (simp_all add: active_roster_len_def ROSTER_MAX_N_def)
qed

end
