(* ===== verification/Round_Data.thy ===== *)
theory Round_Data
  imports Roster
begin

text \<open>
  What a finalizer knows of one round: \<^verbatim>\<open>RoundData\<close>, \<^verbatim>\<open>ConsensusCounts\<close> and \<^verbatim>\<open>Timeout\<close> of
  \<^verbatim>\<open>tenderlink/src/lib.rs\<close>, and the two arms of \<^verbatim>\<open>check_and_incorporate_msg\<close> that change it, for a
  proposal chunk and for a vote. A message arm returns the status and the new round data; \<open>None\<close> is a
  panic. The diagnostics printed on the way are not modelled.
\<close>

section \<open>Definitions\<close>

datatype TMStep = Propose | Prevote | Precommit

datatype TMStatus = Indeterminate | Pass | Fail

datatype TMStatusReason = NoReason | NeedsBlock bytes

definition ValueId_NIL :: bytes where "ValueId_NIL = replicate 32 0"
definition TMSig_NIL :: bytes where "TMSig_NIL = replicate 64 0"

subsection \<open>Block values\<close>

definition chunks_n :: "bytes \<Rightarrow> nat" where
  "chunks_n v = (length v + PROPOSAL_CHUNK_DATA_SIZE - 1) div PROPOSAL_CHUNK_DATA_SIZE"

definition chunk_o_size :: "bytes \<Rightarrow> nat \<Rightarrow> (nat \<times> nat) rust" where
  "chunk_o_size v chunk_i = do {
     let pos = chunk_i * PROPOSAL_CHUNK_DATA_SIZE;
     left \<leftarrow> usize_sub (length v) pos;
     Some (pos, min PROPOSAL_CHUNK_DATA_SIZE left) }"

subsection \<open>Counts\<close>

record ConsensusCounts =
  anys :: u64
  prevotes :: u64
  nil_prevotes :: u64
  yes_prevotes :: u64
  precommits :: u64
  yes_precommits :: u64

definition counts_ZERO :: ConsensusCounts where
  "counts_ZERO = \<lparr>anys = 0, prevotes = 0, nil_prevotes = 0, yes_prevotes = 0, precommits = 0,
     yes_precommits = 0\<rparr>"

definition counts_add :: "ConsensusCounts \<Rightarrow> ConsensusCounts \<Rightarrow> ConsensusCounts rust" where
  "counts_add a b = do {
     f1 \<leftarrow> checked_add (anys a) (anys b);
     f2 \<leftarrow> checked_add (prevotes a) (prevotes b);
     f3 \<leftarrow> checked_add (nil_prevotes a) (nil_prevotes b);
     f4 \<leftarrow> checked_add (yes_prevotes a) (yes_prevotes b);
     f5 \<leftarrow> checked_add (precommits a) (precommits b);
     f6 \<leftarrow> checked_add (yes_precommits a) (yes_precommits b);
     Some \<lparr>anys = f1, prevotes = f2, nil_prevotes = f3, yes_prevotes = f4, precommits = f5,
           yes_precommits = f6\<rparr> }"

definition counts_sub :: "ConsensusCounts \<Rightarrow> ConsensusCounts \<Rightarrow> ConsensusCounts rust" where
  "counts_sub a b = do {
     f1 \<leftarrow> checked_sub (anys a) (anys b);
     f2 \<leftarrow> checked_sub (prevotes a) (prevotes b);
     f3 \<leftarrow> checked_sub (nil_prevotes a) (nil_prevotes b);
     f4 \<leftarrow> checked_sub (yes_prevotes a) (yes_prevotes b);
     f5 \<leftarrow> checked_sub (precommits a) (precommits b);
     f6 \<leftarrow> checked_sub (yes_precommits a) (yes_precommits b);
     Some \<lparr>anys = f1, prevotes = f2, nil_prevotes = f3, yes_prevotes = f4, precommits = f5,
           yes_precommits = f6\<rparr> }"

text \<open>A value id with a signature, and the prevote and precommit slots of one finalizer.\<close>

type_synonym val_sig = "bytes \<times> bytes"
type_synonym vote_slots = "val_sig \<times> val_sig"

definition counts_from :: "vote_slots \<Rightarrow> u64 \<Rightarrow> ConsensusCounts" where
  "counts_from val stk =
     (let has0 = snd (fst val) \<noteq> TMSig_NIL;
          has1 = snd (snd val) \<noteq> TMSig_NIL;
          yes0 = fst (fst val) \<noteq> ValueId_NIL;
          yes1 = fst (snd val) \<noteq> ValueId_NIL
      in \<lparr>anys = of_bool (has0 \<or> has1) * stk,
          prevotes = of_bool has0 * stk,
          nil_prevotes = of_bool (\<not> yes0 \<and> has0) * stk,
          yes_prevotes = of_bool (yes0 \<and> has0) * stk,
          precommits = of_bool has1 * stk,
          yes_precommits = of_bool (yes1 \<and> has1) * stk\<rparr>)"

text \<open>The loop that recomputes the counts of a whole round.\<close>

primrec recount_loop ::
  "roster \<Rightarrow> nat \<Rightarrow> vote_slots list \<Rightarrow> ConsensusCounts \<Rightarrow> ConsensusCounts rust" where
  "recount_loop roster i [] acc = Some acc"
| "recount_loop roster i (v # vs) acc = do {
     m \<leftarrow> index roster i;
     acc \<leftarrow> counts_add acc (counts_from v (stake m));
     recount_loop roster (Suc i) vs acc }"

definition recount :: "roster \<Rightarrow> vote_slots list \<Rightarrow> ConsensusCounts rust" where
  "recount roster vs = recount_loop roster 0 vs counts_ZERO"

subsection \<open>Timeouts\<close>

text \<open>An \<^verbatim>\<open>Instant\<close> is a number of milliseconds.\<close>

record Timeout =
  to_time :: nat
  to_height :: u64
  to_round :: u32
  to_step :: TMStep

definition Timeout_new :: "nat \<Rightarrow> u64 \<Rightarrow> u32 \<Rightarrow> TMStep \<Rightarrow> Timeout" where
  "Timeout_new now height round step =
     (let timeout = (case step of
            Propose \<Rightarrow> 5000 + unat round * 1000
          | Prevote \<Rightarrow> 5000 + unat round * 1000
          | Precommit \<Rightarrow> 5000 + unat round * 1000)
      in \<lparr>to_time = now + timeout, to_height = height, to_round = round, to_step = step\<rparr>)"

subsection \<open>Round data\<close>

record RoundData =
  rd_height :: u64
  rd_round :: u32
  proposal :: bytes
  proposal_valid_round :: int
  proposal_sigs :: "bytes list"
  proposal_sigs_n :: nat
  proposal_id :: bytes
  proposal_checked_validity :: "TMStatus \<times> TMStatusReason"
  proposal_is_faulty :: bool
  msg_val_sigs :: "vote_slots list"
  rd_roster :: roster
  rd_counts :: ConsensusCounts
  active_timeout :: "Timeout option"
  timeout_triggered :: "bool \<times> bool"

definition RoundData_EMPTY :: RoundData where
  "RoundData_EMPTY = \<lparr>rd_height = 0, rd_round = 0, proposal = [], proposal_valid_round = - 1,
     proposal_sigs = [], proposal_sigs_n = 0, proposal_id = ValueId_NIL,
     proposal_checked_validity = (Indeterminate, NoReason), proposal_is_faulty = False,
     msg_val_sigs = [], rd_roster = [], rd_counts = counts_ZERO, active_timeout = None,
     timeout_triggered = (False, False)\<rparr>"

definition empty_slots :: vote_slots where
  "empty_slots = ((ValueId_NIL, TMSig_NIL), (ValueId_NIL, TMSig_NIL))"

definition has_full_proposal :: "RoundData \<Rightarrow> bool" where
  "has_full_proposal rd \<longleftrightarrow> proposal_sigs_n rd > 0 \<and> proposal_sigs_n rd = length (proposal_sigs rd)"

definition flush_for_amnesiac_proposer ::
  "bytes \<Rightarrow> int \<Rightarrow> roster \<Rightarrow> nat \<Rightarrow> RoundData \<Rightarrow> RoundData" where
  "flush_for_amnesiac_proposer value_id valid_round roster proposal_size rd =
     (let roster_n = active_roster_len roster;
          rd = RoundData_EMPTY\<lparr>rd_height := rd_height rd, rd_round := rd_round rd,
            proposal_id := value_id, proposal_valid_round := valid_round,
            msg_val_sigs := replicate roster_n empty_slots, rd_roster := take roster_n roster,
            active_timeout := active_timeout rd, timeout_triggered := timeout_triggered rd\<rparr>;
          rd = rd\<lparr>proposal := replicate proposal_size 0\<rparr>
      in rd\<lparr>proposal_sigs := replicate (chunks_n (proposal rd)) TMSig_NIL\<rparr>)"

definition has_enough_info_to_determine_validity :: "RoundData \<Rightarrow> bool" where
  "has_enough_info_to_determine_validity rd \<longleftrightarrow> proposal_is_faulty rd \<or> has_full_proposal rd"

subsection \<open>A proposal chunk\<close>

text \<open>
  ``Have they previously proposed a different value?'' \<open>None\<close> stands for the early \<^verbatim>\<open>return Fail\<close>,
  which leaves the round data as it is.
\<close>

definition check_previous_proposal ::
  "bool \<Rightarrow> bool \<Rightarrow> roster \<Rightarrow> bytes \<Rightarrow> int \<Rightarrow> nat \<Rightarrow> RoundData \<Rightarrow> RoundData option" where
  "check_previous_proposal is_my_proposal is_prev_seen_round roster value_id valid_round sz rd =
     (if is_prev_seen_round \<and> proposal_sigs_n rd > 0
      then
        if is_my_proposal \<and> (length (proposal rd) \<noteq> sz \<or> proposal_id rd \<noteq> value_id \<or>
             proposal_valid_round rd \<noteq> valid_round)
        then Some (flush_for_amnesiac_proposer value_id valid_round roster sz rd)
        else if length (proposal rd) \<noteq> sz then None
        else if proposal_id rd \<noteq> value_id then None
        else if proposal_valid_round rd \<noteq> valid_round then None
        else Some rd
      else
        let rd = rd\<lparr>proposal := replicate sz 0\<rparr>
        in Some (rd\<lparr>proposal_sigs := replicate (chunks_n (proposal rd)) TMSig_NIL\<rparr>))"

definition speculative_fault :: "bytes \<Rightarrow> val_sig \<Rightarrow> bool" where
  "speculative_fault value_id v \<longleftrightarrow> fst v \<noteq> ValueId_NIL \<and> fst v \<noteq> value_id"

definition clear_speculative :: "bytes \<Rightarrow> val_sig \<Rightarrow> val_sig" where
  "clear_speculative value_id v =
     (if speculative_fault value_id v then (ValueId_NIL, TMSig_NIL) else v)"

definition first_proposal_chunk :: "roster \<Rightarrow> bytes \<Rightarrow> RoundData \<Rightarrow> RoundData rust" where
  "first_proposal_chunk roster value_id rd = do {
     let rd = rd\<lparr>proposal_id := value_id\<rparr>;
     let prev_sig_had_fault =
       list_ex (\<lambda>(v, c). speculative_fault value_id v \<or> speculative_fault value_id c) (msg_val_sigs rd);
     let rd = rd\<lparr>msg_val_sigs :=
       map (\<lambda>(v, c). (clear_speculative value_id v, clear_speculative value_id c)) (msg_val_sigs rd)\<rparr>;
     if prev_sig_had_fault
     then do { c \<leftarrow> recount roster (msg_val_sigs rd); Some (rd\<lparr>rd_counts := c\<rparr>) }
     else Some rd }"

definition store_new_chunk ::
  "(bytes \<Rightarrow> bytes) \<Rightarrow> roster \<Rightarrow> nat \<Rightarrow> bytes \<Rightarrow> int \<Rightarrow> nat \<Rightarrow> bytes \<Rightarrow> bytes \<Rightarrow> RoundData \<Rightarrow>
   (TMStatus \<times> RoundData) rust" where
  "store_new_chunk hash_value_id roster chunk_i value_id valid_round chunk_o chunk_data sig rd = do {
     p \<leftarrow> copy_into (proposal rd) chunk_o chunk_data;
     sigs \<leftarrow> set_index (proposal_sigs rd) chunk_i sig;
     let rd = rd\<lparr>proposal := p, proposal_sigs := sigs, proposal_sigs_n := proposal_sigs_n rd + 1,
       proposal_valid_round := valid_round\<rparr>;
     rd \<leftarrow> (if proposal_id rd = ValueId_NIL then first_proposal_chunk roster value_id rd else Some rd);
     if proposal_sigs_n rd = length (proposal_sigs rd) \<and> proposal_id rd \<noteq> hash_value_id (proposal rd)
     then Some (Fail, rd\<lparr>proposal_is_faulty := True\<rparr>)
     else Some (Pass, rd) }"

definition incorporate_proposal_chunk ::
  "(bytes \<Rightarrow> bytes) \<Rightarrow> bool \<Rightarrow> bool \<Rightarrow> roster \<Rightarrow> nat \<Rightarrow> bytes \<Rightarrow> int \<Rightarrow> bytes \<Rightarrow> bytes \<Rightarrow> RoundData \<Rightarrow>
   (TMStatus \<times> RoundData) rust" where
  "incorporate_proposal_chunk hash_value_id is_my_proposal is_prev_seen_round roster chunk_i value_id
       valid_round signed_data sig rd =
     (case PacketProposalChunkHeader_read_from signed_data of
        None \<Rightarrow> Some (Fail, rd)
      | Some (hdr, _) \<Rightarrow>
          let sz = unat (ch_proposal_size hdr) in
          (case check_previous_proposal is_my_proposal is_prev_seen_round roster value_id valid_round
                  sz rd of
             None \<Rightarrow> Some (Fail, rd)
           | Some rd \<Rightarrow> do {
               (chunk_o, chunk_size) \<leftarrow> chunk_o_size (proposal rd) chunk_i;
               chunk_data \<leftarrow> slice signed_data 56 (56 + chunk_size);
               old_sig \<leftarrow> index (proposal_sigs rd) chunk_i;
               if old_sig = TMSig_NIL
               then store_new_chunk hash_value_id roster chunk_i value_id valid_round chunk_o chunk_data
                 sig rd
               else if old_sig \<noteq> sig
               then if is_my_proposal
                 then Some (Pass, flush_for_amnesiac_proposer value_id valid_round roster sz rd)
                 else Some (Fail, rd\<lparr>proposal_is_faulty := True\<rparr>)
               else Some (Pass, rd) }))"

subsection \<open>A vote\<close>

definition slot :: "bool \<Rightarrow> vote_slots \<Rightarrow> val_sig" where
  "slot is_precommit v = (if is_precommit then snd v else fst v)"

definition set_slot :: "bool \<Rightarrow> val_sig \<Rightarrow> vote_slots \<Rightarrow> vote_slots" where
  "set_slot is_precommit x v = (if is_precommit then (fst v, x) else (x, snd v))"

definition incorporate_vote ::
  "roster \<Rightarrow> nat \<Rightarrow> bool \<Rightarrow> bytes \<Rightarrow> bytes \<Rightarrow> RoundData \<Rightarrow> (TMStatus \<times> RoundData) rust" where
  "incorporate_vote roster roster_i is_precommit value_id sig rd =
     (if value_id \<noteq> ValueId_NIL \<and> proposal_sigs_n rd \<noteq> 0 \<and> proposal_id rd \<noteq> value_id
      then Some (Fail, rd)
      else do {
        let status = (if value_id = ValueId_NIL then Pass
                      else if proposal_sigs_n rd = 0 then Indeterminate else Pass);
        slots \<leftarrow> index (msg_val_sigs rd) roster_i;
        let old_val_sig = slot is_precommit slots;
        let new_val_sig = (value_id, sig);
        if snd old_val_sig \<noteq> TMSig_NIL \<and> new_val_sig \<noteq> old_val_sig
        then Some (Fail, rd)
        else do {
          m \<leftarrow> index roster roster_i;
          let old_cs = counts_from slots (stake m);
          let slots = set_slot is_precommit new_val_sig slots;
          msgs \<leftarrow> set_index (msg_val_sigs rd) roster_i slots;
          let new_cs = counts_from slots (stake m);
          d \<leftarrow> counts_sub new_cs old_cs;
          c \<leftarrow> counts_add (rd_counts rd) d;
          check_counts \<leftarrow> recount roster msgs;
          Some (status, rd\<lparr>msg_val_sigs := msgs, rd_counts := c\<rparr>) } })"

subsection \<open>The decided round\<close>

text \<open>\<^verbatim>\<open>round_data_to_fat_pointer\<close>: the precommits for the proposal, with the keys of their signers.\<close>

primrec commit_signatures ::
  "roster \<Rightarrow> bytes \<Rightarrow> nat \<Rightarrow> vote_slots list \<Rightarrow> FatPointerSignature list rust" where
  "commit_signatures roster pid i [] = Some []"
| "commit_signatures roster pid i (v # vs) =
     (if fst (snd v) = pid \<and> snd (snd v) \<noteq> TMSig_NIL
      then do {
        m \<leftarrow> index roster i;
        rest \<leftarrow> commit_signatures roster pid (Suc i) vs;
        Some (\<lparr>fps_pub_key = pub_key m, vote_signature = snd (snd v)\<rparr> # rest) }
      else commit_signatures roster pid (Suc i) vs)"

definition round_data_to_fat_pointer :: "RoundData \<Rightarrow> roster \<Rightarrow> FatPointerToBftBlock rust" where
  "round_data_to_fat_pointer rd roster = do {
     r \<leftarrow> checked_add (rd_round rd) 0x80000000;
     sigs \<leftarrow> commit_signatures roster (proposal_id rd) 0 (msg_val_sigs rd);
     Some \<lparr>vote_for_block = proposal_id rd @ u64_le (rd_height rd) @ u32_le r, fp_signatures = sigs\<rparr> }"

section \<open>Counts as sums of stake\<close>

datatype count_kind = Anys | Prevotes | NilPrevotes | YesPrevotes | Precommits | YesPrecommits

fun count :: "count_kind \<Rightarrow> ConsensusCounts \<Rightarrow> u64" where
  "count Anys c = anys c"
| "count Prevotes c = prevotes c"
| "count NilPrevotes c = nil_prevotes c"
| "count YesPrevotes c = yes_prevotes c"
| "count Precommits c = precommits c"
| "count YesPrecommits c = yes_precommits c"

text \<open>Whether the slots of a finalizer count towards a kind.\<close>

fun counts_in :: "count_kind \<Rightarrow> vote_slots \<Rightarrow> bool" where
  "counts_in Anys v \<longleftrightarrow> snd (fst v) \<noteq> TMSig_NIL \<or> snd (snd v) \<noteq> TMSig_NIL"
| "counts_in Prevotes v \<longleftrightarrow> snd (fst v) \<noteq> TMSig_NIL"
| "counts_in NilPrevotes v \<longleftrightarrow> fst (fst v) = ValueId_NIL \<and> snd (fst v) \<noteq> TMSig_NIL"
| "counts_in YesPrevotes v \<longleftrightarrow> fst (fst v) \<noteq> ValueId_NIL \<and> snd (fst v) \<noteq> TMSig_NIL"
| "counts_in Precommits v \<longleftrightarrow> snd (snd v) \<noteq> TMSig_NIL"
| "counts_in YesPrecommits v \<longleftrightarrow> fst (snd v) \<noteq> ValueId_NIL \<and> snd (snd v) \<noteq> TMSig_NIL"

text \<open>The stake behind a kind of vote, as a natural number.\<close>

definition tally :: "count_kind \<Rightarrow> roster \<Rightarrow> vote_slots list \<Rightarrow> nat" where
  "tally k roster vs = (\<Sum>i < length vs. if counts_in k (vs ! i) then unat (stake (roster ! i)) else 0)"

lemma counts_eqI: "(\<And>k. count k a = count k b) \<Longrightarrow> a = (b :: ConsensusCounts)"
proof -
  assume e: "\<And>k. count k a = count k b"
  show ?thesis
    using e [of Anys] e [of Prevotes] e [of NilPrevotes] e [of YesPrevotes] e [of Precommits]
      e [of YesPrecommits] by (cases a; cases b) simp
qed

lemma count_ZERO [simp]: "count k counts_ZERO = 0"
  by (cases k) (simp_all add: counts_ZERO_def)

lemma count_from: "unat (count k (counts_from v s)) = (if counts_in k v then unat s else 0)"
  by (cases k) (simp_all add: counts_from_def Let_def)

lemma counts_add_unat:
  "counts_add a b = Some c \<Longrightarrow> unat (count k c) = unat (count k a) + unat (count k b)"
  by (cases k) (auto simp: counts_add_def bind_eq_Some_conv dest: checked_add_unat)

lemma counts_sub_unat:
  "counts_sub a b = Some c \<Longrightarrow> unat (count k c) = unat (count k a) - unat (count k b)"
  by (cases k) (auto simp: counts_sub_def bind_eq_Some_conv dest: checked_sub_unat)

lemma counts_add_total:
  assumes "\<And>k. unat (count k a) + unat (count k b) < 2 ^ 64"
  shows "\<exists>c. counts_add a b = Some c"
  using assms [of Anys] assms [of Prevotes] assms [of NilPrevotes] assms [of YesPrevotes]
    assms [of Precommits] assms [of YesPrecommits]
  by (simp add: counts_add_def checked_add_def)

lemma counts_sub_total:
  assumes "\<And>k. unat (count k b) \<le> unat (count k a)"
  shows "\<exists>c. counts_sub a b = Some c"
  using assms [of Anys] assms [of Prevotes] assms [of NilPrevotes] assms [of YesPrevotes]
    assms [of Precommits] assms [of YesPrecommits]
  by (simp add: counts_sub_def checked_sub_def word_le_nat_alt)

lemma tally_Nil [simp]: "tally k roster [] = 0"
  by (simp add: tally_def)

lemma tally_snoc:
  "tally k roster (vs @ [v]) =
     tally k roster vs + (if counts_in k v then unat (stake (roster ! length vs)) else 0)"
  by (simp add: tally_def nth_append)

lemma tally_le_stakes: "length vs \<le> length roster \<Longrightarrow> tally k roster vs \<le> stakes (take (length vs) roster)"
  by (auto simp: tally_def sum_stake_index intro!: sum_mono)

lemma tally_empty: "tally k roster (replicate n empty_slots) = 0"
  by (cases k) (simp_all add: tally_def empty_slots_def)

lemma tally_update:
  assumes "i < length vs"
  shows "tally k roster (vs[i := v]) + (if counts_in k (vs ! i) then unat (stake (roster ! i)) else 0) =
    tally k roster vs + (if counts_in k v then unat (stake (roster ! i)) else 0)"
proof -
  let ?w = "\<lambda>v j. if counts_in k v then unat (stake (roster ! j)) else 0"
  let ?R = "{..<length vs} - {i}"
  have "tally k roster (vs[i := v]) = ?w v i + (\<Sum>j\<in>?R. ?w (vs[i := v] ! j) j)"
    using assms by (simp add: tally_def sum.remove [of _ i])
  also have "(\<Sum>j\<in>?R. ?w (vs[i := v] ! j) j) = (\<Sum>j\<in>?R. ?w (vs ! j) j)"
    by (intro sum.cong) auto
  finally have "tally k roster (vs[i := v]) = ?w v i + (\<Sum>j\<in>?R. ?w (vs ! j) j)" .
  moreover have "tally k roster vs = ?w (vs ! i) i + (\<Sum>j\<in>?R. ?w (vs ! j) j)"
    using assms by (simp add: tally_def sum.remove [of _ i])
  ultimately show ?thesis by simp
qed

lemma recount_loop_tally:
  assumes "length pre + length vs \<le> length roster"
    and "stakes (take (length pre + length vs) roster) < 2 ^ 64"
    and "\<And>k. unat (count k acc) = tally k roster pre"
  shows "\<exists>c. recount_loop roster (length pre) vs acc = Some c \<and>
    (\<forall>k. unat (count k c) = tally k roster (pre @ vs))"
  using assms
proof (induction vs arbitrary: pre acc)
  case (Cons v vs)
  let ?m = "roster ! length pre"
  have sum: "unat (count k acc) + unat (count k (counts_from v (stake ?m))) = tally k roster (pre @ [v])" for k
    by (simp add: Cons.prems(3) count_from tally_snoc)
  moreover have "tally k roster (pre @ [v]) < 2 ^ 64" for k
    using tally_le_stakes [of "pre @ [v]" roster k] Cons.prems(1,2)
      stakes_take_mono [of "Suc (length pre)" "length pre + length (v # vs)" roster]
    by (simp add: order.strict_trans1)
  ultimately obtain c where c: "counts_add acc (counts_from v (stake ?m)) = Some c"
    using counts_add_total [of acc "counts_from v (stake ?m)"] by auto
  have "unat (count k c) = tally k roster (pre @ [v])" for k
    using counts_add_unat [OF c] sum by simp
  with Cons.IH [of "pre @ [v]" c] Cons.prems(1,2) c show ?case by simp
qed simp

lemma recount_tally:
  assumes "length vs \<le> length roster" and "stakes (take (length vs) roster) < 2 ^ 64"
  shows "\<exists>c. recount roster vs = Some c \<and> (\<forall>k. unat (count k c) = tally k roster vs)"
  using recount_loop_tally [of "[]" vs roster counts_ZERO] assms by (simp add: recount_def)

text \<open>The counts of a round are those of its votes.\<close>

definition counts_ok :: "roster \<Rightarrow> RoundData \<Rightarrow> bool" where
  "counts_ok roster rd \<longleftrightarrow> length (msg_val_sigs rd) = active_roster_len roster \<and>
     (\<forall>k. unat (count k (rd_counts rd)) = tally k roster (msg_val_sigs rd))"

lemma counts_ok_recount:
  assumes "counts_ok roster rd" and "active_stake roster < 2 ^ 64"
  shows "recount roster (msg_val_sigs rd) = Some (rd_counts rd)"
proof -
  have n: "length (msg_val_sigs rd) = active_roster_len roster"
    using assms(1) by (simp add: counts_ok_def)
  then obtain c where c: "recount roster (msg_val_sigs rd) = Some c"
      "\<forall>k. unat (count k c) = tally k roster (msg_val_sigs rd)"
    using recount_tally [of "msg_val_sigs rd" roster] assms(2)
    by (auto simp: active_stake_def active_roster_len_def)
  have "c = rd_counts rd"
    using c(2) assms(1) by (intro counts_eqI) (simp add: counts_ok_def word_unat_eq_iff)
  with c show ?thesis by simp
qed


section \<open>Incorporating votes\<close>

lemma slot_set_slot [simp]: "slot pc (set_slot pc x v) = x" "slot (\<not> pc) (set_slot pc x v) = slot (\<not> pc) v"
  by (simp_all add: slot_def set_slot_def)

lemma counts_in_set_slot:
  assumes "snd (slot pc v) = TMSig_NIL \<or> slot pc v = x" and "counts_in k v"
  shows "counts_in k (set_slot pc x v)"
  using assms by (cases k) (auto simp: slot_def set_slot_def split: if_splits)

lemma incorporate_vote_spec:
  assumes ok: "counts_ok roster rd" and bound: "active_stake roster < 2 ^ 64"
    and i: "roster_i < active_roster_len roster"
  obtains (rejected) "incorporate_vote roster roster_i pc value_id sig rd = Some (Fail, rd)"
  | (counted) st c where
      "incorporate_vote roster roster_i pc value_id sig rd = Some (st,
        rd\<lparr>msg_val_sigs := (msg_val_sigs rd)[roster_i := set_slot pc (value_id, sig) (msg_val_sigs rd ! roster_i)],
           rd_counts := c\<rparr>)" "st \<noteq> Fail"
      "counts_ok roster (rd\<lparr>msg_val_sigs := (msg_val_sigs rd)[roster_i :=
          set_slot pc (value_id, sig) (msg_val_sigs rd ! roster_i)], rd_counts := c\<rparr>)"
      "snd (slot pc (msg_val_sigs rd ! roster_i)) = TMSig_NIL \<or>
        slot pc (msg_val_sigs rd ! roster_i) = (value_id, sig)"
      "value_id = ValueId_NIL \<or> proposal_sigs_n rd = 0 \<or> proposal_id rd = value_id"
proof -
  let ?ms = "msg_val_sigs rd" and ?s = "stake (roster ! roster_i)"
  let ?old = "?ms ! roster_i" and ?new = "set_slot pc (value_id, sig) (?ms ! roster_i)"
  have n: "roster_i < length ?ms" "roster_i < length roster"
    using ok i by (simp_all add: counts_ok_def active_roster_len_def)
  consider (mismatch) "value_id \<noteq> ValueId_NIL \<and> proposal_sigs_n rd \<noteq> 0 \<and> proposal_id rd \<noteq> value_id"
    | (double) "snd (slot pc ?old) \<noteq> TMSig_NIL \<and> (value_id, sig) \<noteq> slot pc ?old"
    | (good) "value_id = ValueId_NIL \<or> proposal_sigs_n rd = 0 \<or> proposal_id rd = value_id"
        "snd (slot pc ?old) = TMSig_NIL \<or> slot pc ?old = (value_id, sig)" by metis
  then show thesis
  proof cases
    case mismatch
    then show ?thesis by (intro rejected) (simp add: incorporate_vote_def)
  next
    case double
    with n show ?thesis by (intro rejected) (simp add: incorporate_vote_def Let_def)
  next
    case good
    have mono: "counts_in k ?new" if "counts_in k ?old" for k
      using counts_in_set_slot [OF good(2) that] .
    then have "unat (count k (counts_from ?old ?s)) \<le> unat (count k (counts_from ?new ?s))" for k
      by (simp add: count_from)
    from counts_sub_total [OF this]
    obtain d where d: "counts_sub (counts_from ?new ?s) (counts_from ?old ?s) = Some d" ..
    have len: "length (?ms[roster_i := ?new]) = active_roster_len roster"
      using ok by (simp add: counts_ok_def)
    have d_unat: "unat (count k (rd_counts rd)) + unat (count k d) = tally k roster (?ms[roster_i := ?new])" for k
      using counts_sub_unat [OF d, of k] tally_update [OF n(1), of k roster ?new] mono [of k] ok
      by (auto simp: count_from counts_ok_def)
    moreover have small: "tally k roster (?ms[roster_i := ?new]) < 2 ^ 64" for k
      using tally_le_stakes [of "?ms[roster_i := ?new]" roster k] len bound
      by (simp add: active_stake_def active_roster_len_def)
    ultimately obtain c where c: "counts_add (rd_counts rd) d = Some c"
      using counts_add_total [of "rd_counts rd" d] by auto
    have c_unat: "unat (count k c) = tally k roster (?ms[roster_i := ?new])" for k
      using counts_add_unat [OF c] d_unat by simp
    have okc: "counts_ok roster (rd\<lparr>msg_val_sigs := ?ms[roster_i := ?new], rd_counts := c\<rparr>)"
      using len c_unat by (simp add: counts_ok_def)
    then have "recount roster (?ms[roster_i := ?new]) = Some c"
      using counts_ok_recount [OF okc bound] by simp
    then show ?thesis
      using good n d c okc
      by (intro counted [of "if value_id = ValueId_NIL then Pass
            else if proposal_sigs_n rd = 0 then Indeterminate else Pass" c])
        (auto simp: incorporate_vote_def Let_def)
  qed
qed

text \<open>C15: as long as the stakes of the active roster sum below \<open>2^64\<close>, incorporating a vote never
  panics and keeps the incremental counts equal to a recount of all the votes of the round: the
  mismatch that the debug build checks for cannot occur.\<close>

theorem vote_counts_incremental:
  assumes "counts_ok roster rd" and "active_stake roster < 2 ^ 64" and "roster_i < active_roster_len roster"
  shows "\<exists>st rd'. incorporate_vote roster roster_i pc value_id sig rd = Some (st, rd') \<and>
    counts_ok roster rd' \<and> recount roster (msg_val_sigs rd') = Some (rd_counts rd')"
  by (rule incorporate_vote_spec [OF assms, of pc value_id sig])
    (use assms(1,2) counts_ok_recount in blast)+

definition sample_round :: RoundData where
  "sample_round = RoundData_EMPTY\<lparr>msg_val_sigs := replicate 2 empty_slots\<rparr>"

lemma sample_round_ok: "counts_ok sample_roster sample_round"
  by (simp add: counts_ok_def sample_round_def RoundData_EMPTY_def tally_empty active_roster_len_def
      ROSTER_MAX_N_def sample_roster_def)

lemma sample_roster_bound: "active_stake sample_roster < 2 ^ 64"
  by (simp add: active_stake_def active_roster_len_def ROSTER_MAX_N_def sample_roster_def)

theorem vote_counts_incremental_witness:
  "\<exists>st rd'. incorporate_vote sample_roster 1 True (replicate 32 7) (replicate 64 9) sample_round =
     Some (st, rd') \<and> counts_ok sample_roster rd'"
proof -
  have "1 < active_roster_len sample_roster"
    by (simp add: active_roster_len_def ROSTER_MAX_N_def sample_roster_def)
  from vote_counts_incremental [OF sample_round_ok sample_roster_bound this] show ?thesis by blast
qed

text \<open>A finalizer's vote in a round is recorded once: after a signed vote has been stored in a
  slot, a vote with another value or signature is rejected and changes nothing.\<close>

theorem second_vote_rejected:
  assumes "roster_i < length (msg_val_sigs rd)"
    and "slot pc (msg_val_sigs rd ! roster_i) = (v, s)" and "s \<noteq> TMSig_NIL" and "(value_id, sig) \<noteq> (v, s)"
  shows "incorporate_vote roster roster_i pc value_id sig rd = Some (Fail, rd)"
  using assms by (auto simp: incorporate_vote_def Let_def)

theorem second_vote_rejected_witness:
  "incorporate_vote sample_roster 0 False (replicate 32 8) (replicate 64 9)
     (sample_round\<lparr>msg_val_sigs := [set_slot False (replicate 32 7, replicate 64 9) empty_slots]\<rparr>) =
   Some (Fail, sample_round\<lparr>msg_val_sigs := [set_slot False (replicate 32 7, replicate 64 9) empty_slots]\<rparr>)"
  by (rule second_vote_rejected [of _ _ _ "replicate 32 7" "replicate 64 9"])
    (auto simp: TMSig_NIL_def replicate_eq_replicate)


section \<open>Incorporating proposal chunks\<close>

lemma chunk_size_pos [simp]: "PROPOSAL_CHUNK_DATA_SIZE = 1212"
  by (simp add: PROPOSAL_CHUNK_DATA_SIZE_def PROPOSAL_PACKET_EXTRA_def PATH_MTU_def PACKET_HEADER_SIZE_def
      PACKET_STATUS_SIZE_def STATUS_PROPOSAL_RNGS_N_def STATUS_VOTE_RNGS_N_def)

lemma chunk_in_value: "i < chunks_n v \<longleftrightarrow> i * 1212 < length v"
proof -
  have "i < chunks_n v \<longleftrightarrow> Suc i \<le> (length v + 1211) div 1212" by (simp add: chunks_n_def Suc_le_eq add.commute)
  also have "\<dots> \<longleftrightarrow> Suc i * 1212 \<le> length v + 1211" by (subst less_eq_div_iff_mult_less_eq) simp_all
  finally show ?thesis by auto
qed

lemma chunk_o_size_in:
  "i < chunks_n v \<Longrightarrow> chunk_o_size v i = Some (i * 1212, min 1212 (length v - i * 1212))"
  by (simp add: chunk_in_value chunk_o_size_def usize_sub_def Let_def)

lemma chunks_n_length: "length v = length w \<Longrightarrow> chunks_n v = chunks_n w"
  by (simp add: chunks_n_def)

text \<open>
  The invariant of a round: its counts are right, and it has one signature slot per chunk of the
  proposal's buffer.
\<close>

definition round_ok :: "roster \<Rightarrow> RoundData \<Rightarrow> bool" where
  "round_ok roster rd \<longleftrightarrow> counts_ok roster rd \<and> length (proposal_sigs rd) = chunks_n (proposal rd)"

lemma flush_ok: "round_ok roster (flush_for_amnesiac_proposer value_id vr roster sz rd)"
  by (simp add: round_ok_def counts_ok_def flush_for_amnesiac_proposer_def Let_def RoundData_EMPTY_def
      tally_empty)

lemma check_previous_proposal_ok:
  assumes "round_ok roster rd"
    and "check_previous_proposal mine seen roster value_id vr sz rd = Some rd'"
  shows "round_ok roster rd'" "length (proposal rd') = sz"
  using assms flush_ok [of roster value_id vr sz rd]
  by (auto simp: check_previous_proposal_def Let_def round_ok_def counts_ok_def chunks_n_def
      flush_for_amnesiac_proposer_def split: if_splits)

lemma first_proposal_chunk_ok:
  assumes "round_ok roster rd" and "active_stake roster < 2 ^ 64"
  shows "\<exists>rd'. first_proposal_chunk roster value_id rd = Some rd' \<and> round_ok roster rd' \<and>
    proposal rd' = proposal rd \<and> proposal_sigs rd' = proposal_sigs rd"
proof -
  let ?f = "\<lambda>(v, c). (clear_speculative value_id v, clear_speculative value_id c)"
  let ?bad = "list_ex (\<lambda>(v, c). speculative_fault value_id v \<or> speculative_fault value_id c) (msg_val_sigs rd)"
  let ?ms = "map ?f (msg_val_sigs rd)"
  have len: "length ?ms = active_roster_len roster" using assms(1) by (simp add: round_ok_def counts_ok_def)
  then obtain c where c: "recount roster ?ms = Some c" "\<forall>k. unat (count k c) = tally k roster ?ms"
    using recount_tally [of ?ms roster] assms(2) by (auto simp: active_stake_def active_roster_len_def)
  have "?ms = msg_val_sigs rd" if "\<not> ?bad"
    using that by (intro map_idI) (auto simp: list_ex_iff clear_speculative_def)
  with assms(1) c len show ?thesis
    by (cases ?bad) (simp_all add: first_proposal_chunk_def Let_def round_ok_def counts_ok_def)
qed

lemma store_new_chunk_ok:
  assumes ok: "round_ok roster rd" and bound: "active_stake roster < 2 ^ 64"
    and i: "i < chunks_n (proposal rd)" and d: "length data = min 1212 (length (proposal rd) - i * 1212)"
  shows "\<exists>st rd'. store_new_chunk H roster i value_id vr (i * 1212) data sig rd = Some (st, rd') \<and>
    round_ok roster rd' \<and> length (proposal rd') = length (proposal rd)"
proof -
  have fits: "i * 1212 + length data \<le> length (proposal rd)" using i d by (simp add: chunk_in_value)
  let ?p = "take (i * 1212) (proposal rd) @ data @ drop (i * 1212 + length data) (proposal rd)"
  let ?rd = "rd\<lparr>proposal := ?p, proposal_sigs := (proposal_sigs rd)[i := sig],
    proposal_sigs_n := proposal_sigs_n rd + 1, proposal_valid_round := vr\<rparr>"
  have p: "copy_into (proposal rd) (i * 1212) data = Some ?p"
    using fits by (simp add: copy_into_def)
  have s: "set_index (proposal_sigs rd) i sig = Some ((proposal_sigs rd)[i := sig])"
    using ok i by (simp add: round_ok_def)
  have okr: "round_ok roster ?rd"
    using ok fits chunks_n_length [of ?p "proposal rd"] by (simp add: round_ok_def counts_ok_def)
  obtain rd' where r: "(if proposal_id ?rd = ValueId_NIL then first_proposal_chunk roster value_id ?rd
      else Some ?rd) = Some rd'" "round_ok roster rd'" "proposal rd' = ?p"
    using first_proposal_chunk_ok [OF okr bound, of value_id] okr
    by (cases "proposal_id rd = ValueId_NIL") auto
  then have "round_ok roster (rd'\<lparr>proposal_is_faulty := True\<rparr>)"
    by (simp add: round_ok_def counts_ok_def)
  with r p s fits show ?thesis
    by (auto simp: store_new_chunk_def Let_def)
qed

text \<open>A proposal chunk whose index lies inside the proposal and which carries its data never makes
  the node panic, and the counts of the round stay right, also when votes for another value have to be
  taken back.\<close>

theorem proposal_chunk_safe:
  assumes ok: "round_ok roster rd" and bound: "active_stake roster < 2 ^ 64"
    and hdr: "PacketProposalChunkHeader_read_from signed_data = Some (hdr, data)"
    and i: "chunk_i * 1212 < unat (ch_proposal_size hdr)"
    and d: "56 + min 1212 (unat (ch_proposal_size hdr) - chunk_i * 1212) \<le> length signed_data"
  shows "\<exists>st rd'. incorporate_proposal_chunk H mine seen roster chunk_i value_id vr signed_data sig rd =
      Some (st, rd') \<and> round_ok roster rd'"
proof (cases "check_previous_proposal mine seen roster value_id vr (unat (ch_proposal_size hdr)) rd")
  case None
  with hdr ok show ?thesis by (simp add: incorporate_proposal_chunk_def Let_def)
next
  case (Some rd1)
  note ok1 = check_previous_proposal_ok [OF ok Some]
  let ?n = "min 1212 (unat (ch_proposal_size hdr) - chunk_i * 1212)"
  have i1: "chunk_i < chunks_n (proposal rd1)" using i ok1(2) by (simp add: chunk_in_value)
  have o1: "chunk_o_size (proposal rd1) chunk_i = Some (chunk_i * 1212, ?n)"
    using chunk_o_size_in [OF i1] ok1(2) by simp
  have s1: "slice signed_data 56 (56 + ?n) = Some (take ?n (drop 56 signed_data))"
    using d by (simp add: slice_def)
  have l1: "length (take ?n (drop 56 signed_data)) = min 1212 (length (proposal rd1) - chunk_i * 1212)"
    using d ok1(2) by simp
  have x1: "index (proposal_sigs rd1) chunk_i = Some (proposal_sigs rd1 ! chunk_i)"
    using i1 ok1(1) by (simp add: round_ok_def)
  have f1: "round_ok roster (rd1\<lparr>proposal_is_faulty := True\<rparr>)"
    using ok1(1) by (simp add: round_ok_def counts_ok_def)
  obtain st rd2 where "store_new_chunk H roster chunk_i value_id vr (chunk_i * 1212)
      (take ?n (drop 56 signed_data)) sig rd1 = Some (st, rd2)" "round_ok roster rd2"
    using store_new_chunk_ok [OF ok1(1) bound i1 l1] by blast
  with hdr Some o1 s1 x1 f1 ok1(1) flush_ok show ?thesis
    by (auto simp: incorporate_proposal_chunk_def Let_def)
qed


definition sample_chunk :: bytes where
  "sample_chunk = the (PacketProposalChunkHeader_write_to \<lparr>ch_chunk_i = 0, ch_proposal_size = 3,
     ch_round = 0, ch_valid_round = - 1, ch_height = 0, ch_proposal_id = replicate 32 7\<rparr>) @ [1, 2, 3]"

theorem proposal_chunk_safe_witness:
  "\<exists>st rd'. incorporate_proposal_chunk (\<lambda>_. replicate 32 7) False True sample_roster 0 (replicate 32 7)
     (- 1) sample_chunk (replicate 64 9) sample_round = Some (st, rd') \<and> round_ok sample_roster rd'"
proof (rule proposal_chunk_safe [OF _ sample_roster_bound])
  let ?h = "\<lparr>ch_chunk_i = 0, ch_proposal_size = 3, ch_round = 0, ch_valid_round = - 1, ch_height = 0,
    ch_proposal_id = replicate 32 7\<rparr>"
  show "round_ok sample_roster sample_round"
    using sample_round_ok by (simp add: round_ok_def sample_round_def RoundData_EMPTY_def chunks_n_def)
  show "PacketProposalChunkHeader_read_from sample_chunk = Some (?h, [1, 2, 3])"
    unfolding sample_chunk_def by (rule chunkc.dec_enc) (simp add: PacketProposalChunkHeader_ok_def)
qed (simp_all add: sample_chunk_def PacketProposalChunkHeader_write_to_def)

text \<open>C40: the index of a chunk is not checked against the size of the proposal: in a round without a
  proposal, a chunk at or past the end of the proposal makes the node panic.\<close>

theorem proposal_chunk_past_end_panics:
  assumes "PacketProposalChunkHeader_read_from signed_data = Some (hdr, data)"
    and "proposal_sigs_n rd = 0" and "unat (ch_proposal_size hdr) \<le> chunk_i * 1212"
  shows "incorporate_proposal_chunk H mine seen roster chunk_i value_id vr signed_data sig rd = None"
proof -
  let ?n = "unat (ch_proposal_size hdr)"
  have "\<not> chunk_i < chunks_n (replicate ?n (0 :: u8))"
    using assms(3) by (simp add: chunk_in_value)
  then show ?thesis
    using assms by (auto simp: incorporate_proposal_chunk_def check_previous_proposal_def Let_def
        chunk_o_size_def bind_eq_None_conv index_none)
qed

theorem proposal_chunk_past_end_panics_witness:
  "incorporate_proposal_chunk (\<lambda>_. replicate 32 7) False True sample_roster 1 (replicate 32 7) (- 1)
     sample_chunk (replicate 64 9) sample_round = None"
proof (rule proposal_chunk_past_end_panics)
  let ?h = "\<lparr>ch_chunk_i = 0, ch_proposal_size = 3, ch_round = 0, ch_valid_round = - 1, ch_height = 0,
    ch_proposal_id = replicate 32 7\<rparr>"
  show "PacketProposalChunkHeader_read_from sample_chunk = Some (?h, [1, 2, 3])"
    unfolding sample_chunk_def by (rule chunkc.dec_enc) (simp add: PacketProposalChunkHeader_ok_def)
qed (simp_all add: sample_round_def RoundData_EMPTY_def)

section \<open>Votes and the proposal\<close>

text \<open>
  Once a chunk of the proposal is known, every vote for a value is a vote for the proposal; before,
  no proposal id is set.
\<close>

definition votes_match :: "RoundData \<Rightarrow> bool" where
  "votes_match rd \<longleftrightarrow> (if proposal_sigs_n rd = 0 then proposal_id rd = ValueId_NIL
     else list_all (\<lambda>v. \<forall>pc. fst (slot pc v) = ValueId_NIL \<or> fst (slot pc v) = proposal_id rd)
       (msg_val_sigs rd))"

lemma clear_speculative_match: "fst (clear_speculative p v) = ValueId_NIL \<or> fst (clear_speculative p v) = p"
  by (simp add: clear_speculative_def speculative_fault_def)

lemma incorporate_vote_match:
  assumes m: "votes_match rd" and r: "incorporate_vote roster i pc value_id sig rd = Some (st, rd')"
  shows "votes_match rd'"
proof (cases "rd' = rd")
  case False
  with r obtain c where i: "i < length (msg_val_sigs rd)"
    and rd': "rd' = rd\<lparr>msg_val_sigs := (msg_val_sigs rd)[i := set_slot pc (value_id, sig) (msg_val_sigs rd ! i)],
        rd_counts := c\<rparr>"
    and v: "value_id = ValueId_NIL \<or> proposal_sigs_n rd = 0 \<or> proposal_id rd = value_id"
    by (auto simp: incorporate_vote_def Let_def bind_eq_Some_conv index_Some set_index_def split: if_splits)
  let ?P = "\<lambda>v. \<forall>pc. fst (slot pc v) = ValueId_NIL \<or> fst (slot pc v) = proposal_id rd"
  have "?P (set_slot pc (value_id, sig) (msg_val_sigs rd ! i))" if "?P (msg_val_sigs rd ! i)" "proposal_sigs_n rd \<noteq> 0"
    using that v by (auto simp: slot_def set_slot_def split: if_splits)
  with m i show ?thesis
    by (auto simp: votes_match_def rd' nth_list_update list_all_length split: if_splits)
qed (use m in simp)

lemma first_proposal_chunk_match:
  "first_proposal_chunk roster value_id rd = Some rd' \<Longrightarrow> proposal_sigs_n rd \<noteq> 0 \<Longrightarrow>
     votes_match rd' \<and> proposal_sigs_n rd' = proposal_sigs_n rd"
  by (auto simp: first_proposal_chunk_def Let_def bind_eq_Some_conv votes_match_def list_all_iff slot_def
      clear_speculative_def speculative_fault_def split: if_splits)

lemma store_new_chunk_match:
  assumes m: "votes_match rd"
    and r: "store_new_chunk H roster i value_id vr pos data sig rd = Some (st, rd')"
  shows "votes_match rd'"
proof -
  from r [unfolded store_new_chunk_def Let_def bind_eq_Some_conv] obtain p sigs rd1 where
    i: "(if proposal_id (rd\<lparr>proposal := p, proposal_sigs := sigs, proposal_sigs_n := proposal_sigs_n rd + 1,
          proposal_valid_round := vr\<rparr>) = ValueId_NIL
         then first_proposal_chunk roster value_id (rd\<lparr>proposal := p, proposal_sigs := sigs,
           proposal_sigs_n := proposal_sigs_n rd + 1, proposal_valid_round := vr\<rparr>)
         else Some (rd\<lparr>proposal := p, proposal_sigs := sigs,
           proposal_sigs_n := proposal_sigs_n rd + 1, proposal_valid_round := vr\<rparr>)) = Some rd1"
    and c: "(if proposal_sigs_n rd1 = length (proposal_sigs rd1) \<and> proposal_id rd1 \<noteq> H (proposal rd1)
      then Some (Fail, rd1\<lparr>proposal_is_faulty := True\<rparr>) else Some (Pass, rd1)) = Some (st, rd')"
    by blast
  have "votes_match rd1"
  proof (cases "proposal_id rd = ValueId_NIL")
    case True
    with i have "first_proposal_chunk roster value_id (rd\<lparr>proposal := p, proposal_sigs := sigs,
           proposal_sigs_n := proposal_sigs_n rd + 1, proposal_valid_round := vr\<rparr>) = Some rd1" by simp
    from first_proposal_chunk_match [OF this] show ?thesis by simp
  next
    case False
    with i m show ?thesis by (auto simp: votes_match_def split: if_splits)
  qed
  with c show ?thesis by (auto simp: votes_match_def split: if_splits)
qed

lemma incorporate_chunk_match:
  assumes m: "votes_match rd"
    and r: "incorporate_proposal_chunk H False seen roster i value_id vr signed_data sig rd = Some (st, rd')"
  shows "votes_match rd'"
proof -
  have prev: "votes_match rd1" if "check_previous_proposal False seen roster value_id vr sz rd = Some rd1"
    for sz rd1
    using that m by (auto simp: check_previous_proposal_def Let_def votes_match_def split: if_splits)
  have f: "votes_match (rd1\<lparr>proposal_is_faulty := True\<rparr>) = votes_match rd1" for rd1
    by (simp add: votes_match_def)
  show ?thesis
  proof (cases "PacketProposalChunkHeader_read_from signed_data")
    case None
    with r m show ?thesis by (simp add: incorporate_proposal_chunk_def)
  next
    case (Some h)
    let ?c = "check_previous_proposal False seen roster value_id vr (unat (ch_proposal_size (fst h))) rd"
    show ?thesis
    proof (cases ?c)
      case None
      with r m Some show ?thesis by (simp add: incorporate_proposal_chunk_def Let_def split: prod.splits)
    next
      case s1: (Some rd1)
      with r Some prev [OF s1] f show ?thesis
        by (auto simp: incorporate_proposal_chunk_def Let_def bind_eq_Some_conv
            split: prod.splits if_splits dest: store_new_chunk_match)
    qed
  qed
qed


section \<open>The fat pointer of a decided round\<close>

text \<open>The finalizers whose precommit goes into the fat pointer, in roster order.\<close>

definition committers :: "bytes \<Rightarrow> vote_slots list \<Rightarrow> nat list" where
  "committers pid vs = filter (\<lambda>i. fst (snd (vs ! i)) = pid \<and> snd (snd (vs ! i)) \<noteq> TMSig_NIL) [0..<length vs]"

lemma commit_signatures_committers:
  assumes "k + length vs \<le> length roster"
  shows "commit_signatures roster pid k vs =
    Some (map (\<lambda>i. \<lparr>fps_pub_key = pub_key (roster ! (k + i)), vote_signature = snd (snd (vs ! i))\<rparr>)
      (committers pid vs))"
  using assms
proof (induction vs arbitrary: k)
  case (Cons v vs)
  have shift: "committers pid (v # vs) =
      (if fst (snd v) = pid \<and> snd (snd v) \<noteq> TMSig_NIL then [0] else []) @ map Suc (committers pid vs)"
  proof -
    have "[0..<length (v # vs)] = 0 # map Suc [0..<length vs]" 
      by (simp add: map_Suc_upt upt_conv_Cons del: upt_Suc)
    then show ?thesis by (simp add: committers_def filter_map comp_def)
  qed
  show ?case using Cons.prems Cons.IH [of "Suc k"] by (simp add: shift comp_def)
qed (simp add: committers_def)

lemma committers_stake:
  assumes m: "votes_match rd" and n: "proposal_sigs_n rd \<noteq> 0" and p: "proposal_id rd \<noteq> ValueId_NIL"
  shows "tally YesPrecommits roster (msg_val_sigs rd) =
    (\<Sum>i\<leftarrow>committers (proposal_id rd) (msg_val_sigs rd). unat (stake (roster ! i)))"
proof -
  let ?vs = "msg_val_sigs rd"
  let ?c = "\<lambda>i. fst (snd (?vs ! i)) = proposal_id rd \<and> snd (snd (?vs ! i)) \<noteq> TMSig_NIL"
  have eq: "counts_in YesPrecommits (?vs ! i) \<longleftrightarrow> ?c i" if "i < length ?vs" for i
  proof -
    have "fst (slot True (?vs ! i)) = ValueId_NIL \<or> fst (slot True (?vs ! i)) = proposal_id rd"
      using m n that by (simp add: votes_match_def list_all_length)
    then show ?thesis using p by (auto simp: slot_def)
  qed
  have "tally YesPrecommits roster ?vs = (\<Sum>i<length ?vs. if ?c i then unat (stake (roster ! i)) else 0)"
    unfolding tally_def using eq by (intro sum.cong) auto
  also have "\<dots> = (\<Sum>i\<leftarrow>[0..<length ?vs]. if ?c i then unat (stake (roster ! i)) else 0)"
    by (simp add: interv_sum_list_conv_sum_set_nat atLeast0LessThan)
  also have "\<dots> = (\<Sum>i\<leftarrow>committers (proposal_id rd) ?vs. unat (stake (roster ! i)))"
    by (simp add: committers_def sum_list_map_filter')
  finally show ?thesis .
qed

text \<open>
  Each recorded vote verifies under its finalizer's key, over the sign data of the round it is
  recorded in.
\<close>

definition vote_signed :: "(bytes \<Rightarrow> bytes \<Rightarrow> bytes \<Rightarrow> bool) \<Rightarrow> bytes \<Rightarrow> u64 \<Rightarrow> u32 \<Rightarrow> bool \<Rightarrow> val_sig \<Rightarrow> bool" where
  "vote_signed verify pk height round pc v \<longleftrightarrow> snd v = TMSig_NIL \<or>
     length (fst v) = 32 \<and> length (snd v) = 64 \<and>
     (case make_vote_sign_datas pk pc height round (fst v) of
        None \<Rightarrow> False | Some (_, yes) \<Rightarrow> verify pk yes (snd v))"

definition votes_signed :: "(bytes \<Rightarrow> bytes \<Rightarrow> bytes \<Rightarrow> bool) \<Rightarrow> roster \<Rightarrow> RoundData \<Rightarrow> bool" where
  "votes_signed verify roster rd \<longleftrightarrow> (\<forall>i < length (msg_val_sigs rd). \<forall>pc.
     vote_signed verify (pub_key (roster ! i)) (rd_height rd) (rd_round rd) pc
       (slot pc (msg_val_sigs rd ! i)))"

definition keys_ok :: "roster \<Rightarrow> bool" where
  "keys_ok roster \<longleftrightarrow> list_all (\<lambda>m. length (pub_key m) = 32) roster"

lemma committers_distinct: "distinct (committers pid vs)" "set (committers pid vs) \<subseteq> {..<length vs}"
  by (auto simp: committers_def)

lemma yes_precommits_committers:
  assumes counts: "counts_ok roster rd" and m: "votes_match rd" and n: "proposal_sigs_n rd \<noteq> 0"
    and y: "0 < unat (yes_precommits (rd_counts rd))"
  shows "unat (yes_precommits (rd_counts rd)) =
      (\<Sum>i\<in>set (committers (proposal_id rd) (msg_val_sigs rd)). unat (stake (roster ! i)))"
    and "committers (proposal_id rd) (msg_val_sigs rd) \<noteq> []"
proof -
  have tal: "unat (yes_precommits (rd_counts rd)) = tally YesPrecommits roster (msg_val_sigs rd)"
    using counts by (metis count.simps(6) counts_ok_def)
  with y have "tally YesPrecommits roster (msg_val_sigs rd) \<noteq> 0" by simp
  then obtain j where j: "j < length (msg_val_sigs rd)" "counts_in YesPrecommits (msg_val_sigs rd ! j)"
    unfolding tally_def by (auto simp del: counts_in.simps split: if_splits)
  from m n j(1) have "fst (slot True (msg_val_sigs rd ! j)) = ValueId_NIL \<or>
      fst (slot True (msg_val_sigs rd ! j)) = proposal_id rd"
    by (simp add: votes_match_def list_all_length)
  with j have nz: "proposal_id rd \<noteq> ValueId_NIL"
    and jc: "j \<in> set (committers (proposal_id rd) (msg_val_sigs rd))"
    by (simp_all add: slot_def committers_def)
  from tal committers_stake [OF m n nz, of roster]
  show "unat (yes_precommits (rd_counts rd)) =
      (\<Sum>i\<in>set (committers (proposal_id rd) (msg_val_sigs rd)). unat (stake (roster ! i)))"
    by (simp add: sum_list_distinct_conv_sum_set committers_distinct)
  from jc show "committers (proposal_id rd) (msg_val_sigs rd) \<noteq> []" by auto
qed

lemma committer_signature:
  assumes signed: "votes_signed verify roster rd" and pk: "length (pub_key (roster ! i)) = 32"
    and pid: "length (proposal_id rd) = 32" and i: "i \<in> set (committers (proposal_id rd) (msg_val_sigs rd))"
  shows "\<exists>r. checked_add (rd_round rd) 0x80000000 = Some r \<and>
    length (snd (snd (msg_val_sigs rd ! i))) = 64 \<and>
    verify (pub_key (roster ! i))
      (pub_key (roster ! i) @ proposal_id rd @ u64_le (rd_height rd) @ u32_le r)
      (snd (snd (msg_val_sigs rd ! i)))"
proof -
  from i have v: "i < length (msg_val_sigs rd)" "fst (snd (msg_val_sigs rd ! i)) = proposal_id rd"
      "snd (snd (msg_val_sigs rd ! i)) \<noteq> TMSig_NIL" by (auto simp: committers_def)
  have "vote_signed verify (pub_key (roster ! i)) (rd_height rd) (rd_round rd) True (snd (msg_val_sigs rd ! i))"
  proof -
    have "vote_signed verify (pub_key (roster ! i)) (rd_height rd) (rd_round rd) True
        (slot True (msg_val_sigs rd ! i))"
      using signed v(1) unfolding votes_signed_def by blast
    then show ?thesis by (simp add: slot_def)
  qed
  with v make_vote_sign_datas_eq [OF pk pid, of True] show ?thesis
    by (cases "checked_add (rd_round rd) 0x80000000") (auto simp: vote_signed_def)
qed



definition sample_commit :: val_sig where
  "sample_commit = (replicate 32 7, replicate 64 9)"

definition sample_decided :: RoundData where
  "sample_decided = RoundData_EMPTY\<lparr>proposal := [1], proposal_sigs := [replicate 64 9],
     proposal_sigs_n := 1, proposal_id := replicate 32 7,
     msg_val_sigs := [(fst empty_slots, sample_commit), (fst empty_slots, sample_commit)],
     rd_counts := \<lparr>anys = 7, prevotes = 0, nil_prevotes = 0, yes_prevotes = 0, precommits = 7,
       yes_precommits = 7\<rparr>\<rparr>"

lemma sample_commit_simps [simp]:
  "fst sample_commit = replicate 32 7" "snd sample_commit = replicate 64 9"
  "replicate 32 7 \<noteq> ValueId_NIL" "replicate 64 9 \<noteq> TMSig_NIL"
  "fst (fst empty_slots) = ValueId_NIL" "snd (fst empty_slots) = TMSig_NIL"
  "snd (snd empty_slots) = TMSig_NIL"
  by (auto simp: sample_commit_def ValueId_NIL_def TMSig_NIL_def replicate_eq_replicate empty_slots_def)

lemma sample_decided_counts: "counts_ok sample_roster sample_decided"
proof -
  have "unat (count k (rd_counts sample_decided)) = tally k sample_roster (msg_val_sigs sample_decided)" for k
    by (cases k) (simp_all add: sample_decided_def tally_def sample_roster_def lessThan_Suc)
  then show ?thesis
    by (simp add: counts_ok_def sample_decided_def active_roster_len_def ROSTER_MAX_N_def sample_roster_def)
qed




end
