(* ===== verification/Tendermint.thy ===== *)
theory Tendermint
  imports Round_Data
begin

text \<open>
  The state machine of a finalizer: \<^verbatim>\<open>TMState\<close> of \<^verbatim>\<open>tenderlink/src/lib.rs\<close> with \<^verbatim>\<open>broadcast\<close>,
  \<^verbatim>\<open>insert_round\<close>, \<^verbatim>\<open>start_round\<close>, \<^verbatim>\<open>check_and_incorporate_msg\<close> and \<^verbatim>\<open>bft_update\<close>. The signing key, the
  signature check and the two keyed hashes are functions of the record \<open>env\<close>. The three closures the
  service passes in are functions on an application state \<open>'app\<close>, which is threaded through the calls;
  they may panic. \<open>signed_votes\<close> is a record of the votes signed so far, kept for the statements only:
  nothing reads it. Each numbered condition of \<^verbatim>\<open>bft_update\<close> is a definition of its own.
\<close>

section \<open>Definitions\<close>

record env =
  env_verify :: "bytes \<Rightarrow> bytes \<Rightarrow> bytes \<Rightarrow> bool"
  env_sign :: "bytes \<Rightarrow> bytes"
  env_hash_value_id :: "bytes \<Rightarrow> bytes"
  env_hash_proposer :: "bytes \<Rightarrow> bytes"
  env_my_pub_key :: bytes

record 'app closures =
  propose_closure :: "'app \<Rightarrow> (bytes option \<times> 'app) rust"
  validate_closure :: "bytes \<Rightarrow> 'app \<Rightarrow> ((TMStatus \<times> TMStatusReason) \<times> 'app) rust"
  push_block_closure :: "bytes \<Rightarrow> FatPointerToBftBlock \<Rightarrow> bytes list \<Rightarrow> 'app \<Rightarrow> (roster \<times> 'app) rust"

record TMState =
  tm_round :: u32
  tm_step :: TMStep
  tm_height :: u64
  valid_value_round :: "bytes option \<times> int"
  locked_value_round :: "bytes option \<times> int"
  rounds_data :: "RoundData list"
  recent_commit_round_cache :: "RoundData list"
  signed_votes :: "(u64 \<times> u32 \<times> bool \<times> bytes) list"

record 'app node = TMState +
  node_roster :: roster
  node_app :: 'app

datatype TMMsgData = ProposalMsg bytes int | PrevoteMsg bytes | PrecommitMsg bytes

abbreviation round_key :: "RoundData \<Rightarrow> u64 \<times> u32" where
  "round_key rd \<equiv> (rd_height rd, rd_round rd)"

definition find_round :: "u64 \<Rightarrow> u32 \<Rightarrow> RoundData list \<Rightarrow> nat + nat" where
  "find_round height round rds = binary_search_by_key (height, round) round_key rds"

definition insert_round :: "nat \<Rightarrow> u32 \<Rightarrow> roster \<Rightarrow> 'a TMState_scheme \<Rightarrow> 'a TMState_scheme" where
  "insert_round insert_i round roster s =
     s\<lparr>rounds_data := vec_insert (rounds_data s) insert_i
         (RoundData_EMPTY\<lparr>rd_height := tm_height s, rd_round := round,
            msg_val_sigs := replicate (active_roster_len roster) empty_slots, rd_roster := roster\<rparr>)\<rparr>"

subsection \<open>Messages\<close>

definition incorporate_into_round ::
  "env \<Rightarrow> bool \<Rightarrow> bool \<Rightarrow> roster \<Rightarrow> nat \<Rightarrow> nat \<Rightarrow> bytes \<Rightarrow> int \<Rightarrow> u8 \<Rightarrow> bytes \<Rightarrow> bytes \<Rightarrow> RoundData \<Rightarrow>
   (TMStatus \<times> RoundData) rust" where
  "incorporate_into_round env is_my_proposal is_prev_seen_round roster roster_i chunk_i value_id
       valid_round ptype signed_data sig rd =
     (if ptype = PACKET_TYPE_PROPOSAL_CHUNK
      then incorporate_proposal_chunk (env_hash_value_id env) is_my_proposal is_prev_seen_round roster
        chunk_i value_id valid_round signed_data sig rd
      else if ptype = PACKET_TYPE_PREVOTE_SIGNATURES \<or>
        ptype = PACKET_TYPE_PRECOMMIT_SIGNATURES
      then incorporate_vote roster roster_i (ptype = PACKET_TYPE_PRECOMMIT_SIGNATURES) value_id
        sig rd
      else Some (Fail, rd))"

definition check_and_incorporate_msg ::
  "env \<Rightarrow> u64 \<Rightarrow> u32 \<Rightarrow> nat \<Rightarrow> bytes \<Rightarrow> int \<Rightarrow> roster \<Rightarrow> nat \<Rightarrow> u8 \<Rightarrow> bytes \<Rightarrow> bytes \<Rightarrow>
   'a TMState_scheme \<Rightarrow> (TMStatus \<times> 'a TMState_scheme) rust" where
  "check_and_incorporate_msg env height round chunk_i value_id valid_round roster roster_i ptype
       signed_data sig s =
     (if height \<noteq> tm_height s then Some (Fail, s)
      else if roster_i \<ge> active_roster_len roster then Some (Fail, s)
      else do {
        m \<leftarrow> index roster roster_i;
        let from_pub_key = pub_key m;
        if \<not> env_verify env from_pub_key signed_data sig then Some (Fail, s)
        else do {
          let (is_prev_seen_round, round_i, s) =
            (case find_round height round (rounds_data s) of
               Inr i \<Rightarrow> (True, i, s)
             | Inl i \<Rightarrow> (False, i, insert_round i round roster s));
          let is_my_proposal = (from_pub_key = env_my_pub_key env);
          rd \<leftarrow> index (rounds_data s) round_i;
          (status, rd) \<leftarrow> incorporate_into_round env is_my_proposal is_prev_seen_round roster roster_i
            chunk_i value_id valid_round ptype signed_data sig rd;
          Some (status, s\<lparr>rounds_data := (rounds_data s)[round_i := rd]\<rparr>) } })"

subsection \<open>\<^verbatim>\<open>broadcast\<close>\<close>

primrec rust_fold :: "('i \<Rightarrow> 's \<Rightarrow> 's rust) \<Rightarrow> 'i list \<Rightarrow> 's \<Rightarrow> 's rust" where
  "rust_fold f [] s = Some s"
| "rust_fold f (i # is) s = do { s \<leftarrow> f i s; rust_fold f is s }"

definition broadcast_chunk ::
  "env \<Rightarrow> roster \<Rightarrow> nat \<Rightarrow> u64 \<Rightarrow> u32 \<Rightarrow> bytes \<Rightarrow> int \<Rightarrow> nat \<Rightarrow> 'a TMState_scheme \<Rightarrow> 'a TMState_scheme rust" where
  "broadcast_chunk env roster roster_i height round value valid_round chunk_i s = do {
     let hdr = \<lparr>ch_chunk_i = word_of_nat chunk_i, ch_proposal_size = word_of_nat (length value),
       ch_round = round, ch_valid_round = valid_round, ch_height = height,
       ch_proposal_id = env_hash_value_id env value\<rparr>;
     hdr_bytes \<leftarrow> PacketProposalChunkHeader_write_to hdr;
     (chunk_o, chunk_size) \<leftarrow> chunk_o_size value chunk_i;
     chunk \<leftarrow> slice value chunk_o (chunk_o + chunk_size);
     let buf = hdr_bytes @ chunk;
     let sig = env_sign env buf;
     (_, s) \<leftarrow> check_and_incorporate_msg env height round chunk_i (ch_proposal_id hdr) valid_round roster
       roster_i PACKET_TYPE_PROPOSAL_CHUNK buf sig s;
     Some s }"

definition broadcast_vote ::
  "env \<Rightarrow> roster \<Rightarrow> nat \<Rightarrow> u64 \<Rightarrow> u32 \<Rightarrow> bool \<Rightarrow> bytes \<Rightarrow> 'a TMState_scheme \<Rightarrow> 'a TMState_scheme rust" where
  "broadcast_vote env roster roster_i height round is_precommit value_id s = do {
     m \<leftarrow> index roster roster_i;
     (_, signed_data) \<leftarrow> make_vote_sign_datas (pub_key m) is_precommit height round value_id;
     let sig = env_sign env signed_data;
     let s = s\<lparr>signed_votes := (height, round, is_precommit, value_id) # signed_votes s\<rparr>;
     (_, s) \<leftarrow> check_and_incorporate_msg env height round 0 value_id (- 2) roster roster_i
       (if is_precommit then PACKET_TYPE_PRECOMMIT_SIGNATURES else PACKET_TYPE_PREVOTE_SIGNATURES)
       signed_data sig s;
     Some s }"

definition broadcast ::
  "env \<Rightarrow> roster \<Rightarrow> nat \<Rightarrow> TMMsgData \<Rightarrow> 'a TMState_scheme \<Rightarrow> (TMStep \<times> 'a TMState_scheme) rust" where
  "broadcast env roster round_i msg s = do {
     rd \<leftarrow> index (rounds_data s) round_i;
     let height = rd_height rd;
     let round = rd_round rd;
     (case roster_i_from_pub_key (take (active_roster_len roster) roster) (env_my_pub_key env) of
        None \<Rightarrow> Some (tm_step s, s)
      | Some roster_i \<Rightarrow>
          (case msg of
             ProposalMsg value valid_round \<Rightarrow> do {
               rassert (length value < 2 ^ 32);
               s \<leftarrow> rust_fold (broadcast_chunk env roster roster_i height round value valid_round)
                 [0..<chunks_n value] s;
               Some (Propose, s) }
           | PrevoteMsg value_id \<Rightarrow> do {
               s \<leftarrow> broadcast_vote env roster roster_i height round False value_id s;
               Some (Prevote, s) }
           | PrecommitMsg value_id \<Rightarrow> do {
               s \<leftarrow> broadcast_vote env roster roster_i height round True value_id s;
               Some (Precommit, s) })) }"

definition broadcast_step :: "env \<Rightarrow> nat \<Rightarrow> TMMsgData \<Rightarrow> 'app node \<Rightarrow> 'app node rust" where
  "broadcast_step env round_i msg s = do {
     (step, s) \<leftarrow> broadcast env (node_roster s) round_i msg s;
     Some (s\<lparr>tm_step := step\<rparr>) }"

subsection \<open>\<^verbatim>\<open>start_round\<close>\<close>

definition set_timeout :: "nat \<Rightarrow> Timeout \<Rightarrow> 'a TMState_scheme \<Rightarrow> 'a TMState_scheme rust" where
  "set_timeout i t s = do {
     rd \<leftarrow> index (rounds_data s) i;
     Some (s\<lparr>rounds_data := (rounds_data s)[i := rd\<lparr>active_timeout := Some t\<rparr>]\<rparr>) }"

definition start_round :: "env \<Rightarrow> 'app closures \<Rightarrow> nat \<Rightarrow> u32 \<Rightarrow> 'app node \<Rightarrow> 'app node rust" where
  "start_round env cl now round s = do {
     let s = s\<lparr>tm_round := round\<rparr>;
     let (round_i, s) = (case find_round (tm_height s) round (rounds_data s) of
         Inr i \<Rightarrow> (i, s)
       | Inl i \<Rightarrow> (i, insert_round i round (node_roster s) s));
     (_, proposer) \<leftarrow> proposer_from_height_round (env_hash_proposer env) (node_roster s) (tm_height s) round;
     s \<leftarrow> (if proposer = env_my_pub_key env
       then do {
         (prop, s) \<leftarrow> (case fst (valid_value_round s) of
             Some v \<Rightarrow> Some (Some v, s)
           | None \<Rightarrow> do {
               (v, app) \<leftarrow> propose_closure cl (node_app s);
               Some (v, s\<lparr>node_app := app\<rparr>) });
         (case prop of
            Some v \<Rightarrow> broadcast_step env round_i (ProposalMsg v (snd (valid_value_round s))) s
          | None \<Rightarrow> Some (s\<lparr>tm_step := Propose\<rparr>)) }
       else Some (s\<lparr>tm_step := Propose\<rparr>));
     set_timeout round_i (Timeout_new now (tm_height s) (tm_round s) Propose) s }"

subsection \<open>\<^verbatim>\<open>bft_update\<close>\<close>

definition proposal_is_valid :: "'app closures \<Rightarrow> nat \<Rightarrow> 'app node \<Rightarrow> (TMStatus \<times> 'app node) rust" where
  "proposal_is_valid cl i s = do {
     rd \<leftarrow> index (rounds_data s) i;
     if fst (proposal_checked_validity rd) = Indeterminate
     then
       if proposal_is_faulty rd
       then Some (Fail, s\<lparr>rounds_data := (rounds_data s)[i := rd\<lparr>proposal_checked_validity := (Fail, NoReason)\<rparr>]\<rparr>)
       else if has_full_proposal rd
       then do {
         (v, app) \<leftarrow> validate_closure cl (proposal rd) (node_app s);
         Some (fst v, s\<lparr>rounds_data := (rounds_data s)[i := rd\<lparr>proposal_checked_validity := v\<rparr>],
           node_app := app\<rparr>) }
       else Some (fst (proposal_checked_validity rd), s)
     else Some (fst (proposal_checked_validity rd), s) }"

text \<open>What an iteration of the loop of \<^verbatim>\<open>bft_update\<close> computes first.\<close>

record iteration =
  it_now :: nat
  it_big :: u64
  it_small :: u64
  it_i :: nat
  it_on_roster :: bool
  it_counts :: ConsensusCounts
  it_has_info :: bool
  it_current :: bool

definition line_22 :: "env \<Rightarrow> 'app closures \<Rightarrow> iteration \<Rightarrow> 'app node \<Rightarrow> 'app node rust" where
  "line_22 env cl it s = do {
     rd \<leftarrow> index (rounds_data s) (it_i it);
     if it_on_roster it \<and> it_current it \<and> it_has_info it \<and> proposal_valid_round rd = - 1 \<and>
        tm_step s = Propose
     then do {
       (valid, s) \<leftarrow> proposal_is_valid cl (it_i it) s;
       rd \<leftarrow> index (rounds_data s) (it_i it);
       if valid = Pass \<and> (snd (locked_value_round s) = - 1 \<or>
            fst (locked_value_round s) = Some (proposal rd))
       then broadcast_step env (it_i it) (PrevoteMsg (proposal_id rd)) s
       else broadcast_step env (it_i it) (PrevoteMsg ValueId_NIL) s }
     else Some s }"

definition line_28 :: "env \<Rightarrow> 'app closures \<Rightarrow> iteration \<Rightarrow> 'app node \<Rightarrow> 'app node rust" where
  "line_28 env cl it s = do {
     rd \<leftarrow> index (rounds_data s) (it_i it);
     if it_on_roster it \<and> it_current it \<and> it_has_info it \<and> it_big it \<le> yes_prevotes (it_counts it) \<and>
        tm_step s = Propose \<and> 0 \<le> proposal_valid_round rd \<and>
        proposal_valid_round rd < uint (tm_round s)
     then do {
       (valid, s) \<leftarrow> proposal_is_valid cl (it_i it) s;
       rd \<leftarrow> index (rounds_data s) (it_i it);
       if valid = Pass \<and> (snd (locked_value_round s) \<le> proposal_valid_round rd \<or>
            fst (locked_value_round s) = Some (proposal rd))
       then broadcast_step env (it_i it) (PrevoteMsg (proposal_id rd)) s
       else broadcast_step env (it_i it) (PrevoteMsg ValueId_NIL) s }
     else Some s }"

definition line_34 :: "iteration \<Rightarrow> 'app node \<Rightarrow> 'app node rust" where
  "line_34 it s = do {
     rd \<leftarrow> index (rounds_data s) (it_i it);
     if it_on_roster it \<and> it_current it \<and> it_big it \<le> prevotes (it_counts it) \<and>
        tm_step s = Prevote \<and> \<not> fst (timeout_triggered rd)
     then Some (s\<lparr>rounds_data := (rounds_data s)[it_i it := rd\<lparr>
         timeout_triggered := (True, snd (timeout_triggered rd)),
         active_timeout := Some (Timeout_new (it_now it) (tm_height s) (tm_round s) Prevote)\<rparr>]\<rparr>)
     else Some s }"

definition line_36 :: "env \<Rightarrow> 'app closures \<Rightarrow> iteration \<Rightarrow> 'app node \<Rightarrow> 'app node rust" where
  "line_36 env cl it s =
     (if it_on_roster it \<and> it_current it \<and> it_has_info it \<and> it_big it \<le> yes_prevotes (it_counts it)
      then do {
        (valid, s) \<leftarrow> proposal_is_valid cl (it_i it) s;
        if valid = Pass \<and> (tm_step s = Prevote \<or> tm_step s = Precommit)
        then do {
          rd \<leftarrow> index (rounds_data s) (it_i it);
          s \<leftarrow> (if tm_step s = Prevote
            then broadcast_step env (it_i it) (PrecommitMsg (proposal_id rd))
              (s\<lparr>locked_value_round := (Some (proposal rd), uint (tm_round s))\<rparr>)
            else Some s);
          rd \<leftarrow> index (rounds_data s) (it_i it);
          Some (s\<lparr>valid_value_round := (Some (proposal rd), uint (tm_round s))\<rparr>) }
        else Some s }
      else Some s)"

definition line_44 :: "env \<Rightarrow> iteration \<Rightarrow> 'app node \<Rightarrow> 'app node rust" where
  "line_44 env it s =
     (if it_on_roster it \<and> it_current it \<and> it_big it \<le> nil_prevotes (it_counts it) \<and>
        tm_step s = Prevote
      then broadcast_step env (it_i it) (PrecommitMsg ValueId_NIL) s
      else Some s)"

definition line_47 :: "iteration \<Rightarrow> 'app node \<Rightarrow> 'app node rust" where
  "line_47 it s = do {
     rd \<leftarrow> index (rounds_data s) (it_i it);
     if it_on_roster it \<and> it_current it \<and> it_big it \<le> precommits (it_counts it) \<and>
        \<not> snd (timeout_triggered rd)
     then Some (s\<lparr>rounds_data := (rounds_data s)[it_i it := rd\<lparr>
         timeout_triggered := (fst (timeout_triggered rd), True),
         active_timeout := Some (Timeout_new (it_now it) (tm_height s) (tm_round s) Precommit)\<rparr>]\<rparr>)
     else Some s }"

definition decide :: "env \<Rightarrow> 'app closures \<Rightarrow> iteration \<Rightarrow> 'app node \<Rightarrow> 'app node rust" where
  "decide env cl it s = do {
     rd \<leftarrow> index (rounds_data s) (it_i it);
     fp \<leftarrow> round_data_to_fat_pointer rd (node_roster s);
     (new_roster, app) \<leftarrow> push_block_closure cl (proposal rd) fp (proposal_sigs rd) (node_app s);
     height \<leftarrow> checked_add (tm_height s) 1;
     start_round env cl (it_now it) 0
       (s\<lparr>tm_height := height,
          valid_value_round := (None, - 1),
          locked_value_round := (None, - 1),
          rounds_data := filter (\<lambda>r. rd_height r < height) (rounds_data s),
          recent_commit_round_cache := recent_commit_round_cache s @ [rd],
          node_roster := new_roster,
          node_app := app\<rparr>) }"

definition line_49 :: "env \<Rightarrow> 'app closures \<Rightarrow> iteration \<Rightarrow> 'app node \<Rightarrow> 'app node rust" where
  "line_49 env cl it s = do {
     rd \<leftarrow> index (rounds_data s) (it_i it);
     if tm_height s = rd_height rd \<and> it_has_info it \<and> it_big it \<le> yes_precommits (it_counts it)
     then do {
       (valid, s) \<leftarrow> proposal_is_valid cl (it_i it) s;
       if valid = Pass then decide env cl it s else Some s }
     else Some s }"

definition line_55 :: "env \<Rightarrow> 'app closures \<Rightarrow> iteration \<Rightarrow> 'app node \<Rightarrow> 'app node rust" where
  "line_55 env cl it s = do {
     rd \<leftarrow> index (rounds_data s) (it_i it);
     if it_on_roster it \<and> tm_height s = rd_height rd \<and> tm_round s < rd_round rd \<and>
        it_small it \<le> anys (it_counts it)
     then start_round env cl (it_now it) (rd_round rd) s
     else Some s }"

definition timeouts :: "env \<Rightarrow> 'app closures \<Rightarrow> iteration \<Rightarrow> 'app node \<Rightarrow> 'app node rust" where
  "timeouts env cl it s = do {
     rd \<leftarrow> index (rounds_data s) (it_i it);
     (case active_timeout rd of
        None \<Rightarrow> Some s
      | Some t \<Rightarrow>
          if to_time t \<le> it_now it \<and> tm_height s = to_height t \<and> tm_round s = to_round t \<and> it_on_roster it
          then
            (case to_step t of
               Propose \<Rightarrow>
                 if tm_step s = Propose then broadcast_step env (it_i it) (PrevoteMsg ValueId_NIL) s
                 else Some s
             | Prevote \<Rightarrow>
                 if tm_step s = Prevote then broadcast_step env (it_i it) (PrecommitMsg ValueId_NIL) s
                 else Some s
             | Precommit \<Rightarrow> do {
                 r \<leftarrow> checked_add (tm_round s) 1;
                 start_round env cl (it_now it) r s })
          else Some s) }"

definition bft_iteration ::
  "env \<Rightarrow> 'app closures \<Rightarrow> nat \<Rightarrow> u64 \<Rightarrow> u64 \<Rightarrow> nat \<Rightarrow> 'app node \<Rightarrow> 'app node rust" where
  "bft_iteration env cl now big small i s = do {
     rd \<leftarrow> index (rounds_data s) i;
     let it = \<lparr>it_now = now, it_big = big, it_small = small, it_i = i,
       it_on_roster = (roster_i_from_pub_key (take (active_roster_len (node_roster s)) (node_roster s))
         (env_my_pub_key env) \<noteq> None),
       it_counts = rd_counts rd,
       it_has_info = has_enough_info_to_determine_validity rd,
       it_current = ((tm_height s, tm_round s) = round_key rd)\<rparr>;
     s \<leftarrow> line_22 env cl it s;
     s \<leftarrow> line_28 env cl it s;
     s \<leftarrow> line_34 it s;
     s \<leftarrow> line_36 env cl it s;
     s \<leftarrow> line_44 env it s;
     s \<leftarrow> line_47 it s;
     s \<leftarrow> line_49 env cl it s;
     s \<leftarrow> line_55 env cl it s;
     timeouts env cl it s }"

definition bft_update :: "env \<Rightarrow> 'app closures \<Rightarrow> nat \<Rightarrow> 'app node \<Rightarrow> 'app node rust" where
  "bft_update env cl now s = do {
     (big, small) \<leftarrow> roster_thresholds (node_roster s);
     let current_height_start_i = (case find_round (tm_height s) 0 (rounds_data s) of
       Inr i \<Rightarrow> i | Inl _ \<Rightarrow> 0);
     rust_fold (bft_iteration env cl now big small)
       [current_height_start_i..<length (rounds_data s)] s }"

text \<open>The state \<^verbatim>\<open>entry_point\<close> starts from.\<close>

definition TMState_init :: "roster \<Rightarrow> 'app \<Rightarrow> 'app node" where
  "TMState_init roster app = \<lparr>tm_round = 0, tm_step = Propose, tm_height = 0,
     valid_value_round = (None, - 1), locked_value_round = (None, - 1), rounds_data = [],
     recent_commit_round_cache = [], signed_votes = [], node_roster = roster, node_app = app\<rparr>"

definition entry_point_start ::
  "env \<Rightarrow> 'app closures \<Rightarrow> nat \<Rightarrow> roster \<Rightarrow> RoundData list \<Rightarrow> 'app \<Rightarrow> 'app node rust" where
  "entry_point_start env cl now roster ingest_startup_data app =
     start_round env cl now 0 ((TMState_init roster app)\<lparr>
       tm_height := word_of_nat (length ingest_startup_data),
       recent_commit_round_cache := ingest_startup_data\<rparr>)"

section \<open>The rounds a node keeps\<close>

lemma binary_search_Inr: "binary_search_by_key k key xs = Inr i \<Longrightarrow> i < length xs \<and> key (xs ! i) = k"
  by (auto simp: binary_search_by_key_def Let_def split: if_splits)

lemma binary_search_Inl:
  assumes "binary_search_by_key k key xs = Inl i"
  shows "i \<le> length xs" "j < i \<Longrightarrow> key (xs ! j) < k" "i < length xs \<Longrightarrow> k < key (xs ! i)"
proof -
  let ?P = "\<lambda>x. key x < k"
  have i: "i = partition_point ?P xs" and ne: "\<not> (i < length xs \<and> key (xs ! i) = k)"
    using assms by (auto simp: binary_search_by_key_def Let_def split: if_splits)
  show "i \<le> length xs" using i by (simp add: partition_point_def length_takeWhile_le)
  show "key (xs ! j) < k" if "j < i" using that i partition_point_less [of j ?P xs] by simp
  show "k < key (xs ! i)" if "i < length xs"
    using that i ne partition_point_stop [of ?P xs] by (metis linorder_less_linear)
qed

lemma binary_search_present:
  assumes "sorted_wrt (<) (map key xs)" and "i < length xs"
  shows "binary_search_by_key (key (xs ! i)) key xs = Inr i"
proof (cases "binary_search_by_key (key (xs ! i)) key xs")
  case (Inl j)
  note b = binary_search_Inl [OF Inl]
  have "i < j \<Longrightarrow> False" using b(2) [of i] by simp
  moreover have "j \<le> i \<Longrightarrow> key (xs ! j) \<le> key (xs ! i)"
    using assms by (cases "j = i") (auto simp: sorted_wrt_iff_nth_less less_imp_le)
  ultimately show ?thesis using b(3) assms(2) by fastforce
next
  case (Inr j)
  note b = binary_search_Inr [OF Inr]
  have lt: "a < c \<Longrightarrow> c < length xs \<Longrightarrow> key (xs ! a) < key (xs ! c)" for a c
    using assms(1) by (simp add: sorted_wrt_iff_nth_less)
  have "\<not> i < j" "\<not> j < i" using lt [of i j] lt [of j i] b assms(2) by auto
  with Inr show ?thesis by (metis linorder_neqE_nat)
qed

lemma vec_insert_length: "i \<le> length xs \<Longrightarrow> length (vec_insert xs i x) = Suc (length xs)"
  by (simp add: vec_insert_def)

lemma vec_insert_nth: "i \<le> length xs \<Longrightarrow> vec_insert xs i x ! i = x"
  by (simp add: vec_insert_def nth_append)

lemma map_vec_insert: "map f (vec_insert xs i x) = vec_insert (map f xs) i (f x)"
  by (simp add: vec_insert_def take_map drop_map)

lemma list_all_vec_insert: "list_all P (vec_insert xs i x) \<longleftrightarrow> list_all P (take i xs) \<and> P x \<and> list_all P (drop i xs)"
  by (simp add: vec_insert_def)

lemma list_all_take_drop: "list_all P xs \<Longrightarrow> list_all P (take i xs) \<and> list_all P (drop i xs)"
  by (auto simp: list_all_iff dest: in_set_takeD in_set_dropD)

lemma sorted_vec_insert:
  assumes s: "sorted_wrt (<) (map key xs)" and b: "binary_search_by_key k key xs = Inl i"
  shows "sorted_wrt (<) (vec_insert (map key xs) i k)"
proof -
  note bs = binary_search_Inl [OF b]
  have lt: "a < k" if "a \<in> set (take i (map key xs))" for a
    using that bs(1,2) by (auto simp: in_set_conv_nth)
  have gt: "k < a" if "a \<in> set (drop i (map key xs))" for a
  proof -
    from that obtain j where j: "j < length xs - i" "a = key (xs ! (i + j))" by (auto simp: in_set_conv_nth)
    then have "k < key (xs ! i)" using bs(3) by simp
    also have "key (xs ! i) \<le> a"
      using s j by (cases "j = 0") (auto simp: sorted_wrt_iff_nth_less less_imp_le)
    finally show ?thesis .
  qed
  have "sorted_wrt (<) (take i (map key xs) @ drop i (map key xs))" using s by simp
  with lt gt show ?thesis
    unfolding vec_insert_def by (auto simp del: append_take_drop_id simp: sorted_wrt_append)
qed

text \<open>The parts of a round that the handlers of messages leave alone.\<close>

abbreviation skel :: "RoundData \<Rightarrow> u64 \<times> u32 \<times> Timeout option" where
  "skel rd \<equiv> (rd_height rd, rd_round rd, active_timeout rd)"

lemma incorporate_vote_skel:
  "incorporate_vote roster i pc v sig rd = Some (st, rd') \<Longrightarrow> skel rd' = skel rd"
  by (auto simp: incorporate_vote_def Let_def bind_eq_Some_conv split: if_splits)

lemma flush_skel [simp]:
  "rd_height (flush_for_amnesiac_proposer v vr roster sz rd) = rd_height rd"
  "rd_round (flush_for_amnesiac_proposer v vr roster sz rd) = rd_round rd"
  "active_timeout (flush_for_amnesiac_proposer v vr roster sz rd) = active_timeout rd"
  by (simp_all add: flush_for_amnesiac_proposer_def Let_def)

lemma check_previous_skel:
  "check_previous_proposal mine seen roster v vr sz rd = Some rd' \<Longrightarrow> skel rd' = skel rd"
  by (auto simp: check_previous_proposal_def Let_def split: if_splits)

lemma first_chunk_skel: "first_proposal_chunk roster v rd = Some rd' \<Longrightarrow> skel rd' = skel rd"
  by (auto simp: first_proposal_chunk_def Let_def bind_eq_Some_conv split: if_splits)

lemma store_new_chunk_skel:
  assumes "store_new_chunk H roster i v vr pos data sig rd = Some (st, rd')"
  shows "skel rd' = skel rd"
proof -
  from assms [unfolded store_new_chunk_def Let_def bind_eq_Some_conv] obtain p sigs rd1 where
    i: "(if proposal_id (rd\<lparr>proposal := p, proposal_sigs := sigs, proposal_sigs_n := proposal_sigs_n rd + 1,
          proposal_valid_round := vr\<rparr>) = ValueId_NIL
         then first_proposal_chunk roster v (rd\<lparr>proposal := p, proposal_sigs := sigs,
           proposal_sigs_n := proposal_sigs_n rd + 1, proposal_valid_round := vr\<rparr>)
         else Some (rd\<lparr>proposal := p, proposal_sigs := sigs,
           proposal_sigs_n := proposal_sigs_n rd + 1, proposal_valid_round := vr\<rparr>)) = Some rd1"
    and c: "(if proposal_sigs_n rd1 = length (proposal_sigs rd1) \<and> proposal_id rd1 \<noteq> H (proposal rd1)
      then Some (Fail, rd1\<lparr>proposal_is_faulty := True\<rparr>) else Some (Pass, rd1)) = Some (st, rd')"
    by blast
  from i have "skel rd1 = skel rd" by (auto split: if_splits dest: first_chunk_skel)
  with c show ?thesis by (auto split: if_splits)
qed

lemma incorporate_chunk_skel:
  assumes "incorporate_proposal_chunk H mine seen roster i v vr data sig rd = Some (st, rd')"
  shows "skel rd' = skel rd"
proof (cases "PacketProposalChunkHeader_read_from data")
  case None
  with assms show ?thesis by (simp add: incorporate_proposal_chunk_def)
next
  case (Some h)
  let ?sz = "unat (ch_proposal_size (fst h))"
  show ?thesis
  proof (cases "check_previous_proposal mine seen roster v vr ?sz rd")
    case None
    with assms Some show ?thesis by (simp add: incorporate_proposal_chunk_def Let_def split: prod.splits)
  next
    case s1: (Some rd1)
    with assms Some check_previous_skel [OF s1] show ?thesis
      by (auto simp: incorporate_proposal_chunk_def Let_def bind_eq_Some_conv
          split: prod.splits if_splits dest: store_new_chunk_skel)
  qed
qed

lemma incorporate_skel:
  "incorporate_into_round env mine seen roster i c v vr pt data sig rd = Some (st, rd') \<Longrightarrow> skel rd' = skel rd"
  by (auto simp: incorporate_into_round_def split: if_splits
      dest: incorporate_chunk_skel incorporate_vote_skel)


text \<open>
  The rounds are strictly sorted by height and round, none is above the node's height, and a timeout
  carries the height and round of the round it is stored in.
\<close>

definition timeout_ok :: "RoundData \<Rightarrow> bool" where
  "timeout_ok rd \<longleftrightarrow> (case active_timeout rd of None \<Rightarrow> True
     | Some t \<Rightarrow> to_height t = rd_height rd \<and> to_round t = rd_round rd)"

definition rounds_wf :: "u64 \<Rightarrow> RoundData list \<Rightarrow> bool" where
  "rounds_wf h rds \<longleftrightarrow> sorted_wrt (<) (map round_key rds) \<and>
     list_all (\<lambda>rd. rd_height rd \<le> h \<and> timeout_ok rd) rds"

lemma map_skel_round_key: "map skel xs = map skel ys \<Longrightarrow> map round_key xs = map round_key ys"
proof -
  assume "map skel xs = map skel ys"
  then have "map (\<lambda>(h, r, t). (h, r)) (map skel xs) = map (\<lambda>(h, r, t). (h, r)) (map skel ys)" by simp
  then show ?thesis by (simp add: comp_def)
qed

lemma rounds_wf_skel: "map skel xs = map skel ys \<Longrightarrow> rounds_wf h xs = rounds_wf h ys"
proof -
  assume e: "map skel xs = map skel ys"
  have len: "length xs = length ys" by (rule map_eq_imp_length_eq [OF e])
  have n: "skel (xs ! i) = skel (ys ! i)" if "i < length ys" for i
    using arg_cong [OF e, of "\<lambda>l. l ! i"] that len by simp
  have "(rd_height (xs ! i) \<le> h \<and> timeout_ok (xs ! i)) = (rd_height (ys ! i) \<le> h \<and> timeout_ok (ys ! i))"
    if "i < length ys" for i using n [OF that] by (simp add: timeout_ok_def split: option.split)
  then have "list_all (\<lambda>rd. rd_height rd \<le> h \<and> timeout_ok rd) xs =
      list_all (\<lambda>rd. rd_height rd \<le> h \<and> timeout_ok rd) ys"
    using len by (simp add: list_all_length)
  with map_skel_round_key [OF e] show ?thesis by (simp add: rounds_wf_def)
qed

lemma skel_list_update: "i < length xs \<Longrightarrow> skel x = skel (xs ! i) \<Longrightarrow> map skel (xs[i := x]) = map skel xs"
  by (simp add: map_update list_update_same_conv)

lemma rounds_wf_insert:
  assumes "rounds_wf h rds" and "find_round h r rds = Inl i"
    and "rd_height rd = h" "rd_round rd = r" "active_timeout rd = None"
  shows "rounds_wf h (vec_insert rds i rd)"
  using assms sorted_vec_insert [of round_key rds "(h, r)" i]
  by (auto simp: rounds_wf_def find_round_def map_vec_insert list_all_vec_insert timeout_ok_def
      dest: list_all_take_drop)

text \<open>What a message does to the rounds: their skeletons stay, or one round is inserted.\<close>

lemma check_and_incorporate_effect:
  assumes "check_and_incorporate_msg env h r c v vr roster ri pt data sig s = Some (st, s')"
  obtains (same) rds where "s' = s\<lparr>rounds_data := rds\<rparr>" "map skel rds = map skel (rounds_data s)"
  | (inserted) i rds where "s' = s\<lparr>rounds_data := rds\<rparr>" "find_round h r (rounds_data s) = Inl i"
      "map skel rds = vec_insert (map skel (rounds_data s)) i (h, r, None)" "h = tm_height s"
proof -
  show thesis
  proof (cases "h \<noteq> tm_height s \<or> ri \<ge> active_roster_len roster \<or>
      \<not> env_verify env (pub_key (roster ! ri)) data sig")
    case True
    then have "s' = s" using assms
      by (auto simp: check_and_incorporate_msg_def index_Some bind_eq_Some_conv split: if_splits)
    then show ?thesis by (intro same [of "rounds_data s"]) simp_all
  next
    case False
    then have h: "h = tm_height s" by simp
    show ?thesis
    proof (cases "find_round h r (rounds_data s)")
      case (Inr i)
      with assms False obtain rd' st' where rd': "index (rounds_data s) i = Some (rounds_data s ! i)"
          "incorporate_into_round env (pub_key (roster ! ri) = env_my_pub_key env) True roster ri c v vr pt
             data sig (rounds_data s ! i) = Some (st', rd')"
          "s' = s\<lparr>rounds_data := (rounds_data s)[i := rd']\<rparr>"
        by (auto simp: check_and_incorporate_msg_def index_Some bind_eq_Some_conv split: if_splits)
      then show ?thesis
        using incorporate_skel [OF rd'(2)]
        by (intro same [of "(rounds_data s)[i := rd']"]) (simp_all add: skel_list_update index_Some)
    next
      case (Inl i)
      let ?new = "RoundData_EMPTY\<lparr>rd_height := tm_height s, rd_round := r,
            msg_val_sigs := replicate (active_roster_len roster) empty_slots, rd_roster := roster\<rparr>"
      let ?rds = "vec_insert (rounds_data s) i ?new"
      have le: "i \<le> length (rounds_data s)"
        using Inl binary_search_Inl(1) by (auto simp: find_round_def)
      have nth: "?rds ! i = ?new" using le by (simp add: vec_insert_nth)
      from assms False Inl obtain rd' st' where rd': "i < length ?rds"
          "incorporate_into_round env (pub_key (roster ! ri) = env_my_pub_key env) False roster ri c v vr pt
             data sig (?rds ! i) = Some (st', rd')"
          "s' = s\<lparr>rounds_data := ?rds[i := rd']\<rparr>"
        by (auto simp: check_and_incorporate_msg_def index_Some bind_eq_Some_conv insert_round_def
            split: if_splits)
      have "map skel (?rds[i := rd']) = map skel ?rds"
        using rd'(1) incorporate_skel [OF rd'(2)] by (intro skel_list_update)
      also have "\<dots> = vec_insert (map skel (rounds_data s)) i (h, r, None)"
        using h by (simp add: map_vec_insert RoundData_EMPTY_def)
      finally show ?thesis using rd'(3) Inl h by (intro inserted) simp_all
    qed
  qed
qed

lemma vec_insert_skel_wf:
  assumes wf: "rounds_wf h rds" and f: "find_round h r rds = Inl i"
    and e: "map skel rds' = vec_insert (map skel rds) i (h, r, None)"
  shows "rounds_wf h rds'"
proof -
  let ?new = "RoundData_EMPTY\<lparr>rd_height := h, rd_round := r\<rparr>"
  have "map skel rds' = map skel (vec_insert rds i ?new)"
    using e by (simp add: map_vec_insert RoundData_EMPTY_def)
  from rounds_wf_skel [OF this] rounds_wf_insert [OF wf f, of ?new] show ?thesis
    by (simp add: RoundData_EMPTY_def)
qed

lemma check_and_incorporate_wf:
  assumes wf: "rounds_wf (tm_height s) (rounds_data s)"
    and r: "check_and_incorporate_msg env h r c v vr roster ri pt data sig s = Some (st, s')"
  shows "\<exists>rds. s' = s\<lparr>rounds_data := rds\<rparr> \<and> rounds_wf (tm_height s) rds"
  using r
proof (cases rule: check_and_incorporate_effect)
  case (same rds)
  with wf rounds_wf_skel [OF same(2), of "tm_height s"] show ?thesis by auto
next
  case (inserted i rds)
  with wf vec_insert_skel_wf [of "tm_height s" "rounds_data s" r i rds] show ?thesis by auto
qed

text \<open>A message for a round the node has.\<close>

lemma check_and_incorporate_present:
  assumes "rounds_wf (tm_height s) (rounds_data s)" and i: "i < length (rounds_data s)"
    and k: "round_key (rounds_data s ! i) = (h, r)"
    and r: "check_and_incorporate_msg env h r c v vr roster ri pt data sig s = Some (st, s')"
  shows "\<exists>rds. s' = s\<lparr>rounds_data := rds\<rparr> \<and> map skel rds = map skel (rounds_data s)"
  using r
proof (cases rule: check_and_incorporate_effect)
  case (inserted j rds)
  with binary_search_present [of round_key "rounds_data s" i] assms(1) i k show ?thesis
    by (simp add: find_round_def rounds_wf_def)
qed blast

section \<open>No vote is signed twice\<close>

lemma rust_fold_invariant:
  assumes "\<And>i s s'. P s \<Longrightarrow> f i s = Some s' \<Longrightarrow> P s'"
  shows "P s \<Longrightarrow> rust_fold f is s = Some s' \<Longrightarrow> P s'"
  by (induction "is" arbitrary: s) (auto simp: bind_eq_Some_conv dest: assms)

lemma skel_nth:
  assumes "map skel xs = map skel ys" and "i < length ys"
  shows "i < length xs \<and> round_key (xs ! i) = round_key (ys ! i)"
  using map_eq_imp_length_eq [OF assms(1)] arg_cong [OF assms(1), of "\<lambda>l. l ! i"] assms(2) by simp

lemma broadcast_chunks_effect:
  assumes wf: "rounds_wf (tm_height s) (rounds_data s)" and i: "i < length (rounds_data s)"
    and k: "round_key (rounds_data s ! i) = (h, r)"
    and b: "rust_fold (broadcast_chunk env roster ri h r value vr) cs s = Some s'"
  shows "\<exists>rds. s' = s\<lparr>rounds_data := rds\<rparr> \<and> map skel rds = map skel (rounds_data s)"
proof -
  define P where "P t \<longleftrightarrow> (\<exists>rds. t = s\<lparr>rounds_data := rds\<rparr> \<and> map skel rds = map skel (rounds_data s))" for t
  have step: "P t'" if t: "P t" and u: "broadcast_chunk env roster ri h r value vr c t = Some t'" for c t t'
  proof -
    from t obtain rds where rds: "t = s\<lparr>rounds_data := rds\<rparr>" "map skel rds = map skel (rounds_data s)"
      by (auto simp: P_def)
    have "rounds_wf (tm_height t) (rounds_data t)" "i < length (rounds_data t)"
        "round_key (rounds_data t ! i) = (h, r)"
      using wf i k rds rounds_wf_skel [OF rds(2)] skel_nth [OF rds(2) i] by simp_all
    note present = check_and_incorporate_present [OF this]
    from u obtain v vr' pt data sig st where
      "check_and_incorporate_msg env h r c v vr' roster ri pt data sig t = Some (st, t')"
      by (auto simp: broadcast_chunk_def Let_def bind_eq_Some_conv)
    from present [OF this] rds show ?thesis by (auto simp: P_def)
  qed
  have "P s" unfolding P_def by (rule exI [of _ "rounds_data s"]) simp
  from rust_fold_invariant [of P, OF step this b] show ?thesis by (simp add: P_def)
qed

lemma broadcast_vote_effect:
  assumes "rounds_wf (tm_height s) (rounds_data s)" "i < length (rounds_data s)"
    and "round_key (rounds_data s ! i) = (h, r)"
    and "broadcast_vote env roster ri h r pc v s = Some s'"
  shows "\<exists>rds. s' = s\<lparr>rounds_data := rds, signed_votes := (h, r, pc, v) # signed_votes s\<rparr> \<and>
    map skel rds = map skel (rounds_data s)"
proof -
  let ?t = "s\<lparr>signed_votes := (h, r, pc, v) # signed_votes s\<rparr>"
  from assms(4) obtain data sig st pt where
    c: "check_and_incorporate_msg env h r 0 v (- 2) roster ri pt data sig ?t = Some (st, s')"
    by (auto simp: broadcast_vote_def Let_def bind_eq_Some_conv)
  from check_and_incorporate_present [OF _ _ _ c, of i] assms(1-3)
  obtain rds where "s' = ?t\<lparr>rounds_data := rds\<rparr>" "map skel rds = map skel (rounds_data s)" by auto
  then show ?thesis by (intro exI [of _ rds]) (cases s; simp)
qed

text \<open>
  \<open>broadcast\<close> leaves the rounds' keys and timeouts and everything else of the node alone, and a vote
  it signs is for the height and round of the round it is called with.
\<close>

definition broadcast_result :: "TMMsgData \<Rightarrow> u64 \<Rightarrow> u32 \<Rightarrow> 'app node \<Rightarrow> 'app node \<Rightarrow> bool" where
  "broadcast_result msg h r s s' \<longleftrightarrow> (\<exists>rds. map skel rds = map skel (rounds_data s) \<and>
     (s' = s\<lparr>rounds_data := rds\<rparr> \<or>
      (case msg of
         ProposalMsg v vr \<Rightarrow> s' = s\<lparr>rounds_data := rds, tm_step := Propose\<rparr>
       | PrevoteMsg v \<Rightarrow> s' = s\<lparr>rounds_data := rds, tm_step := Prevote,
           signed_votes := (h, r, False, v) # signed_votes s\<rparr>
       | PrecommitMsg v \<Rightarrow> s' = s\<lparr>rounds_data := rds, tm_step := Precommit,
           signed_votes := (h, r, True, v) # signed_votes s\<rparr>)))"

lemma broadcast_step_effect:
  assumes wf: "rounds_wf (tm_height s) (rounds_data s)"
    and b: "broadcast_step env i msg s = Some s'"
  shows "i < length (rounds_data s) \<and>
    broadcast_result msg (rd_height (rounds_data s ! i)) (rd_round (rounds_data s ! i)) s s'"
proof -
  let ?h = "rd_height (rounds_data s ! i)" and ?r = "rd_round (rounds_data s ! i)"
  from b have i: "i < length (rounds_data s)"
    by (auto simp: broadcast_step_def broadcast_def bind_eq_Some_conv index_Some)
  show ?thesis
  proof (cases "roster_i_from_pub_key (take (active_roster_len (node_roster s)) (node_roster s)) (env_my_pub_key env)")
    case None
    with b i have "s' = s\<lparr>rounds_data := rounds_data s\<rparr>"
      by (auto simp: broadcast_step_def broadcast_def)
    with i show ?thesis unfolding broadcast_result_def by blast
  next
    case (Some ri)
    have k: "round_key (rounds_data s ! i) = (?h, ?r)" by simp
    show ?thesis
    proof (cases msg)
      case (ProposalMsg v vr)
      with b Some i obtain t where "rust_fold (broadcast_chunk env (node_roster s) ri ?h ?r v vr)
          [0..<chunks_n v] s = Some t" "s' = t\<lparr>tm_step := Propose\<rparr>"
        by (auto simp: broadcast_step_def broadcast_def bind_eq_Some_conv)
      with broadcast_chunks_effect [OF wf i k, of env "node_roster s" ri v vr] ProposalMsg i show ?thesis
        by (fastforce simp: broadcast_result_def)
    next
      case (PrevoteMsg v)
      with b Some i obtain t where "broadcast_vote env (node_roster s) ri ?h ?r False v s = Some t"
          "s' = t\<lparr>tm_step := Prevote\<rparr>"
        by (auto simp: broadcast_step_def broadcast_def bind_eq_Some_conv)
      with broadcast_vote_effect [OF wf i k, of env "node_roster s" ri False v] PrevoteMsg i show ?thesis
        by (fastforce simp: broadcast_result_def)
    next
      case (PrecommitMsg v)
      with b Some i obtain t where "broadcast_vote env (node_roster s) ri ?h ?r True v s = Some t"
          "s' = t\<lparr>tm_step := Precommit\<rparr>"
        by (auto simp: broadcast_step_def broadcast_def bind_eq_Some_conv)
      with broadcast_vote_effect [OF wf i k, of env "node_roster s" ri True v] PrecommitMsg i show ?thesis
        by (fastforce simp: broadcast_result_def)
    qed
  qed
qed


text \<open>
  Every signed vote is for an earlier round, or for the current one and a step the node has passed;
  and no two signed votes are for the same height, round and kind.
\<close>

definition vote_past :: "u64 \<Rightarrow> u32 \<Rightarrow> TMStep \<Rightarrow> u64 \<times> u32 \<times> bool \<times> bytes \<Rightarrow> bool" where
  "vote_past height round step = (\<lambda>(h, r, pc, v). (h, r) < (height, round) \<or>
     (h, r) = (height, round) \<and> (if pc then step = Precommit else step \<noteq> Propose))"

definition vote_id :: "u64 \<times> u32 \<times> bool \<times> bytes \<Rightarrow> u64 \<times> u32 \<times> bool" where
  "vote_id = (\<lambda>(h, r, pc, v). (h, r, pc))"

definition votes_once :: "'a TMState_scheme \<Rightarrow> bool" where
  "votes_once s \<longleftrightarrow> distinct (map vote_id (signed_votes s)) \<and>
     list_all (vote_past (tm_height s) (tm_round s) (tm_step s)) (signed_votes s)"

definition node_inv :: "'a TMState_scheme \<Rightarrow> bool" where
  "node_inv s \<longleftrightarrow> rounds_wf (tm_height s) (rounds_data s) \<and> votes_once s"

text \<open>The context of an iteration belongs to the state.\<close>

definition it_ok :: "iteration \<Rightarrow> 'a TMState_scheme \<Rightarrow> bool" where
  "it_ok it s \<longleftrightarrow> it_i it < length (rounds_data s) \<and>
     (it_current it \<longrightarrow> round_key (rounds_data s ! it_i it) = (tm_height s, tm_round s))"

definition kept :: "'a TMState_scheme \<Rightarrow> 'a TMState_scheme \<Rightarrow> bool" where
  "kept s s' \<longleftrightarrow> tm_height s' = tm_height s \<and> tm_round s' = tm_round s \<and>
     map round_key (rounds_data s') = map round_key (rounds_data s)"

lemma kept_refl [simp]: "kept s s"
  by (simp add: kept_def)

lemma kept_trans: "kept s t \<Longrightarrow> kept t u \<Longrightarrow> kept s u"
  by (simp add: kept_def)

lemma kept_it_ok:
  assumes "kept s s'" and "it_ok it s"
  shows "it_ok it s'"
proof -
  have e: "map round_key (rounds_data s') = map round_key (rounds_data s)" using assms(1) by (simp add: kept_def)
  have "length (rounds_data s') = length (rounds_data s)" by (rule map_eq_imp_length_eq [OF e])
  moreover from this arg_cong [OF e, of "\<lambda>l. l ! it_i it"] assms(2)
  have "round_key (rounds_data s' ! it_i it) = round_key (rounds_data s ! it_i it)"
    by (simp add: it_ok_def)
  ultimately show ?thesis using assms by (simp add: kept_def it_ok_def)
qed

lemma node_inv_skel:
  assumes "node_inv s" and "map skel rds = map skel (rounds_data s)"
  shows "node_inv (s\<lparr>rounds_data := rds\<rparr>)" "kept s (s\<lparr>rounds_data := rds\<rparr>)"
  using assms rounds_wf_skel [OF assms(2)] map_skel_round_key [OF assms(2)]
  by (simp_all add: node_inv_def votes_once_def kept_def)

lemma votes_once_prevote:
  "votes_once s \<Longrightarrow> tm_step s = Propose \<Longrightarrow>
     votes_once (s\<lparr>tm_step := Prevote, signed_votes := (tm_height s, tm_round s, False, v) # signed_votes s\<rparr>)"
  by (fastforce simp: votes_once_def list_all_iff vote_past_def vote_id_def)

lemma votes_once_precommit:
  "votes_once s \<Longrightarrow> tm_step s = Prevote \<Longrightarrow>
     votes_once (s\<lparr>tm_step := Precommit, signed_votes := (tm_height s, tm_round s, True, v) # signed_votes s\<rparr>)"
  by (fastforce simp: votes_once_def list_all_iff vote_past_def vote_id_def)

text \<open>The two votes a node signs, at the steps at which it signs them.\<close>

definition vote_allowed :: "TMMsgData \<Rightarrow> TMStep \<Rightarrow> bool" where
  "vote_allowed msg st \<longleftrightarrow> (case msg of ProposalMsg _ _ \<Rightarrow> False | PrevoteMsg _ \<Rightarrow> st = Propose
     | PrecommitMsg _ \<Rightarrow> st = Prevote)"

lemma broadcast_vote_inv:
  assumes inv: "node_inv s" and k: "round_key (rounds_data s ! i) = (tm_height s, tm_round s)"
    and a: "vote_allowed msg (tm_step s)" and b: "broadcast_step env i msg s = Some s'"
  shows "node_inv s' \<and> kept s s'"
proof -
  from inv have wf: "rounds_wf (tm_height s) (rounds_data s)" and once: "votes_once s"
    by (simp_all add: node_inv_def)
  from k have hr: "rd_height (rounds_data s ! i) = tm_height s" "rd_round (rounds_data s ! i) = tm_round s"
    by simp_all
  from broadcast_step_effect [OF wf b, unfolded hr broadcast_result_def] obtain rds where rds: "map skel rds = map skel (rounds_data s)"
    and s': "s' = s\<lparr>rounds_data := rds\<rparr> \<or> (case msg of ProposalMsg v vr \<Rightarrow> s' = s\<lparr>rounds_data := rds, tm_step := Propose\<rparr>
       | PrevoteMsg v \<Rightarrow> s' = s\<lparr>rounds_data := rds, tm_step := Prevote,
           signed_votes := (tm_height s, tm_round s, False, v) # signed_votes s\<rparr>
       | PrecommitMsg v \<Rightarrow> s' = s\<lparr>rounds_data := rds, tm_step := Precommit,
           signed_votes := (tm_height s, tm_round s, True, v) # signed_votes s\<rparr>)"
    by blast
  have wf': "rounds_wf (tm_height s) rds" using wf rounds_wf_skel [OF rds] by simp
  have keys: "map round_key rds = map round_key (rounds_data s)" by (rule map_skel_round_key [OF rds])
  from s' consider "s' = s\<lparr>rounds_data := rds\<rparr>"
    | v where "tm_step s = Propose" "s' = s\<lparr>rounds_data := rds, tm_step := Prevote,
           signed_votes := (tm_height s, tm_round s, False, v) # signed_votes s\<rparr>"
    | v where "tm_step s = Prevote" "s' = s\<lparr>rounds_data := rds, tm_step := Precommit,
           signed_votes := (tm_height s, tm_round s, True, v) # signed_votes s\<rparr>"
    using a by (cases msg) (auto simp: vote_allowed_def)
  then show ?thesis
  proof cases
    case 1
    then show ?thesis using node_inv_skel [OF inv rds] by simp
  next
    case 2
    then show ?thesis using wf' keys votes_once_prevote [OF once]
      by (simp add: node_inv_def kept_def votes_once_def)
  next
    case 3
    then show ?thesis using wf' keys votes_once_precommit [OF once]
      by (simp add: node_inv_def kept_def votes_once_def)
  qed
qed

end
