(* ===== verification/Tendermint_Safety.thy ===== *)
theory Tendermint_Safety
  imports Tendermint "HOL-Library.Code_Target_Numeral"
begin

text \<open>
  What a node keeps true while it runs: the invariant of \<^verbatim>\<open>Tendermint\<close> is carried through every
  rule of \<^verbatim>\<open>bft_update\<close>, through \<^verbatim>\<open>start_round\<close> and through the receipt of messages, and
  the safety properties of a run are read off it.
\<close>

section \<open>The rules of \<^verbatim>\<open>bft_update\<close>\<close>

lemma proposal_is_valid_effect:
  assumes "proposal_is_valid cl i s = Some (v, s')"
  shows "\<exists>rds app. s' = s\<lparr>rounds_data := rds, node_app := app\<rparr> \<and> map skel rds = map skel (rounds_data s)"
proof -
  from assms have i: "i < length (rounds_data s)"
    by (auto simp: proposal_is_valid_def bind_eq_Some_conv index_Some)
  let ?rd = "rounds_data s ! i"
  have sk: "map skel ((rounds_data s)[i := ?rd\<lparr>proposal_checked_validity := c\<rparr>]) = map skel (rounds_data s)" for c
    using i by (intro skel_list_update) simp_all
  have r: "index (rounds_data s) i = Some ?rd" using i by (simp add: index_Some)
  have "s' = s \<or> (\<exists>c app. s' = s\<lparr>rounds_data := (rounds_data s)[i := ?rd\<lparr>proposal_checked_validity := c\<rparr>],
      node_app := app\<rparr>)"
  proof (cases "fst (proposal_checked_validity ?rd) = Indeterminate \<and>
      (proposal_is_faulty ?rd \<or> has_full_proposal ?rd)")
    case True
    note c = this
    show ?thesis
    proof (cases "proposal_is_faulty ?rd")
      case True
      with assms c r have "s' = s\<lparr>rounds_data := (rounds_data s)[i := ?rd\<lparr>proposal_checked_validity := (Fail, NoReason)\<rparr>]\<rparr>"
        by (simp add: proposal_is_valid_def)
      then have "s' = s\<lparr>rounds_data := (rounds_data s)[i := ?rd\<lparr>proposal_checked_validity := (Fail, NoReason)\<rparr>],
          node_app := node_app s\<rparr>"
        by simp
      then show ?thesis by blast
    next
      case False
      with assms c r obtain w app where "s' = s\<lparr>rounds_data := (rounds_data s)[i := ?rd\<lparr>proposal_checked_validity := w\<rparr>],
          node_app := app\<rparr>"
        by (cases "validate_closure cl (proposal ?rd) (node_app s)") (auto simp: proposal_is_valid_def)
      then show ?thesis by blast
    qed
  next
    case False
    with assms r show ?thesis by (simp add: proposal_is_valid_def split: if_splits)
  qed
  then show ?thesis
  proof
    assume "s' = s"
    then show ?thesis by (intro exI [of _ "rounds_data s"] exI [of _ "node_app s"]) simp
  next
    assume "\<exists>c app. s' = s\<lparr>rounds_data := (rounds_data s)[i := ?rd\<lparr>proposal_checked_validity := c\<rparr>],
      node_app := app\<rparr>"
    with sk show ?thesis by blast
  qed
qed

lemma proposal_is_valid_inv:
  assumes "node_inv s" and "proposal_is_valid cl i s = Some (v, s')"
  shows "node_inv s'" "kept s s'" "tm_step s' = tm_step s"
proof -
  from proposal_is_valid_effect [OF assms(2)] obtain rds app where
    s': "s' = s\<lparr>rounds_data := rds, node_app := app\<rparr>" and sk: "map skel rds = map skel (rounds_data s)" by blast
  have inv: "node_inv (t\<lparr>node_app := app\<rparr>) = node_inv t" "kept s (t\<lparr>node_app := app\<rparr>) = kept s t" for t :: "'a node"
    by (simp_all add: node_inv_def votes_once_def kept_def)
  show "node_inv s'" "kept s s'" "tm_step s' = tm_step s"
    using node_inv_skel [OF assms(1) sk] by (simp_all add: s' inv)
qed

lemma it_ok_key: "it_ok it s \<Longrightarrow> it_current it \<Longrightarrow> round_key (rounds_data s ! it_i it) = (tm_height s, tm_round s)"
  by (simp add: it_ok_def)


lemma line_22_inv:
  assumes "node_inv s" "it_ok it s" "line_22 env cl it s = Some s'"
  shows "node_inv s' \<and> kept s s'"
proof (cases "s' = s")
  case False
  then obtain v t msg where t: "proposal_is_valid cl (it_i it) s = Some (v, t)"
      "broadcast_step env (it_i it) msg t = Some s'" "\<exists>x. msg = PrevoteMsg x"
      "tm_step s = Propose" "it_current it"
    using assms(3) [unfolded line_22_def bind_eq_Some_conv] by (fastforce split: if_splits simp: bind_eq_Some_conv)
  note p = proposal_is_valid_inv [OF assms(1) t(1)]
  have k: "round_key (rounds_data t ! it_i it) = (tm_height t, tm_round t)"
    using kept_it_ok [OF p(2) assms(2)] t(5) by (rule it_ok_key)
  have "vote_allowed msg (tm_step t)" using t(3,4) p(3) by (auto simp: vote_allowed_def)
  from broadcast_vote_inv [OF p(1) k this t(2)] p(2) show ?thesis by (auto intro: kept_trans)
qed (use assms in simp)


lemma line_28_inv:
  assumes "node_inv s" "it_ok it s" "line_28 env cl it s = Some s'"
  shows "node_inv s' \<and> kept s s'"
proof (cases "s' = s")
  case False
  then obtain v t msg where t: "proposal_is_valid cl (it_i it) s = Some (v, t)"
      "broadcast_step env (it_i it) msg t = Some s'" "\<exists>x. msg = PrevoteMsg x"
      "tm_step s = Propose" "it_current it"
    using assms(3) [unfolded line_28_def bind_eq_Some_conv] by (fastforce split: if_splits simp: bind_eq_Some_conv)
  note p = proposal_is_valid_inv [OF assms(1) t(1)]
  have k: "round_key (rounds_data t ! it_i it) = (tm_height t, tm_round t)"
    using kept_it_ok [OF p(2) assms(2)] t(5) by (rule it_ok_key)
  have "vote_allowed msg (tm_step t)" using t(3,4) p(3) by (auto simp: vote_allowed_def)
  from broadcast_vote_inv [OF p(1) k this t(2)] p(2) show ?thesis by (auto intro: kept_trans)
qed (use assms in simp)

text \<open>Setting a timeout for the round it is stored in.\<close>

lemma set_round_timeout_inv:
  assumes inv: "node_inv s" and i: "i < length (rounds_data s)"
    and k: "round_key (rounds_data s ! i) = (tm_height s, tm_round s)"
    and rd: "round_key rd = (tm_height s, tm_round s)"
      "active_timeout rd = Some (Timeout_new now (tm_height s) (tm_round s) st)"
  shows "node_inv (s\<lparr>rounds_data := (rounds_data s)[i := rd]\<rparr>) \<and> kept s (s\<lparr>rounds_data := (rounds_data s)[i := rd]\<rparr>)"
proof -
  have keys: "map round_key ((rounds_data s)[i := rd]) = map round_key (rounds_data s)"
    using i k rd by (simp add: map_update list_update_same_conv)
  have "timeout_ok rd" using rd by (simp add: timeout_ok_def Timeout_new_def)
  then have "rounds_wf (tm_height s) ((rounds_data s)[i := rd])"
    using inv keys rd by (auto simp: node_inv_def rounds_wf_def list_all_iff dest!: set_update_subset_insert [THEN subsetD])
  with inv keys show ?thesis by (simp add: node_inv_def votes_once_def kept_def)
qed

lemma line_34_inv:
  assumes "node_inv s" "it_ok it s" "line_34 it s = Some s'"
  shows "node_inv s' \<and> kept s s'"
proof (cases "s' = s")
  case False
  let ?rd = "(rounds_data s ! it_i it)\<lparr>timeout_triggered := (True, snd (timeout_triggered (rounds_data s ! it_i it))),
     active_timeout := Some (Timeout_new (it_now it) (tm_height s) (tm_round s) Prevote)\<rparr>"
  from False have c: "it_current it" and s': "s' = s\<lparr>rounds_data := (rounds_data s)[it_i it := ?rd]\<rparr>"
    using assms(3) [unfolded line_34_def bind_eq_Some_conv] by (auto simp: index_Some split: if_splits)
  from assms(2) have i: "it_i it < length (rounds_data s)" by (simp add: it_ok_def)
  note k = it_ok_key [OF assms(2) c]
  show ?thesis unfolding s' by (rule set_round_timeout_inv [OF assms(1) i k]) (use k in simp_all)
qed (use assms in simp)

lemma line_47_inv:
  assumes "node_inv s" "it_ok it s" "line_47 it s = Some s'"
  shows "node_inv s' \<and> kept s s'"
proof (cases "s' = s")
  case False
  let ?rd = "(rounds_data s ! it_i it)\<lparr>timeout_triggered := (fst (timeout_triggered (rounds_data s ! it_i it)), True),
     active_timeout := Some (Timeout_new (it_now it) (tm_height s) (tm_round s) Precommit)\<rparr>"
  from False have c: "it_current it" and s': "s' = s\<lparr>rounds_data := (rounds_data s)[it_i it := ?rd]\<rparr>"
    using assms(3) [unfolded line_47_def bind_eq_Some_conv] by (auto simp: index_Some split: if_splits)
  from assms(2) have i: "it_i it < length (rounds_data s)" by (simp add: it_ok_def)
  note k = it_ok_key [OF assms(2) c]
  show ?thesis unfolding s' by (rule set_round_timeout_inv [OF assms(1) i k]) (use k in simp_all)
qed (use assms in simp)

lemma line_44_inv:
  assumes "node_inv s" "it_ok it s" "line_44 env it s = Some s'"
  shows "node_inv s' \<and> kept s s'"
proof (cases "s' = s")
  case False
  then have c: "it_current it" and b: "broadcast_step env (it_i it) (PrecommitMsg ValueId_NIL) s = Some s'"
    and a: "vote_allowed (PrecommitMsg ValueId_NIL) (tm_step s)"
    using assms(3) by (simp_all add: line_44_def vote_allowed_def split: if_splits)
  show ?thesis by (rule broadcast_vote_inv [OF assms(1) it_ok_key [OF assms(2) c] a b])
qed (use assms in simp)

lemma node_inv_values [simp]:
  "node_inv (s\<lparr>locked_value_round := x\<rparr>) = node_inv s" "node_inv (s\<lparr>valid_value_round := x\<rparr>) = node_inv s"
  "kept (s\<lparr>locked_value_round := x\<rparr>) t = kept s t" "kept s (t\<lparr>valid_value_round := x\<rparr>) = kept s t"
  by (simp_all add: node_inv_def votes_once_def kept_def)

lemma line_36_inv:
  assumes "node_inv s" "it_ok it s" "line_36 env cl it s = Some s'"
  shows "node_inv s' \<and> kept s s'"
proof (cases "s' = s")
  case False
  then obtain v t where p0: "proposal_is_valid cl (it_i it) s = Some (v, t)" and c: "it_current it"
    and r: "s' = t \<or> (\<exists>u x. s' = u\<lparr>valid_value_round := x\<rparr> \<and> (u = t \<or> tm_step t = Prevote \<and>
       (\<exists>m l. broadcast_step env (it_i it) (PrecommitMsg m) (t\<lparr>locked_value_round := l\<rparr>) = Some u)))"
    using assms(3) [unfolded line_36_def bind_eq_Some_conv]
    by (fastforce split: if_splits simp: bind_eq_Some_conv)
  note p = proposal_is_valid_inv [OF assms(1) p0]
  have k: "round_key (rounds_data t ! it_i it) = (tm_height t, tm_round t)"
    using kept_it_ok [OF p(2) assms(2)] c by (rule it_ok_key)
  have b: "node_inv u \<and> kept t u" if "tm_step t = Prevote"
      "broadcast_step env (it_i it) (PrecommitMsg x) (t\<lparr>locked_value_round := l\<rparr>) = Some u" for x l u
    using that p(1) k broadcast_vote_inv [of "t\<lparr>locked_value_round := l\<rparr>" "it_i it" "PrecommitMsg x" env u]
    by (simp add: vote_allowed_def)
  from r show ?thesis
  proof (elim disjE exE conjE)
    assume "s' = t"
    with p show ?thesis by simp
  next
    fix u x assume "s' = u\<lparr>valid_value_round := x\<rparr>" "u = t"
    with p show ?thesis by simp
  next
    fix u x m l assume s': "s' = u\<lparr>valid_value_round := x\<rparr>" and "tm_step t = Prevote"
      "broadcast_step env (it_i it) (PrecommitMsg m) (t\<lparr>locked_value_round := l\<rparr>) = Some u"
    with b kept_trans [OF p(2)] show ?thesis by simp
  qed
qed (use assms in simp)



section \<open>\<^verbatim>\<open>start_round\<close>\<close>

definition votes_before :: "u64 \<Rightarrow> u32 \<Rightarrow> 'a TMState_scheme \<Rightarrow> bool" where
  "votes_before h r s \<longleftrightarrow> distinct (map vote_id (signed_votes s)) \<and>
     list_all (\<lambda>(h', r', _). (h', r') < (h, r)) (signed_votes s)"

lemma votes_before_once:
  "votes_before (tm_height s) (tm_round s) s \<Longrightarrow> votes_once s"
  by (auto simp: votes_before_def votes_once_def vote_past_def list_all_iff)

lemma votes_once_before:
  "votes_once s \<Longrightarrow> (tm_height s, tm_round s) < (h, r) \<Longrightarrow> votes_before h r s"
  by (fastforce simp: votes_before_def votes_once_def vote_past_def list_all_iff)

text \<open>The round \<^verbatim>\<open>start_round\<close> works on is there, and carries the height and the round.\<close>

definition open_round :: "u32 \<Rightarrow> 'app node \<Rightarrow> nat \<times> 'app node" where
  "open_round r s = (case find_round (tm_height s) r (rounds_data s) of
       Inr i \<Rightarrow> (i, s\<lparr>tm_round := r\<rparr>)
     | Inl i \<Rightarrow> (i, insert_round i r (node_roster s) (s\<lparr>tm_round := r\<rparr>)))"

lemma open_round_ok:
  assumes wf: "rounds_wf (tm_height s) (rounds_data s)" and o: "open_round r s = (i, s1)"
  shows "\<exists>rds. s1 = s\<lparr>tm_round := r, rounds_data := rds\<rparr> \<and> rounds_wf (tm_height s) rds \<and>
    i < length rds \<and> round_key (rds ! i) = (tm_height s, r)"
proof (cases "find_round (tm_height s) r (rounds_data s)")
  case (Inr j)
  with o have "s1 = s\<lparr>tm_round := r\<rparr>" "i = j" by (simp_all add: open_round_def)
  then have "s1 = s\<lparr>tm_round := r, rounds_data := rounds_data s\<rparr>" "i = j" by simp_all
  with wf Inr binary_search_Inr [of "(tm_height s, r)" round_key "rounds_data s" j] show ?thesis
    by (intro exI [of _ "rounds_data s"]) (simp add: find_round_def)
next
  case (Inl j)
  let ?new = "RoundData_EMPTY\<lparr>rd_height := tm_height s, rd_round := r,
     msg_val_sigs := replicate (active_roster_len (node_roster s)) empty_slots, rd_roster := node_roster s\<rparr>"
  from Inl o have "s1 = s\<lparr>tm_round := r, rounds_data := vec_insert (rounds_data s) j ?new\<rparr>" "i = j"
    by (auto simp: open_round_def insert_round_def)
  moreover have "j \<le> length (rounds_data s)"
    using Inl binary_search_Inl(1) by (auto simp: find_round_def)
  moreover have "rounds_wf (tm_height s) (vec_insert (rounds_data s) j ?new)"
    using rounds_wf_insert [OF wf Inl, of ?new] by (simp add: RoundData_EMPTY_def)
  ultimately show ?thesis by (auto simp: vec_insert_length vec_insert_nth)
qed

definition propose_in :: "env \<Rightarrow> 'app closures \<Rightarrow> nat \<Rightarrow> bytes \<Rightarrow> 'app node \<Rightarrow> 'app node rust" where
  "propose_in env cl round_i proposer s = (if proposer = env_my_pub_key env
       then do {
         (prop, s) \<leftarrow> (case fst (valid_value_round s) of
             Some v \<Rightarrow> Some (Some v, s)
           | None \<Rightarrow> do {
               (v, app) \<leftarrow> propose_closure cl (node_app s);
               Some (v, s\<lparr>node_app := app\<rparr>) });
         (case prop of
            Some v \<Rightarrow> broadcast_step env round_i (ProposalMsg v (snd (valid_value_round s))) s
          | None \<Rightarrow> Some (s\<lparr>tm_step := Propose\<rparr>)) }
       else Some (s\<lparr>tm_step := Propose\<rparr>))"

lemma start_round_unfold:
  "start_round env cl now r s = do {
     let (i, s) = open_round r s;
     (_, proposer) \<leftarrow> proposer_from_height_round (env_hash_proposer env) (node_roster s) (tm_height s) r;
     s \<leftarrow> propose_in env cl i proposer s;
     set_timeout i (Timeout_new now (tm_height s) (tm_round s) Propose) s }"
  by (simp add: start_round_def propose_in_def open_round_def insert_round_def Let_def split: sum.split)

lemma propose_in_effect:
  assumes wf: "rounds_wf (tm_height s) (rounds_data s)" and p: "propose_in env cl i k s = Some s'"
  shows "\<exists>rds app st. s' = s\<lparr>tm_step := st, rounds_data := rds, node_app := app\<rparr> \<and>
    map skel rds = map skel (rounds_data s)"
proof -
  let ?P = "\<lambda>t'. \<exists>rds app st. t' = s\<lparr>tm_step := st, rounds_data := rds, node_app := app\<rparr> \<and>
    map skel rds = map skel (rounds_data s)"
  have idle: "?P (s\<lparr>node_app := app, tm_step := Propose\<rparr>)" for app
    by (rule exI [of _ "rounds_data s"], rule exI [of _ app], rule exI [of _ Propose]) (cases s; simp)
  have bc: "?P s'" if "broadcast_step env i (ProposalMsg v vr) (s\<lparr>node_app := app\<rparr>) = Some s'" for v vr app
  proof -
    from broadcast_step_effect [OF _ that] wf obtain rds where
      sk: "map skel rds = map skel (rounds_data s)" and d: "s' = s\<lparr>node_app := app, rounds_data := rds\<rparr> \<or>
        s' = s\<lparr>node_app := app, rounds_data := rds, tm_step := Propose\<rparr>"
      by (auto simp: broadcast_result_def)
    from d have "\<exists>st. s' = s\<lparr>node_app := app, rounds_data := rds, tm_step := st\<rparr>"
    proof
      assume a: "s' = s\<lparr>node_app := app, rounds_data := rds\<rparr>"
      have "s' = s\<lparr>node_app := app, rounds_data := rds, tm_step := tm_step s\<rparr>" unfolding a by simp
      then show ?thesis ..
    qed blast
    then obtain st where "s' = s\<lparr>node_app := app, rounds_data := rds, tm_step := st\<rparr>" ..
    with sk show ?thesis by (intro exI [of _ rds] exI [of _ app] exI [of _ st]) (cases s; simp)
  qed
  show ?thesis
  proof (cases "k = env_my_pub_key env")
    case False
    with p idle [of "node_app s"] show ?thesis by (simp add: propose_in_def)
  next
    case True
    show ?thesis
    proof (cases "fst (valid_value_round s)")
      case (Some v)
      with p True bc [of v "snd (valid_value_round s)" "node_app s"] show ?thesis
        by (simp add: propose_in_def)
    next
      case None
      with p True obtain v app where c: "propose_closure cl (node_app s) = Some (v, app)"
        by (auto simp: propose_in_def bind_eq_Some_conv)
      with None p True bc idle [of app] show ?thesis by (cases v) (simp_all add: propose_in_def)
    qed
  qed
qed

lemma start_round_inv:
  assumes wf: "rounds_wf (tm_height s) (rounds_data s)" and v: "votes_before (tm_height s) r s"
    and st: "start_round env cl now r s = Some s'"
  shows "node_inv s' \<and> tm_height s' = tm_height s \<and> tm_round s' = r \<and> signed_votes s' = signed_votes s"
proof -
  obtain i s1 where o: "open_round r s = (i, s1)" by fastforce
  from open_round_ok [OF wf o] obtain rds1 where s1: "s1 = s\<lparr>tm_round := r, rounds_data := rds1\<rparr>"
    and wf1: "rounds_wf (tm_height s) rds1" and i1: "i < length rds1"
    and k1: "round_key (rds1 ! i) = (tm_height s, r)" by blast
  from st o obtain k s2 where p: "propose_in env cl i k s1 = Some s2"
    and t: "set_timeout i (Timeout_new now (tm_height s2) (tm_round s2) Propose) s2 = Some s'"
    by (auto simp: start_round_unfold bind_eq_Some_conv)
  from propose_in_effect [OF _ p] s1 wf1 obtain rds app step where
    s2: "s2 = s1\<lparr>tm_step := step, rounds_data := rds, node_app := app\<rparr>" and sk: "map skel rds = map skel rds1"
    by auto
  have inv2: "node_inv s2"
    using v wf1 rounds_wf_skel [OF sk] by (auto simp: node_inv_def s2 s1 votes_before_def
        intro!: votes_before_once)
  have k2: "i < length (rounds_data s2)" "round_key (rounds_data s2 ! i) = (tm_height s2, tm_round s2)"
    using skel_nth [OF sk i1] k1 by (simp_all add: s2 s1)
  let ?rd = "(rounds_data s2 ! i)\<lparr>active_timeout := Some (Timeout_new now (tm_height s2) (tm_round s2) Propose)\<rparr>"
  have s': "s' = s2\<lparr>rounds_data := (rounds_data s2)[i := ?rd]\<rparr>"
    using t by (auto simp: set_timeout_def bind_eq_Some_conv index_Some)
  have "node_inv (s2\<lparr>rounds_data := (rounds_data s2)[i := ?rd]\<rparr>)"
    using set_round_timeout_inv [OF inv2 k2, of ?rd] k2 by simp
  then show ?thesis by (simp add: s' s2 s1)
qed


section \<open>Deciding, skipping rounds and timeouts\<close>

lemma checked_add_less: "checked_add a b = Some c \<Longrightarrow> 0 < b \<Longrightarrow> a < (c :: 'a::len word)"
  using checked_add_unat [of a b c] by (simp add: word_less_nat_alt)

lemma rounds_wf_filter:
  "rounds_wf h rds \<Longrightarrow> h \<le> h' \<Longrightarrow> rounds_wf h' (filter P rds)"
  by (auto simp: rounds_wf_def list_all_iff sorted_wrt_map intro!: sorted_wrt_filter)

lemma node_inv_filter_decided:
  assumes "node_inv s" "checked_add (tm_height s) 1 = Some h"
  shows "rounds_wf h (filter P (rounds_data s))" "votes_before h 0 s"
proof -
  have lt: "tm_height s < h" using checked_add_less [OF assms(2)] by simp
  show "rounds_wf h (filter P (rounds_data s))"
    using assms(1) lt rounds_wf_filter [of "tm_height s" "rounds_data s" h P] by (simp add: node_inv_def)
  show "votes_before h 0 s"
    using assms(1) lt by (intro votes_once_before) (simp_all add: node_inv_def less_prod_def)
qed

lemma decide_inv:
  assumes "node_inv s" "decide env cl it s = Some s'"
  shows "node_inv s'"
proof -
  from assms(2) obtain h c app roster where h: "checked_add (tm_height s) 1 = Some h"
    and st: "start_round env cl (it_now it) 0
       (s\<lparr>tm_height := h, valid_value_round := (None, - 1), locked_value_round := (None, - 1),
          rounds_data := filter (\<lambda>r. rd_height r < h) (rounds_data s),
          recent_commit_round_cache := c, node_roster := roster, node_app := app\<rparr>) = Some s'"
    by (auto simp: decide_def bind_eq_Some_conv)
  show ?thesis
    using start_round_inv [OF _ _ st] node_inv_filter_decided [OF assms(1) h]
    by (simp add: votes_before_def)
qed

lemma line_49_inv:
  assumes "node_inv s" "line_49 env cl it s = Some s'"
  shows "node_inv s'"
proof (cases "s' = s")
  case False
  then obtain v t where "proposal_is_valid cl (it_i it) s = Some (v, t)"
      "s' = t \<or> decide env cl it t = Some s'"
    using assms(2) [unfolded line_49_def bind_eq_Some_conv] by (fastforce split: if_splits simp: bind_eq_Some_conv)
  with proposal_is_valid_inv [OF assms(1)] decide_inv show ?thesis by blast
qed (use assms in simp)

lemma later_round_inv:
  assumes "node_inv s" "tm_round s < r" "start_round env cl now r s = Some s'"
  shows "node_inv s'"
proof -
  have "votes_before (tm_height s) r s"
    using assms(1,2) by (intro votes_once_before) (simp_all add: node_inv_def less_prod_def)
  moreover have "rounds_wf (tm_height s) (rounds_data s)" using assms(1) by (simp add: node_inv_def)
  ultimately show ?thesis using start_round_inv [OF _ _ assms(3)] by blast
qed

lemma line_55_inv:
  assumes "node_inv s" "line_55 env cl it s = Some s'"
  shows "node_inv s'"
  using assms(2) [unfolded line_55_def bind_eq_Some_conv] assms(1)
  by (auto split: if_splits dest: later_round_inv)

lemma timeouts_inv:
  assumes inv: "node_inv s" and t: "timeouts env cl it s = Some s'"
  shows "node_inv s'"
proof (cases "s' = s")
  case False
  from t have i: "it_i it < length (rounds_data s)"
    by (auto simp: timeouts_def bind_eq_Some_conv index_Some)
  let ?rd = "rounds_data s ! it_i it"
  from False t i obtain a where a: "active_timeout ?rd = Some a"
    and k: "tm_height s = to_height a" "tm_round s = to_round a"
    and c: "(case to_step a of
               Propose \<Rightarrow>
                 if tm_step s = Propose then broadcast_step env (it_i it) (PrevoteMsg ValueId_NIL) s
                 else Some s
             | Prevote \<Rightarrow>
                 if tm_step s = Prevote then broadcast_step env (it_i it) (PrecommitMsg ValueId_NIL) s
                 else Some s
             | Precommit \<Rightarrow> do {
                 r \<leftarrow> checked_add (tm_round s) 1;
                 start_round env cl (it_now it) r s }) = Some s'"
    by (auto simp: timeouts_def index_Some split: option.splits if_splits)
  have "timeout_ok ?rd" using inv i by (simp add: node_inv_def rounds_wf_def list_all_length)
  with a k have rk: "round_key ?rd = (tm_height s, tm_round s)" by (simp add: timeout_ok_def)
  show ?thesis
  proof (cases "to_step a")
    case Propose
    with c False have "tm_step s = Propose"
      "broadcast_step env (it_i it) (PrevoteMsg ValueId_NIL) s = Some s'" by (auto split: if_splits)
    with broadcast_vote_inv [OF inv rk _ this(2)] show ?thesis by (simp add: vote_allowed_def)
  next
    case Prevote
    with c False have "tm_step s = Prevote"
      "broadcast_step env (it_i it) (PrecommitMsg ValueId_NIL) s = Some s'" by (auto split: if_splits)
    with broadcast_vote_inv [OF inv rk _ this(2)] show ?thesis by (simp add: vote_allowed_def)
  next
    case Precommit
    with c obtain r where "checked_add (tm_round s) 1 = Some r"
      "start_round env cl (it_now it) r s = Some s'" by (auto simp: bind_eq_Some_conv)
    with later_round_inv [OF inv] checked_add_less [of "tm_round s" 1 r] show ?thesis by simp
  qed
qed (use inv in simp)

lemma bft_iteration_inv:
  assumes inv: "node_inv s" and b: "bft_iteration env cl now big small i s = Some s'"
  shows "node_inv s'"
proof -
  from b [unfolded bft_iteration_def Let_def bind_eq_Some_conv] obtain rd where
    rd: "index (rounds_data s) i = Some rd" by blast
  define it where "it = \<lparr>it_now = now, it_big = big, it_small = small, it_i = i,
       it_on_roster = (roster_i_from_pub_key (take (active_roster_len (node_roster s)) (node_roster s))
         (env_my_pub_key env) \<noteq> None),
       it_counts = rd_counts rd,
       it_has_info = has_enough_info_to_determine_validity rd,
       it_current = ((tm_height s, tm_round s) = round_key rd)\<rparr>"
  have it: "it_i it = i" "it_current it = ((tm_height s, tm_round s) = round_key rd)" by (simp_all add: it_def)
  from b [unfolded bft_iteration_def Let_def rd bind.bind_lunit, folded it_def, unfolded bind_eq_Some_conv]
  obtain a b c d e f g h where
    l: "line_22 env cl it s = Some a" "line_28 env cl it a = Some b" "line_34 it b = Some c"
      "line_36 env cl it c = Some d" "line_44 env it d = Some e" "line_47 it e = Some f"
      "line_49 env cl it f = Some g" "line_55 env cl it g = Some h" "timeouts env cl it h = Some s'"
    by blast
  have ok: "it_ok it s" using rd it by (auto simp: it_ok_def index_Some)
  note step = kept_it_ok [OF conjunct2]
  note a = line_22_inv [OF inv ok l(1)]
  note b = line_28_inv [OF conjunct1 [OF a] step [OF a ok] l(2)] and oa = step [OF a ok]
  note c = line_34_inv [OF conjunct1 [OF b] step [OF b oa] l(3)] and ob = step [OF b oa]
  note d = line_36_inv [OF conjunct1 [OF c] step [OF c ob] l(4)] and oc = step [OF c ob]
  note e = line_44_inv [OF conjunct1 [OF d] step [OF d oc] l(5)] and od = step [OF d oc]
  note f = line_47_inv [OF conjunct1 [OF e] step [OF e od] l(6)]
  from f l(7-9) line_49_inv line_55_inv timeouts_inv show ?thesis by blast
qed

lemma bft_update_inv:
  assumes "node_inv s" and "bft_update env cl now s = Some s'"
  shows "node_inv s'"
proof -
  from assms(2) obtain big small rs where
    "rust_fold (bft_iteration env cl now big small) rs s = Some s'"
    by (auto simp: bft_update_def Let_def bind_eq_Some_conv)
  with rust_fold_invariant [of node_inv "bft_iteration env cl now big small" s rs s'] bft_iteration_inv assms(1)
  show ?thesis by blast
qed


section \<open>Runs of a node\<close>

text \<open>
  A node starts in \<^verbatim>\<open>entry_point\<close>, and from then on every turn of the loop hands it messages, in any
  number and order and from anyone, and calls \<^verbatim>\<open>bft_update\<close>.
\<close>

inductive node_step :: "env \<Rightarrow> 'app closures \<Rightarrow> 'app node \<Rightarrow> 'app node \<Rightarrow> bool" for env cl where
  update: "bft_update env cl now s = Some s' \<Longrightarrow> node_step env cl s s'"
| message: "check_and_incorporate_msg env h r chunk_i v vr (node_roster s) roster_i ptype data sig s =
    Some (st, s') \<Longrightarrow> node_step env cl s s'"

inductive reachable :: "env \<Rightarrow> 'app closures \<Rightarrow> 'app node \<Rightarrow> bool" for env cl where
  start: "entry_point_start env cl now roster stored app = Some s \<Longrightarrow> reachable env cl s"
| step: "reachable env cl s \<Longrightarrow> node_step env cl s s' \<Longrightarrow> reachable env cl s'"

lemma message_inv:
  assumes "node_inv s"
    and "check_and_incorporate_msg env h r chunk_i v vr roster roster_i ptype data sig s = Some (st, s')"
  shows "node_inv s'"
  using check_and_incorporate_wf [OF _ assms(2)] assms(1) by (auto simp: node_inv_def votes_once_def)

lemma start_inv:
  assumes "entry_point_start env cl now roster stored app = Some s"
  shows "node_inv s"
  using start_round_inv [OF _ _ assms [unfolded entry_point_start_def]]
  by (simp add: TMState_init_def rounds_wf_def votes_before_def)

lemma reachable_inv: "reachable env cl s \<Longrightarrow> node_inv s"
  by (induction rule: reachable.induct) (auto elim!: node_step.cases dest: start_inv bft_update_inv message_inv)

text \<open>C3: in the life of a node, whatever messages it receives and whatever its closures do, it never
  signs two prevotes or two precommits for the same height and round: an honest finalizer does not
  equivocate.\<close>

theorem no_double_vote:
  assumes "reachable env cl s"
  shows "distinct (map vote_id (signed_votes s)) \<and>
    (\<forall>h r pc v w. (h, r, pc, v) \<in> set (signed_votes s) \<and> (h, r, pc, w) \<in> set (signed_votes s) \<longrightarrow> v = w)"
proof -
  have d: "distinct (map vote_id (signed_votes s))"
    using reachable_inv [OF assms] by (simp add: node_inv_def votes_once_def)
  then have "inj_on vote_id (set (signed_votes s))" by (simp add: distinct_map)
  then have "v = w" if "(h, r, pc, v) \<in> set (signed_votes s)" "(h, r, pc, w) \<in> set (signed_votes s)" for h r pc v w
    using inj_onD [of vote_id "set (signed_votes s)" "(h, r, pc, v)" "(h, r, pc, w)"] that
    by (simp add: vote_id_def)
  with d show ?thesis by blast
qed

text \<open>A node that is alone on its roster: it proposes, prevotes, precommits and decides by itself.\<close>

definition solo_env :: env where
  "solo_env = \<lparr>env_verify = \<lambda>_ _ _. True, env_sign = \<lambda>_. replicate 64 9,
     env_hash_value_id = \<lambda>_. replicate 32 7, env_hash_proposer = \<lambda>_. replicate 32 0,
     env_my_pub_key = replicate 32 1\<rparr>"

definition solo_roster :: roster where
  "solo_roster = [\<lparr>pub_key = replicate 32 1, stake = 1, cumulative_stake = 1\<rparr>]"

definition solo_closures :: "nat closures" where
  "solo_closures = \<lparr>propose_closure = \<lambda>a. Some (Some [1, 2, 3], a),
     validate_closure = \<lambda>_ a. Some ((Pass, NoReason), a),
     push_block_closure = \<lambda>_ _ _ a. Some (solo_roster, a + 1)\<rparr>"

definition solo_run :: "nat \<Rightarrow> nat node rust" where
  "solo_run n = rust_fold (bft_update solo_env solo_closures) [0..<n]
     (the (entry_point_start solo_env solo_closures 0 solo_roster [] 0))"

lemma solo_started:
  "\<exists>s. entry_point_start solo_env solo_closures 0 solo_roster [] 0 = Some s"
proof -
  have "entry_point_start solo_env solo_closures 0 solo_roster [] 0 \<noteq> None" by code_simp
  then show ?thesis by blast
qed

lemma solo_reachable: "solo_run n = Some s \<Longrightarrow> reachable solo_env solo_closures s"
proof -
  obtain t where t: "entry_point_start solo_env solo_closures 0 solo_roster [] 0 = Some t"
    using solo_started ..
  then have "reachable solo_env solo_closures t" by (rule reachable.start)
  then have "rust_fold (bft_update solo_env solo_closures) is t = Some s \<Longrightarrow> reachable solo_env solo_closures s"
    for "is"
    using rust_fold_invariant [of "reachable solo_env solo_closures" "bft_update solo_env solo_closures" t "is" s]
    by (blast intro: reachable.step node_step.update)
  then show "solo_run n = Some s \<Longrightarrow> reachable solo_env solo_closures s"
    by (simp add: solo_run_def t)
qed

lemma solo_votes:
  "map_option (map vote_id \<circ> signed_votes) (solo_run 2) = Some [(0, 0, True), (0, 0, False)]"
  by code_simp

theorem no_double_vote_witness:
  "\<exists>s. reachable solo_env solo_closures s \<and> length (signed_votes s) = 2 \<and>
     distinct (map vote_id (signed_votes s))"
proof -
  obtain s where s: "solo_run 2 = Some s" "map vote_id (signed_votes s) = [(0, 0, True), (0, 0, False)]"
    using solo_votes by (cases "solo_run 2") auto
  have "length (signed_votes s) = 2" using arg_cong [OF s(2), of length] by simp
  with no_double_vote [OF solo_reachable [OF s(1)]] solo_reachable [OF s(1)] show ?thesis by blast
qed

text \<open>C16: a node files every message under its height and round: its rounds stay strictly sorted by height
  and round, so the binary search finds the one round with a given key if there is one and otherwise
  the place to insert it, and a timeout always belongs to the round it is stored in.\<close>

theorem rounds_sorted:
  assumes "reachable env cl s"
  shows "sorted_wrt (<) (map round_key (rounds_data s)) \<and>
    (case find_round h r (rounds_data s) of
       Inr i \<Rightarrow> i < length (rounds_data s) \<and> round_key (rounds_data s ! i) = (h, r)
     | Inl i \<Rightarrow> (h, r) \<notin> round_key ` set (rounds_data s) \<and>
         sorted_wrt (<) (vec_insert (map round_key (rounds_data s)) i (h, r))) \<and>
    list_all (\<lambda>rd. rd_height rd \<le> tm_height s \<and> timeout_ok rd) (rounds_data s)"
proof -
  have wf: "sorted_wrt (<) (map round_key (rounds_data s))"
      "list_all (\<lambda>rd. rd_height rd \<le> tm_height s \<and> timeout_ok rd) (rounds_data s)"
    using reachable_inv [OF assms] by (simp_all add: node_inv_def rounds_wf_def)
  show ?thesis
  proof (cases "find_round h r (rounds_data s)")
    case (Inr i)
    with wf binary_search_Inr [of "(h, r)" round_key "rounds_data s" i] show ?thesis
      by (simp add: find_round_def)
  next
    case (Inl i)
    have "(h, r) \<notin> round_key ` set (rounds_data s)"
    proof
      assume "(h, r) \<in> round_key ` set (rounds_data s)"
      then obtain j where j: "j < length (rounds_data s)" "(h, r) = round_key (rounds_data s ! j)"
        by (force simp: in_set_conv_nth)
      from binary_search_present [OF wf(1) j(1)] Inl show False unfolding j(2) find_round_def by simp
    qed
    with wf Inl sorted_vec_insert [of round_key "rounds_data s" "(h, r)" i] show ?thesis
      by (simp add: find_round_def)
  qed
qed

theorem rounds_sorted_witness:
  "\<exists>s. reachable solo_env solo_closures s \<and> sorted_wrt (<) (map round_key (rounds_data s))"
proof -
  obtain s where "entry_point_start solo_env solo_closures 0 solo_roster [] 0 = Some s"
    using solo_started ..
  then have "reachable solo_env solo_closures s" by (rule reachable.start)
  with rounds_sorted [OF this] show ?thesis by blast
qed

end
