(* ===== verification/Rust_Result.thy ===== *)
theory Rust_Result
  imports Codec "HOL-Library.Signed_Division"
begin

text \<open>
  Rust's \<^verbatim>\<open>Result\<close> and its signed integers. A function that returns a \<^verbatim>\<open>Result\<close> and may also panic
  has the type \<open>('e, 'a) result\<close>: \<open>None\<close> is the panic, \<open>Some (Inl e)\<close> the error, \<open>Some (Inr a)\<close> the
  value. The operator \<^verbatim>\<open>?\<close> is \<open>tryr\<close>. Signed integers are \<open>int\<close> with the range of the machine type
  checked where the source checks it; \<^verbatim>\<open>i64\<close> values are written in two's complement.
\<close>

type_synonym ('e, 'a) result = "('e + 'a) rust"

definition ok :: "'a \<Rightarrow> ('e, 'a) result" where "ok a = Some (Inr a)"
definition err :: "'e \<Rightarrow> ('e, 'a) result" where "err e = Some (Inl e)"

definition tryr :: "('e, 'a) result \<Rightarrow> ('a \<Rightarrow> ('e, 'b) result) \<Rightarrow> ('e, 'b) result" where
  "tryr m f = (case m of None \<Rightarrow> None | Some (Inl e) \<Rightarrow> Some (Inl e) | Some (Inr a) \<Rightarrow> f a)"

definition map_err :: "('e \<Rightarrow> 'f) \<Rightarrow> ('e, 'a) result \<Rightarrow> ('f, 'a) result" where
  "map_err g m = map_option (map_sum g id) m"

text \<open>\<^verbatim>\<open>expect\<close> on a \<^verbatim>\<open>Result\<close>.\<close>

definition expect :: "('e, 'a) result \<Rightarrow> 'a rust" where
  "expect m = do { r \<leftarrow> m; (case r of Inl _ \<Rightarrow> None | Inr a \<Rightarrow> Some a) }"

lemma tryr_simps [simp]:
  "tryr (ok a) f = f a" "tryr (err e) f = err e" "tryr None f = None"
  "tryr (Some (Inr a)) f = f a" "tryr (Some (Inl e)) f = err e"
  by (simp_all add: tryr_def ok_def err_def)

lemma map_err_simps [simp]:
  "map_err g (ok a) = ok a" "map_err g (err e) = err (g e)" "map_err g None = None"
  by (simp_all add: map_err_def ok_def err_def)

lemma ok_err_eq [simp]:
  "ok a = ok b \<longleftrightarrow> a = b" "err e = err e' \<longleftrightarrow> e = e'" "ok a \<noteq> err e" "err e \<noteq> ok a"
  "ok a \<noteq> None" "err e \<noteq> None" "None \<noteq> ok a" "None \<noteq> err e"
  by (simp_all add: ok_def err_def)

lemma expect_simps [simp]: "expect (ok a) = Some a" "expect (err e) = None" "expect None = None"
  by (simp_all add: expect_def ok_def err_def)

lemma tryr_ok_iff: "tryr m f = ok b \<longleftrightarrow> (\<exists>a. m = ok a \<and> f a = ok b)"
  by (cases m) (auto simp: tryr_def ok_def split: sum.splits)

lemma bind_ok_iff: "Option.bind m f = ok b \<longleftrightarrow> (\<exists>a. m = Some a \<and> f a = ok b)"
  by (cases m) auto

lemma expect_Some_iff [simp]: "expect m = Some a \<longleftrightarrow> m = ok a"
  by (cases m) (auto simp: expect_def ok_def split: sum.splits)

lemma map_err_ok_iff [simp]: "map_err g m = ok a \<longleftrightarrow> m = ok a"
proof (cases m)
  case (Some r)
  then show ?thesis by (cases r) (simp_all add: map_err_def ok_def)
qed (simp add: map_err_def ok_def)

lemma tryr_total: "m \<noteq> None \<Longrightarrow> (\<And>a. m = ok a \<Longrightarrow> f a \<noteq> None) \<Longrightarrow> tryr m f \<noteq> None"
  by (cases m) (auto simp: tryr_def ok_def split: sum.splits)

lemma map_err_None [simp]: "map_err g m = None \<longleftrightarrow> m = None"
  by (simp add: map_err_def)

lemma result_cases:
  obtains (panic) "m = None" | (error) e where "m = err e" | (val) a where "m = ok a"
proof (cases m)
  case (Some r)
  then show thesis using error val by (cases r) (simp_all add: ok_def err_def)
qed (rule panic)

section \<open>Signed integers\<close>

definition in_i64 :: "int \<Rightarrow> bool" where "in_i64 v \<longleftrightarrow> - (2 ^ 63) \<le> v \<and> v < 2 ^ 63"
definition in_i128 :: "int \<Rightarrow> bool" where "in_i128 v \<longleftrightarrow> - (2 ^ 127) \<le> v \<and> v < 2 ^ 127"

definition i64_checked :: "int \<Rightarrow> int option" where
  "i64_checked v = (if in_i64 v then Some v else None)"

definition i64_le :: "int \<Rightarrow> bytes" where "i64_le v = u64_le (word_of_int v)"

definition i64_from_le_bytes :: "bytes \<Rightarrow> int" where
  "i64_from_le_bytes b = sint (word_of_nat (le_val b) :: u64)"

definition read_i64 :: "int reader" where
  "read_i64 buf = do { (w, rest) \<leftarrow> read_u64 buf; Some (sint w, rest) }"

lemma sint_word_of_int_i64: "in_i64 v \<Longrightarrow> sint (word_of_int v :: u64) = v"
  by (simp add: in_i64_def sint_sbintrunc' signed_take_bit_int_eq_self)

lemma in_i64_sint [simp]: "in_i64 (sint (w :: u64))"
  using sint_range_size [of w] by (simp add: in_i64_def word_size)

interpretation i64c: exact_codec i64_le read_i64 in_i64
  by unfold_locales
    (auto simp: read_i64_def i64_le_def bind_eq_Some_conv codec_iff codec_simps sint_word_of_int_i64)

lemmas i64_dec_enc [codec_simps] = i64c.dec_enc
lemmas i64_dec_iff [codec_iff] = i64c.dec_iff

lemma i64_le_length [simp]: "length (i64_le v) = 8"
  by (simp add: i64_le_def)

lemma i64_from_le [simp]: "in_i64 v \<Longrightarrow> i64_from_le_bytes (i64_le v) = v"
proof -
  assume "in_i64 v"
  moreover have "unat (word_of_int v :: u64) mod 256 ^ 8 = unat (word_of_int v :: u64)"
    using unsigned_less [of "word_of_int v :: u64"] by (intro mod_less) simp
  ultimately show ?thesis
    by (simp add: i64_from_le_bytes_def i64_le_def sint_word_of_int_i64 le_val_le_bytes del: mod_less)
qed

lemma i64_le_from: "length b = 8 \<Longrightarrow> i64_le (i64_from_le_bytes b) = b"
  using le_val_bound [of b] le_bytes_le_val [of b]
  by (simp add: i64_from_le_bytes_def i64_le_def unat_of_nat take_bit_nat_def)

end
