(* ===== verification/Amounts.thy ===== *)
theory Amounts
  imports Rust_Result
begin

text \<open>
  Constrained zatoshi amounts, \<^verbatim>\<open>zebra-chain/src/amount.rs\<close>. An \<^verbatim>\<open>Amount<C>\<close> is an \<open>int\<close>; the marker
  type \<open>C\<close> is an argument of the operations that use its range. The operations keep every
  \<^verbatim>\<open>expect\<close>, \<^verbatim>\<open>assert!\<close> and \<^verbatim>\<open>unreachable!\<close> of the source as a panic; the lemmas show which of them
  can happen. The conversions to curve scalars are left out.
\<close>

section \<open>Definitions\<close>

type_synonym amount = int

definition COIN :: int where "COIN = 100000000"
definition MAX_MONEY :: int where "MAX_MONEY = 21000000 * COIN"

datatype Constr = NegativeAllowed | NonNegative | NegativeOrZero

datatype amount_error =
    Constraint int "int \<times> int"
  | Convert int
  | MultiplicationOverflow int u64 int
  | DivideByZero int
  | SumOverflow int nat

fun valid_range :: "Constr \<Rightarrow> int \<times> int" where
  "valid_range NegativeAllowed = (- MAX_MONEY, MAX_MONEY)"
| "valid_range NonNegative = (0, MAX_MONEY)"
| "valid_range NegativeOrZero = (- MAX_MONEY, 0)"

definition validate :: "Constr \<Rightarrow> int \<Rightarrow> (amount_error, amount) result" where
  "validate c value = (let range = valid_range c in
     if \<not> (fst range \<le> value \<and> value \<le> snd range) then err (Constraint value range) else ok value)"

definition amount_try_from_u64 :: "Constr \<Rightarrow> u64 \<Rightarrow> (amount_error, amount) result" where
  "amount_try_from_u64 c value = (case i64_checked (uint value) of
     None \<Rightarrow> err (Convert (uint value)) | Some v \<Rightarrow> validate c v)"

definition amount_try_from_i128 :: "Constr \<Rightarrow> int \<Rightarrow> (amount_error, amount) result" where
  "amount_try_from_i128 c value = (case i64_checked value of
     None \<Rightarrow> err (Convert value) | Some v \<Rightarrow> validate c v)"

definition amount_new :: "int \<Rightarrow> amount rust" where
  "amount_new zatoshis = do { rassert (zatoshis \<le> MAX_MONEY \<and> zatoshis \<ge> 0); Some zatoshis }"

definition new_from_zec :: "int \<Rightarrow> amount rust" where
  "new_from_zec zec_value = do { z \<leftarrow> i64_checked (zec_value * COIN); amount_new z }"

definition div_exact :: "amount \<Rightarrow> int \<Rightarrow> amount rust" where
  "div_exact a rhs = do {
     rassert (rhs \<noteq> 0);
     result \<leftarrow> i64_checked (a sdiv rhs);
     rassert (a smod rhs = 0);
     Some result }"

definition constrain :: "Constr \<Rightarrow> amount \<Rightarrow> (amount_error, amount) result" where
  "constrain c2 a = validate c2 a"

definition amount_checked_sub :: "amount \<Rightarrow> amount \<Rightarrow> amount option" where
  "amount_checked_sub a rhs = do {
     v \<leftarrow> i64_checked (a - rhs);
     r \<leftarrow> validate NegativeAllowed v;
     (case r of Inl _ \<Rightarrow> None | Inr v \<Rightarrow> Some v) }"

definition amount_to_bytes :: "amount \<Rightarrow> bytes" where
  "amount_to_bytes a = i64_le a"

definition amount_from_bytes :: "Constr \<Rightarrow> bytes \<Rightarrow> (amount_error, amount) result" where
  "amount_from_bytes c bytes = validate c (i64_from_le_bytes bytes)"

definition amount_add :: "Constr \<Rightarrow> amount \<Rightarrow> amount \<Rightarrow> (amount_error, amount) result" where
  "amount_add c a rhs = do { v \<leftarrow> i64_checked (a + rhs); validate c v }"

definition amount_sub :: "Constr \<Rightarrow> amount \<Rightarrow> amount \<Rightarrow> (amount_error, amount) result" where
  "amount_sub c a rhs = do { v \<leftarrow> i64_checked (a - rhs); validate c v }"

definition amount_mul :: "Constr \<Rightarrow> amount \<Rightarrow> u64 \<Rightarrow> (amount_error, amount) result" where
  "amount_mul c a rhs = do {
     let value = a * uint rhs;
     rassert (in_i128 value);
     map_err (\<lambda>_. MultiplicationOverflow a rhs value) (amount_try_from_i128 c value) }"

definition amount_div :: "Constr \<Rightarrow> amount \<Rightarrow> u64 \<Rightarrow> (amount_error, amount) result" where
  "amount_div c a rhs =
     (if rhs = 0 then err (DivideByZero a)
      else do { q \<leftarrow> expect (amount_try_from_i128 c (a sdiv uint rhs)); ok q })"

fun try_fold_add :: "Constr \<Rightarrow> amount \<Rightarrow> amount list \<Rightarrow> (amount_error \<times> nat, amount) result" where
  "try_fold_add c acc [] = ok acc"
| "try_fold_add c acc (x # xs) = do {
     r \<leftarrow> amount_add c acc x;
     (case r of Inl e \<Rightarrow> err (e, length xs) | Inr acc \<Rightarrow> try_fold_add c acc xs) }"

definition amount_sum :: "Constr \<Rightarrow> amount list \<Rightarrow> (amount_error, amount) result" where
  "amount_sum c xs = do {
     zero \<leftarrow> expect (validate c 0);
     r \<leftarrow> try_fold_add c zero xs;
     (case r of
        Inr v \<Rightarrow> ok v
      | Inl (Constraint value _, remaining) \<Rightarrow> err (SumOverflow value remaining)
      | Inl _ \<Rightarrow> None) }"

definition amount_neg :: "amount \<Rightarrow> amount rust" where
  "amount_neg a = do { v \<leftarrow> i64_checked (- a); expect (validate NegativeAllowed v) }"

definition amount_into_u64 :: "amount \<Rightarrow> u64 rust" where
  "amount_into_u64 a = do { rassert (0 \<le> a); Some (word_of_int a) }"

fun invalid_value :: "amount_error \<Rightarrow> int" where
  "invalid_value (Constraint value _) = value"
| "invalid_value (Convert value) = value"
| "invalid_value (MultiplicationOverflow _ _ overflowing_result) = overflowing_result"
| "invalid_value (DivideByZero amount) = amount"
| "invalid_value (SumOverflow partial_sum _) = partial_sum"

definition serialize_NegativeAllowed :: "amount \<Rightarrow> bytes" where
  "serialize_NegativeAllowed a = i64_le a"

definition deserialize_NegativeAllowed :: "amount reader" where
  "deserialize_NegativeAllowed buf = do {
     (v, rest) \<leftarrow> read_i64 buf;
     r \<leftarrow> validate NegativeAllowed v;
     (case r of Inl _ \<Rightarrow> None | Inr a \<Rightarrow> Some (a, rest)) }"

definition serialize_NonNegative :: "amount \<Rightarrow> bytes rust" where
  "serialize_NonNegative a = do { w \<leftarrow> amount_into_u64 a; Some (u64_le w) }"

definition deserialize_NonNegative :: "amount reader" where
  "deserialize_NonNegative buf = do {
     (v, rest) \<leftarrow> read_u64 buf;
     r \<leftarrow> amount_try_from_u64 NonNegative v;
     (case r of Inl _ \<Rightarrow> None | Inr a \<Rightarrow> Some (a, rest)) }"

section \<open>Amounts stay in range\<close>

definition amount_ok :: "Constr \<Rightarrow> amount \<Rightarrow> bool" where
  "amount_ok c a \<longleftrightarrow> fst (valid_range c) \<le> a \<and> a \<le> snd (valid_range c)"

lemma MAX_MONEY_val: "MAX_MONEY = 2100000000000000"
  by (simp add: MAX_MONEY_def COIN_def)

lemma amount_ok_simps:
  "amount_ok NegativeAllowed a \<longleftrightarrow> - MAX_MONEY \<le> a \<and> a \<le> MAX_MONEY"
  "amount_ok NonNegative a \<longleftrightarrow> 0 \<le> a \<and> a \<le> MAX_MONEY"
  "amount_ok NegativeOrZero a \<longleftrightarrow> - MAX_MONEY \<le> a \<and> a \<le> 0"
  by (simp_all add: amount_ok_def)

lemma amount_ok_bound: "amount_ok c a \<Longrightarrow> \<bar>a\<bar> \<le> MAX_MONEY"
  by (cases c) (auto simp: amount_ok_simps MAX_MONEY_val)

lemma amount_ok_zero [simp]: "amount_ok c 0"
  by (cases c) (simp_all add: amount_ok_simps MAX_MONEY_val)

lemma validate_ok [simp]: "validate c v = ok a \<longleftrightarrow> a = v \<and> amount_ok c v"
  by (auto simp: validate_def Let_def amount_ok_def)

lemma validate_eq: "validate c v = (if amount_ok c v then ok v else err (Constraint v (valid_range c)))"
  by (auto simp: validate_def Let_def amount_ok_def)

lemma validate_total [simp]: "validate c v \<noteq> None"
  by (simp add: validate_eq ok_def err_def)

lemma in_i64_small: "\<bar>v\<bar> \<le> 3 * MAX_MONEY \<Longrightarrow> in_i64 v"
  by (auto simp: in_i64_def MAX_MONEY_val)

lemma amount_ok_in_i64: "amount_ok c a \<Longrightarrow> in_i64 a"
  using amount_ok_bound [of c a] by (intro in_i64_small) (simp add: MAX_MONEY_val)

lemma amount_add_eq: "amount_ok c a \<Longrightarrow> amount_ok d b \<Longrightarrow> amount_add c a b = validate c (a + b)"
  using amount_ok_bound [of c a] amount_ok_bound [of d b] in_i64_small [of "a + b"]
  by (simp add: amount_add_def i64_checked_def MAX_MONEY_val)

lemma amount_sub_eq: "amount_ok c a \<Longrightarrow> amount_ok d b \<Longrightarrow> amount_sub c a b = validate c (a - b)"
  using amount_ok_bound [of c a] amount_ok_bound [of d b] in_i64_small [of "a - b"]
  by (simp add: amount_sub_def i64_checked_def MAX_MONEY_val)

lemma amount_neg_eq: "amount_ok c a \<Longrightarrow> amount_neg a = Some (- a) \<and> amount_ok NegativeAllowed (- a)"
  using amount_ok_bound [of c a] in_i64_small [of "- a"]
  by (auto simp: amount_neg_def i64_checked_def MAX_MONEY_val validate_eq amount_ok_simps)


lemma amount_mul_eq:
  assumes "amount_ok c a"
  shows "amount_mul c a n = (if amount_ok c (a * uint n) then ok (a * uint n)
    else err (MultiplicationOverflow a n (a * uint n)))"
proof -
  have n: "0 \<le> uint n" "uint n < 2 ^ 64" using unsigned_less [of n] by simp_all
  have "\<bar>a * uint n\<bar> \<le> MAX_MONEY * 2 ^ 64"
    using mult_mono [of "\<bar>a\<bar>" MAX_MONEY "uint n" "2 ^ 64"] amount_ok_bound [OF assms] n
    by (simp add: abs_mult MAX_MONEY_val)
  then have i: "in_i128 (a * uint n)" by (auto simp: in_i128_def MAX_MONEY_val)
  show ?thesis
  proof (cases "amount_ok c (a * uint n)")
    case True
    then show ?thesis using i amount_ok_in_i64 [OF True]
      by (simp add: amount_mul_def amount_try_from_i128_def i64_checked_def validate_eq)
  next
    case False
    then show ?thesis using i
      by (simp add: Let_def amount_mul_def amount_try_from_i128_def i64_checked_def validate_eq)
  qed
qed

lemma sdiv_bounds:
  assumes "0 < (n::int)"
  shows "0 \<le> a \<Longrightarrow> 0 \<le> a sdiv n \<and> a sdiv n \<le> a" "a \<le> 0 \<Longrightarrow> a \<le> a sdiv n \<and> a sdiv n \<le> 0"
proof -
  have d: "0 \<le> x div n \<and> x div n \<le> x" if "0 \<le> x" for x
  proof
    show "0 \<le> x div n" using that assms by (simp add: pos_imp_zdiv_nonneg_iff)
    then show "x div n \<le> x" using that assms by (metis div_by_1 int_one_le_iff_zero_less zdiv_mono2 zero_less_one)
  qed
  show "0 \<le> a sdiv n \<and> a sdiv n \<le> a" if "0 \<le> a"
    using that assms d [of a] by (cases "a = 0") (auto simp: signed_divide_int_def)
  show "a \<le> a sdiv n \<and> a sdiv n \<le> 0" if "a \<le> 0"
    using that assms d [of "- a"] by (cases "a = 0") (auto simp: signed_divide_int_def)
qed

lemma amount_div_eq:
  assumes "amount_ok c a" "n \<noteq> 0"
  shows "amount_div c a n = ok (a sdiv uint n) \<and> amount_ok c (a sdiv uint n)"
proof -
  have n: "0 < uint n" using assms(2) by (simp add: uint_0_iff less_le)
  have "amount_ok c (a sdiv uint n)"
    using sdiv_bounds [OF n, of a] assms(1) by (cases c; cases "0 \<le> a") (auto simp: amount_ok_simps)
  then show ?thesis using assms(2) amount_ok_in_i64 [of c]
    by (simp add: amount_div_def amount_try_from_i128_def i64_checked_def validate_eq)
qed

text \<open>Arithmetic on amounts never panics and never leaves the range of its constraint: sums,
  differences, products and quotients of amounts in range are the exact integers (quotients rounded
  toward zero), or an error exactly when the exact integer is out of range or the divisor is zero; and
  the negation of an amount always exists.\<close>

theorem amount_arithmetic:
  assumes "amount_ok c a" "amount_ok c b"
  shows "amount_add c a b = (if amount_ok c (a + b) then ok (a + b) else err (Constraint (a + b) (valid_range c))) \<and>
    amount_sub c a b = (if amount_ok c (a - b) then ok (a - b) else err (Constraint (a - b) (valid_range c))) \<and>
    amount_mul c a n = (if amount_ok c (a * uint n) then ok (a * uint n)
           else err (MultiplicationOverflow a n (a * uint n))) \<and>
    amount_div c a n = (if n = 0 then err (DivideByZero a) else ok (a sdiv uint n)) \<and>
    (n \<noteq> 0 \<longrightarrow> amount_ok c (a sdiv uint n)) \<and>
    amount_neg a = Some (- a) \<and> amount_ok NegativeAllowed (- a)"
  using amount_add_eq [OF assms] amount_sub_eq [OF assms] amount_mul_eq [OF assms(1)]
    amount_div_eq [OF assms(1), of n] amount_neg_eq [OF assms(1)]
  by (auto simp: validate_eq amount_div_def)

theorem amount_arithmetic_witness:
  "amount_add NonNegative 5 (MAX_MONEY - 4) = err (Constraint (MAX_MONEY + 1) (0, MAX_MONEY)) \<and>
   amount_sub NonNegative 5 5 = ok 0"
  using amount_arithmetic [of NonNegative 5 "MAX_MONEY - 4" 1] amount_arithmetic [of NonNegative 5 5 1]
  by (simp add: amount_ok_simps MAX_MONEY_val)

text \<open>The fold of \<^verbatim>\<open>Sum\<close>: the first partial sum out of range is the error.\<close>

lemma try_fold_add_total:
  "amount_ok c acc \<Longrightarrow> list_all (amount_ok c) xs \<Longrightarrow>
     try_fold_add c acc xs = ok (acc + sum_list xs) \<and> amount_ok c (acc + sum_list xs) \<or>
     (\<exists>k n. \<not> amount_ok c (acc + sum_list (take k xs)) \<and>
       try_fold_add c acc xs = err (Constraint (acc + sum_list (take k xs)) (valid_range c), n))"
proof (induction xs arbitrary: acc)
  case (Cons x xs)
  have a: "amount_add c acc x = validate c (acc + x)" using Cons.prems amount_add_eq [of c acc c x] by simp
  show ?case
  proof (cases "amount_ok c (acc + x)")
    case False
    then show ?thesis using a by (intro disjI2 exI [of _ "Suc 0"] exI [of _ "length xs"])
        (simp add: validate_eq err_def)
  next
    case True
    then have s: "try_fold_add c acc (x # xs) = try_fold_add c (acc + x) xs"
      using a by (simp add: validate_eq ok_def)
    from Cons.prems(2) have "list_all (amount_ok c) xs" by simp
    from Cons.IH [OF True this] show ?thesis
    proof
      assume "\<exists>k n. \<not> amount_ok c (acc + x + sum_list (take k xs)) \<and>
        try_fold_add c (acc + x) xs = err (Constraint (acc + x + sum_list (take k xs)) (valid_range c), n)"
      then obtain k n where "\<not> amount_ok c (acc + x + sum_list (take k xs))"
        "try_fold_add c (acc + x) xs = err (Constraint (acc + x + sum_list (take k xs)) (valid_range c), n)"
        by blast
      then show ?thesis using s by (intro disjI2 exI [of _ "Suc k"] exI [of _ n]) (simp add: add.assoc)
    qed (use s in \<open>simp add: add.assoc\<close>)
  qed
qed simp

lemma amount_sum_total:
  assumes "list_all (amount_ok c) xs"
  shows "amount_sum c xs = ok (sum_list xs) \<and> amount_ok c (sum_list xs) \<or>
    (\<exists>k n. \<not> amount_ok c (sum_list (take k xs)) \<and>
      amount_sum c xs = err (SumOverflow (sum_list (take k xs)) n))"
proof -
  have z: "expect (validate c 0) = Some 0" by (simp add: validate_eq)
  from try_fold_add_total [OF amount_ok_zero assms] show ?thesis
  proof
    assume "\<exists>k n. \<not> amount_ok c (0 + sum_list (take k xs)) \<and>
      try_fold_add c 0 xs = err (Constraint (0 + sum_list (take k xs)) (valid_range c), n)"
    then obtain k n where k: "\<not> amount_ok c (sum_list (take k xs))"
      "try_fold_add c 0 xs = err (Constraint (sum_list (take k xs)) (valid_range c), n)" by auto
    then have "amount_sum c xs = err (SumOverflow (sum_list (take k xs)) n)"
      by (simp add: amount_sum_def z err_def)
    with k show ?thesis by blast
  qed (simp add: amount_sum_def z ok_def)
qed

text \<open>A sum of nonnegative amounts is the exact total when the total is at most \<^verbatim>\<open>MAX_MONEY\<close>, and an
  overflow error otherwise; for every constraint, summing amounts in range never panics and a result
  is always the exact total and in range.\<close>

theorem amount_sum_spec:
  assumes "list_all (amount_ok c) xs"
  shows "amount_sum c xs \<noteq> None \<and> (\<forall>v. amount_sum c xs = ok v \<longrightarrow> v = sum_list xs \<and> amount_ok c v) \<and>
    (c = NonNegative \<longrightarrow> (amount_sum c xs = ok (sum_list xs) \<longleftrightarrow> sum_list xs \<le> MAX_MONEY))"
proof -
  have "sum_list (take k xs) \<le> sum_list xs" "0 \<le> sum_list (take k xs)" if "c = NonNegative" for k
  proof -
    have "0 \<le> x" if "x \<in> set xs" for x
      using that assms \<open>c = NonNegative\<close> by (auto simp: list_all_iff amount_ok_simps)
    then have "0 \<le> sum_list (take k xs)" "0 \<le> sum_list (drop k xs)"
      by (auto intro!: sum_list_nonneg dest: in_set_takeD in_set_dropD)
    moreover have "sum_list xs = sum_list (take k xs) + sum_list (drop k xs)"
      by (metis append_take_drop_id sum_list_append)
    ultimately show "sum_list (take k xs) \<le> sum_list xs" "0 \<le> sum_list (take k xs)" by simp_all
  qed
  note part = this
  from amount_sum_total [OF assms] show ?thesis
  proof
    assume "\<exists>k n. \<not> amount_ok c (sum_list (take k xs)) \<and>
      amount_sum c xs = err (SumOverflow (sum_list (take k xs)) n)"
    then obtain k n where k: "\<not> amount_ok c (sum_list (take k xs))"
      "amount_sum c xs = err (SumOverflow (sum_list (take k xs)) n)" by blast
    then show ?thesis using part [of k] by (auto simp: amount_ok_simps)
  qed (auto simp: amount_ok_simps)
qed

theorem amount_sum_spec_witness:
  "amount_sum NonNegative [MAX_MONEY, 0, 3] \<noteq> ok (MAX_MONEY + 3) \<and> amount_sum NonNegative [1, 2, 3] = ok 6"
proof -
  have "list_all (amount_ok NonNegative) [MAX_MONEY, 0, 3]" "list_all (amount_ok NonNegative) [1, 2, 3]"
    by (simp_all add: amount_ok_simps MAX_MONEY_val)
  from amount_sum_spec [OF this(1)] amount_sum_spec [OF this(2)]
  have "amount_sum NonNegative [MAX_MONEY, 0, 3] = ok (sum_list [MAX_MONEY, 0, 3]) \<longleftrightarrow>
      sum_list [MAX_MONEY, 0, 3] \<le> MAX_MONEY"
    "amount_sum NonNegative [1, 2, 3] = ok (sum_list [1, 2, 3]) \<longleftrightarrow> sum_list [1, 2, 3] \<le> MAX_MONEY" by blast+
  then show ?thesis by (simp add: MAX_MONEY_val)
qed

section \<open>Encodings\<close>

interpretation naac: exact_codec serialize_NegativeAllowed deserialize_NegativeAllowed "amount_ok NegativeAllowed"
proof
  show "deserialize_NegativeAllowed (serialize_NegativeAllowed a @ rest) = Some (a, rest)"
    if "amount_ok NegativeAllowed a" for a rest
    using that amount_ok_in_i64 [OF that]
    by (simp add: deserialize_NegativeAllowed_def serialize_NegativeAllowed_def codec_simps validate_eq ok_def)
  show "buf = serialize_NegativeAllowed a @ rest \<and> amount_ok NegativeAllowed a"
    if "deserialize_NegativeAllowed buf = Some (a, rest)" for buf a rest
    using that by (auto simp: deserialize_NegativeAllowed_def serialize_NegativeAllowed_def
        bind_eq_Some_conv codec_iff validate_eq ok_def err_def split: if_splits)
qed

definition write_NonNegative :: "amount \<Rightarrow> bytes" where
  "write_NonNegative a = u64_le (word_of_int a)"

lemma serialize_NonNegative_eq: "amount_ok NonNegative a \<Longrightarrow> serialize_NonNegative a = Some (write_NonNegative a)"
  by (simp add: serialize_NonNegative_def amount_into_u64_def amount_ok_simps write_NonNegative_def)

interpretation nnac: exact_codec write_NonNegative deserialize_NonNegative "amount_ok NonNegative"
proof
  show "deserialize_NonNegative (write_NonNegative a @ rest) = Some (a, rest)"
    if "amount_ok NonNegative a" for a rest
  proof -
    have "uint (word_of_int a :: u64) = a"
      using that by (simp add: uint_word_of_int_eq take_bit_int_eq_self amount_ok_simps MAX_MONEY_val)
    with that amount_ok_in_i64 [OF that] show ?thesis
      by (simp add: deserialize_NonNegative_def write_NonNegative_def codec_simps amount_try_from_u64_def
          i64_checked_def validate_eq ok_def)
  qed
  show "buf = write_NonNegative a @ rest \<and> amount_ok NonNegative a"
    if "deserialize_NonNegative buf = Some (a, rest)" for buf a rest
    using that by (auto simp: deserialize_NonNegative_def write_NonNegative_def amount_try_from_u64_def
        i64_checked_def bind_eq_Some_conv codec_iff validate_eq ok_def err_def split: if_splits option.splits)
qed

lemmas amount_dec_enc [codec_simps] = naac.dec_enc nnac.dec_enc
lemmas amount_dec_iff [codec_iff] = naac.dec_iff nnac.dec_iff

lemma amount_bytes_roundtrip:
  "amount_ok c a \<Longrightarrow> amount_from_bytes c (amount_to_bytes a) = ok a"
  using amount_ok_in_i64 [of c a] by (simp add: amount_from_bytes_def amount_to_bytes_def)

lemma amount_from_bytes_exact:
  "length b = 8 \<Longrightarrow> amount_from_bytes c b = ok a \<Longrightarrow> amount_ok c a \<and> b = amount_to_bytes a"
  by (simp add: amount_from_bytes_def amount_to_bytes_def i64_le_from)

end
