(* ===== verification/Disk_Format.thy ===== *)
theory Disk_Format
  imports Amounts "HOL-Library.List_Lexorder" "HOL-Library.Product_Lexorder"
begin

text \<open>
  The database formats of heights, transaction locations, delegation bonds and bond statuses:
  \<^verbatim>\<open>zebra-state/src/service/finalized_state/disk_format.rs\<close> with its modules \<^verbatim>\<open>block\<close> and
  \<^verbatim>\<open>delegation\<close>. A \<^verbatim>\<open>from_bytes\<close> panics on malformed bytes.
\<close>

section \<open>Definitions\<close>

definition be_bytes :: "nat \<Rightarrow> nat \<Rightarrow> bytes" where "be_bytes n v = rev (le_bytes n v)"
definition be_val :: "bytes \<Rightarrow> nat" where "be_val b = le_val (rev b)"

definition truncate_zero_be_bytes :: "bytes \<Rightarrow> nat \<Rightarrow> bytes option rust" where
  "truncate_zero_be_bytes mem_bytes disk_len = do {
     discarded_bytes \<leftarrow> usize_sub (length mem_bytes) disk_len;
     if discarded_bytes = 0 then Some (Some mem_bytes)
     else if \<not> list_all (\<lambda>b. b = 0) (take discarded_bytes mem_bytes) then Some None
     else do {
       rassert (length (drop discarded_bytes mem_bytes) = disk_len);
       Some (Some (drop discarded_bytes mem_bytes)) } }"

definition expand_zero_be_bytes :: "bytes \<Rightarrow> nat \<Rightarrow> bytes rust" where
  "expand_zero_be_bytes disk_bytes mem_len = do {
     extra_bytes \<leftarrow> usize_sub mem_len (length disk_bytes);
     if extra_bytes = 0 then Some disk_bytes
     else do {
       let expanded = replicate extra_bytes 0 @ disk_bytes;
       rassert (length expanded = mem_len);
       Some expanded } }"

definition HEIGHT_DISK_BYTES :: nat where "HEIGHT_DISK_BYTES = 3"
definition MAX_ON_DISK_HEIGHT :: u32 where "MAX_ON_DISK_HEIGHT = 2 ^ 24 - 1"

definition Height_as_bytes :: "u32 \<Rightarrow> bytes rust" where
  "Height_as_bytes h = do {
     disk_bytes \<leftarrow> truncate_zero_be_bytes (be_bytes 4 (unat h)) HEIGHT_DISK_BYTES;
     b \<leftarrow> (case disk_bytes of
         Some b \<Rightarrow> Some b
       | None \<Rightarrow> do {
           m \<leftarrow> truncate_zero_be_bytes (be_bytes 4 (unat MAX_ON_DISK_HEIGHT)) HEIGHT_DISK_BYTES;
           m });
     rassert (length b = HEIGHT_DISK_BYTES);
     Some b }"

definition Height_from_bytes :: "bytes \<Rightarrow> u32 rust" where
  "Height_from_bytes disk_bytes = do {
     mem_bytes \<leftarrow> expand_zero_be_bytes disk_bytes 4;
     rassert (length mem_bytes = 4);
     Some (word_of_nat (be_val mem_bytes)) }"

definition TransactionIndex_from_usize :: "nat \<Rightarrow> u16 rust" where
  "TransactionIndex_from_usize i = do { rassert (i < 2 ^ 16); Some (word_of_nat i) }"

definition TransactionIndex_from_u64 :: "u64 \<Rightarrow> u16 rust" where
  "TransactionIndex_from_u64 i = do { rassert (unat i < 2 ^ 16); Some (ucast i) }"

definition TransactionIndex_as_usize :: "u16 \<Rightarrow> nat" where
  "TransactionIndex_as_usize i = unat i"

definition TransactionIndex_as_u64 :: "u16 \<Rightarrow> u64" where
  "TransactionIndex_as_u64 i = ucast i"

definition TransactionIndex_as_bytes :: "u16 \<Rightarrow> bytes" where
  "TransactionIndex_as_bytes i = be_bytes 2 (unat i)"

definition TransactionIndex_from_bytes :: "bytes \<Rightarrow> u16 rust" where
  "TransactionIndex_from_bytes b = do { rassert (length b = 2); Some (word_of_nat (be_val b)) }"

record TransactionLocation =
  tl_height :: u32
  tl_index :: u16

definition TransactionLocation_from_usize :: "u32 \<Rightarrow> nat \<Rightarrow> TransactionLocation rust" where
  "TransactionLocation_from_usize height transaction_index = do {
     i \<leftarrow> TransactionIndex_from_usize transaction_index;
     Some \<lparr>tl_height = height, tl_index = i\<rparr> }"

definition TransactionLocation_from_u64 :: "u32 \<Rightarrow> u64 \<Rightarrow> TransactionLocation rust" where
  "TransactionLocation_from_u64 height transaction_index = do {
     i \<leftarrow> TransactionIndex_from_u64 transaction_index;
     Some \<lparr>tl_height = height, tl_index = i\<rparr> }"

definition min_for_height :: "u32 \<Rightarrow> TransactionLocation" where
  "min_for_height height = \<lparr>tl_height = height, tl_index = 0\<rparr>"

definition max_for_height :: "u32 \<Rightarrow> TransactionLocation" where
  "max_for_height height = \<lparr>tl_height = height, tl_index = 2 ^ 16 - 1\<rparr>"

text \<open>The derived \<^verbatim>\<open>Ord\<close> of a location compares the height, then the index.\<close>

instantiation TransactionLocation_ext :: (linorder) linorder
begin

definition less_eq_TransactionLocation_ext ::
  "'a TransactionLocation_scheme \<Rightarrow> 'a TransactionLocation_scheme \<Rightarrow> bool" where
  "less_eq_TransactionLocation_ext l m \<longleftrightarrow>
     (tl_height l, tl_index l, TransactionLocation.more l) \<le> (tl_height m, tl_index m, TransactionLocation.more m)"

definition less_TransactionLocation_ext ::
  "'a TransactionLocation_scheme \<Rightarrow> 'a TransactionLocation_scheme \<Rightarrow> bool" where
  "less_TransactionLocation_ext l m \<longleftrightarrow>
     (tl_height l, tl_index l, TransactionLocation.more l) < (tl_height m, tl_index m, TransactionLocation.more m)"

instance
  by standard (auto simp: less_eq_TransactionLocation_ext_def less_TransactionLocation_ext_def)

end

definition location_le :: "TransactionLocation \<Rightarrow> TransactionLocation \<Rightarrow> bool" where
  "location_le l m \<longleftrightarrow> (tl_height l, tl_index l) \<le> (tl_height m, tl_index m)"

definition TransactionLocation_as_bytes :: "TransactionLocation \<Rightarrow> bytes rust" where
  "TransactionLocation_as_bytes l = do {
     height_bytes \<leftarrow> Height_as_bytes (tl_height l);
     let b = height_bytes @ TransactionIndex_as_bytes (tl_index l);
     rassert (length b = 5);
     Some b }"

definition TransactionLocation_from_bytes :: "bytes \<Rightarrow> TransactionLocation rust" where
  "TransactionLocation_from_bytes disk_bytes = do {
     rassert (HEIGHT_DISK_BYTES \<le> length disk_bytes);
     height \<leftarrow> Height_from_bytes (take HEIGHT_DISK_BYTES disk_bytes);
     i \<leftarrow> TransactionIndex_from_bytes (drop HEIGHT_DISK_BYTES disk_bytes);
     Some \<lparr>tl_height = height, tl_index = i\<rparr> }"

definition opt_TransactionLocation_from_bytes :: "bytes \<Rightarrow> TransactionLocation option rust" where
  "opt_TransactionLocation_from_bytes disk_bytes =
     (if length disk_bytes = 5 then map_option Some (TransactionLocation_from_bytes disk_bytes)
      else Some None)"

type_synonym BondKey = bytes

definition BondKey_as_bytes :: "BondKey \<Rightarrow> bytes" where "BondKey_as_bytes k = k"

definition BondKey_from_bytes :: "bytes \<Rightarrow> BondKey rust" where
  "BondKey_from_bytes b = do { rassert (length b = 32); Some b }"

record DelegationBond =
  bond_amount :: amount
  target_finalizer :: bytes
  created_at :: TransactionLocation

datatype BondStatus =
    Active
  | Unbonding TransactionLocation
  | Withdrawn TransactionLocation

fun is_active :: "BondStatus \<Rightarrow> bool" where
  "is_active Active = True" | "is_active _ = False"

fun is_unbonding :: "BondStatus \<Rightarrow> bool" where
  "is_unbonding (Unbonding _) = True" | "is_unbonding _ = False"

fun is_withdrawn :: "BondStatus \<Rightarrow> bool" where
  "is_withdrawn (Withdrawn _) = True" | "is_withdrawn _ = False"

definition DELEGATION_BOND_DISK_BYTES :: nat where "DELEGATION_BOND_DISK_BYTES = 8 + 32 + 5"

definition DelegationBond_as_bytes :: "DelegationBond \<Rightarrow> bytes rust" where
  "DelegationBond_as_bytes b = do {
     loc \<leftarrow> TransactionLocation_as_bytes (created_at b);
     Some (rev (i64_le (bond_amount b)) @ target_finalizer b @ loc) }"

definition DelegationBond_from_bytes :: "bytes \<Rightarrow> DelegationBond rust" where
  "DelegationBond_from_bytes bytes = do {
     rassert (length bytes \<ge> DELEGATION_BOND_DISK_BYTES);
     amount_bytes \<leftarrow> slice bytes 0 8;
     a \<leftarrow> expect (amount_try_from_u64 NonNegative (word_of_nat (be_val amount_bytes)));
     finalizer \<leftarrow> slice bytes 8 40;
     loc_bytes \<leftarrow> slice bytes 40 45;
     loc \<leftarrow> TransactionLocation_from_bytes loc_bytes;
     Some \<lparr>bond_amount = a, target_finalizer = finalizer, created_at = loc\<rparr> }"

definition BondStatus_as_bytes :: "BondStatus \<Rightarrow> bytes rust" where
  "BondStatus_as_bytes s = (case s of
       Active \<Rightarrow> Some [0]
     | Unbonding l \<Rightarrow> do { loc \<leftarrow> TransactionLocation_as_bytes l; Some ([1] @ loc) }
     | Withdrawn l \<Rightarrow> do { loc \<leftarrow> TransactionLocation_as_bytes l; Some ([2] @ loc) })"

definition BondStatus_from_bytes :: "bytes \<Rightarrow> BondStatus rust" where
  "BondStatus_from_bytes bytes = do {
     rassert (bytes \<noteq> []);
     tag \<leftarrow> index bytes 0;
     if tag = 0 then Some Active
     else if tag = 1 then do {
       rassert (length bytes \<ge> 6);
       loc_bytes \<leftarrow> slice bytes 1 6;
       loc \<leftarrow> TransactionLocation_from_bytes loc_bytes;
       Some (Unbonding loc) }
     else if tag = 2 then do {
       rassert (length bytes \<ge> 6);
       loc_bytes \<leftarrow> slice bytes 1 6;
       loc \<leftarrow> TransactionLocation_from_bytes loc_bytes;
       Some (Withdrawn loc) }
     else None }"

section \<open>Big-endian bytes\<close>

lemma be_bytes_length [simp]: "length (be_bytes n v) = n"
  by (simp add: be_bytes_def)

lemma be_val_be_bytes: "be_val (be_bytes n v) = v mod 256 ^ n"
  by (simp add: be_val_def be_bytes_def le_val_le_bytes)

lemma be_bytes_Suc: "be_bytes (Suc n) v = be_bytes n (v div 256) @ [word_of_nat v]"
  by (simp add: be_bytes_def)

lemma le_val_concat: "le_val (a @ b) = le_val a + 256 ^ length a * le_val b"
  by (induction a) (simp_all add: algebra_simps)

lemma be_val_Cons: "be_val (b # bs) = unat b * 256 ^ length bs + be_val bs"
  by (simp add: be_val_def le_val_concat)

lemma be_val_bound: "be_val b < 256 ^ length b"
  using le_val_bound [of "rev b"] by (simp add: be_val_def)

lemma be_val_zeros: "be_val (replicate n 0 @ b) = be_val b"
  by (induction n) (simp_all add: be_val_Cons)

lemma be_bytes_be_val: "be_bytes (length b) (be_val b) = b"
  using le_bytes_le_val [of "rev b"] by (simp add: be_bytes_def be_val_def)

text \<open>Byte strings of one length are ordered as the numbers they stand for.\<close>

lemma be_val_less: "length a = length b \<Longrightarrow> a < b \<longleftrightarrow> be_val a < be_val b"
proof (induction a arbitrary: b)
  case (Cons x xs)
  then obtain y ys where b: "b = y # ys" "length xs = length ys" by (cases b) auto
  have bound: "be_val xs < 256 ^ length ys" "be_val ys < 256 ^ length ys"
    using be_val_bound [of xs] be_val_bound [of ys] b by simp_all
  show ?case
  proof (cases x y rule: linorder_cases)
    case less
    then have "Suc (unat x) * 256 ^ length ys \<le> unat y * 256 ^ length ys"
      by (intro mult_right_mono) (simp_all add: word_less_nat_alt)
    with bound less b show ?thesis by (simp add: be_val_Cons)
  next
    case equal
    with Cons b show ?thesis by (simp add: be_val_Cons)
  next
    case greater
    then have "Suc (unat y) * 256 ^ length ys \<le> unat x * 256 ^ length ys"
      by (intro mult_right_mono) (simp_all add: word_less_nat_alt)
    with bound greater b show ?thesis by (auto simp: be_val_Cons)
  qed
qed simp

section \<open>Heights and locations\<close>

lemma be_bytes_4:
  "be_bytes 4 v = word_of_nat (v div 2 ^ 24) # be_bytes 3 v"
proof -
  have n: "(4 :: nat) = Suc (Suc (Suc (Suc 0)))" "(3 :: nat) = Suc (Suc (Suc 0))" by simp_all
  show ?thesis unfolding n by (simp add: be_bytes_def div_mult2_eq [symmetric])
qed

definition disk_height :: "u32 \<Rightarrow> nat" where "disk_height h = min (unat h) (2 ^ 24 - 1)"

lemma truncate_4:
  assumes "v < 2 ^ 32"
  shows "truncate_zero_be_bytes (be_bytes 4 v) 3 = Some (if v < 2 ^ 24 then Some (be_bytes 3 v) else None)"
proof -
  have "v div 2 ^ 24 < 2 ^ 8" using assms by (simp add: less_mult_imp_div_less)
  then have "2 ^ 8 dvd v div 2 ^ 24 \<longleftrightarrow> v div 2 ^ 24 = 0" using nat_dvd_not_less by auto
  then have "(word_of_nat (v div 2 ^ 24) :: u8) = 0 \<longleftrightarrow> v < 2 ^ 24"
    by (simp add: word_of_nat_eq_0_iff div_eq_0_iff)
  moreover have "truncate_zero_be_bytes (w # be_bytes 3 v) 3 = Some (if w = 0 then Some (be_bytes 3 v) else None)" for w
    by (simp add: truncate_zero_be_bytes_def usize_sub_def)
  ultimately show ?thesis by (simp add: be_bytes_4)
qed

lemma Height_as_bytes_eq: "Height_as_bytes h = Some (be_bytes 3 (disk_height h))"
proof -
  have "unat h < 2 ^ 32" using unsigned_less [of h] by simp
  then show ?thesis
    by (simp add: Height_as_bytes_def HEIGHT_DISK_BYTES_def truncate_4 MAX_ON_DISK_HEIGHT_def disk_height_def)
qed

lemma Height_from_be: "v < 2 ^ 24 \<Longrightarrow> Height_from_bytes (be_bytes 3 v) = Some (word_of_nat v)"
  using be_val_zeros [of 1 "be_bytes 3 v"]
  by (simp add: Height_from_bytes_def expand_zero_be_bytes_def usize_sub_def Let_def be_val_be_bytes)

definition disk_location :: "TransactionLocation \<Rightarrow> TransactionLocation" where
  "disk_location l = l\<lparr>tl_height := word_of_nat (disk_height (tl_height l))\<rparr>"

lemma disk_height_less: "disk_height h < 2 ^ 24"
  by (simp add: disk_height_def)

lemma disk_location_same: "unat (tl_height l) < 2 ^ 24 \<Longrightarrow> disk_location l = l"
  by (simp add: disk_location_def disk_height_def)

definition location_bytes :: "TransactionLocation \<Rightarrow> bytes" where
  "location_bytes l = be_bytes 3 (disk_height (tl_height l)) @ be_bytes 2 (unat (tl_index l))"

lemma location_bytes_length [simp]: "length (location_bytes l) = 5"
  by (simp add: location_bytes_def)

lemma location_as_bytes: "TransactionLocation_as_bytes l = Some (location_bytes l)"
  by (simp add: TransactionLocation_as_bytes_def Height_as_bytes_eq TransactionIndex_as_bytes_def
      location_bytes_def Let_def)

lemma location_from_bytes: "TransactionLocation_from_bytes (location_bytes l) = Some (disk_location l)"
proof -
  have "unat (tl_index l) < 2 ^ 16" using unsigned_less [of "tl_index l"] by simp
  then show ?thesis
    by (simp add: TransactionLocation_from_bytes_def location_bytes_def HEIGHT_DISK_BYTES_def
        Height_from_be [OF disk_height_less] TransactionIndex_from_bytes_def be_val_be_bytes disk_location_def)
qed

lemma be_val_append: "be_val (a @ b) = be_val a * 256 ^ length b + be_val b"
  by (simp add: be_val_def le_val_concat)

lemma location_val:
  "be_val (location_bytes l) = disk_height (tl_height l) * 2 ^ 16 + unat (tl_index l)"
proof -
  have "unat (tl_index l) < 2 ^ 16" using unsigned_less [of "tl_index l"] by simp
  with disk_height_less [of "tl_height l"] show ?thesis
    by (simp add: location_bytes_def be_val_append be_val_be_bytes)
qed

lemma location_bytes_le:
  assumes "unat (tl_height l) < 2 ^ 24" "unat (tl_height m) < 2 ^ 24"
  shows "location_bytes l \<le> location_bytes m \<longleftrightarrow> location_le l m"
proof -
  have i: "unat (tl_index l) < 2 ^ 16" "unat (tl_index m) < 2 ^ 16"
    using unsigned_less [of "tl_index l"] unsigned_less [of "tl_index m"] by simp_all
  have "location_bytes l \<le> location_bytes m \<longleftrightarrow>
      \<not> be_val (location_bytes m) < be_val (location_bytes l)"
    unfolding linorder_not_less [symmetric] by (subst be_val_less) simp_all
  also have "\<dots> \<longleftrightarrow> unat (tl_height l) * 2 ^ 16 + unat (tl_index l) \<le> unat (tl_height m) * 2 ^ 16 + unat (tl_index m)"
    using assms by (simp add: location_val disk_height_def not_less)
  also have "\<dots> \<longleftrightarrow> location_le l m"
    using i mult_le_mono1 [of "Suc (unat (tl_height l))" "unat (tl_height m)" "2 ^ 16"]
      mult_le_mono1 [of "Suc (unat (tl_height m))" "unat (tl_height l)" "2 ^ 16"]
    by (cases "tl_height l" "tl_height m" rule: linorder_cases)
      (simp_all add: location_le_def word_less_nat_alt word_le_nat_alt)
  finally show ?thesis .
qed


section \<open>Bonds and statuses\<close>

definition bond_ok :: "DelegationBond \<Rightarrow> bool" where
  "bond_ok b \<longleftrightarrow> amount_ok NonNegative (bond_amount b) \<and> length (target_finalizer b) = 32"

definition location_ok :: "TransactionLocation \<Rightarrow> bool" where
  "location_ok l \<longleftrightarrow> unat (tl_height l) < 2 ^ 24"

fun status_ok :: "BondStatus \<Rightarrow> bool" where
  "status_ok Active = True"
| "status_ok (Unbonding l) = location_ok l"
| "status_ok (Withdrawn l) = location_ok l"

lemma location_roundtrip:
  "location_ok l \<Longrightarrow> TransactionLocation_from_bytes (location_bytes l) = Some l"
  by (simp add: location_ok_def location_from_bytes disk_location_same)

lemma amount_from_be:
  assumes "amount_ok NonNegative a"
  shows "amount_try_from_u64 NonNegative (word_of_nat (be_val (rev (i64_le a)))) = ok a"
proof -
  have a: "0 \<le> a" "a \<le> 2100000000000000" using assms by (simp_all add: amount_ok_simps MAX_MONEY_val)
  have "unat (word_of_int a :: u64) < 2 ^ 64" using unsigned_less [of "word_of_int a :: u64"] by simp
  then have "(word_of_nat (le_val (i64_le a)) :: u64) = word_of_int a"
    by (simp add: i64_le_def le_val_le_bytes)
  moreover have "uint (word_of_int a :: u64) = a"
    using a by (simp add: uint_word_of_int)
  moreover have "in_i64 a" using a by (simp add: in_i64_def)
  ultimately show ?thesis
    using assms by (simp add: be_val_def amount_try_from_u64_def i64_checked_def)
qed

lemma bond_bytes:
  "DelegationBond_as_bytes b =
     Some (rev (i64_le (bond_amount b)) @ target_finalizer b @ location_bytes (created_at b))"
  by (simp add: DelegationBond_as_bytes_def location_as_bytes)

lemma bond_from_bytes:
  assumes "bond_ok b" "location_ok (created_at b)"
  shows "DelegationBond_from_bytes
    (rev (i64_le (bond_amount b)) @ target_finalizer b @ location_bytes (created_at b)) = Some b"
  using assms
  by (simp add: DelegationBond_from_bytes_def DELEGATION_BOND_DISK_BYTES_def bond_ok_def slice_def
      amount_from_be location_roundtrip)

lemma status_roundtrip:
  "status_ok s \<Longrightarrow> do { b \<leftarrow> BondStatus_as_bytes s; BondStatus_from_bytes b } = Some s"
  by (cases s) (simp_all add: BondStatus_as_bytes_def BondStatus_from_bytes_def location_as_bytes
      slice_def location_roundtrip)

section \<open>The properties of the formats\<close>

text \<open>a delegation bond and a bond status written to the database are read back unchanged, as long
  as the heights they mention are below 2^24; the record of a bond has 45 bytes.
\<close>

theorem bond_disk_roundtrip:
  assumes "bond_ok b" "location_ok (created_at b)" "status_ok s"
  shows "(\<exists>bs. DelegationBond_as_bytes b = Some bs \<and> length bs = DELEGATION_BOND_DISK_BYTES \<and>
            DelegationBond_from_bytes bs = Some b) \<and>
         (\<exists>bs. BondStatus_as_bytes s = Some bs \<and> BondStatus_from_bytes bs = Some s)"
proof
  show "\<exists>bs. DelegationBond_as_bytes b = Some bs \<and> length bs = DELEGATION_BOND_DISK_BYTES \<and>
            DelegationBond_from_bytes bs = Some b"
    using bond_bytes [of b] bond_from_bytes [OF assms(1,2)] assms(1)
    by (simp add: bond_ok_def DELEGATION_BOND_DISK_BYTES_def)
  show "\<exists>bs. BondStatus_as_bytes s = Some bs \<and> BondStatus_from_bytes bs = Some s"
    using status_roundtrip [OF assms(3)] by (simp add: bind_eq_Some_conv)
qed

definition sample_bond :: DelegationBond where
  "sample_bond = \<lparr>bond_amount = 5, target_finalizer = replicate 32 7,
     created_at = \<lparr>tl_height = 1000, tl_index = 3\<rparr>\<rparr>"

theorem bond_disk_roundtrip_witness:
  "(\<exists>bs. DelegationBond_as_bytes sample_bond = Some bs \<and> length bs = DELEGATION_BOND_DISK_BYTES \<and>
      DelegationBond_from_bytes bs = Some sample_bond) \<and>
   (\<exists>bs. BondStatus_as_bytes (Unbonding (created_at sample_bond)) = Some bs \<and>
      BondStatus_from_bytes bs = Some (Unbonding (created_at sample_bond)))"
  by (rule bond_disk_roundtrip)
    (simp_all add: bond_ok_def sample_bond_def location_ok_def amount_ok_simps MAX_MONEY_val)

text \<open>The byte order of location keys is chain order, so that the keys between
  \<open>min_for_height h\<close> and \<open>max_for_height h\<close> are those of the transactions at height \<open>h\<close>.
\<close>

theorem location_disk_order:
  assumes "location_ok l" "location_ok m"
  shows "(\<exists>a b. TransactionLocation_as_bytes l = Some a \<and> TransactionLocation_as_bytes m = Some b \<and>
           (a \<le> b \<longleftrightarrow> location_le l m)) \<and>
         (location_le (min_for_height h) l \<and> location_le l (max_for_height h) \<longleftrightarrow> tl_height l = h)"
proof
  show "\<exists>a b. TransactionLocation_as_bytes l = Some a \<and> TransactionLocation_as_bytes m = Some b \<and>
           (a \<le> b \<longleftrightarrow> location_le l m)"
    using assms by (simp add: location_as_bytes location_bytes_le location_ok_def)
  have "unat (tl_index l) < 2 ^ 16" using unsigned_less [of "tl_index l"] by simp
  then have "tl_index l \<le> 2 ^ 16 - 1" by (simp add: word_le_nat_alt)
  then show "location_le (min_for_height h) l \<and> location_le l (max_for_height h) \<longleftrightarrow> tl_height l = h"
    by (auto simp: location_le_def min_for_height_def max_for_height_def)
qed

theorem location_disk_order_witness:
  "(\<exists>a b. TransactionLocation_as_bytes \<lparr>tl_height = 255, tl_index = 9\<rparr> = Some a \<and>
      TransactionLocation_as_bytes \<lparr>tl_height = 256, tl_index = 0\<rparr> = Some b \<and>
      (a \<le> b \<longleftrightarrow> location_le \<lparr>tl_height = 255, tl_index = 9\<rparr> \<lparr>tl_height = 256, tl_index = 0\<rparr>)) \<and>
   (location_le (min_for_height 255) \<lparr>tl_height = 255, tl_index = 9\<rparr> \<and>
      location_le \<lparr>tl_height = 255, tl_index = 9\<rparr> (max_for_height 255) \<longleftrightarrow>
    tl_height \<lparr>tl_height = 255, tl_index = 9\<rparr> = 255)"
  by (rule location_disk_order) (simp_all add: location_ok_def)

end
