(* ===== verification/Value_Balance.thy ===== *)
theory Value_Balance
  imports Amounts
begin

text \<open>
  Balances of the value pools, \<^verbatim>\<open>zebra-chain/src/value_balance.rs\<close>,
      with the two staking pools that
  Crosslink adds. The constraint of \<^verbatim>\<open>ValueBalance<C>\<close> is an argument, as for amounts.
\<close>

section \<open>Definitions\<close>

record ValueBalance =
  transparent :: amount
  sprout :: amount
  sapling :: amount
  orchard :: amount
  deferred :: amount
  staking_bonded :: amount
  staking_unbonded :: amount

datatype ValueBalanceError =
    Transparent amount_error | Sprout amount_error | Sapling amount_error | Orchard amount_error
  | Deferred amount_error | StakingBonded amount_error | StakingUnbonded amount_error | Unparsable

definition vb_zero :: ValueBalance where
  "vb_zero = \<lparr>transparent = 0, sprout = 0, sapling = 0, orchard = 0, deferred = 0,
      staking_bonded = 0, staking_unbonded = 0\<rparr>"

definition from_transparent_amount :: "amount \<Rightarrow> ValueBalance" where
  "from_transparent_amount a = vb_zero\<lparr>transparent := a\<rparr>"

definition from_sprout_amount :: "amount \<Rightarrow> ValueBalance" where
  "from_sprout_amount a = vb_zero\<lparr>sprout := a\<rparr>"

definition from_sapling_amount :: "amount \<Rightarrow> ValueBalance" where
  "from_sapling_amount a = vb_zero\<lparr>sapling := a\<rparr>"

definition from_orchard_amount :: "amount \<Rightarrow> ValueBalance" where
  "from_orchard_amount a = vb_zero\<lparr>orchard := a\<rparr>"

definition from_staking_bonded_amount :: "amount \<Rightarrow> ValueBalance" where
  "from_staking_bonded_amount a = vb_zero\<lparr>staking_bonded := a\<rparr>"

definition from_staking_unbonded_amount :: "amount \<Rightarrow> ValueBalance" where
  "from_staking_unbonded_amount a = vb_zero\<lparr>staking_unbonded := a\<rparr>"

definition vb_constrain :: "Constr \<Rightarrow> ValueBalance \<Rightarrow> (ValueBalanceError, ValueBalance) result" where
  "vb_constrain c2 v =
     tryr (map_err Transparent (constrain c2 (transparent v))) (\<lambda>transparent'.
     tryr (map_err Sprout (constrain c2 (sprout v))) (\<lambda>sprout'.
     tryr (map_err Sapling (constrain c2 (sapling v))) (\<lambda>sapling'.
     tryr (map_err Orchard (constrain c2 (orchard v))) (\<lambda>orchard'.
     tryr (map_err Deferred (constrain c2 (deferred v))) (\<lambda>deferred'.
     tryr (map_err StakingBonded (constrain c2 (staking_bonded v))) (\<lambda>staking_bonded'.
     tryr (map_err StakingUnbonded (constrain c2 (staking_unbonded v))) (\<lambda>staking_unbonded'.
     ok \<lparr>transparent = transparent', sprout = sprout', sapling = sapling', orchard = orchard',
      deferred = deferred', staking_bonded = staking_bonded',
      staking_unbonded = staking_unbonded'\<rparr>)))))))"

definition vb_add :: "Constr \<Rightarrow> ValueBalance \<Rightarrow> ValueBalance \<Rightarrow> (ValueBalanceError, ValueBalance) result" where
  "vb_add c v rhs =
     tryr (map_err Transparent (amount_add c (transparent v) (transparent rhs))) (\<lambda>transparent'.
     tryr (map_err Sprout (amount_add c (sprout v) (sprout rhs))) (\<lambda>sprout'.
     tryr (map_err Sapling (amount_add c (sapling v) (sapling rhs))) (\<lambda>sapling'.
     tryr (map_err Orchard (amount_add c (orchard v) (orchard rhs))) (\<lambda>orchard'.
     tryr (map_err Deferred (amount_add c (deferred v) (deferred rhs))) (\<lambda>deferred'.
     tryr (map_err StakingBonded (amount_add c (staking_bonded v) (staking_bonded rhs))) (\<lambda>staking_bonded'.
     tryr (map_err StakingUnbonded (amount_add c (staking_unbonded v) (staking_unbonded rhs))) (\<lambda>staking_unbonded'.
     ok \<lparr>transparent = transparent', sprout = sprout', sapling = sapling', orchard = orchard',
      deferred = deferred', staking_bonded = staking_bonded',
      staking_unbonded = staking_unbonded'\<rparr>)))))))"

definition vb_sub :: "Constr \<Rightarrow> ValueBalance \<Rightarrow> ValueBalance \<Rightarrow> (ValueBalanceError, ValueBalance) result" where
  "vb_sub c v rhs =
     tryr (map_err Transparent (amount_sub c (transparent v) (transparent rhs))) (\<lambda>transparent'.
     tryr (map_err Sprout (amount_sub c (sprout v) (sprout rhs))) (\<lambda>sprout'.
     tryr (map_err Sapling (amount_sub c (sapling v) (sapling rhs))) (\<lambda>sapling'.
     tryr (map_err Orchard (amount_sub c (orchard v) (orchard rhs))) (\<lambda>orchard'.
     tryr (map_err Deferred (amount_sub c (deferred v) (deferred rhs))) (\<lambda>deferred'.
     tryr (map_err StakingBonded (amount_sub c (staking_bonded v) (staking_bonded rhs))) (\<lambda>staking_bonded'.
     tryr (map_err StakingUnbonded (amount_sub c (staking_unbonded v) (staking_unbonded rhs))) (\<lambda>staking_unbonded'.
     ok \<lparr>transparent = transparent', sprout = sprout', sapling = sapling', orchard = orchard',
      deferred = deferred', staking_bonded = staking_bonded',
      staking_unbonded = staking_unbonded'\<rparr>)))))))"

fun vb_fold_add :: "Constr \<Rightarrow> ValueBalance \<Rightarrow> ValueBalance list \<Rightarrow> (ValueBalanceError, ValueBalance) result" where
  "vb_fold_add c acc [] = ok acc"
| "vb_fold_add c acc (v # vs) = tryr (vb_add c acc v) (\<lambda>acc. vb_fold_add c acc vs)"

definition vb_sum :: "Constr \<Rightarrow> ValueBalance list \<Rightarrow> (ValueBalanceError, ValueBalance) result" where
  "vb_sum c vs = vb_fold_add c vb_zero vs"

definition vb_neg :: "ValueBalance \<Rightarrow> ValueBalance rust" where
  "vb_neg v = do {
     transparent' \<leftarrow> amount_neg (transparent v);
     sprout' \<leftarrow> amount_neg (sprout v);
     sapling' \<leftarrow> amount_neg (sapling v);
     orchard' \<leftarrow> amount_neg (orchard v);
     deferred' \<leftarrow> amount_neg (deferred v);
     staking_bonded' \<leftarrow> amount_neg (staking_bonded v);
     staking_unbonded' \<leftarrow> amount_neg (staking_unbonded v);
     Some \<lparr>transparent = transparent', sprout = sprout', sapling = sapling', orchard = orchard',
      deferred = deferred', staking_bonded = staking_bonded', staking_unbonded = staking_unbonded'\<rparr> }"

text \<open>The operators between an amount and a \<^verbatim>\<open>Result\<close> are the chain of \<open>tryr\<close>.\<close>

definition remaining_transaction_value :: "ValueBalance \<Rightarrow> (amount_error, amount) result" where
  "remaining_transaction_value v =
     tryr (amount_add NegativeAllowed (transparent v) (sprout v)) (\<lambda>a.
     tryr (amount_add NegativeAllowed a (sapling v)) (\<lambda>a.
     tryr (amount_add NegativeAllowed a (orchard v)) (\<lambda>a.
     tryr (amount_add NegativeAllowed a (staking_bonded v)) (\<lambda>a.
     tryr (amount_add NegativeAllowed a (staking_unbonded v)) (\<lambda>a.
     constrain NonNegative a)))))"

definition add_chain_value_pool_change ::
  "ValueBalance \<Rightarrow> ValueBalance \<Rightarrow> (ValueBalanceError, ValueBalance) result" where
  "add_chain_value_pool_change v chain_value_pool_change = do {
     chain_value_pool \<leftarrow> expect (vb_constrain NegativeAllowed v);
     tryr (vb_add NegativeAllowed chain_value_pool chain_value_pool_change) (\<lambda>chain_value_pool.
       vb_constrain NonNegative chain_value_pool) }"

definition vb_to_bytes :: "ValueBalance \<Rightarrow> bytes" where
  "vb_to_bytes v = concat [amount_to_bytes (transparent v), amount_to_bytes (sprout v),
      amount_to_bytes (sapling v), amount_to_bytes (orchard v), amount_to_bytes (deferred v),
      amount_to_bytes (staking_bonded v), amount_to_bytes (staking_unbonded v)]"

text \<open>One of the later pools: absent in the older, shorter records.\<close>

definition pool_from_bytes :: "nat \<Rightarrow> bytes \<Rightarrow> nat \<Rightarrow> (amount_error, amount) result" where
  "pool_from_bytes needed bytes pos =
     (if length bytes < needed then ok 0
      else do { b \<leftarrow> slice bytes pos (pos + 8); amount_from_bytes NonNegative b })"

definition vb_from_bytes :: "bytes \<Rightarrow> (ValueBalanceError, ValueBalance) result" where
  "vb_from_bytes bytes =
     (if length bytes \<noteq> 32 \<and> length bytes \<noteq> 40 \<and> length bytes \<noteq> 56 then err Unparsable
      else
     tryr (map_err Transparent (pool_from_bytes 0 bytes 0)) (\<lambda>transparent'.
     tryr (map_err Sprout (pool_from_bytes 0 bytes 8)) (\<lambda>sprout'.
     tryr (map_err Sapling (pool_from_bytes 0 bytes 16)) (\<lambda>sapling'.
     tryr (map_err Orchard (pool_from_bytes 0 bytes 24)) (\<lambda>orchard'.
     tryr (map_err Deferred (pool_from_bytes 40 bytes 32)) (\<lambda>deferred'.
     tryr (map_err StakingBonded (pool_from_bytes 56 bytes 40)) (\<lambda>staking_bonded'.
     tryr (map_err StakingUnbonded (pool_from_bytes 56 bytes 48)) (\<lambda>staking_unbonded'.
     ok \<lparr>transparent = transparent', sprout = sprout', sapling = sapling', orchard = orchard',
      deferred = deferred', staking_bonded = staking_bonded',
      staking_unbonded = staking_unbonded'\<rparr>))))))))"

section \<open>Pools stay in range\<close>

definition vb_ok :: "Constr \<Rightarrow> ValueBalance \<Rightarrow> bool" where
  "vb_ok c v \<longleftrightarrow> amount_ok c (transparent v) \<and>
     amount_ok c (sprout v) \<and>
     amount_ok c (sapling v) \<and>
     amount_ok c (orchard v) \<and>
     amount_ok c (deferred v) \<and>
     amount_ok c (staking_bonded v) \<and>
     amount_ok c (staking_unbonded v)"

definition pool_plus :: "ValueBalance \<Rightarrow> ValueBalance \<Rightarrow> ValueBalance" where
  "pool_plus a b = \<lparr>transparent = transparent a + transparent b, sprout = sprout a + sprout b,
      sapling = sapling a + sapling b, orchard = orchard a + orchard b,
      deferred = deferred a + deferred b, staking_bonded = staking_bonded a + staking_bonded b,
      staking_unbonded = staking_unbonded a + staking_unbonded b\<rparr>"

definition pool_minus :: "ValueBalance \<Rightarrow> ValueBalance \<Rightarrow> ValueBalance" where
  "pool_minus a b = \<lparr>transparent = transparent a - transparent b, sprout = sprout a - sprout b,
      sapling = sapling a - sapling b, orchard = orchard a - orchard b,
      deferred = deferred a - deferred b, staking_bonded = staking_bonded a - staking_bonded b,
      staking_unbonded = staking_unbonded a - staking_unbonded b\<rparr>"

definition pool_uminus :: "ValueBalance \<Rightarrow> ValueBalance" where
  "pool_uminus a = \<lparr>transparent = - transparent a, sprout = - sprout a, sapling = - sapling a,
      orchard = - orchard a, deferred = - deferred a, staking_bonded = - staking_bonded a,
      staking_unbonded = - staking_unbonded a\<rparr>"

lemma vb_constrain_ok [simp]: "vb_constrain c v = ok r \<longleftrightarrow> r = v \<and> vb_ok c v"
  by (cases v; cases r) (auto simp: vb_constrain_def constrain_def tryr_ok_iff vb_ok_def)

lemma vb_ok_weaken: "vb_ok NonNegative v \<Longrightarrow> vb_ok NegativeAllowed v"
  by (simp add: vb_ok_def amount_ok_simps MAX_MONEY_val)

lemma vb_ok_uminus: "vb_ok NegativeAllowed v \<Longrightarrow> vb_ok NegativeAllowed (pool_uminus v)"
  by (simp add: vb_ok_def pool_uminus_def amount_ok_simps)

lemma vb_add_ok:
  assumes "vb_ok c v" "vb_ok c w"
  shows "vb_add c v w = ok r \<longleftrightarrow> r = pool_plus v w \<and> vb_ok c (pool_plus v w)"
  using assms
  by (cases r) (auto simp: vb_add_def tryr_ok_iff vb_ok_def amount_add_eq [of c _ c] pool_plus_def)

lemma vb_add_total:
  assumes "vb_ok c v" "vb_ok c w"
  shows "vb_add c v w \<noteq> None"
  unfolding vb_add_def
  by (intro tryr_total) (use assms in \<open>simp_all add: vb_ok_def amount_add_eq [of c _ c] validate_total\<close>)

lemma vb_sub_ok:
  assumes "vb_ok c v" "vb_ok c w"
  shows "vb_sub c v w = ok r \<longleftrightarrow> r = pool_minus v w \<and> vb_ok c (pool_minus v w)"
  using assms
  by (cases r) (auto simp: vb_sub_def tryr_ok_iff vb_ok_def amount_sub_eq [of c _ c] pool_minus_def)

lemma vb_neg_eq:
  assumes "vb_ok c v"
  shows "vb_neg v = Some (pool_uminus v)" "vb_ok NegativeAllowed (pool_uminus v)"
  using assms amount_neg_eq [of c] by (simp_all add: vb_neg_def vb_ok_def pool_uminus_def)

lemma vb_constrain_total: "vb_constrain c v \<noteq> None"
  unfolding vb_constrain_def by (intro tryr_total) (simp_all add: constrain_def validate_total)

lemma pool_change_total:
  assumes "vb_ok NonNegative v" "vb_ok NegativeAllowed d"
  shows "add_chain_value_pool_change v d \<noteq> None"
proof -
  have e: "vb_constrain NegativeAllowed v = ok v" using vb_ok_weaken [OF assms(1)] by simp
  show ?thesis
    using vb_add_total [OF vb_ok_weaken [OF assms(1)] assms(2)] vb_constrain_total
    by (cases "vb_add NegativeAllowed v d" rule: result_cases) (simp_all add: add_chain_value_pool_change_def e)
qed

lemma pool_change_ok:
  assumes "vb_ok NonNegative v" "vb_ok NegativeAllowed d"
  shows "add_chain_value_pool_change v d = ok r \<longleftrightarrow> r = pool_plus v d \<and> vb_ok NonNegative (pool_plus v d)"
proof -
  have e: "vb_constrain NegativeAllowed v = ok v" using vb_ok_weaken [OF assms(1)] by simp
  show ?thesis
    using vb_add_ok [OF vb_ok_weaken [OF assms(1)] assms(2)] vb_ok_weaken
    by (auto simp: add_chain_value_pool_change_def e tryr_ok_iff)
qed

text \<open>C23: the chain value pools never become negative: adding the change of a block to the pools never
  panics, and it succeeds exactly when every pool, the two staking pools included, stays between zero
  and \<^verbatim>\<open>MAX_MONEY\<close>; the result is then the pool-wise sum, and adding the negated change to it gives
  the pools back.\<close>

theorem chain_pools_nonnegative:
  assumes "vb_ok NonNegative pool" "vb_ok NegativeAllowed change"
  shows "add_chain_value_pool_change pool change \<noteq> None \<and>
    (\<forall>r. add_chain_value_pool_change pool change = ok r \<longleftrightarrow>
       r = pool_plus pool change \<and> vb_ok NonNegative (pool_plus pool change)) \<and>
    (\<forall>r. add_chain_value_pool_change pool change = ok r \<longrightarrow>
       (\<exists>undo. vb_neg change = Some undo \<and> add_chain_value_pool_change r undo = ok pool))"
proof -
  have restored: "pool_plus (pool_plus pool change) (pool_uminus change) = pool"
    by (simp add: pool_plus_def pool_uminus_def)
  have "\<exists>undo. vb_neg change = Some undo \<and> add_chain_value_pool_change r undo = ok pool"
    if "add_chain_value_pool_change pool change = ok r" for r
  proof -
    from that have r: "r = pool_plus pool change" "vb_ok NonNegative r" by (simp_all add: pool_change_ok assms)
    have "add_chain_value_pool_change r (pool_uminus change) = ok pool"
      using pool_change_ok [OF r(2) vb_neg_eq(2) [OF assms(2)]] assms(1) restored r(1) by simp
    with vb_neg_eq(1) [OF assms(2)] show ?thesis by blast
  qed
  with pool_change_total [OF assms] show ?thesis by (simp add: pool_change_ok [OF assms])
qed

theorem chain_pools_nonnegative_witness:
  "add_chain_value_pool_change (from_orchard_amount 5) (from_orchard_amount (- 6)) \<noteq> None \<and>
   (\<forall>r. add_chain_value_pool_change (from_orchard_amount 5) (from_orchard_amount (- 6)) \<noteq> ok r)"
proof -
  have o: "vb_ok NonNegative (from_orchard_amount 5)" "vb_ok NegativeAllowed (from_orchard_amount (- 6))"
    by (simp_all add: vb_ok_def from_orchard_amount_def vb_zero_def amount_ok_simps MAX_MONEY_val)
  have "\<not> vb_ok NonNegative (pool_plus (from_orchard_amount 5) (from_orchard_amount (- 6)))"
    by (simp add: vb_ok_def pool_plus_def from_orchard_amount_def vb_zero_def amount_ok_simps)
  with chain_pools_nonnegative [OF o] show ?thesis by blast
qed

section \<open>Encoding\<close>

lemma slice_part: "slice (xs @ ys @ zs) (length xs) (length xs + length ys) = Some ys"
  by (simp add: slice_def)

lemma slice_8:
  "length b = 56 \<Longrightarrow> n \<le> 48 \<Longrightarrow> slice b n (n + 8) = Some (take 8 (drop n b))"
  by (simp add: slice_def)

lemma vb_to_bytes_length [simp]: "length (vb_to_bytes v) = 56"
  by (simp add: vb_to_bytes_def amount_to_bytes_def)

lemma pool_from_bytes_ok:
  assumes "pos + 8 \<le> length b" "needed \<le> length b"
  shows "pool_from_bytes needed b pos = ok a \<longleftrightarrow> amount_ok NonNegative a \<and> take 8 (drop pos b) = amount_to_bytes a"
proof -
  have s: "slice b pos (pos + 8) = Some (take 8 (drop pos b))" "length (take 8 (drop pos b)) = 8"
    using assms(1) by (simp_all add: slice_def)
  have e: "pool_from_bytes needed b pos = amount_from_bytes NonNegative (take 8 (drop pos b))"
    using s(1) assms(2) by (simp add: pool_from_bytes_def)
  show ?thesis unfolding e
  proof
    assume "amount_from_bytes NonNegative (take 8 (drop pos b)) = ok a"
    from amount_from_bytes_exact [OF s(2) this] show "amount_ok NonNegative a \<and> take 8 (drop pos b) = amount_to_bytes a" .
  qed (use amount_bytes_roundtrip in auto)
qed

lemma pool_from_bytes_absent [simp]: "length b < needed \<Longrightarrow> pool_from_bytes needed b pos = ok 0"
  by (simp add: pool_from_bytes_def)

lemma vb_to_bytes_parts:
  "take 8 (vb_to_bytes v) = amount_to_bytes (transparent v)"
  "take 8 (drop 8 (vb_to_bytes v)) = amount_to_bytes (sprout v)"
  "take 8 (drop 16 (vb_to_bytes v)) = amount_to_bytes (sapling v)"
  "take 8 (drop 24 (vb_to_bytes v)) = amount_to_bytes (orchard v)"
  "take 8 (drop 32 (vb_to_bytes v)) = amount_to_bytes (deferred v)"
  "take 8 (drop 40 (vb_to_bytes v)) = amount_to_bytes (staking_bonded v)"
  "take 8 (drop 48 (vb_to_bytes v)) = amount_to_bytes (staking_unbonded v)"
  by (simp_all add: vb_to_bytes_def amount_to_bytes_def)

lemma chunks_eq:
  assumes "length xs = 8 * n" "length ys = 8 * n"
    and "\<And>i. i < n \<Longrightarrow> take 8 (drop (8 * i) xs) = take 8 (drop (8 * i) ys)"
  shows "xs = ys"
  using assms
proof (induction n arbitrary: xs ys)
  case (Suc n)
  have h: "take 8 xs = take 8 ys" using Suc.prems(3) [of 0] by simp
  have "drop 8 xs = drop 8 ys"
  proof (rule Suc.IH)
    show "take 8 (drop (8 * i) (drop 8 xs)) = take 8 (drop (8 * i) (drop 8 ys))" if "i < n" for i
      using Suc.prems(3) [of "Suc i"] that by (simp add: add.commute)
  qed (use Suc.prems in simp_all)
  with h show ?case by (metis append_take_drop_id)
qed simp


lemma vb_from_bytes_pools:
  "length b = 32 \<or> length b = 40 \<or> length b = 56 \<Longrightarrow> vb_from_bytes b = ok v \<longleftrightarrow>
     pool_from_bytes 0 b 0 = ok (transparent v) \<and> pool_from_bytes 0 b 8 = ok (sprout v) \<and>
     pool_from_bytes 0 b 16 = ok (sapling v) \<and> pool_from_bytes 0 b 24 = ok (orchard v) \<and>
     pool_from_bytes 40 b 32 = ok (deferred v) \<and> pool_from_bytes 56 b 40 = ok (staking_bonded v) \<and>
     pool_from_bytes 56 b 48 = ok (staking_unbonded v)"
  by (cases v) (auto simp: vb_from_bytes_def tryr_ok_iff)

lemma le_bytes_zero: "le_bytes n 0 = replicate n 0"
  by (induction n) simp_all

lemma less_7: "i < 7 \<longleftrightarrow> i = 0 \<or> i = 1 \<or> i = 2 \<or> i = 3 \<or> i = 4 \<or> i = 5 \<or> i = (6::nat)"
  by auto

lemma vb_from_bytes_56:
  assumes "length b = 56"
  shows "vb_from_bytes b = ok v \<longleftrightarrow> vb_ok NonNegative v \<and> b = vb_to_bytes v"
proof
  assume "vb_from_bytes b = ok v"
  then have q: "pool_from_bytes 0 b 0 = ok (transparent v)" "pool_from_bytes 0 b 8 = ok (sprout v)"
     "pool_from_bytes 0 b 16 = ok (sapling v)" "pool_from_bytes 0 b 24 = ok (orchard v)"
     "pool_from_bytes 40 b 32 = ok (deferred v)" "pool_from_bytes 56 b 40 = ok (staking_bonded v)"
     "pool_from_bytes 56 b 48 = ok (staking_unbonded v)"
    using assms by (simp_all add: vb_from_bytes_pools)
  note p = q [THEN pool_from_bytes_ok [THEN iffD1, rotated 2]]
  have "b = vb_to_bytes v"
  proof (rule chunks_eq [of _ 7])
    show "take 8 (drop (8 * i) b) = take 8 (drop (8 * i) (vb_to_bytes v))" if "i < 7" for i
      using that p assms unfolding less_7
      by (elim disjE) (simp_all add: vb_to_bytes_parts del: take_all take_all_iff)
  qed (use assms in simp_all)
  with p assms show "vb_ok NonNegative v \<and> b = vb_to_bytes v" by (simp add: vb_ok_def)
next
  assume "vb_ok NonNegative v \<and> b = vb_to_bytes v"
  then show "vb_from_bytes b = ok v"
    by (simp add: vb_from_bytes_pools pool_from_bytes_ok vb_ok_def vb_to_bytes_parts)
qed

text \<open>The records written before a pool existed: the pool is zero.\<close>

lemma vb_from_bytes_short:
  assumes n: "length b = 32 \<or> length b = 40"
  shows "vb_from_bytes b = ok v \<longleftrightarrow> vb_from_bytes (b @ replicate (56 - length b) 0) = ok v"
proof -
  define z where "z = b @ replicate (56 - length b) 0"
  have z8: "amount_to_bytes 0 = replicate 8 0"
    by (simp add: amount_to_bytes_def i64_le_def le_bytes_zero)
  have len: "length z = 56" using n by (auto simp: z_def)
  have same: "pool_from_bytes 0 z p = pool_from_bytes 0 b p" if "p + 8 \<le> length b" for p
    using that by (simp add: pool_from_bytes_def slice_def z_def)
  have pad: "pool_from_bytes k z p = ok a \<longleftrightarrow> a = 0" if "length b \<le> p" "p + 8 \<le> 56" "k \<le> 56" for p a k
  proof -
    have t: "take 8 (drop p z) = amount_to_bytes 0" using that n by (auto simp: z8 z_def)
    have "pool_from_bytes k z p = amount_from_bytes NonNegative (amount_to_bytes 0)"
      using that len t by (simp add: pool_from_bytes_def slice_8)
    then show ?thesis by (auto simp: amount_bytes_roundtrip)
  qed
  have "vb_from_bytes b = ok v \<longleftrightarrow> vb_from_bytes z = ok v"
  proof (cases "length b = 32")
    case True
    then show ?thesis using len by (auto simp: vb_from_bytes_pools same pad)
  next
    case False
    then have "pool_from_bytes 40 z 32 = pool_from_bytes 40 b 32"
      using n len by (simp add: pool_from_bytes_def slice_def z_def)
    then show ?thesis using n False len by (auto simp: vb_from_bytes_pools same pad)
  qed
  then show ?thesis by (simp only: z_def)
qed


text \<open>The pools stored in the database are read back exactly: a record of 56 bytes decodes to a
  balance if and only if it is the encoding of that balance with every pool in range, a record of 32
  or 40 bytes decodes as if padded with zero pools, and any other length is an error.\<close>

theorem value_balance_bytes:
  "vb_from_bytes b = ok v \<longleftrightarrow> length b \<in> {32, 40, 56} \<and> vb_ok NonNegative v \<and>
     b @ replicate (56 - length b) 0 = vb_to_bytes v"
proof (cases "length b = 32 \<or> length b = 40")
  case True
  then have "length (b @ replicate (56 - length b) (0 :: u8)) = 56" by auto
  from vb_from_bytes_56 [OF this] vb_from_bytes_short [OF True, of v] True show ?thesis by auto
next
  case False
  show ?thesis
  proof (cases "length b = 56")
    case True
    then show ?thesis using vb_from_bytes_56 [OF True, of v] by auto
  next
    case F2: False
    with False show ?thesis by (simp add: vb_from_bytes_def)
  qed
qed

section \<open>The fee of a transaction\<close>

definition remaining :: "ValueBalance \<Rightarrow> int" where
  "remaining v = transparent v + sprout v + sapling v + orchard v + staking_bonded v + staking_unbonded v"

text \<open>The partial sums, in the order of the additions.\<close>

definition partial_sums_ok :: "ValueBalance \<Rightarrow> bool" where
  "partial_sums_ok v \<longleftrightarrow> amount_ok NegativeAllowed (transparent v + sprout v) \<and>
     amount_ok NegativeAllowed (transparent v + sprout v + sapling v) \<and>
     amount_ok NegativeAllowed (transparent v + sprout v + sapling v + orchard v) \<and>
     amount_ok NegativeAllowed (transparent v + sprout v + sapling v + orchard v + staking_bonded v)"

text \<open>the remaining value of a transaction is the sum of its pools without the deferred one, and it
  is refused when it is negative: no transaction creates value. It is also refused when a partial sum
  leaves the range of amounts, and the computation never panics.\<close>

theorem remaining_value_spec:
  assumes "vb_ok NegativeAllowed v"
  shows "remaining_transaction_value v \<noteq> None \<and>
    (\<forall>fee. remaining_transaction_value v = ok fee \<longleftrightarrow>
       partial_sums_ok v \<and> fee = remaining v \<and> 0 \<le> remaining v \<and> remaining v \<le> MAX_MONEY)"
proof
  note add = amount_add_eq [of NegativeAllowed _ NegativeAllowed]
  show "remaining_transaction_value v \<noteq> None"
    unfolding remaining_transaction_value_def constrain_def
    by (intro tryr_total) (use assms in \<open>auto simp: vb_ok_def add\<close>)
  show "\<forall>fee. remaining_transaction_value v = ok fee \<longleftrightarrow>
       partial_sums_ok v \<and> fee = remaining v \<and> 0 \<le> remaining v \<and> remaining v \<le> MAX_MONEY"
    using assms
    by (auto simp: remaining_transaction_value_def constrain_def tryr_ok_iff vb_ok_def add
        partial_sums_ok_def remaining_def amount_ok_simps MAX_MONEY_val)
qed

theorem remaining_value_spec_witness:
  "remaining_transaction_value (pool_plus (from_orchard_amount 9) (from_staking_bonded_amount (- 7))) = ok 2"
proof -
  let ?v = "pool_plus (from_orchard_amount 9) (from_staking_bonded_amount (- 7))"
  have "vb_ok NegativeAllowed ?v" "partial_sums_ok ?v" "remaining ?v = 2"
    by (simp_all add: vb_ok_def pool_plus_def from_orchard_amount_def from_staking_bonded_amount_def vb_zero_def
        amount_ok_simps MAX_MONEY_val partial_sums_ok_def remaining_def)
  with remaining_value_spec [of ?v] show ?thesis by (simp add: MAX_MONEY_val)
qed

end
