(* ===== verification/Staking_Action.thy ===== *)
theory Staking_Action
  imports Value_Balance
begin

text \<open>
  Staking actions: the union type of \<^verbatim>\<open>zcash_primitives/src/transaction/mod.rs\<close> with its encoding, the
  bytes it adds to the transaction id, the four typed views of it, the printed form of an address, the
  balance it contributes to a transaction (\<^verbatim>\<open>zebra-chain/src/transaction.rs\<close>), and the two checks of
  \<^verbatim>\<open>zebra-consensus/src/transaction.rs\<close> on when an action is allowed.
\<close>

section \<open>Definitions\<close>

datatype StakingActionKind =
    KindNull
  | CreateNewDelegationBond
  | BeginDelegationUnbonding
  | WithdrawDelegationBond
  | RetargetDelegationBond
  | RegisterFinalizer
  | ConvertFinalizerRewardToDelegationBond
  | UpdateFinalizerKey

fun kind_to_u8 :: "StakingActionKind \<Rightarrow> u8" where
  "kind_to_u8 KindNull = 0"
| "kind_to_u8 CreateNewDelegationBond = 1"
| "kind_to_u8 BeginDelegationUnbonding = 2"
| "kind_to_u8 WithdrawDelegationBond = 3"
| "kind_to_u8 RetargetDelegationBond = 4"
| "kind_to_u8 RegisterFinalizer = 5"
| "kind_to_u8 ConvertFinalizerRewardToDelegationBond = 6"
| "kind_to_u8 UpdateFinalizerKey = 7"

definition kind_try_from :: "u8 \<Rightarrow> StakingActionKind option" where
  "kind_try_from v =
     (if v = 0 then Some KindNull
      else if v = 1 then Some CreateNewDelegationBond
      else if v = 2 then Some BeginDelegationUnbonding
      else if v = 3 then Some WithdrawDelegationBond
      else if v = 4 then Some RetargetDelegationBond
      else if v = 5 then Some RegisterFinalizer
      else if v = 6 then Some ConvertFinalizerRewardToDelegationBond
      else if v = 7 then Some UpdateFinalizerKey
      else None)"

record StakingAction =
  sa_kind :: StakingActionKind
  amount_zats :: u64
  arg32_0 :: bytes
  arg32_1 :: bytes
  arg32_2 :: bytes
  arg32_3 :: bytes
  arg64_0 :: bytes
  arg64_1 :: bytes

definition StakingAction_default :: StakingAction where
  "StakingAction_default = \<lparr>sa_kind = KindNull, amount_zats = 0, arg32_0 = replicate 32 0,
     arg32_1 = replicate 32 0, arg32_2 = replicate 32 0, arg32_3 = replicate 32 0,
     arg64_0 = replicate 64 0, arg64_1 = replicate 64 0\<rparr>"

subsection \<open>Typed views\<close>

record CreateBondAction =
  cb_amount_zats :: u64
  cb_unique_pubkey :: bytes
  cb_challenge :: bytes
  cb_target_finalizer :: bytes
  cb_signature :: bytes

definition create_to_union :: "CreateBondAction \<Rightarrow> StakingAction" where
  "create_to_union a = StakingAction_default\<lparr>sa_kind := CreateNewDelegationBond,
     amount_zats := cb_amount_zats a, arg32_0 := cb_unique_pubkey a, arg32_1 := cb_challenge a,
     arg32_2 := cb_target_finalizer a, arg64_0 := cb_signature a\<rparr>"

definition create_try_from_union :: "StakingAction \<Rightarrow> CreateBondAction option" where
  "create_try_from_union u =
     (if sa_kind u = CreateNewDelegationBond
      then Some \<lparr>cb_amount_zats = amount_zats u, cb_unique_pubkey = arg32_0 u, cb_challenge = arg32_1 u,
        cb_target_finalizer = arg32_2 u, cb_signature = arg64_0 u\<rparr>
      else None)"

record BeginUnbondingAction =
  bu_unique_pubkey :: bytes
  bu_challenge :: bytes
  bu_signature :: bytes

definition unbonding_to_union :: "BeginUnbondingAction \<Rightarrow> StakingAction" where
  "unbonding_to_union a = StakingAction_default\<lparr>sa_kind := BeginDelegationUnbonding,
     arg32_0 := bu_unique_pubkey a, arg32_1 := bu_challenge a, arg64_0 := bu_signature a\<rparr>"

definition unbonding_try_from_union :: "StakingAction \<Rightarrow> BeginUnbondingAction option" where
  "unbonding_try_from_union u =
     (if sa_kind u = BeginDelegationUnbonding
      then Some \<lparr>bu_unique_pubkey = arg32_0 u, bu_challenge = arg32_1 u, bu_signature = arg64_0 u\<rparr>
      else None)"

record RetargetAction =
  rt_unique_pubkey :: bytes
  rt_challenge :: bytes
  rt_signature :: bytes
  rt_target_finalizer :: bytes

definition retarget_to_union :: "RetargetAction \<Rightarrow> StakingAction" where
  "retarget_to_union a = StakingAction_default\<lparr>sa_kind := RetargetDelegationBond,
     arg32_0 := rt_unique_pubkey a, arg32_1 := rt_challenge a, arg64_0 := rt_signature a,
     arg32_2 := rt_target_finalizer a\<rparr>"

definition retarget_try_from_union :: "StakingAction \<Rightarrow> RetargetAction option" where
  "retarget_try_from_union u =
     (if sa_kind u = RetargetDelegationBond
      then Some \<lparr>rt_unique_pubkey = arg32_0 u, rt_challenge = arg32_1 u, rt_signature = arg64_0 u,
        rt_target_finalizer = arg32_2 u\<rparr>
      else None)"

record WithdrawAction =
  wd_amount_zats :: u64
  wd_unique_pubkey :: bytes
  wd_challenge :: bytes
  wd_signature :: bytes

definition withdraw_to_union :: "WithdrawAction \<Rightarrow> StakingAction" where
  "withdraw_to_union a = StakingAction_default\<lparr>sa_kind := WithdrawDelegationBond,
     amount_zats := wd_amount_zats a, arg32_0 := wd_unique_pubkey a, arg32_1 := wd_challenge a,
     arg64_0 := wd_signature a\<rparr>"

definition withdraw_try_from_union :: "StakingAction \<Rightarrow> WithdrawAction option" where
  "withdraw_try_from_union u =
     (if sa_kind u = WithdrawDelegationBond
      then Some \<lparr>wd_amount_zats = amount_zats u, wd_unique_pubkey = arg32_0 u, wd_challenge = arg32_1 u,
        wd_signature = arg64_0 u\<rparr>
      else None)"

subsection \<open>Encoding\<close>

text \<open>\<^verbatim>\<open>hash_to_state\<close>: the bytes hashed into the transaction id, or \<open>None\<close> for the null action.\<close>

definition hash_to_state :: "StakingAction \<Rightarrow> bytes option" where
  "hash_to_state a = (case sa_kind a of
       KindNull \<Rightarrow> None
     | CreateNewDelegationBond \<Rightarrow>
         Some ([kind_to_u8 (sa_kind a)] @ arg32_0 a @ arg32_1 a @ arg64_0 a @ arg32_2 a @ u64_le (amount_zats a))
     | BeginDelegationUnbonding \<Rightarrow>
         Some ([kind_to_u8 (sa_kind a)] @ arg32_0 a @ arg32_1 a @ arg64_0 a)
     | WithdrawDelegationBond \<Rightarrow>
         Some ([kind_to_u8 (sa_kind a)] @ arg32_0 a @ arg32_1 a @ arg64_0 a @ u64_le (amount_zats a))
     | RetargetDelegationBond \<Rightarrow>
         Some ([kind_to_u8 (sa_kind a)] @ arg32_0 a @ arg32_1 a @ arg64_0 a @ arg32_2 a)
     | RegisterFinalizer \<Rightarrow>
         Some ([kind_to_u8 (sa_kind a)] @ arg32_0 a @ arg32_1 a @ arg64_0 a)
     | ConvertFinalizerRewardToDelegationBond \<Rightarrow>
         Some ([kind_to_u8 (sa_kind a)] @ arg32_0 a @ arg32_1 a @ arg64_0 a @ arg32_2 a @
           u64_le (amount_zats a) @ arg32_3 a @ arg64_1 a)
     | UpdateFinalizerKey \<Rightarrow>
         Some ([kind_to_u8 (sa_kind a)] @ arg32_0 a @ arg32_1 a @ arg64_0 a @ arg32_2 a @ arg32_3 a @
           arg64_1 a))"

text \<open>\<^verbatim>\<open>StakingAction::write\<close>; \<open>None\<close> is the error for the null kind.\<close>

definition StakingAction_write :: "StakingAction option \<Rightarrow> bytes option" where
  "StakingAction_write staking_action = (case staking_action of
       None \<Rightarrow> Some [0]
     | Some a \<Rightarrow> (case sa_kind a of
           CreateNewDelegationBond \<Rightarrow>
             Some ([kind_to_u8 (sa_kind a)] @ arg32_0 a @ arg32_1 a @ arg64_0 a @ arg32_2 a @ u64_le (amount_zats a))
         | BeginDelegationUnbonding \<Rightarrow>
             Some ([kind_to_u8 (sa_kind a)] @ arg32_0 a @ arg32_1 a @ arg64_0 a)
         | WithdrawDelegationBond \<Rightarrow>
             Some ([kind_to_u8 (sa_kind a)] @ arg32_0 a @ arg32_1 a @ arg64_0 a @ u64_le (amount_zats a))
         | RetargetDelegationBond \<Rightarrow>
             Some ([kind_to_u8 (sa_kind a)] @ arg32_0 a @ arg32_1 a @ arg64_0 a @ arg32_2 a)
         | RegisterFinalizer \<Rightarrow>
             Some ([kind_to_u8 (sa_kind a)] @ arg32_0 a @ arg32_1 a @ arg64_0 a)
         | ConvertFinalizerRewardToDelegationBond \<Rightarrow>
             Some ([kind_to_u8 (sa_kind a)] @ arg32_0 a @ arg32_1 a @ arg64_0 a @ arg32_2 a @
               u64_le (amount_zats a) @ arg32_3 a @ arg64_1 a)
         | UpdateFinalizerKey \<Rightarrow>
             Some ([kind_to_u8 (sa_kind a)] @ arg32_0 a @ arg32_1 a @ arg64_0 a @ arg32_2 a @ arg32_3 a @
               arg64_1 a)
         | KindNull \<Rightarrow> None))"

text \<open>\<^verbatim>\<open>StakingAction::read\<close>: the fields of each kind, in order, over the default action.\<close>

definition StakingAction_read :: "StakingAction option reader" where
  "StakingAction_read buf = do {
     (tag, buf) \<leftarrow> read_u8 buf;
     if tag = 0 then Some (None, buf)
     else do {
       kind \<leftarrow> kind_try_from tag;
       let ret = StakingAction_default\<lparr>sa_kind := kind\<rparr>;
       (case kind of
          CreateNewDelegationBond \<Rightarrow> do {
            (a0, buf) \<leftarrow> read_exact 32 buf;
            (a1, buf) \<leftarrow> read_exact 32 buf;
            (s0, buf) \<leftarrow> read_exact 64 buf;
            (a2, buf) \<leftarrow> read_exact 32 buf;
            (z, buf) \<leftarrow> read_u64 buf;
            Some (Some (ret\<lparr>arg32_0 := a0, arg32_1 := a1, arg64_0 := s0, arg32_2 := a2, amount_zats := z\<rparr>), buf) }
        | BeginDelegationUnbonding \<Rightarrow> do {
            (a0, buf) \<leftarrow> read_exact 32 buf;
            (a1, buf) \<leftarrow> read_exact 32 buf;
            (s0, buf) \<leftarrow> read_exact 64 buf;
            Some (Some (ret\<lparr>arg32_0 := a0, arg32_1 := a1, arg64_0 := s0\<rparr>), buf) }
        | WithdrawDelegationBond \<Rightarrow> do {
            (a0, buf) \<leftarrow> read_exact 32 buf;
            (a1, buf) \<leftarrow> read_exact 32 buf;
            (s0, buf) \<leftarrow> read_exact 64 buf;
            (z, buf) \<leftarrow> read_u64 buf;
            Some (Some (ret\<lparr>arg32_0 := a0, arg32_1 := a1, arg64_0 := s0, amount_zats := z\<rparr>), buf) }
        | RetargetDelegationBond \<Rightarrow> do {
            (a0, buf) \<leftarrow> read_exact 32 buf;
            (a1, buf) \<leftarrow> read_exact 32 buf;
            (s0, buf) \<leftarrow> read_exact 64 buf;
            (a2, buf) \<leftarrow> read_exact 32 buf;
            Some (Some (ret\<lparr>arg32_0 := a0, arg32_1 := a1, arg64_0 := s0, arg32_2 := a2\<rparr>), buf) }
        | RegisterFinalizer \<Rightarrow> do {
            (a0, buf) \<leftarrow> read_exact 32 buf;
            (a1, buf) \<leftarrow> read_exact 32 buf;
            (s0, buf) \<leftarrow> read_exact 64 buf;
            Some (Some (ret\<lparr>arg32_0 := a0, arg32_1 := a1, arg64_0 := s0\<rparr>), buf) }
        | ConvertFinalizerRewardToDelegationBond \<Rightarrow> do {
            (a0, buf) \<leftarrow> read_exact 32 buf;
            (a1, buf) \<leftarrow> read_exact 32 buf;
            (s0, buf) \<leftarrow> read_exact 64 buf;
            (a2, buf) \<leftarrow> read_exact 32 buf;
            (z, buf) \<leftarrow> read_u64 buf;
            (a3, buf) \<leftarrow> read_exact 32 buf;
            (s1, buf) \<leftarrow> read_exact 64 buf;
            Some (Some (ret\<lparr>arg32_0 := a0, arg32_1 := a1, arg64_0 := s0, arg32_2 := a2, amount_zats := z,
              arg32_3 := a3, arg64_1 := s1\<rparr>), buf) }
        | UpdateFinalizerKey \<Rightarrow> do {
            (a0, buf) \<leftarrow> read_exact 32 buf;
            (a1, buf) \<leftarrow> read_exact 32 buf;
            (s0, buf) \<leftarrow> read_exact 64 buf;
            (a2, buf) \<leftarrow> read_exact 32 buf;
            (a3, buf) \<leftarrow> read_exact 32 buf;
            (s1, buf) \<leftarrow> read_exact 64 buf;
            Some (Some (ret\<lparr>arg32_0 := a0, arg32_1 := a1, arg64_0 := s0, arg32_2 := a2,
              arg32_3 := a3, arg64_1 := s1\<rparr>), buf) }
        | KindNull \<Rightarrow> None) } }"

subsection \<open>Printed addresses\<close>

text \<open>Lower case hexadecimal digits as ASCII codes; \<open>hex_val\<close> is the table \<^verbatim>\<open>VALS\<close>.\<close>

definition hex_digit :: "u8 \<Rightarrow> u8" where
  "hex_digit n = (if n < 10 then 48 + n else 87 + n)"

definition hex_val :: "u8 \<Rightarrow> u8" where
  "hex_val c = (if 48 \<le> c \<and> c \<le> 57 then c - 48 else if 97 \<le> c \<and> c \<le> 102 then c - 87 else 0xff)"

definition str_from_addr :: "bytes \<Rightarrow> bytes rust" where
  "str_from_addr addr = (if length addr = 32
     then Some (concat (map (\<lambda>b. [hex_digit (drop_bit 4 b), hex_digit (b AND 0xf)]) (rev addr)))
     else None)"

definition addr_byte :: "bytes \<Rightarrow> nat \<Rightarrow> u8 option" where
  "addr_byte data i = do {
     a \<leftarrow> index data (2 * i);
     b \<leftarrow> index data (2 * i + 1);
     let a = hex_val a;
     if a = 0xff then None
     else do {
       let b = hex_val b;
       if b = 0xff then None else Some (push_bit 4 a OR b) } }"

primrec addr_loop :: "bytes \<Rightarrow> nat list \<Rightarrow> bytes \<Rightarrow> bytes option" where
  "addr_loop data [] buf = Some buf"
| "addr_loop data (i # is) buf = do { b \<leftarrow> addr_byte data i; addr_loop data is (buf[31 - i := b]) }"

definition addr_from_str_bytes :: "bytes \<Rightarrow> bytes option" where
  "addr_from_str_bytes data = addr_loop data [0..<32] (replicate 32 0)"

subsection \<open>Value balance and checks\<close>

text \<open>\<^verbatim>\<open>amount_zats as i64\<close> reads the unsigned word as a signed one.\<close>

definition staking_action_value_balance :: "StakingAction option \<Rightarrow> ValueBalance rust" where
  "staking_action_value_balance staking_action = (case staking_action of
       None \<Rightarrow> Some vb_zero
     | Some a \<Rightarrow>
         if sa_kind a = CreateNewDelegationBond then do {
           z \<leftarrow> amount_new (sint (amount_zats a));
           n \<leftarrow> amount_neg z;
           Some (from_staking_bonded_amount n) }
         else if sa_kind a = WithdrawDelegationBond then do {
           z \<leftarrow> amount_new (sint (amount_zats a));
           c \<leftarrow> expect (constrain NegativeAllowed z);
           Some (from_staking_unbonded_amount c) }
         else Some vb_zero)"

record BondInfoResponse =
  bi_amount :: amount
  bi_status :: u8
  last_action_height :: u32

datatype TransactionError =
    QueryFailed
  | StakingActionBondNotFound bytes
  | StakingActionDelayNotMet bytes u32 u32 u32
  | StakingActionOutsideWindow u32 u32 u32

definition STAKING_ACTION_DELAY_BLOCKS :: u32 where "STAKING_ACTION_DELAY_BLOCKS = 75"
definition STAKING_DAY_PERIOD :: u32 where "STAKING_DAY_PERIOD = 150"
definition STAKING_DAY_WINDOW :: u32 where "STAKING_DAY_WINDOW = 70"

text \<open>The state service is the argument \<open>query\<close>: it fails or answers with what it knows of a bond.\<close>

definition check_staking_action_delay ::
  "(bytes \<Rightarrow> unit + BondInfoResponse option) \<Rightarrow> StakingAction option \<Rightarrow> u32 \<Rightarrow> (TransactionError, unit) result" where
  "check_staking_action_delay query staking_action height = (case staking_action of
       None \<Rightarrow> ok ()
     | Some a \<Rightarrow>
         if sa_kind a \<noteq> BeginDelegationUnbonding \<and> sa_kind a \<noteq> WithdrawDelegationBond then ok ()
         else
           (let bond_key = arg32_0 a in
            case query bond_key of
              Inl _ \<Rightarrow> err QueryFailed
            | Inr None \<Rightarrow> err (StakingActionBondNotFound bond_key)
            | Inr (Some info) \<Rightarrow> do {
                earliest \<leftarrow> checked_add (last_action_height info) STAKING_ACTION_DELAY_BLOCKS;
                if height < earliest
                then err (StakingActionDelayNotMet bond_key (last_action_height info) height STAKING_ACTION_DELAY_BLOCKS)
                else ok () }))"

definition check_staking_day_window :: "StakingAction option \<Rightarrow> u32 \<Rightarrow> (TransactionError, unit) result" where
  "check_staking_day_window staking_action block_height = (case staking_action of
       None \<Rightarrow> ok ()
     | Some a \<Rightarrow>
         if sa_kind a = RetargetDelegationBond then ok ()
         else
           (let position_in_period = block_height mod STAKING_DAY_PERIOD in
            if position_in_period \<ge> STAKING_DAY_WINDOW
            then err (StakingActionOutsideWindow block_height STAKING_DAY_PERIOD STAKING_DAY_WINDOW)
            else ok ()))"

section \<open>The encoding\<close>

lemma kind_try_from_to [simp]: "kind_try_from (kind_to_u8 k) = Some k"
  by (cases k) (simp_all add: kind_try_from_def)

lemma kind_try_from_Some [simp]: "kind_try_from v = Some k \<longleftrightarrow> v = kind_to_u8 k"
  by (cases k) (auto simp: kind_try_from_def split: if_splits)

lemma kind_to_u8_0 [simp]: "kind_to_u8 k = 0 \<longleftrightarrow> k = KindNull"
  by (cases k) simp_all

lemma kind_to_u8_tags [simp]:
  "kind_to_u8 k = 1 \<longleftrightarrow> k = CreateNewDelegationBond"
  "kind_to_u8 k = 2 \<longleftrightarrow> k = BeginDelegationUnbonding"
  "kind_to_u8 k = 3 \<longleftrightarrow> k = WithdrawDelegationBond"
  "kind_to_u8 k = 4 \<longleftrightarrow> k = RetargetDelegationBond"
  "kind_to_u8 k = 5 \<longleftrightarrow> k = RegisterFinalizer"
  "kind_to_u8 k = 6 \<longleftrightarrow> k = ConvertFinalizerRewardToDelegationBond"
  "kind_to_u8 k = 7 \<longleftrightarrow> k = UpdateFinalizerKey"
  by (cases k; simp)+

text \<open>
  The actions a writer and a reader agree on: not null, every array of its size, and the fields that
  the kind does not use at their default.
\<close>

definition uses_amount :: "StakingActionKind \<Rightarrow> bool" where
  "uses_amount k \<longleftrightarrow> k = CreateNewDelegationBond \<or> k = WithdrawDelegationBond \<or>
     k = ConvertFinalizerRewardToDelegationBond"

definition uses_arg2 :: "StakingActionKind \<Rightarrow> bool" where
  "uses_arg2 k \<longleftrightarrow> k = CreateNewDelegationBond \<or> k = RetargetDelegationBond \<or>
     k = ConvertFinalizerRewardToDelegationBond \<or> k = UpdateFinalizerKey"

definition uses_arg3 :: "StakingActionKind \<Rightarrow> bool" where
  "uses_arg3 k \<longleftrightarrow> k = ConvertFinalizerRewardToDelegationBond \<or> k = UpdateFinalizerKey"

definition action_ok :: "StakingAction \<Rightarrow> bool" where
  "action_ok a \<longleftrightarrow> sa_kind a \<noteq> KindNull \<and> length (arg32_0 a) = 32 \<and> length (arg32_1 a) = 32 \<and>
     length (arg64_0 a) = 64 \<and> length (arg32_2 a) = 32 \<and> length (arg32_3 a) = 32 \<and> length (arg64_1 a) = 64 \<and>
     (uses_amount (sa_kind a) \<or> amount_zats a = 0) \<and>
     (uses_arg2 (sa_kind a) \<or> arg32_2 a = replicate 32 0) \<and>
     (uses_arg3 (sa_kind a) \<or> arg32_3 a = replicate 32 0 \<and> arg64_1 a = replicate 64 0)"

definition action_bytes :: "StakingAction option \<Rightarrow> bytes" where
  "action_bytes a = the (StakingAction_write a)"

lemmas uses_defs = uses_amount_def uses_arg2_def uses_arg3_def

lemma action_write_total: "pred_option action_ok a \<Longrightarrow> StakingAction_write a = Some (action_bytes a)"
  by (auto simp: action_bytes_def StakingAction_write_def action_ok_def split: option.splits StakingActionKind.splits)

interpretation sac: exact_codec action_bytes StakingAction_read "pred_option action_ok"
proof
  fix a rest
  assume ok: "pred_option action_ok a"
  show "StakingAction_read (action_bytes a @ rest) = Some (a, rest)"
  proof (cases a)
    case None
    then show ?thesis by (simp add: action_bytes_def StakingAction_write_def StakingAction_read_def codec_simps)
  next
    case (Some u)
    with ok show ?thesis
      by (cases u; cases "sa_kind u")
        (simp_all add: action_bytes_def StakingAction_write_def StakingAction_read_def codec_simps action_ok_def
          uses_defs StakingAction_default_def kind_try_from_def)
  qed
next
  fix buf a rest
  assume r: "StakingAction_read buf = Some (a, rest)"
  from r obtain tag b where t: "buf = [tag] @ b"
    by (auto simp: StakingAction_read_def bind_eq_Some_conv codec_iff)
  show "buf = action_bytes a @ rest \<and> pred_option action_ok a"
  proof (cases "tag = 0")
    case True
    with r t show ?thesis
      by (auto simp: StakingAction_read_def codec_simps action_bytes_def StakingAction_write_def)
  next
    case False
    with r t obtain k where k: "tag = kind_to_u8 k" "k \<noteq> KindNull"
      by (auto simp: StakingAction_read_def codec_simps bind_eq_Some_conv)
    with r t show ?thesis
      by (cases k) (auto simp: StakingAction_read_def codec_simps bind_eq_Some_conv codec_iff action_bytes_def
          StakingAction_write_def action_ok_def uses_defs StakingAction_default_def)
  qed
qed

lemmas action_dec_enc [codec_simps] = sac.dec_enc
lemmas action_dec_iff [codec_iff] = sac.dec_iff


text \<open>C29: staking actions are encoded without ambiguity: the reader accepts exactly the bytes the writer
  produces for an action whose unused fields are at their default, and the bytes that go into the
  transaction id are the encoded action, so two different actions never hash to the same bytes.\<close>

theorem staking_action_encoding:
  shows "(StakingAction_read buf = Some (a, rest) \<longleftrightarrow>
      pred_option action_ok a \<and> (\<exists>w. StakingAction_write a = Some w \<and> buf = w @ rest)) \<and>
    hash_to_state u = StakingAction_write (Some u) \<and>
    \<not> (action_ok u \<and> action_ok v \<and> hash_to_state u = hash_to_state v \<and> u \<noteq> v)"
proof (intro conjI)
  show "StakingAction_read buf = Some (a, rest) \<longleftrightarrow>
      pred_option action_ok a \<and> (\<exists>w. StakingAction_write a = Some w \<and> buf = w @ rest)"
    using sac.dec_iff [of buf a rest] action_write_total [of a] by auto
  show h: "hash_to_state u = StakingAction_write (Some u)"
    by (simp add: hash_to_state_def StakingAction_write_def split: StakingActionKind.split)
  have hv: "hash_to_state v = StakingAction_write (Some v)"
    by (simp add: hash_to_state_def StakingAction_write_def split: StakingActionKind.split)
  show "\<not> (action_ok u \<and> action_ok v \<and> hash_to_state u = hash_to_state v \<and> u \<noteq> v)"
    using sac.enc_inject [of "Some u" "Some v"] by (auto simp: h hv action_bytes_def)
qed

section \<open>Typed views and addresses\<close>

lemma union_roundtrip:
  "create_try_from_union (create_to_union c) = Some c"
  "unbonding_try_from_union (unbonding_to_union b) = Some b"
  "retarget_try_from_union (retarget_to_union r) = Some r"
  "withdraw_try_from_union (withdraw_to_union w) = Some w"
  by (simp_all add: create_try_from_union_def create_to_union_def unbonding_try_from_union_def
      unbonding_to_union_def retarget_try_from_union_def retarget_to_union_def withdraw_try_from_union_def
      withdraw_to_union_def)

lemma union_view:
  "action_ok u \<Longrightarrow> create_try_from_union u = Some c \<Longrightarrow> create_to_union c = u"
  "action_ok u \<Longrightarrow> unbonding_try_from_union u = Some b \<Longrightarrow> unbonding_to_union b = u"
  "action_ok u \<Longrightarrow> retarget_try_from_union u = Some r \<Longrightarrow> retarget_to_union r = u"
  "action_ok u \<Longrightarrow> withdraw_try_from_union u = Some w \<Longrightarrow> withdraw_to_union w = u"
  by (auto simp: create_try_from_union_def create_to_union_def unbonding_try_from_union_def
      unbonding_to_union_def retarget_try_from_union_def retarget_to_union_def withdraw_try_from_union_def
      withdraw_to_union_def action_ok_def uses_defs StakingAction_default_def
      intro!: StakingAction.equality split: if_splits)

lemma all_u8: "(\<forall>b :: u8. P b) \<longleftrightarrow> (\<forall>n < 256. P (word_of_nat n))"
proof
  assume a: "\<forall>n < 256. P (word_of_nat n)"
  show "\<forall>b :: u8. P b"
  proof
    fix b :: u8
    have "unat b < 256" using unsigned_less [of b] by simp
    with a have "P (word_of_nat (unat b))" by blast
    then show "P b" by simp
  qed
qed simp

lemma hex_roundtrip:
  "hex_val (hex_digit (drop_bit 4 b)) \<noteq> 0xff" "hex_val (hex_digit (b AND 0xf)) \<noteq> 0xff"
  "push_bit 4 (hex_val (hex_digit (drop_bit 4 b))) OR hex_val (hex_digit (b AND 0xf)) = b"
proof -
  have "\<forall>n \<in> set [0..<256]. let b = word_of_nat n :: u8 in
      hex_val (hex_digit (drop_bit 4 b)) \<noteq> 0xff \<and> hex_val (hex_digit (b AND 0xf)) \<noteq> 0xff \<and>
      push_bit 4 (hex_val (hex_digit (drop_bit 4 b))) OR hex_val (hex_digit (b AND 0xf)) = b"
    by code_simp
  then have "\<forall>b :: u8. hex_val (hex_digit (drop_bit 4 b)) \<noteq> 0xff \<and> hex_val (hex_digit (b AND 0xf)) \<noteq> 0xff \<and>
      push_bit 4 (hex_val (hex_digit (drop_bit 4 b))) OR hex_val (hex_digit (b AND 0xf)) = b"
    unfolding all_u8 by (simp add: Let_def)
  then show "hex_val (hex_digit (drop_bit 4 b)) \<noteq> 0xff" "hex_val (hex_digit (b AND 0xf)) \<noteq> 0xff"
    "push_bit 4 (hex_val (hex_digit (drop_bit 4 b))) OR hex_val (hex_digit (b AND 0xf)) = b" by blast+
qed


lemma pairs_nth:
  "i < length xs \<Longrightarrow> concat (map (\<lambda>b. [g b, h b]) xs) ! (2 * i) = g (xs ! i) \<and>
     concat (map (\<lambda>b. [g b, h b]) xs) ! (2 * i + 1) = h (xs ! i)"
proof (induction xs arbitrary: i)
  case (Cons x xs)
  then show ?case by (cases i) simp_all
qed simp

lemma pairs_length: "length (concat (map (\<lambda>b. [g b, h b]) xs)) = 2 * length xs"
  by (induction xs) simp_all

lemma addr_loop_prefix:
  assumes "\<And>i. i < n \<Longrightarrow> addr_byte data i = Some (f i)" and "n \<le> 32" "length buf = 32"
  shows "addr_loop data [0..<n] buf = Some (take (32 - n) buf @ rev (map f [0..<n]))"
proof -
  have loop: "addr_loop data (is @ js) b = addr_loop data is b \<bind> addr_loop data js" for "is" js b
    by (induction "is" arbitrary: b) simp_all
  from assms(1,2) show ?thesis
  proof (induction n)
    case (Suc n)
    have "take (32 - n) buf = take (32 - Suc n) buf @ [buf ! (31 - n)]"
    proof -
      have "32 - n = Suc (31 - n)" using Suc.prems(2) by simp
      then show ?thesis using assms(3) take_Suc_conv_app_nth [of "31 - n" buf] by simp
    qed
    then have "(take (32 - n) buf @ rev (map f [0..<n]))[31 - n := f n] =
        take (32 - Suc n) buf @ rev (map f [0..<Suc n])"
      using Suc.prems(2) assms(3) by (simp add: list_update_append)
    with Suc show ?case by (simp add: loop)
  qed (use assms(3) in simp)
qed

lemma addr_roundtrip:
  assumes "length addr = 32"
  shows "\<exists>s. str_from_addr addr = Some s \<and> length s = 64 \<and> addr_from_str_bytes (s @ junk) = Some addr"
proof -
  define s where "s = concat (map (\<lambda>b. [hex_digit (drop_bit 4 b), hex_digit (b AND 0xf)]) (rev addr))"
  have len: "length s = 64" using assms pairs_length [of _ _ "rev addr"] by (simp add: s_def)
  have "addr_byte (s @ junk) i = Some (rev addr ! i)" if "i < 32" for i
  proof -
    have "(s @ junk) ! (2 * i) = hex_digit (drop_bit 4 (rev addr ! i))"
      "(s @ junk) ! (2 * i + 1) = hex_digit ((rev addr ! i) AND 0xf)"
      using that assms len pairs_nth [of i "rev addr" "\<lambda>b. hex_digit (drop_bit 4 b)" "\<lambda>b. hex_digit (b AND 0xf)"]
      by (simp_all add: s_def nth_append)
    then show ?thesis
      using that len hex_roundtrip [of "rev addr ! i"] by (simp add: addr_byte_def index_def Let_def)
  qed
  then have "addr_from_str_bytes (s @ junk) = Some (rev (map (\<lambda>i. rev addr ! i) [0..<32]))"
    using addr_loop_prefix [of 32 "s @ junk" "\<lambda>i. rev addr ! i" "replicate 32 0"]
    by (simp add: addr_from_str_bytes_def)
  moreover have "map (\<lambda>i. rev addr ! i) [0..<32] = rev addr" using assms by (metis length_rev map_nth)
  ultimately show ?thesis using assms len by (auto simp: str_from_addr_def s_def)
qed

section \<open>Value balance and checks\<close>

lemma amount_new_zats:
  "amount_new (sint (z :: u64)) = (if uint z \<le> MAX_MONEY then Some (uint z) else None)"
proof -
  have z: "0 \<le> uint z" "uint z < 2 ^ 64" using unsigned_less [of z] by simp_all
  have s: "sint z = take_bit 64 (uint z + 2 ^ 63) - 2 ^ 63"
    by (simp add: sint_uint signed_take_bit_eq_take_bit_shift)
  show ?thesis
  proof (cases "uint z < 2 ^ 63")
    case True
    then have "take_bit 64 (uint z + 2 ^ 63) = uint z + 2 ^ 63" using z by (simp add: take_bit_int_eq_self)
    with s z show ?thesis by (simp add: amount_new_def rassert_def)
  next
    case False
    have "take_bit 64 (uint z + 2 ^ 63) = take_bit 64 (uint z + 2 ^ 63 - 2 ^ 64)"
      by (simp only: take_bit_eq_mod minus_mod_self2)
    also have "\<dots> = uint z + 2 ^ 63 - 2 ^ 64" using False z by (intro take_bit_int_eq_self) simp_all
    finally have "sint z < 0" using s z by simp
    then show ?thesis using False by (simp add: amount_new_def rassert_def MAX_MONEY_val)
  qed
qed

text \<open>a new bond takes its amount out of the transaction into the bonded pool and a withdrawal brings
  its amount from the unbonded pool into it; the other actions move no value. An action whose amount
  exceeds \<^verbatim>\<open>MAX_MONEY\<close> is not refused here: computing its balance panics.\<close>

theorem staking_balance_spec:
  "staking_action_value_balance (Some a) =
     (if sa_kind a = CreateNewDelegationBond \<or> sa_kind a = WithdrawDelegationBond
      then (if MAX_MONEY < uint (amount_zats a) then None
            else if sa_kind a = CreateNewDelegationBond
            then Some (from_staking_bonded_amount (- uint (amount_zats a)))
            else Some (from_staking_unbonded_amount (uint (amount_zats a))))
      else Some vb_zero)"
proof -
  have ok: "amount_ok NonNegative (uint (amount_zats a))" if "uint (amount_zats a) \<le> MAX_MONEY"
    using that by (simp add: amount_ok_simps)
  then have "amount_ok NegativeAllowed (uint (amount_zats a))" if "uint (amount_zats a) \<le> MAX_MONEY"
    using that order_trans [of "- MAX_MONEY" 0 "uint (amount_zats a)"] by (simp add: amount_ok_simps MAX_MONEY_val)
  with ok show ?thesis
    by (auto simp: staking_action_value_balance_def amount_new_zats amount_neg_eq constrain_def validate_eq)
qed

lemma delay_met:
  fixes last :: u32
  shows "(do { earliest \<leftarrow> checked_add last 75; if height < earliest then err e else ok () }) = ok () \<longleftrightarrow>
    unat last + 75 \<le> unat height"
proof (cases "checked_add last 75")
  case None
  then have "2 ^ 32 \<le> unat last + 75" by (simp add: checked_add_def split: if_splits)
  moreover have "unat height < 2 ^ 32" using unsigned_less [of height] by simp
  ultimately show ?thesis using None by simp
next
  case (Some v)
  from checked_add_unat [OF Some] show ?thesis by (auto simp: Some word_less_nat_alt)
qed

text \<open>when staking actions are allowed: a retarget at any height, every other action only in the first
  70 of each 150 blocks, and unbonding or withdrawing only a bond the state knows whose last action is
  at least 75 blocks back.\<close>

theorem staking_schedule:
  "(check_staking_day_window (Some a) height = ok () \<longleftrightarrow>
      sa_kind a = RetargetDelegationBond \<or> unat height mod 150 < 70) \<and>
   (check_staking_action_delay query (Some a) height = ok () \<longleftrightarrow>
      (sa_kind a \<noteq> BeginDelegationUnbonding \<and> sa_kind a \<noteq> WithdrawDelegationBond) \<or>
      (\<exists>info. query (arg32_0 a) = Inr (Some info) \<and> unat (last_action_height info) + 75 \<le> unat height))"
proof
  show "check_staking_day_window (Some a) height = ok () \<longleftrightarrow>
      sa_kind a = RetargetDelegationBond \<or> unat height mod 150 < 70"
    by (auto simp: check_staking_day_window_def STAKING_DAY_PERIOD_def STAKING_DAY_WINDOW_def Let_def
        word_le_nat_alt unat_mod)
  show "check_staking_action_delay query (Some a) height = ok () \<longleftrightarrow>
      (sa_kind a \<noteq> BeginDelegationUnbonding \<and> sa_kind a \<noteq> WithdrawDelegationBond) \<or>
      (\<exists>info. query (arg32_0 a) = Inr (Some info) \<and> unat (last_action_height info) + 75 \<le> unat height)"
  proof (cases "sa_kind a \<noteq> BeginDelegationUnbonding \<and> sa_kind a \<noteq> WithdrawDelegationBond")
    case False
    then have "sa_kind a = BeginDelegationUnbonding \<or> sa_kind a = WithdrawDelegationBond" by simp
    then have e: "check_staking_action_delay query (Some a) height = (case query (arg32_0 a) of
        Inl _ \<Rightarrow> err QueryFailed | Inr None \<Rightarrow> err (StakingActionBondNotFound (arg32_0 a))
      | Inr (Some info) \<Rightarrow> do { earliest \<leftarrow> checked_add (last_action_height info) 75;
          if height < earliest then err (StakingActionDelayNotMet (arg32_0 a) (last_action_height info) height 75)
          else ok () })"
      unfolding check_staking_action_delay_def STAKING_ACTION_DELAY_BLOCKS_def Let_def by (elim disjE; simp)
    show ?thesis
    proof (cases "query (arg32_0 a)")
      case (Inr i)
      with False show ?thesis unfolding e by (cases i) (auto simp: delay_met)
    qed (use False in \<open>auto simp: e\<close>)
  qed (simp add: check_staking_action_delay_def)
qed

theorem staking_action_encoding_witness:
  "StakingAction_read (the (StakingAction_write (Some (retarget_to_union \<lparr>rt_unique_pubkey = replicate 32 1,
     rt_challenge = replicate 32 2, rt_signature = replicate 64 3, rt_target_finalizer = replicate 32 4\<rparr>)))) =
   Some (Some (retarget_to_union \<lparr>rt_unique_pubkey = replicate 32 1,
     rt_challenge = replicate 32 2, rt_signature = replicate 64 3, rt_target_finalizer = replicate 32 4\<rparr>), [])"
proof -
  let ?a = "Some (retarget_to_union \<lparr>rt_unique_pubkey = replicate 32 1,
     rt_challenge = replicate 32 2, rt_signature = replicate 64 3, rt_target_finalizer = replicate 32 4\<rparr>)"
  have "pred_option action_ok ?a"
    by (simp add: action_ok_def retarget_to_union_def StakingAction_default_def uses_defs)
  then show ?thesis
    using staking_action_encoding [of "the (StakingAction_write ?a)" ?a "[]"] action_write_total [of ?a] by simp
qed

end
