(* ===== verification/Difficulty.thy ===== *)
theory Difficulty
  imports Rust_Base "HOL-Library.Signed_Division"
begin

text \<open>
  Proof-of-work difficulty: the compact and expanded thresholds and block work of
  \<^verbatim>\<open>zebra-chain/src/work/difficulty.rs\<close>, the block spacing of
  \<^verbatim>\<open>zebra-chain/src/parameters/network_upgrade.rs\<close> and the difficulty adjustment of
  \<^verbatim>\<open>zebra-state/src/service/check/difficulty.rs\<close>.

  A \<^verbatim>\<open>U256\<close> and a \<^verbatim>\<open>u128\<close> are natural numbers; as documented for the \<^verbatim>\<open>uint\<close> crate, an arithmetic
  overflow, a division by zero and a conversion from a negative number panic. Times and durations are
  seconds: header times have no fraction.
\<close>

section \<open>Definitions\<close>

subsection \<open>Arithmetic of U256\<close>

definition u256_add :: "nat \<Rightarrow> nat \<Rightarrow> nat rust" where
  "u256_add a b = do { rassert (a + b < 2 ^ 256); Some (a + b) }"

definition u256_mul :: "nat \<Rightarrow> nat \<Rightarrow> nat rust" where
  "u256_mul a b = do { rassert (a * b < 2 ^ 256); Some (a * b) }"

definition u256_div :: "nat \<Rightarrow> nat \<Rightarrow> nat rust" where
  "u256_div a b = do { rassert (b \<noteq> 0); Some (a div b) }"

definition u256_pow :: "nat \<Rightarrow> nat \<Rightarrow> nat rust" where
  "u256_pow a n = do { rassert (a ^ n < 2 ^ 256); Some (a ^ n) }"

definition u256_not :: "nat \<Rightarrow> nat" where "u256_not a = 2 ^ 256 - 1 - a"

definition u256_from_int :: "int \<Rightarrow> nat rust" where
  "u256_from_int i = do { rassert (0 \<le> i); Some (nat i) }"

text \<open>\<^verbatim>\<open>U256::bits\<close>: the number of significant bits.\<close>

fun nat_bits :: "nat \<Rightarrow> nat" where
  "nat_bits n = (if n = 0 then 0 else Suc (nat_bits (n div 2)))"

declare nat_bits.simps [simp del]

subsection \<open>Compact and expanded difficulty\<close>

definition PRECISION :: nat where "PRECISION = 24"
definition OFFSET :: int where "OFFSET = 3"
definition SIGN_BIT :: u32 where "SIGN_BIT = push_bit (PRECISION - 1) 1"
definition UNSIGNED_MANTISSA_MASK :: u32 where "UNSIGNED_MANTISSA_MASK = SIGN_BIT - 1"

definition normalise :: "u32 \<Rightarrow> int \<Rightarrow> (u32 \<times> int) option" where
  "normalise m e =
     (if e \<ge> 32 then None
      else if e = 31 \<and> m > 255 then None
      else if e = 31 \<and> m \<le> 255 then Some (push_bit 16 m, e - 2)
      else if e = 30 \<and> m > 65535 then None
      else if e = 30 \<and> m \<le> 65535 then Some (push_bit 8 m, e - 1)
      else if e < 0 then Some (drop_bit (nat (\<bar>e\<bar> * 8)) m, 0)
      else Some (m, e))"

definition to_expanded :: "u32 \<Rightarrow> nat option rust" where
  "to_expanded c =
     (if c AND SIGN_BIT = SIGN_BIT then Some None
      else do {
        let mantissa = c AND UNSIGNED_MANTISSA_MASK;
        let exponent = int (unat (drop_bit PRECISION c)) - OFFSET;
        case normalise mantissa exponent of
          None \<Rightarrow> Some None
        | Some (mantissa, exponent) \<Rightarrow> do {
            exponent \<leftarrow> u256_from_int exponent;
            p \<leftarrow> u256_pow 256 exponent;
            result \<leftarrow> u256_mul (unat mantissa) p;
            Some (if result = 0 then None else Some result) } })"

definition to_compact :: "nat \<Rightarrow> u32 rust" where
  "to_compact e = do {
     rassert (e > 0);
     let size = nat_bits e div 8 + 1;
     mantissa \<leftarrow> (if e \<le> unat UNSIGNED_MANTISSA_MASK
       then do { k \<leftarrow> usize_sub 3 size; Some (e * 2 ^ (8 * k) mod 2 ^ 256) }
       else do { k \<leftarrow> usize_sub size 3; Some (e div 2 ^ (8 * k)) });
     rassert (int size < 31 + OFFSET);
     rassert (mantissa \<le> unat UNSIGNED_MANTISSA_MASK);
     if mantissa > 0 then checked_add (word_of_nat mantissa) (push_bit 24 (word_of_nat size)) else None }"

definition work_try_from :: "nat \<Rightarrow> nat option rust" where
  "work_try_from expanded = do {
     d \<leftarrow> u256_add expanded 1;
     q \<leftarrow> u256_div (u256_not expanded) d;
     result \<leftarrow> u256_add q 1;
     Some (if result \<le> 2 ^ 128 - 1 then Some result else None) }"

definition to_work :: "u32 \<Rightarrow> nat option rust" where
  "to_work c = do {
     expanded \<leftarrow> to_expanded c;
     case expanded of None \<Rightarrow> Some None | Some e \<Rightarrow> work_try_from e }"

definition from_hash :: "bytes \<Rightarrow> nat" where "from_hash hash = le_val hash"

text \<open>\<^verbatim>\<open>PartialCumulativeWork\<close>: checked 128-bit addition and subtraction.\<close>

definition work_add :: "nat \<Rightarrow> nat \<Rightarrow> nat rust" where
  "work_add w rhs = do { rassert (w + rhs < 2 ^ 128); Some (w + rhs) }"

definition work_sub :: "nat \<Rightarrow> nat \<Rightarrow> nat rust" where
  "work_sub w rhs = do { rassert (rhs \<le> w); Some (w - rhs) }"

subsection \<open>Network parameters\<close>

datatype NetworkUpgrade = Genesis | BeforeOverwinter | Overwinter | SaplingUpgrade | Blossom | Heartwood
  | Canopy | Nu5 | Nu6 | Nu6_1 | Nu7

text \<open>The activation heights are a \<^verbatim>\<open>BTreeMap\<close>: a list in ascending height order.\<close>

record testnet_parameters =
  activation_heights :: "(u32 \<times> NetworkUpgrade) list"
  testnet_target_difficulty_limit :: nat
  testnet_allow_unshielded_coinbase_spends :: bool

datatype Network = Mainnet | Testnet testnet_parameters

fun is_a_test_network :: "Network \<Rightarrow> bool" where
  "is_a_test_network Mainnet = False" | "is_a_test_network (Testnet _) = True"

definition MAINNET_ACTIVATION_HEIGHTS :: "(u32 \<times> NetworkUpgrade) list" where
  "MAINNET_ACTIVATION_HEIGHTS = [(0, Genesis), (1, BeforeOverwinter), (347500, Overwinter),
     (419200, SaplingUpgrade), (653600, Blossom), (903000, Heartwood), (1046400, Canopy),
     (1687104, Nu5), (2726400, Nu6)]"

definition TESTNET_ACTIVATION_HEIGHTS :: "(u32 \<times> NetworkUpgrade) list" where
  "TESTNET_ACTIVATION_HEIGHTS = [(0, Genesis), (1, Nu6)]"

fun activation_list :: "Network \<Rightarrow> (u32 \<times> NetworkUpgrade) list" where
  "activation_list Mainnet = MAINNET_ACTIVATION_HEIGHTS"
| "activation_list (Testnet params) = activation_heights params"

definition NETWORK_UPGRADES_IN_ORDER :: "NetworkUpgrade list" where
  "NETWORK_UPGRADES_IN_ORDER = [Genesis, BeforeOverwinter, Overwinter, SaplingUpgrade, Blossom,
     Heartwood, Canopy, Nu5, Nu6, Nu6_1]"

definition next_upgrade :: "NetworkUpgrade \<Rightarrow> NetworkUpgrade option" where
  "next_upgrade nu =
     (case dropWhile (\<lambda>n. nu \<noteq> n) NETWORK_UPGRADES_IN_ORDER of _ # n # _ \<Rightarrow> Some n | _ \<Rightarrow> None)"

function activation_height :: "NetworkUpgrade \<Rightarrow> Network \<Rightarrow> u32 option" where
  "activation_height nu network =
     (case find (\<lambda>(h, n). n = nu) (activation_list network) of
        Some (height, _) \<Rightarrow> Some height
      | None \<Rightarrow>
          (case next_upgrade nu of None \<Rightarrow> None | Some next_nu \<Rightarrow> activation_height next_nu network))"
  by pat_completeness auto

termination
  by (relation "measure (\<lambda>(nu, _). length (dropWhile (\<lambda>n. nu \<noteq> n) NETWORK_UPGRADES_IN_ORDER))")
    (auto simp: next_upgrade_def NETWORK_UPGRADES_IN_ORDER_def split: if_splits)

declare activation_height.simps [simp del]

definition current_upgrade :: "Network \<Rightarrow> u32 \<Rightarrow> NetworkUpgrade rust" where
  "current_upgrade network height =
     (case rev (filter (\<lambda>(h, nu). h \<le> height) (activation_list network)) of
        [] \<Rightarrow> None | (h, nu) # _ \<Rightarrow> Some nu)"

definition PRE_BLOSSOM_POW_TARGET_SPACING :: int where "PRE_BLOSSOM_POW_TARGET_SPACING = 150"
definition POST_BLOSSOM_POW_TARGET_SPACING :: int where "POST_BLOSSOM_POW_TARGET_SPACING = 25"
definition POW_AVERAGING_WINDOW :: nat where "POW_AVERAGING_WINDOW = 17"
definition TESTNET_MINIMUM_DIFFICULTY_GAP_MULTIPLIER :: int where
  "TESTNET_MINIMUM_DIFFICULTY_GAP_MULTIPLIER = 6"
definition TESTNET_MINIMUM_DIFFICULTY_START_HEIGHT :: u32 where
  "TESTNET_MINIMUM_DIFFICULTY_START_HEIGHT = 299188"

definition target_spacing :: "NetworkUpgrade \<Rightarrow> int" where
  "target_spacing nu = (case nu of
       Genesis \<Rightarrow> PRE_BLOSSOM_POW_TARGET_SPACING
     | BeforeOverwinter \<Rightarrow> PRE_BLOSSOM_POW_TARGET_SPACING
     | Overwinter \<Rightarrow> PRE_BLOSSOM_POW_TARGET_SPACING
     | SaplingUpgrade \<Rightarrow> PRE_BLOSSOM_POW_TARGET_SPACING
     | _ \<Rightarrow> POST_BLOSSOM_POW_TARGET_SPACING)"

definition minimum_difficulty_spacing_for_height :: "Network \<Rightarrow> u32 \<Rightarrow> int option rust" where
  "minimum_difficulty_spacing_for_height network height = (case network of
       Testnet _ \<Rightarrow>
         if height < TESTNET_MINIMUM_DIFFICULTY_START_HEIGHT then Some None
         else do {
           network_upgrade \<leftarrow> current_upgrade network height;
           Some (Some (target_spacing network_upgrade * TESTNET_MINIMUM_DIFFICULTY_GAP_MULTIPLIER)) }
     | Mainnet \<Rightarrow> Some None)"

definition is_testnet_min_difficulty_block :: "Network \<Rightarrow> u32 \<Rightarrow> int \<Rightarrow> int \<Rightarrow> bool rust" where
  "is_testnet_min_difficulty_block network block_height block_time previous_block_time = do {
     let block_time_gap = block_time - previous_block_time;
     gap \<leftarrow> minimum_difficulty_spacing_for_height network block_height;
     Some (case gap of Some min_difficulty_gap \<Rightarrow> block_time_gap > min_difficulty_gap | None \<Rightarrow> False) }"

definition averaging_window_timespan :: "NetworkUpgrade \<Rightarrow> int" where
  "averaging_window_timespan nu = target_spacing nu * int POW_AVERAGING_WINDOW"

definition averaging_window_timespan_for_height :: "Network \<Rightarrow> u32 \<Rightarrow> int rust" where
  "averaging_window_timespan_for_height network height = do {
     nu \<leftarrow> current_upgrade network height;
     Some (averaging_window_timespan nu) }"

definition target_difficulty_limit :: "Network \<Rightarrow> nat rust" where
  "target_difficulty_limit network = (case network of
       Mainnet \<Rightarrow> do {
         c \<leftarrow> to_compact (2 ^ 243 - 1);
         e \<leftarrow> to_expanded c;
         e }
     | Testnet params \<Rightarrow> Some (testnet_target_difficulty_limit params))"

subsection \<open>Difficulty adjustment\<close>

definition POW_MEDIAN_BLOCK_SPAN :: nat where "POW_MEDIAN_BLOCK_SPAN = 11"
definition POW_ADJUSTMENT_BLOCK_SPAN :: nat where
  "POW_ADJUSTMENT_BLOCK_SPAN = POW_AVERAGING_WINDOW + POW_MEDIAN_BLOCK_SPAN"
definition POW_DAMPING_FACTOR :: int where "POW_DAMPING_FACTOR = 4"
definition POW_MAX_ADJUST_UP_PERCENT :: int where "POW_MAX_ADJUST_UP_PERCENT = 16"
definition POW_MAX_ADJUST_DOWN_PERCENT :: int where "POW_MAX_ADJUST_DOWN_PERCENT = 32"

record AdjustedDifficulty =
  candidate_time :: int
  candidate_height :: u32
  ad_network :: Network
  relevant_difficulty_thresholds :: "u32 list"
  relevant_times :: "int list"

definition HEIGHT_MAX :: nat where "HEIGHT_MAX = 2 ^ 31 - 1"

text \<open>\<^verbatim>\<open>Height + 1\<close> fails above \<^verbatim>\<open>Height::MAX\<close>.\<close>

definition new_from_header_time ::
  "int \<Rightarrow> u32 \<Rightarrow> Network \<Rightarrow> (u32 \<times> int) list \<Rightarrow> AdjustedDifficulty rust" where
  "new_from_header_time candidate_header_time previous_block_height network context = do {
     rassert (unat previous_block_height + 1 \<le> HEIGHT_MAX);
     let relevant = take POW_ADJUSTMENT_BLOCK_SPAN context;
     Some \<lparr>candidate_time = candidate_header_time, candidate_height = previous_block_height + 1,
       ad_network = network, relevant_difficulty_thresholds = map fst relevant,
       relevant_times = map snd relevant\<rparr> }"

definition new_from_block ::
  "u32 option \<Rightarrow> int \<Rightarrow> Network \<Rightarrow> (u32 \<times> int) list \<Rightarrow> AdjustedDifficulty rust" where
  "new_from_block coinbase_height header_time network context = do {
     candidate_block_height \<leftarrow> coinbase_height;
     rassert (candidate_block_height \<ge> 1);
     new_from_header_time header_time (candidate_block_height - 1) network context }"

definition median_time :: "int list \<Rightarrow> int rust" where
  "median_time median_block_span_times =
     index (sort median_block_span_times) (length median_block_span_times div 2)"

definition median_time_past :: "AdjustedDifficulty \<Rightarrow> int rust" where
  "median_time_past a = median_time (take POW_MEDIAN_BLOCK_SPAN (relevant_times a))"

definition median_timespan :: "AdjustedDifficulty \<Rightarrow> int rust" where
  "median_timespan a = do {
     newer_median \<leftarrow> median_time_past a;
     older_median \<leftarrow> (if length (relevant_times a) > POW_AVERAGING_WINDOW
       then median_time (take POW_MEDIAN_BLOCK_SPAN (drop POW_AVERAGING_WINDOW (relevant_times a)))
       else do { rassert (relevant_times a \<noteq> []); Some (last (relevant_times a)) });
     Some (newer_median - older_median) }"

definition median_timespan_bounded :: "AdjustedDifficulty \<Rightarrow> int rust" where
  "median_timespan_bounded a = do {
     averaging_window_timespan \<leftarrow> averaging_window_timespan_for_height (ad_network a) (candidate_height a);
     median_timespan \<leftarrow> median_timespan a;
     let damped_variance = (median_timespan - averaging_window_timespan) sdiv POW_DAMPING_FACTOR;
     let median_timespan_damped = averaging_window_timespan + damped_variance;
     let min_median_timespan = averaging_window_timespan * (100 - POW_MAX_ADJUST_UP_PERCENT) div 100;
     let max_median_timespan = averaging_window_timespan * (100 + POW_MAX_ADJUST_DOWN_PERCENT) div 100;
     Some (max min_median_timespan (min max_median_timespan median_timespan_damped)) }"

fun sum_expanded :: "nat \<Rightarrow> u32 list \<Rightarrow> nat rust" where
  "sum_expanded acc [] = Some acc"
| "sum_expanded acc (compact # cs) = do {
     expanded \<leftarrow> to_expanded compact;
     e \<leftarrow> expanded;
     acc \<leftarrow> u256_add acc e;
     sum_expanded acc cs }"

definition mean_target_difficulty :: "AdjustedDifficulty \<Rightarrow> nat rust" where
  "mean_target_difficulty a =
     (if length (relevant_difficulty_thresholds a) \<ge> POW_AVERAGING_WINDOW then do {
        total \<leftarrow> sum_expanded 0 (take POW_AVERAGING_WINDOW (relevant_difficulty_thresholds a));
        u256_div total POW_AVERAGING_WINDOW }
      else target_difficulty_limit (ad_network a))"

definition threshold_bits :: "AdjustedDifficulty \<Rightarrow> u32 rust" where
  "threshold_bits a = do {
     averaging_window_timespan \<leftarrow> averaging_window_timespan_for_height (ad_network a) (candidate_height a);
     mean \<leftarrow> mean_target_difficulty a;
     d \<leftarrow> u256_from_int averaging_window_timespan;
     q \<leftarrow> u256_div mean d;
     bounded \<leftarrow> median_timespan_bounded a;
     m \<leftarrow> u256_from_int bounded;
     threshold \<leftarrow> u256_mul q m;
     limit \<leftarrow> target_difficulty_limit (ad_network a);
     to_compact (min limit threshold) }"

definition expected_difficulty_threshold :: "AdjustedDifficulty \<Rightarrow> u32 rust" where
  "expected_difficulty_threshold a = do {
     previous_time \<leftarrow> index (relevant_times a) 0;
     minimum \<leftarrow> is_testnet_min_difficulty_block (ad_network a) (candidate_height a) (candidate_time a)
       previous_time;
     if minimum then do {
       rassert (is_a_test_network (ad_network a));
       limit \<leftarrow> target_difficulty_limit (ad_network a);
       to_compact limit }
     else threshold_bits a }"

section \<open>Expanded thresholds\<close>

lemma nat_bits_le: "nat_bits n \<le> k \<longleftrightarrow> n < 2 ^ k"
proof (induction n arbitrary: k rule: nat_bits.induct)
  case (1 n)
  show ?case
  proof (cases "n = 0")
    case True
    then show ?thesis by (simp add: nat_bits.simps)
  next
    case n: False
    show ?thesis
    proof (cases k)
      case 0
      with n show ?thesis by (simp add: nat_bits.simps [of n])
    next
      case (Suc j)
      have "n div 2 < 2 ^ j \<longleftrightarrow> n < 2 ^ Suc j" by (simp add: div_less_iff_less_mult mult.commute)
      with 1 [OF n, of j] n Suc show ?thesis by (simp add: nat_bits.simps [of n])
    qed
  qed
qed

lemma nat_bits_pos: "0 < n \<Longrightarrow> 0 < nat_bits n"
  by (simp add: nat_bits.simps)

lemma nat_bits_lower: "0 < n \<Longrightarrow> 2 ^ (nat_bits n - 1) \<le> n"
  using nat_bits_le [of n "nat_bits n - 1"] nat_bits_pos [of n] by linarith

lemma nat_bits_upper: "n < 2 ^ nat_bits n"
  using nat_bits_le [of n "nat_bits n"] by simp

lemma nat_bits_unique: "2 ^ k \<le> n \<Longrightarrow> n < 2 ^ Suc k \<Longrightarrow> nat_bits n = Suc k"
  using nat_bits_le [of n k] nat_bits_le [of n "Suc k"] by simp

lemma mantissa_mask: "UNSIGNED_MANTISSA_MASK = mask 23" "unat UNSIGNED_MANTISSA_MASK = 2 ^ 23 - 1"
  "SIGN_BIT = 2 ^ 23"
  by (simp_all add: UNSIGNED_MANTISSA_MASK_def SIGN_BIT_def PRECISION_def mask_eq_exp_minus_1)

lemma and_exp_same:
  assumes "k < 32"
  shows "(c :: u32) AND 2 ^ k = 2 ^ k \<longleftrightarrow> bit c k"
proof
  assume "c AND 2 ^ k = 2 ^ k"
  then have "bit (c AND 2 ^ k) k = bit (2 ^ k :: u32) k" by (rule arg_cong)
  with assms show "bit c k" by (simp add: bit_and_iff bit_exp_iff)
next
  assume "bit c k"
  then show "c AND 2 ^ k = 2 ^ k" by (intro bit_word_eqI) (auto simp: bit_and_iff bit_exp_iff)
qed

lemma sign_bit: "c AND SIGN_BIT = SIGN_BIT \<longleftrightarrow> odd (unat c div 2 ^ 23)"
proof -
  have "c AND SIGN_BIT = SIGN_BIT \<longleftrightarrow> bit (unat c) 23"
    using and_exp_same [of 23 c] by (simp add: mantissa_mask bit_unsigned_iff)
  also have "\<dots> \<longleftrightarrow> odd (unat c div 2 ^ 23)" by (rule bit_iff_odd)
  finally show ?thesis .
qed

definition compact_value :: "nat \<Rightarrow> nat \<Rightarrow> nat" where
  "compact_value m s = (if 3 \<le> s then m * 256 ^ (s - 3) else m div 256 ^ (3 - s))"


lemma u256_scale:
  assumes "e \<le> 29" "unat w < 2 ^ 24"
  shows "do { exponent \<leftarrow> u256_from_int (int e); p \<leftarrow> u256_pow 256 exponent; result \<leftarrow> u256_mul (unat w) p;
      Some (if result = 0 then None else Some result) } =
    Some (if unat w * 256 ^ e = 0 then None else Some (unat w * 256 ^ e))"
proof -
  have "256 ^ e \<le> (256 ^ 29 :: nat)" using assms(1) by (intro power_increasing) simp_all
  then have "unat w * 256 ^ e < 2 ^ 24 * 256 ^ 29"
    using assms(2) by (intro mult_less_le_imp_less) simp_all
  then have "unat w * 256 ^ e < 2 ^ 256" by simp
  moreover have "256 ^ e < (2 ^ 256 :: nat)" using \<open>256 ^ e \<le> 256 ^ 29\<close> by simp
  ultimately show ?thesis by (simp add: u256_from_int_def u256_pow_def u256_mul_def)
qed

lemma compact_value_less:
  assumes "m < 2 ^ 23" "s \<le> 32"
  shows "compact_value m s < 2 ^ 256"
proof (cases "3 \<le> s")
  case True
  have "256 ^ (s - 3) \<le> (256 ^ 29 :: nat)" using assms(2) by (intro power_increasing) simp_all
  then have "m * 256 ^ (s - 3) < 2 ^ 23 * 256 ^ 29"
    using assms(1) by (intro mult_less_le_imp_less) simp_all
  also have "\<dots> < (2 ^ 256 :: nat)" by simp
  finally show ?thesis using True by (simp add: compact_value_def)
next
  case False
  have "m div 256 ^ (3 - s) \<le> m" by (rule div_le_dividend)
  also have "\<dots> < 2 ^ 256" using assms(1) by simp
  finally show ?thesis using False by (simp add: compact_value_def)
qed

lemma unat_push_bit_less: "unat (w :: u32) * 2 ^ k < 2 ^ 32 \<Longrightarrow> unat (push_bit k w) = unat w * 2 ^ k"
  by (subst unsigned_push_bit_eq) (simp add: take_bit_eq_mod push_bit_eq_mult [of k "unat w"])


lemma normalise_value:
  fixes w :: u32 and s :: nat
  assumes m: "unat w < 2 ^ 23"
  defines "v \<equiv> compact_value (unat w) s"
  shows "(case normalise w (int s - 3) of None \<Rightarrow> Some None
    | Some (mantissa, exponent) \<Rightarrow> do {
        exponent \<leftarrow> u256_from_int exponent;
        p \<leftarrow> u256_pow 256 exponent;
        result \<leftarrow> u256_mul (unat mantissa) p;
        Some (if result = 0 then None else Some result) }) =
    Some (if v = 0 \<or> 2 ^ 256 \<le> v then None else Some v)"
    (is "(case ?n of None \<Rightarrow> _ | Some (a, b) \<Rightarrow> ?f a b) = ?rhs")
proof -
  consider "35 \<le> s" | "s = 34" | "s = 33" | "3 \<le> s" "s \<le> 32" | "s < 3" by linarith
  then show ?thesis
  proof cases
    case 1
    have "(2 ^ 256 :: nat) = 256 ^ 32" by simp
    also have "\<dots> \<le> 256 ^ (s - 3)" using 1 by (intro power_increasing) simp_all
    finally have p: "(2 ^ 256 :: nat) \<le> 256 ^ (s - 3)" .
    have "v = 0 \<or> 2 ^ 256 \<le> v"
    proof (cases "unat w = 0")
      case False
      then have "1 * 256 ^ (s - 3) \<le> unat w * 256 ^ (s - 3)" by (intro mult_right_mono) simp_all
      with p have "2 ^ 256 \<le> unat w * 256 ^ (s - 3)" by linarith
      with 1 show ?thesis by (simp add: v_def compact_value_def)
    qed (simp add: v_def compact_value_def)
    with 1 show ?thesis by (simp add: normalise_def)
  next
    case 2
    have v: "v = unat w * 256 ^ 31" using 2 by (simp add: v_def compact_value_def)
    show ?thesis
    proof (cases "w \<le> 255")
      case True
      then have w: "unat w \<le> 255" by (simp add: word_le_nat_alt)
      have p: "unat (push_bit 16 w) = unat w * 2 ^ 16" using w by (intro unat_push_bit_less) simp
      have n: "?n = Some (push_bit 16 w, int 29)" using 2 True by (simp add: normalise_def)
      have "unat (push_bit 16 w) * 256 ^ 29 = v" by (simp add: p v)
      moreover have "v < 2 ^ 256" using w by (simp add: v)
      ultimately show ?thesis
        unfolding n using u256_scale [of 29 "push_bit 16 w"] w p by simp
    next
      case False
      then have w: "256 \<le> unat w" by (simp add: word_le_nat_alt)
      have "?n = None" using 2 False by (simp add: normalise_def not_le)
      moreover have "2 ^ 256 \<le> v" using w by (simp add: v)
      ultimately show ?thesis by simp
    qed
  next
    case 3
    have v: "v = unat w * 256 ^ 30" using 3 by (simp add: v_def compact_value_def)
    show ?thesis
    proof (cases "w \<le> 65535")
      case True
      then have w: "unat w \<le> 65535" by (simp add: word_le_nat_alt)
      have p: "unat (push_bit 8 w) = unat w * 2 ^ 8" using w by (intro unat_push_bit_less) simp
      have n: "?n = Some (push_bit 8 w, int 29)" using 3 True by (simp add: normalise_def)
      have "unat (push_bit 8 w) * 256 ^ 29 = v" by (simp add: p v)
      moreover have "v < 2 ^ 256" using w by (simp add: v)
      ultimately show ?thesis
        unfolding n using u256_scale [of 29 "push_bit 8 w"] w p by simp
    next
      case False
      then have w: "65536 \<le> unat w" by (simp add: word_le_nat_alt)
      have "?n = None" using 3 False by (simp add: normalise_def not_le)
      moreover have "2 ^ 256 \<le> v" using w by (simp add: v)
      ultimately show ?thesis by simp
    qed
  next
    case 4
    have n: "?n = Some (w, int (s - 3))" using 4 by (simp add: normalise_def of_nat_diff)
    have v: "v = unat w * 256 ^ (s - 3)" using 4 by (simp add: v_def compact_value_def)
    have "v < 2 ^ 256" using compact_value_less [OF m] 4 by (simp add: v_def)
    moreover have "unat w < 2 ^ 24" using m by simp
    ultimately show ?thesis
      unfolding n using u256_scale [of "s - 3" w] 4 by (simp add: v)
  next
    case 5
    have "s = 0 \<or> s = 1 \<or> s = 2" using 5 by linarith
    then have "nat (\<bar>int s - 3\<bar> * 8) = 8 * (3 - s)" by auto
    then have n: "?n = Some (drop_bit (8 * (3 - s)) w, int 0)" using 5 by (simp add: normalise_def)
    have "256 ^ (3 - s) = (2 :: nat) ^ (8 * (3 - s))" by (simp add: power_mult)
    then have u: "unat (drop_bit (8 * (3 - s)) w) = v"
      using 5 by (simp add: v_def compact_value_def unat_drop_bit_eq drop_bit_eq_div [of _ "unat w"]
          del: drop_bit_eq_div)
    have "v \<le> unat w" using 5 by (simp add: v_def compact_value_def)
    moreover have "v < 2 ^ 256" using compact_value_less [OF m, of s] 5 by (simp add: v_def)
    ultimately show ?thesis
      unfolding n using u256_scale [of 0 "drop_bit (8 * (3 - s)) w"] m u by simp
  qed
qed


text \<open>\<^verbatim>\<open>ToTarget\<close> of the protocol specification, with the values that are rejected.\<close>

definition expanded_of :: "nat \<Rightarrow> nat option" where
  "expanded_of x = (let v = compact_value (x mod 2 ^ 23) (x div 2 ^ 24) in
     if odd (x div 2 ^ 23) \<or> v = 0 \<or> 2 ^ 256 \<le> v then None else Some v)"

lemma to_expanded_eq: "to_expanded c = Some (expanded_of (unat c))"
proof -
  have "unat (c AND UNSIGNED_MANTISSA_MASK) = unat c mod 2 ^ 23"
    unfolding mantissa_mask take_bit_eq_mask [symmetric]
    by (subst unsigned_take_bit_eq) (simp add: take_bit_eq_mod [of 23 "unat c"])
  moreover have "unat (drop_bit 24 c) = unat c div 2 ^ 24"
    by (simp add: drop_bit_eq_div unat_div_distrib)
  ultimately show ?thesis
    using normalise_value [of "c AND UNSIGNED_MANTISSA_MASK" "unat c div 2 ^ 24"]
    unfolding to_expanded_def sign_bit
    by (simp add: expanded_of_def Let_def OFFSET_def PRECISION_def)
qed

section \<open>Compact thresholds\<close>

definition compact_size :: "nat \<Rightarrow> nat" where "compact_size e = nat_bits e div 8 + 1"

definition compact_mantissa :: "nat \<Rightarrow> nat" where
  "compact_mantissa e = (let s = compact_size e in
     if s \<le> 3 then e * 256 ^ (3 - s) else e div 256 ^ (s - 3))"

lemma size_bounds:
  assumes "0 < e" "e < 2 ^ 256"
  shows "2 ^ (8 * compact_size e - 9) \<le> e" "e < 2 ^ (8 * compact_size e - 1)" "compact_size e \<le> 33"
    "1 \<le> compact_size e"
proof -
  let ?b = "nat_bits e"
  have b: "?b \<le> 256" using nat_bits_le [of e 256] assms by simp
  have "8 * compact_size e - 9 \<le> ?b - 1" unfolding compact_size_def by presburger
  then have "(2 :: nat) ^ (8 * compact_size e - 9) \<le> 2 ^ (?b - 1)" by (intro power_increasing) simp_all
  then show "2 ^ (8 * compact_size e - 9) \<le> e" using nat_bits_lower [OF assms(1)] by linarith
  have "?b \<le> 8 * compact_size e - 1" unfolding compact_size_def by presburger
  then show "e < 2 ^ (8 * compact_size e - 1)" using nat_bits_le by blast
  show "compact_size e \<le> 33" using b unfolding compact_size_def by simp
  show "1 \<le> compact_size e" by (simp add: compact_size_def)
qed

lemma mantissa_bounds:
  assumes "0 < e" "e < 2 ^ 256"
  shows "compact_mantissa e < 2 ^ 23" "0 < compact_mantissa e"
    "3 < compact_size e \<Longrightarrow> 2 ^ 15 \<le> compact_mantissa e"
proof -
  note b = size_bounds [OF assms]
  let ?s = "compact_size e"
  have small: "compact_mantissa e < 2 ^ 23 \<and> 0 < compact_mantissa e" if s: "?s \<le> 3"
  proof -
    have "e * 256 ^ (3 - ?s) < 2 ^ (8 * ?s - 1) * 2 ^ (8 * (3 - ?s))"
      unfolding power_mult using b by simp
    also have "\<dots> = 2 ^ 23"
      unfolding power_add [symmetric] using s b(4) by (intro arg_cong [of _ _ "power 2"]) linarith
    finally show ?thesis using s assms by (simp add: compact_mantissa_def)
  qed
  have big: "compact_mantissa e < 2 ^ 23 \<and> 2 ^ 15 \<le> compact_mantissa e" if s: "3 < ?s"
  proof -
    have m: "compact_mantissa e = e div 2 ^ (8 * (?s - 3))"
      using s by (simp add: compact_mantissa_def power_mult)
    have "(2 :: nat) ^ (8 * ?s - 1) = 2 ^ 23 * 2 ^ (8 * (?s - 3))"
      unfolding power_add [symmetric] using s by (intro arg_cong [of _ _ "power 2"]) linarith
    moreover have "(2 :: nat) ^ (8 * ?s - 9) = 2 ^ 15 * 2 ^ (8 * (?s - 3))"
      unfolding power_add [symmetric] using s by (intro arg_cong [of _ _ "power 2"]) linarith
    ultimately show ?thesis
      using b(1,2) unfolding m by (auto simp: less_eq_div_iff_mult_less_eq less_mult_imp_div_less)
  qed
  show "compact_mantissa e < 2 ^ 23" "0 < compact_mantissa e"
    "3 < ?s \<Longrightarrow> 2 ^ 15 \<le> compact_mantissa e"
    using small big by (cases "?s \<le> 3"; force)+
qed


lemma unat_u32_of_nat: "n < 2 ^ 32 \<Longrightarrow> unat (word_of_nat n :: u32) = n"
  by (simp add: unat_of_nat take_bit_eq_mod)

lemma word_of_compact:
  assumes "m < 2 ^ 23" "s < 2 ^ 8"
  shows "checked_add (word_of_nat m :: u32) (push_bit 24 (word_of_nat s)) = Some (word_of_nat (m + s * 2 ^ 24))"
    "unat (word_of_nat (m + s * 2 ^ 24) :: u32) = m + s * 2 ^ 24"
proof -
  have t: "m + s * 2 ^ 24 < 2 ^ 32" using assms by simp
  have m: "unat (word_of_nat m :: u32) = m" using assms by (simp add: unat_of_nat take_bit_eq_mod)
  have s: "unat (word_of_nat s :: u32) = s" using assms by (simp add: unat_of_nat take_bit_eq_mod)
  have p: "unat (push_bit 24 (word_of_nat s :: u32)) = s * 2 ^ 24"
    using unat_push_bit_less [of "word_of_nat s" 24] s assms by simp
  have "push_bit 24 (word_of_nat s :: u32) = word_of_nat (s * 2 ^ 24)"
    by (simp add: push_bit_eq_mult)
  with m p t show "checked_add (word_of_nat m :: u32) (push_bit 24 (word_of_nat s)) = Some (word_of_nat (m + s * 2 ^ 24))"
    by (simp add: checked_add_def)
  show "unat (word_of_nat (m + s * 2 ^ 24) :: u32) = m + s * 2 ^ 24"
    using t by (rule unat_u32_of_nat)
qed

definition compact_of :: "nat \<Rightarrow> nat" where
  "compact_of e = compact_mantissa e + compact_size e * 2 ^ 24"

lemma to_compact_eq:
  assumes "0 < e" "e < 2 ^ 256"
  shows "to_compact e = Some (word_of_nat (compact_of e))" "unat (word_of_nat (compact_of e) :: u32) = compact_of e"
proof -
  note b = size_bounds [OF assms] and m = mantissa_bounds [OF assms]
  let ?s = "compact_size e"
  have small: "e \<le> 2 ^ 23 - 1 \<longleftrightarrow> ?s \<le> 3"
  proof -
    have "e \<le> 2 ^ 23 - 1 \<longleftrightarrow> nat_bits e \<le> 23" unfolding nat_bits_le by auto
    then show ?thesis unfolding compact_size_def by presburger
  qed
  have "e * 256 ^ (3 - ?s) < 2 ^ 256" if "?s \<le> 3"
    using m(1) that by (simp add: compact_mantissa_def)
  then have "(if e \<le> unat UNSIGNED_MANTISSA_MASK
       then do { k \<leftarrow> usize_sub 3 ?s; Some (e * 2 ^ (8 * k) mod 2 ^ 256) }
       else do { k \<leftarrow> usize_sub ?s 3; Some (e div 2 ^ (8 * k)) }) = Some (compact_mantissa e)"
    using small by (simp add: mantissa_mask(2) usize_sub_def compact_mantissa_def power_mult Let_def)
  with b m assms show "to_compact e = Some (word_of_nat (compact_of e))"
    unfolding to_compact_def compact_size_def [symmetric] Let_def compact_of_def
    by (simp add: OFFSET_def mantissa_mask(2) word_of_compact)
  show "unat (word_of_nat (compact_of e) :: u32) = compact_of e"
    unfolding compact_of_def using b m by (intro word_of_compact) simp_all
qed


text \<open>The threshold that the compact form keeps: the value cut to its three leading bytes.\<close>

definition rounded :: "nat \<Rightarrow> nat" where
  "rounded e = e div 256 ^ (compact_size e - 3) * 256 ^ (compact_size e - 3)"

lemma rounded_le: "rounded e \<le> e"
  by (simp add: rounded_def)

lemma rounded_bits:
  assumes "0 < e" "e < 2 ^ 256"
  shows "nat_bits (rounded e) = nat_bits e" "0 < rounded e"
proof -
  let ?b = "nat_bits e" and ?k = "compact_size e - 3"
  obtain b where b: "?b = Suc b" using nat_bits_pos [OF assms(1)] gr0_implies_Suc by blast
  have "8 * ?k \<le> b" using b unfolding compact_size_def by presburger
  then have "2 ^ b = (2 :: nat) ^ (b - 8 * ?k) * 2 ^ (8 * ?k)"
    unfolding power_add [symmetric] by simp
  then have split: "2 ^ b = (2 :: nat) ^ (b - 8 * ?k) * 256 ^ ?k" by (simp add: power_mult)
  have "2 ^ b \<le> e" using nat_bits_lower [OF assms(1)] b by simp
  then have "2 ^ b \<le> rounded e"
    unfolding rounded_def split by (intro mult_right_mono) (simp_all add: less_eq_div_iff_mult_less_eq)
  moreover have "rounded e < 2 ^ Suc b"
    using rounded_le [of e] nat_bits_upper [of e] b by simp
  ultimately show "nat_bits (rounded e) = ?b" using nat_bits_unique b by simp
  show "0 < rounded e" using \<open>2 ^ b \<le> rounded e\<close> by (simp add: less_le_trans [of 0 "2 ^ b"])
qed

lemma rounded_compact:
  assumes "0 < e" "e < 2 ^ 256"
  shows "compact_of (rounded e) = compact_of e"
proof -
  have s: "compact_size (rounded e) = compact_size e"
    by (simp add: compact_size_def rounded_bits [OF assms])
  have "compact_mantissa (rounded e) = compact_mantissa e"
    unfolding compact_mantissa_def s Let_def by (simp add: rounded_def)
  with s show ?thesis by (simp add: compact_of_def)
qed

lemma expanded_of_compact:
  assumes "0 < e" "e < 2 ^ 256"
  shows "expanded_of (compact_of e) = Some (rounded e)"
proof -
  let ?m = "compact_mantissa e" and ?s = "compact_size e"
  note m = mantissa_bounds [OF assms]
  have x: "compact_of e = ?m + 2 ^ 23 * (2 * ?s)" by (simp add: compact_of_def)
  have "(a + n * b) mod n = a \<and> (a + n * b) div n = b" if "a < n" for a n b :: nat
    using that by simp
  from this [OF m(1), of "2 * ?s"]
  have "compact_of e mod 2 ^ 23 = ?m" "compact_of e div 2 ^ 23 = 2 * ?s" unfolding x by blast+
  moreover have "compact_of e div 2 ^ 24 = ?s" using m(1) by (simp add: compact_of_def)
  moreover have "compact_value ?m ?s = rounded e"
    by (cases "?s \<le> 3") (auto simp: compact_value_def compact_mantissa_def rounded_def Let_def)
  moreover have "rounded e < 2 ^ 256" using rounded_le [of e] assms by simp
  ultimately show ?thesis using rounded_bits(2) [OF assms] by (simp add: expanded_of_def Let_def)
qed

lemma rounded_error:
  assumes "0 < e" "e < 2 ^ 256"
  shows "(e - rounded e) * 2 ^ 15 < rounded e \<or> rounded e = e"
proof (cases "compact_size e \<le> 3")
  case False
  let ?p = "256 ^ (compact_size e - 3) :: nat"
  have "32768 * ?p \<le> rounded e"
    using mantissa_bounds(3) [OF assms] False by (simp add: rounded_def compact_mantissa_def)
  moreover have "e - rounded e = e mod ?p" by (simp add: rounded_def minus_div_mult_eq_mod)
  moreover have "e mod ?p < ?p" by simp
  ultimately have "(e - rounded e) * 32768 < rounded e" by linarith
  then show ?thesis by simp
qed (simp add: rounded_def)


section \<open>Work\<close>

lemma work_formula:
  assumes "e < 2 ^ 256 - 1"
  shows "u256_not e div (e + 1) + 1 = 2 ^ 256 div (e + 1)"
proof -
  have "2 ^ 256 = u256_not e + (e + 1)" using assms by (simp add: u256_not_def)
  then have "2 ^ 256 div (e + 1) = (u256_not e + (e + 1)) div (e + 1)" by simp
  also have "\<dots> = u256_not e div (e + 1) + 1" by (intro div_add_self2) simp
  finally show ?thesis ..
qed

lemma work_try_from_eq:
  assumes "0 < e" "e < 2 ^ 256 - 1"
  shows "work_try_from e =
    Some (if 2 ^ 256 div (e + 1) < 2 ^ 128 then Some (2 ^ 256 div (e + 1)) else None)"
proof -
  have "2 ^ 256 div (e + 1) \<le> 2 ^ 256 div 2" using assms(1) by (intro div_le_mono2) simp_all
  then have "u256_not e div (e + 1) + 1 < 2 ^ 256" unfolding work_formula [OF assms(2)] by simp
  moreover have "e + 1 < 2 ^ 256" using assms(2) by simp
  ultimately show ?thesis
    using work_formula [OF assms(2)]
    by (simp add: work_try_from_def u256_add_def u256_div_def less_Suc_eq_le)
qed


lemma expanded_of_bound:
  assumes "expanded_of x = Some e"
  shows "0 < e \<and> e < 2 ^ 256 - 1"
proof -
  have e: "e = compact_value (x mod 2 ^ 23) (x div 2 ^ 24)" "0 < e" "e < 2 ^ 256"
    using assms by (auto simp: expanded_of_def Let_def split: if_splits)
  moreover have "e \<noteq> 2 ^ 256 - 1"
  proof (cases "x div 2 ^ 24 \<le> 3")
    case True
    have "e \<le> x mod 2 ^ 23"
      using True unfolding e(1) by (cases "x div 2 ^ 24 = 3") (simp_all add: compact_value_def)
    also have "\<dots> < 2 ^ 23" by simp
    finally show ?thesis by simp
  next
    case False
    then have "even e" unfolding e(1) by (simp add: compact_value_def)
    moreover have "odd (2 ^ 256 - 1 :: nat)" by simp
    ultimately show ?thesis by blast
  qed
  ultimately show ?thesis by linarith
qed

section \<open>The adjustment\<close>

lemma median_time_Some: "xs \<noteq> [] \<Longrightarrow> \<exists>m. median_time xs = Some m"
  by (simp add: median_time_def)

lemma median_timespan_Some:
  assumes "relevant_times a \<noteq> []"
  shows "\<exists>m. median_timespan a = Some m"
proof -
  obtain m where m: "median_time_past a = Some m"
    using median_time_Some assms by (fastforce simp: median_time_past_def POW_MEDIAN_BLOCK_SPAN_def)
  show ?thesis
  proof (cases "length (relevant_times a) > POW_AVERAGING_WINDOW")
    case True
    then obtain k where
      "median_time (take POW_MEDIAN_BLOCK_SPAN (drop POW_AVERAGING_WINDOW (relevant_times a))) = Some k"
      using median_time_Some by (fastforce simp: POW_MEDIAN_BLOCK_SPAN_def)
    with m True show ?thesis by (simp add: median_timespan_def)
  next
    case False
    with m assms show ?thesis by (simp add: median_timespan_def)
  qed
qed

lemma averaging_window_cases: "averaging_window_timespan nu \<in> {425, 2550}"
  by (cases nu) (simp_all add: averaging_window_timespan_def target_spacing_def POW_AVERAGING_WINDOW_def
      PRE_BLOSSOM_POW_TARGET_SPACING_def POST_BLOSSOM_POW_TARGET_SPACING_def)

lemma median_timespan_bounded_Some:
  assumes "relevant_times a \<noteq> []" "current_upgrade (ad_network a) (candidate_height a) = Some nu"
  defines "T \<equiv> averaging_window_timespan nu"
  shows "\<exists>b. median_timespan_bounded a = Some b \<and> 84 * T \<le> 100 * b \<and> 100 * b \<le> 132 * T"
proof -
  obtain m where m: "median_timespan a = Some m" using median_timespan_Some [OF assms(1)] by blast
  have "max lo (min hi x) \<in> {lo..hi}" if "lo \<le> hi" for lo hi x :: int using that by auto
  from this [of "T * 84 div 100" "T * 132 div 100"]
  have "max (T * 84 div 100) (min (T * 132 div 100) x) \<in> {T * 84 div 100 .. T * 132 div 100}" for x
    using averaging_window_cases [of nu] by (auto simp: T_def)
  then show ?thesis
    using assms(2) m averaging_window_cases [of nu]
    by (auto simp: median_timespan_bounded_def averaging_window_timespan_for_height_def Let_def T_def
        POW_MAX_ADJUST_UP_PERCENT_def POW_MAX_ADJUST_DOWN_PERCENT_def)
qed

definition threshold_ok :: "nat \<Rightarrow> u32 \<Rightarrow> bool" where
  "threshold_ok limit c = (case expanded_of (unat c) of None \<Rightarrow> False | Some e \<Rightarrow> 4096 \<le> e \<and> e \<le> limit)"

lemma sum_expanded_ok:
  assumes "list_all (threshold_ok limit) cs" "acc + length cs * limit < 2 ^ 256"
  shows "\<exists>t. sum_expanded acc cs = Some t \<and> acc + length cs * 4096 \<le> t \<and> t \<le> acc + length cs * limit"
  using assms
proof (induction cs arbitrary: acc)
  case (Cons c cs)
  obtain e where e: "expanded_of (unat c) = Some e" "4096 \<le> e" "e \<le> limit"
    using Cons.prems(1) by (auto simp: threshold_ok_def split: option.splits)
  have room: "acc + e + length cs * limit < 2 ^ 256" using Cons.prems(2) e by simp
  have "list_all (threshold_ok limit) cs" using Cons.prems(1) by simp
  from Cons.IH [OF this room] obtain t where "sum_expanded (acc + e) cs = Some t"
    "acc + e + length cs * 4096 \<le> t" "t \<le> acc + e + length cs * limit" by blast
  moreover have "acc + e < 2 ^ 256" using \<open>acc + e + length cs * limit < 2 ^ 256\<close> by linarith
  ultimately show ?case using e by (simp add: to_expanded_eq u256_add_def)
qed simp


text \<open>
  The context of a candidate block: the limit of the network, at least one earlier time, a network
  upgrade at its height and earlier thresholds that are valid, not above the limit and not so low that
  the adjustment would round to zero.
\<close>

definition adjustment_ok :: "AdjustedDifficulty \<Rightarrow> nat \<Rightarrow> bool" where
  "adjustment_ok a limit \<longleftrightarrow>
     target_difficulty_limit (ad_network a) = Some limit \<and> 4096 \<le> limit \<and> limit \<le> 2 ^ 251 \<and>
     relevant_times a \<noteq> [] \<and> current_upgrade (ad_network a) (candidate_height a) \<noteq> None \<and>
     list_all (threshold_ok limit) (take POW_AVERAGING_WINDOW (relevant_difficulty_thresholds a))"

lemma mean_target_ok:
  assumes "adjustment_ok a limit"
  shows "\<exists>mean. mean_target_difficulty a = Some mean \<and> 4096 \<le> mean \<and> mean \<le> limit"
proof (cases "length (relevant_difficulty_thresholds a) \<ge> POW_AVERAGING_WINDOW")
  case True
  let ?cs = "take POW_AVERAGING_WINDOW (relevant_difficulty_thresholds a)"
  have l: "length ?cs = 17" using True by (simp add: POW_AVERAGING_WINDOW_def)
  have "limit \<le> 2 ^ 251" using assms by (simp add: adjustment_ok_def)
  then have "0 + length ?cs * limit < 2 ^ 256" unfolding l by simp
  moreover have "list_all (threshold_ok limit) ?cs" using assms by (simp add: adjustment_ok_def)
  ultimately obtain t where t: "sum_expanded 0 ?cs = Some t" "17 * 4096 \<le> t" "t \<le> 17 * limit"
    using sum_expanded_ok [of limit ?cs 0] l by auto
  have "4096 \<le> t div 17" "t div 17 \<le> limit" using t by presburger+
  with t(1) True show ?thesis by (simp add: mean_target_difficulty_def u256_div_def POW_AVERAGING_WINDOW_def)
qed (use assms in \<open>simp add: mean_target_difficulty_def adjustment_ok_def\<close>)


lemma threshold_bits_ok:
  assumes "adjustment_ok a limit" "mean_target_difficulty a = Some mean" "4096 \<le> mean" "mean \<le> limit"
  shows "\<exists>threshold. threshold_bits a = to_compact (min limit threshold) \<and>
    84 * (mean - 2550) \<le> 100 * threshold \<and> 100 * threshold \<le> 132 * mean \<and> 0 < threshold"
proof -
  obtain nu where nu: "current_upgrade (ad_network a) (candidate_height a) = Some nu"
    using assms(1) by (auto simp: adjustment_ok_def)
  define T where "T = nat (averaging_window_timespan nu)"
  have T: "averaging_window_timespan nu = int T" "T \<in> {425, 2550}"
    using averaging_window_cases [of nu] by (auto simp: T_def)
  obtain b where b: "median_timespan_bounded a = Some (int b)" "84 * T \<le> 100 * b" "100 * b \<le> 132 * T"
  proof -
    obtain i where i: "median_timespan_bounded a = Some i" "84 * int T \<le> 100 * i" "100 * i \<le> 132 * int T"
      using median_timespan_bounded_Some [OF _ nu] assms(1) T(1) by (auto simp: adjustment_ok_def)
    then have "i = int (nat i)" by simp
    with i that [of "nat i"] show thesis by simp
  qed
  let ?q = "mean div T"
  have q: "?q * T \<le> mean" "mean - 2550 \<le> ?q * T" "0 < ?q"
    using T(2) assms(3) by auto
  have thr: "84 * (?q * T) \<le> 100 * (?q * b)" "100 * (?q * b) \<le> 132 * (?q * T)"
    using mult_le_mono2 [OF b(2), of ?q] mult_le_mono2 [OF b(3), of ?q] by (simp_all add: ac_simps)
  have "x < 2 ^ 256" if "100 * x \<le> 132 * limit" for x
    using that assms(1) by (simp add: adjustment_ok_def)
  then have "?q * b < 2 ^ 256" using thr(2) q(1) assms(4) by (meson le_trans mult_le_mono2)
  moreover have "0 < b" using b(2) T(2) by auto
  ultimately have "threshold_bits a = to_compact (min limit (?q * b))"
    using assms(1,2) nu T b(1)
    by (auto simp: threshold_bits_def averaging_window_timespan_for_height_def u256_from_int_def
        u256_div_def u256_mul_def adjustment_ok_def)
  moreover have "84 * (mean - 2550) \<le> 100 * (?q * b)" "100 * (?q * b) \<le> 132 * mean"
    using thr q by linarith+
  ultimately show ?thesis using q(3) \<open>0 < b\<close> by (intro exI [of _ "?q * b"]) simp
qed


section \<open>The properties of difficulty\<close>

lemma to_work_eq:
  "to_work c = Some (case expanded_of (unat c) of None \<Rightarrow> None
     | Some e \<Rightarrow> if 2 ^ 256 div (e + 1) < 2 ^ 128 then Some (2 ^ 256 div (e + 1)) else None)"
proof (cases "expanded_of (unat c)")
  case (Some e)
  then have "0 < e" "e < 2 ^ 256 - 1" using expanded_of_bound by blast+
  from work_try_from_eq [OF this] Some show ?thesis by (simp add: to_work_def to_expanded_eq)
qed (simp add: to_work_def to_expanded_eq)

text \<open>every non-zero 256-bit threshold has a compact form, which expands to a threshold that is not
  easier, is off by less than one part in 2^15 and has the same compact form; none of the assertions
  fails.
\<close>

theorem compact_threshold_roundtrip:
  assumes "0 < e" "e < 2 ^ 256"
  shows "\<exists>c e'. to_compact e = Some c \<and> to_expanded c = Some (Some e') \<and> to_compact e' = Some c \<and>
    e' \<le> e \<and> (e - e') * 2 ^ 15 < e'"
proof -
  have r: "0 < rounded e" "rounded e < 2 ^ 256"
    using rounded_bits(2) [OF assms] rounded_le [of e] assms by simp_all
  have "to_expanded (word_of_nat (compact_of e)) = Some (Some (rounded e))"
    by (simp add: to_expanded_eq to_compact_eq(2) [OF assms] expanded_of_compact [OF assms])
  moreover have "to_compact (rounded e) = Some (word_of_nat (compact_of e))"
    using to_compact_eq(1) [OF r] rounded_compact [OF assms] by simp
  moreover have "(e - rounded e) * 2 ^ 15 < rounded e"
    using rounded_error [OF assms] r(1) by (metis diff_self_eq_0 mult_0)
  ultimately show ?thesis using to_compact_eq(1) [OF assms] rounded_le by blast
qed

theorem compact_threshold_roundtrip_witness:
  "\<exists>c e'. to_compact (2 ^ 243 - 1) = Some c \<and> to_expanded c = Some (Some e') \<and> to_compact e' = Some c \<and>
    e' \<le> 2 ^ 243 - 1 \<and> (2 ^ 243 - 1 - e') * 2 ^ 15 < e'"
  by (rule compact_threshold_roundtrip) simp_all

text \<open>C26: expansion is the function \<^verbatim>\<open>ToTarget\<close> of the specification, with negative, zero and too large
  values rejected, and the work of a block is the floor of 2^256 / (target + 1) whenever it fits 128
  bits; no operation overflows for any of the 2^32 compact values.
\<close>

theorem work_spec:
  "to_expanded c = Some (expanded_of (unat c)) \<and>
   to_work c = Some (case expanded_of (unat c) of None \<Rightarrow> None
     | Some e \<Rightarrow> if 2 ^ 256 div (e + 1) < 2 ^ 128 then Some (2 ^ 256 div (e + 1)) else None)"
  using to_expanded_eq to_work_eq by blast

text \<open>C20: the adjusted threshold exists (no assertion, overflow or division fails), is never easier than
  the limit of the network, and one adjustment multiplies the mean of the last thresholds by at most
  1.32; the expected threshold of a block is the adjusted one or, on a test network, the limit.
\<close>

theorem difficulty_adjustment_bounded:
  assumes "adjustment_ok a limit"
  shows "\<exists>c t mean. mean_target_difficulty a = Some mean \<and> threshold_bits a = Some c \<and>
    to_expanded c = Some (Some t) \<and> t \<le> limit \<and> 100 * t \<le> 132 * mean \<and>
    (expected_difficulty_threshold a = Some c \<or>
     is_a_test_network (ad_network a) \<and> expected_difficulty_threshold a = to_compact limit)"
proof -
  obtain mean where mean: "mean_target_difficulty a = Some mean" "4096 \<le> mean" "mean \<le> limit"
    using mean_target_ok [OF assms] by blast
  obtain thr where thr: "threshold_bits a = to_compact (min limit thr)" "100 * thr \<le> 132 * mean" "0 < thr"
    using threshold_bits_ok [OF assms mean] by blast
  let ?e = "min limit thr"
  have e: "0 < ?e" "?e < 2 ^ 256" using thr(3) assms by (auto simp: adjustment_ok_def)
  define c :: u32 where "c = word_of_nat (compact_of ?e)"
  have c: "threshold_bits a = Some c" "to_expanded c = Some (Some (rounded ?e))"
    using thr(1) to_compact_eq [OF e] expanded_of_compact [OF e] by (simp_all add: c_def to_expanded_eq)
  have t: "rounded ?e \<le> limit" "100 * rounded ?e \<le> 132 * mean"
    using rounded_le [of ?e] thr(2) by simp_all
  obtain nu where nu: "current_upgrade (ad_network a) (candidate_height a) = Some nu"
    using assms by (auto simp: adjustment_ok_def)
  have "expected_difficulty_threshold a = Some c \<or>
     is_a_test_network (ad_network a) \<and> expected_difficulty_threshold a = to_compact limit"
    using assms c(1) nu
    by (auto simp: adjustment_ok_def expected_difficulty_threshold_def is_testnet_min_difficulty_block_def
        minimum_difficulty_spacing_for_height_def split: Network.splits)
  with mean(1) c t show ?thesis by blast
qed

definition sample_adjustment :: AdjustedDifficulty where
  "sample_adjustment = \<lparr>candidate_time = 100, candidate_height = 5,
     ad_network = Testnet \<lparr>activation_heights = TESTNET_ACTIVATION_HEIGHTS,
       testnet_target_difficulty_limit = 2 ^ 200,
       testnet_allow_unshielded_coinbase_spends = False\<rparr>,
     relevant_difficulty_thresholds = [0x1a010000], relevant_times = [75]\<rparr>"

lemma sample_adjustment_ok: "adjustment_ok sample_adjustment (2 ^ 200)"
  by (simp add: adjustment_ok_def sample_adjustment_def target_difficulty_limit_def current_upgrade_def
      TESTNET_ACTIVATION_HEIGHTS_def threshold_ok_def expanded_of_def compact_value_def Let_def
      POW_AVERAGING_WINDOW_def)

theorem difficulty_adjustment_bounded_witness:
  "\<exists>c t mean. mean_target_difficulty sample_adjustment = Some mean \<and>
    threshold_bits sample_adjustment = Some c \<and> to_expanded c = Some (Some t) \<and> t \<le> 2 ^ 200 \<and>
    100 * t \<le> 132 * mean \<and>
    (expected_difficulty_threshold sample_adjustment = Some c \<or>
     is_a_test_network (ad_network sample_adjustment) \<and>
     expected_difficulty_threshold sample_adjustment = to_compact (2 ^ 200))"
  by (rule difficulty_adjustment_bounded) (rule sample_adjustment_ok)

end
