(* ===== verification/Chain_Types.thy ===== *)
theory Chain_Types
  imports Disk_Format Staking_Action Difficulty Bft_Types
    "HOL-Library.Mapping" "HOL-Library.AList" "HOL-Library.Multiset"
begin

text \<open>
  The data of a non-finalized chain: \<^verbatim>\<open>ValidateContextError\<close> of \<^verbatim>\<open>zebra-state/src/error.rs\<close>,
  \<^verbatim>\<open>ContextuallyVerifiedBlock\<close> of \<^verbatim>\<open>zebra-state/src/request.rs\<close>, and \<^verbatim>\<open>Chain\<close> of
  \<^verbatim>\<open>zebra-state/src/service/non_finalized_state/chain.rs\<close> with the parts of transactions it reads.

  \<^item> A \<^verbatim>\<open>HashMap\<close> that is only looked up is a \<^typ>\<open>('k, 'v) mapping\<close>. The bonds are iterated, so their
    map is an association list with distinct keys, whose order stands for the order of iteration;
    results are shown not to depend on it.
  \<^item> A \<^verbatim>\<open>BTreeMap\<close> is an association list in ascending key order.
  \<^item> An output carries the address its lock script pays to on the configured network.
  \<^item> Note commitment trees and history trees wrap third-party structures. A tree is an opaque value
    (its encoding), and the operations on trees are the fields of \<open>TreeLib\<close>, an argument of the
    definitions that use them.
\<close>

section \<open>Transactions\<close>

type_synonym outpoint = "bytes \<times> u32"

record TxOutput =
  out_value :: amount
  out_address :: "bytes option"

record OrderedUtxo =
  utxo_output :: TxOutput
  utxo_height :: u32
  utxo_from_coinbase :: bool
  tx_index_in_block :: nat

text \<open>A coinbase input has the height of its block.\<close>

datatype Input = PrevOut outpoint | Coinbase u32

fun input_outpoint :: "Input \<Rightarrow> outpoint option" where
  "input_outpoint (PrevOut p) = Some p"
| "input_outpoint (Coinbase _) = None"

text \<open>
  Of a Sprout joinsplit and of the Sapling and Orchard data of a transaction, the state reads the
  nullifiers, the note commitments, the anchors and the values. The anchors of a transaction are one
  per Sapling spend, and one for its Orchard data.
\<close>

record JoinSplit =
  js_anchor :: bytes
  js_nullifiers :: "bytes list"
  js_commitments :: "bytes list"
  vpub_old :: amount
  vpub_new :: amount

record ShieldedData =
  nullifiers :: "bytes list"
  note_commitments :: "bytes list"
  spend_anchors :: "bytes list"
  shared_anchor :: bytes
  shielded_value :: amount

type_synonym joinsplits = "JoinSplit list option"
type_synonym shielded = "ShieldedData option"

definition joinsplit_nullifiers :: "JoinSplit list \<Rightarrow> bytes list" where
  "joinsplit_nullifiers js = concat (map js_nullifiers js)"

definition joinsplit_commitments :: "JoinSplit list \<Rightarrow> bytes list" where
  "joinsplit_commitments js = concat (map js_commitments js)"

datatype Transaction =
    V1 "Input list" "TxOutput list"
  | V2 "Input list" "TxOutput list" joinsplits
  | V3 "Input list" "TxOutput list" joinsplits
  | V4 "Input list" "TxOutput list" joinsplits shielded
  | V5 "Input list" "TxOutput list" shielded shielded
  | VCrosslink "Input list" "TxOutput list" shielded shielded "StakingAction option"

fun tx_inputs :: "Transaction \<Rightarrow> Input list" where
  "tx_inputs (V1 ins _) = ins"
| "tx_inputs (V2 ins _ _) = ins"
| "tx_inputs (V3 ins _ _) = ins"
| "tx_inputs (V4 ins _ _ _) = ins"
| "tx_inputs (V5 ins _ _ _) = ins"
| "tx_inputs (VCrosslink ins _ _ _ _) = ins"

fun tx_outputs :: "Transaction \<Rightarrow> TxOutput list" where
  "tx_outputs (V1 _ outs) = outs"
| "tx_outputs (V2 _ outs _) = outs"
| "tx_outputs (V3 _ outs _) = outs"
| "tx_outputs (V4 _ outs _ _) = outs"
| "tx_outputs (V5 _ outs _ _) = outs"
| "tx_outputs (VCrosslink _ outs _ _ _) = outs"

fun staking_action :: "Transaction \<Rightarrow> StakingAction option" where
  "staking_action (VCrosslink _ _ _ _ a) = a"
| "staking_action _ = None"

text \<open>
  The fields that the chain takes out of a transaction: inputs, outputs, joinsplits, Sapling data with
  per-spend and with a shared anchor, Orchard data. The old versions are \<^verbatim>\<open>unreachable!\<close>.
\<close>

fun tx_parts :: "Transaction \<Rightarrow>
    (Input list \<times> TxOutput list \<times> joinsplits \<times> shielded \<times> shielded \<times> shielded) rust" where
  "tx_parts (V4 ins outs j s) = Some (ins, outs, j, s, None, None)"
| "tx_parts (V5 ins outs s r) = Some (ins, outs, None, None, s, r)"
| "tx_parts (VCrosslink ins outs s r _) = Some (ins, outs, None, None, s, r)"
| "tx_parts _ = None"

section \<open>Blocks and errors\<close>

text \<open>A time is the number of seconds since the Unix epoch; a solution is its bytes.\<close>

record Header =
  header_version :: u32
  header_previous :: bytes
  header_merkle_root :: bytes
  header_commitment :: bytes
  header_time :: int
  header_threshold :: u32
  header_nonce :: bytes
  header_solution :: bytes
  header_fat_pointer :: FatPointerToBftBlock

record ContextuallyVerifiedBlock =
  cv_header :: Header
  cv_transactions :: "Transaction list"
  cv_hash :: bytes
  cv_height :: u32
  cv_new_outputs :: "(outpoint, OrderedUtxo) mapping"
  cv_spent_outputs :: "(outpoint, OrderedUtxo) mapping"
  cv_transaction_hashes :: "bytes list"
  cv_chain_value_pool_change :: ValueBalance
  cv_size :: nat

text \<open>The message of \<^verbatim>\<open>InvalidDelegationBond\<close> is kept without the values formatted into it.\<close>

datatype NoteCommitmentTreeError = SproutFullTree | SaplingFullTree | OrchardFullTree

datatype CommitmentError =
    InvalidFinalSaplingRoot bytes bytes
  | InvalidChainHistoryActivationReserved bytes
  | InvalidChainHistoryRoot bytes bytes
  | InvalidChainHistoryBlockTxAuthCommitment bytes bytes
  | MissingBlockHeight bytes
  | InvalidSapingRootBytes

datatype ValidateContextError =
    BlockPreviouslyInvalidated bytes
  | NotReadyToBeCommitted
  | OrphanedBlock u32 u32
  | NonSequentialBlock u32 u32
  | TimeTooEarly int int
  | TimeTooLate int int
  | InvalidDifficultyThreshold u32 u32
  | DuplicateTransparentSpend outpoint string
  | MissingTransparentOutput outpoint string
  | EarlyTransparentSpend outpoint
  | UnshieldedTransparentCoinbaseSpend outpoint
  | ImmatureTransparentCoinbaseSpend outpoint u32 u32 u32
  | DuplicateSproutNullifier bytes bool
  | DuplicateSaplingNullifier bytes bool
  | DuplicateOrchardNullifier bytes bool
  | NegativeRemainingTransactionValue amount_error u32 nat bytes
  | CalculateRemainingTransactionValue amount_error u32 nat bytes
  | CalculateTransactionValueBalances ValueBalanceError u32 nat bytes
  | CalculateBlockChainValueChange ValueBalanceError u32 bytes nat nat
  | AddValuePool ValueBalanceError ValueBalance ValueBalance "u32 option"
  | TreeError NoteCommitmentTreeError
  | HistoryTreeError
  | InvalidBlockCommitment CommitmentError
  | UnknownSproutAnchor bytes "u32 option" "nat option" bytes
  | UnknownSaplingAnchor bytes "u32 option" "nat option" bytes
  | UnknownOrchardAnchor bytes "u32 option" "nat option" bytes
  | DuplicateCommitRequest bytes
  | AlreadyFinalized u32
  | CrosslinkNotReady u32
  | ReplacedByNewerRequest bytes
  | PrunedBelowFinalizedTip u32
  | DroppedCommitRequest bytes
  | CommitTaskExited
  | DroppedUnusedBlock
  | InvalidDelegationBond string

section \<open>Trees\<close>

type_synonym tree = bytes

text \<open>A completed subtree: its index, the height of the block that completed it and its root.\<close>

type_synonym subtree = "u16 \<times> u32 \<times> bytes"

record NoteCommitmentTrees =
  nct_sprout :: tree
  nct_sapling :: tree
  nct_sapling_subtree :: "subtree option"
  nct_orchard :: tree
  nct_orchard_subtree :: "subtree option"

record Treestate =
  ts_note_commitment_trees :: NoteCommitmentTrees
  ts_history_tree :: tree

text \<open>
  The operations of the tree types: the empty tree, appending a note commitment (\<open>None\<close> when the tree
  is full), the root, the subtree that the last leaf completes, appending a block to a history tree,
  the root of a history tree (\<open>None\<close> when it is empty), and the hashes of block commitments.
\<close>

record TreeLib =
  sprout_append :: "tree \<Rightarrow> bytes \<Rightarrow> tree option"
  sprout_root :: "tree \<Rightarrow> bytes"
  sapling_append :: "tree \<Rightarrow> bytes \<Rightarrow> tree option"
  sapling_root :: "tree \<Rightarrow> bytes"
  sapling_completed_subtree :: "tree \<Rightarrow> (u16 \<times> bytes) option"
  orchard_append :: "tree \<Rightarrow> bytes \<Rightarrow> tree option"
  orchard_root :: "tree \<Rightarrow> bytes"
  orchard_completed_subtree :: "tree \<Rightarrow> (u16 \<times> bytes) option"
  empty_sprout :: tree
  empty_sapling :: tree
  empty_orchard :: tree
  empty_history :: tree
  history_hash :: "tree \<Rightarrow> bytes option"
  sapling_root_valid :: "bytes \<Rightarrow> bool"
  auth_data_root :: "Transaction list \<Rightarrow> bytes"
  commitment_hash :: "bytes \<Rightarrow> bytes \<Rightarrow> bytes"
  history_push :: "Network \<Rightarrow> tree \<Rightarrow> Header \<times> Transaction list \<Rightarrow> bytes \<Rightarrow> bytes \<Rightarrow> tree option"

text \<open>The trees and anchors of one shielded pool by height, and the multiset of its anchors.\<close>

record PoolTrees =
  trees_by_height :: "(u32 \<times> tree) list"
  anchors_by_height :: "(u32 \<times> bytes) list"
  anchors :: "bytes multiset"

definition no_trees :: PoolTrees where
  "no_trees = \<lparr>trees_by_height = [], anchors_by_height = [], anchors = {#}\<rparr>"

section \<open>Chains\<close>

datatype BondStatusInChain = ChainActive | ChainUnbonding | ChainWithdrawn

type_synonym bonds = "(BondKey \<times> (DelegationBond \<times> BondStatusInChain)) list"
type_synonym OutputLocation = "TransactionLocation \<times> u32"

record TransparentTransfers =
  balance :: amount
  tx_ids :: "bytes multiset"
  tt_created_utxos :: "(OutputLocation, TxOutput) mapping"
  tt_spent_utxos :: "OutputLocation set"

record Chain =
  chain_network :: Network
  blocks :: "(u32 \<times> ContextuallyVerifiedBlock) list"
  height_by_hash :: "(bytes, u32) mapping"
  tx_loc_by_hash :: "(bytes, TransactionLocation) mapping"
  created_utxos :: "(outpoint, OrderedUtxo) mapping"
  spent_utxos :: "(outpoint, bytes) mapping"
  delegation_bonds :: bonds
  bond_rewards :: "(BondKey \<times> u64) list list"
  bond_retargets :: "(BondKey \<times> bytes) list list"
  sprout_trees :: PoolTrees
  sprout_trees_by_anchor :: "(bytes, tree) mapping"
  sapling_trees :: PoolTrees
  sapling_subtrees :: "(u16 \<times> u32 \<times> bytes) list"
  orchard_trees :: PoolTrees
  orchard_subtrees :: "(u16 \<times> u32 \<times> bytes) list"
  history_trees_by_height :: "(u32 \<times> tree) list"
  sprout_nullifiers :: "(bytes, bytes) mapping"
  sapling_nullifiers :: "(bytes, bytes) mapping"
  orchard_nullifiers :: "(bytes, bytes) mapping"
  partial_transparent_transfers :: "(bytes, TransparentTransfers) mapping"
  partial_cumulative_work :: nat
  chain_value_pools :: ValueBalance
  block_info_by_height :: "(u32, ValueBalance \<times> u32) mapping"
  last_fork_height :: "u32 option"

datatype RevertPosition = Root | Tip

definition chain_status :: "BondStatus \<Rightarrow> BondStatusInChain" where
  "chain_status status = (case status of
       Active \<Rightarrow> ChainActive | Unbonding _ \<Rightarrow> ChainUnbonding | Withdrawn _ \<Rightarrow> ChainWithdrawn)"

text \<open>A chain without blocks and trees; \<^verbatim>\<open>Chain::new\<close> adds the trees of the finalized tip.\<close>

definition empty_chain ::
  "Network \<Rightarrow> ValueBalance \<Rightarrow> (BondKey \<times> DelegationBond \<times> BondStatus) list \<Rightarrow> Chain" where
  "empty_chain network finalized_tip_chain_value_pools finalized_bonds =
     \<lparr>chain_network = network, blocks = [], height_by_hash = Mapping.empty, tx_loc_by_hash = Mapping.empty,
      created_utxos = Mapping.empty, spent_utxos = Mapping.empty,
      delegation_bonds = map (\<lambda>(key, bond, status). (key, (bond, chain_status status))) finalized_bonds,
      bond_rewards = [], bond_retargets = [],
      sprout_trees = no_trees, sprout_trees_by_anchor = Mapping.empty, sapling_trees = no_trees,
      sapling_subtrees = [], orchard_trees = no_trees, orchard_subtrees = [],
      history_trees_by_height = [],
      sprout_nullifiers = Mapping.empty,
      sapling_nullifiers = Mapping.empty, orchard_nullifiers = Mapping.empty,
      partial_transparent_transfers = Mapping.empty, partial_cumulative_work = 0,
      chain_value_pools = finalized_tip_chain_value_pools, block_info_by_height = Mapping.empty,
      last_fork_height = None\<rparr>"

section \<open>Shared lemmas\<close>

lemma update_distinct: "distinct (map fst (AList.update k v xs)) \<longleftrightarrow> distinct (map fst xs)"
  by (induction xs) (auto simp: dom_update image_iff)

end
