(* ===== verification/Chain_Trees.thy ===== *)
theory Chain_Trees
  imports Chain_Types
begin

text \<open>
  The note commitment trees, anchors and history trees of a non-finalized chain,
  \<^verbatim>\<open>zebra-state/src/service/non_finalized_state/chain.rs\<close>, and the update of the note commitment trees
  by a block, \<^verbatim>\<open>zebra-chain/src/parallel/tree.rs\<close>.

  The three shielded pools have the same code up to the index of Sprout trees by anchor, so the
  common part is stated once on \<^typ>\<open>PoolTrees\<close>. Trees are compared by their roots, which every stored
  tree has cached.
\<close>

section \<open>Ordered maps and heights\<close>

text \<open>\<^verbatim>\<open>BTreeMap::insert\<close>.\<close>

fun btree_insert :: "'k::linorder \<Rightarrow> 'v \<Rightarrow> ('k \<times> 'v) list \<Rightarrow> ('k \<times> 'v) list" where
  "btree_insert k v [] = [(k, v)]"
| "btree_insert k v ((k', v') # xs) =
     (if k < k' then (k, v) # (k', v') # xs
      else if k = k' then (k, v) # xs
      else (k', v') # btree_insert k v xs)"

text \<open>\<^verbatim>\<open>range(..=k).next_back()\<close>.\<close>

definition btree_at_most :: "'k::linorder \<Rightarrow> ('k \<times> 'v) list \<Rightarrow> 'v option" where
  "btree_at_most k m = (case rev (filter (\<lambda>(k', _). k' \<le> k) m) of [] \<Rightarrow> None | (_, v) # _ \<Rightarrow> Some v)"

definition btree_last :: "('k \<times> 'v) list \<Rightarrow> 'v option" where
  "btree_last m = (case rev m of [] \<Rightarrow> None | (_, v) # _ \<Rightarrow> Some v)"

definition height_next :: "u32 \<Rightarrow> u32 option" where
  "height_next h = (if unat h + 1 \<le> HEIGHT_MAX then Some (h + 1) else None)"

definition height_previous :: "u32 \<Rightarrow> u32 option" where
  "height_previous h = (if 1 \<le> unat h \<and> unat h - 1 \<le> HEIGHT_MAX then Some (h - 1) else None)"

datatype HashOrHeight = Hash bytes | Height u32

definition height_or_else :: "HashOrHeight \<Rightarrow> Chain \<Rightarrow> u32 option" where
  "height_or_else hash_or_height c = (case hash_or_height of
       Hash hash \<Rightarrow> Mapping.lookup (height_by_hash c) hash
     | Height height \<Rightarrow> Some height)"

definition max_block_height :: "Chain \<Rightarrow> u32 option" where
  "max_block_height c = (if blocks c = [] then None else Some (fst (last (blocks c))))"

definition non_finalized_tip_height :: "Chain \<Rightarrow> u32 rust" where
  "non_finalized_tip_height c = max_block_height c"

section \<open>The trees of one pool\<close>

text \<open>Only the first tree of a series of equal trees is stored.\<close>

definition is_new_tree :: "(tree \<Rightarrow> bytes) \<Rightarrow> u32 \<Rightarrow> tree \<Rightarrow> PoolTrees \<Rightarrow> bool rust" where
  "is_new_tree root height t p =
     (if height = 0 then Some True
      else do {
        prev \<leftarrow> height_previous height;
        Some (case btree_at_most prev (trees_by_height p) of None \<Rightarrow> True | Some prev_tree \<Rightarrow> root prev_tree \<noteq> root t) })"

definition add_pool_tree :: "(tree \<Rightarrow> bytes) \<Rightarrow> u32 \<Rightarrow> tree \<Rightarrow> PoolTrees \<Rightarrow> PoolTrees rust" where
  "add_pool_tree root height t p = do {
     new \<leftarrow> is_new_tree root height t p;
     p \<leftarrow> (if new then do {
         rassert (map_of (trees_by_height p) height = None);
         Some (p\<lparr>trees_by_height := btree_insert height t (trees_by_height p)\<rparr>) }
       else Some p);
     rassert (map_of (anchors_by_height p) height = None);
     Some (p\<lparr>anchors_by_height := btree_insert height (root t) (anchors_by_height p),
       anchors := anchors p + {#root t#}\<rparr>) }"

text \<open>The heights to remove and, at the root, the highest removed tree.\<close>

definition removed_heights :: "RevertPosition \<Rightarrow> u32 \<Rightarrow> PoolTrees \<Rightarrow> u32 list" where
  "removed_heights pos height p =
     (if pos = Root then filter (\<lambda>h. h \<le> height) (map fst (anchors_by_height p)) else [height])"

definition highest_removed_tree :: "RevertPosition \<Rightarrow> u32 \<Rightarrow> PoolTrees \<Rightarrow> tree option" where
  "highest_removed_tree pos height p =
     (if pos = Root then btree_at_most height (trees_by_height p) else None)"

definition remove_anchor_at :: "u32 \<Rightarrow> PoolTrees \<Rightarrow> (bytes \<times> PoolTrees) rust" where
  "remove_anchor_at height p = do {
     anchor \<leftarrow> map_of (anchors_by_height p) height;
     rassert (anchor \<in># anchors p);
     Some (anchor, p\<lparr>anchors_by_height := AList.delete height (anchors_by_height p),
       trees_by_height := AList.delete height (trees_by_height p),
       anchors := anchors p - {#anchor#}\<rparr>) }"

fun remove_anchors :: "u32 list \<Rightarrow> PoolTrees \<Rightarrow> PoolTrees rust" where
  "remove_anchors [] p = Some p"
| "remove_anchors (height # rest) p = do {
     (_, p) \<leftarrow> remove_anchor_at height p;
     remove_anchors rest p }"

text \<open>The block above the removed ones keeps a tree.\<close>

definition restore_next_tree :: "u32 option \<Rightarrow> u32 \<Rightarrow> tree option \<Rightarrow> PoolTrees \<Rightarrow> PoolTrees rust" where
  "restore_next_tree tip height highest p = (case tip of
       None \<Rightarrow> Some p
     | Some tip_height \<Rightarrow>
         if height < tip_height then do {
           next_height \<leftarrow> height_next height;
           (case map_of (trees_by_height p) next_height of
              Some _ \<Rightarrow> Some p
            | None \<Rightarrow> do {
                t \<leftarrow> highest;
                Some (p\<lparr>trees_by_height := btree_insert next_height t (trees_by_height p)\<rparr>) }) }
         else Some p)"

section \<open>The trees of a chain\<close>

definition sprout_note_commitment_tree_for_tip :: "Chain \<Rightarrow> tree rust" where
  "sprout_note_commitment_tree_for_tip c = btree_last (trees_by_height (sprout_trees c))"

definition sapling_note_commitment_tree_for_tip :: "Chain \<Rightarrow> tree rust" where
  "sapling_note_commitment_tree_for_tip c = btree_last (trees_by_height (sapling_trees c))"

definition orchard_note_commitment_tree_for_tip :: "Chain \<Rightarrow> tree rust" where
  "orchard_note_commitment_tree_for_tip c = btree_last (trees_by_height (orchard_trees c))"

definition history_block_commitment_tree :: "Chain \<Rightarrow> tree rust" where
  "history_block_commitment_tree c = btree_last (history_trees_by_height c)"

definition sprout_tree :: "HashOrHeight \<Rightarrow> Chain \<Rightarrow> tree option" where
  "sprout_tree hash_or_height c = do {
     height \<leftarrow> height_or_else hash_or_height c;
     btree_at_most height (trees_by_height (sprout_trees c)) }"

definition sapling_tree :: "HashOrHeight \<Rightarrow> Chain \<Rightarrow> tree option" where
  "sapling_tree hash_or_height c = do {
     height \<leftarrow> height_or_else hash_or_height c;
     btree_at_most height (trees_by_height (sapling_trees c)) }"

definition orchard_tree :: "HashOrHeight \<Rightarrow> Chain \<Rightarrow> tree option" where
  "orchard_tree hash_or_height c = do {
     height \<leftarrow> height_or_else hash_or_height c;
     btree_at_most height (trees_by_height (orchard_trees c)) }"

definition history_tree :: "HashOrHeight \<Rightarrow> Chain \<Rightarrow> tree option" where
  "history_tree hash_or_height c = do {
     height \<leftarrow> height_or_else hash_or_height c;
     map_of (history_trees_by_height c) height }"

definition sapling_subtree :: "HashOrHeight \<Rightarrow> Chain \<Rightarrow> subtree option" where
  "sapling_subtree hash_or_height c = do {
     height \<leftarrow> height_or_else hash_or_height c;
     find (\<lambda>(_, end_height, _). end_height = height) (sapling_subtrees c) }"

definition orchard_subtree :: "HashOrHeight \<Rightarrow> Chain \<Rightarrow> subtree option" where
  "orchard_subtree hash_or_height c = do {
     height \<leftarrow> height_or_else hash_or_height c;
     find (\<lambda>(_, end_height, _). end_height = height) (orchard_subtrees c) }"

definition sapling_subtree_for_tip :: "Chain \<Rightarrow> subtree option" where
  "sapling_subtree_for_tip c = (case max_block_height c of
       None \<Rightarrow> None | Some tip \<Rightarrow> sapling_subtree (Height tip) c)"

definition orchard_subtree_for_tip :: "Chain \<Rightarrow> subtree option" where
  "orchard_subtree_for_tip c = (case max_block_height c of
       None \<Rightarrow> None | Some tip \<Rightarrow> orchard_subtree (Height tip) c)"

definition sapling_subtrees_in_range :: "u16 \<Rightarrow> u16 option \<Rightarrow> Chain \<Rightarrow> subtree list" where
  "sapling_subtrees_in_range start_index end_index c =
     filter (\<lambda>(i, _). start_index \<le> i \<and> (case end_index of None \<Rightarrow> True | Some e \<Rightarrow> i < e)) (sapling_subtrees c)"

definition orchard_subtrees_in_range :: "u16 \<Rightarrow> u16 option \<Rightarrow> Chain \<Rightarrow> subtree list" where
  "orchard_subtrees_in_range start_index end_index c =
     filter (\<lambda>(i, _). start_index \<le> i \<and> (case end_index of None \<Rightarrow> True | Some e \<Rightarrow> i < e)) (orchard_subtrees c)"

definition treestate :: "HashOrHeight \<Rightarrow> Chain \<Rightarrow> Treestate option" where
  "treestate hash_or_height c = do {
     sprout_t \<leftarrow> sprout_tree hash_or_height c;
     sapling_t \<leftarrow> sapling_tree hash_or_height c;
     orchard_t \<leftarrow> orchard_tree hash_or_height c;
     history_t \<leftarrow> history_tree hash_or_height c;
     Some \<lparr>ts_note_commitment_trees = \<lparr>nct_sprout = sprout_t, nct_sapling = sapling_t,
         nct_sapling_subtree = sapling_subtree hash_or_height c, nct_orchard = orchard_t,
         nct_orchard_subtree = orchard_subtree hash_or_height c\<rparr>,
       ts_history_tree = history_t\<rparr> }"

definition add_sprout_tree_and_anchor :: "TreeLib \<Rightarrow> u32 \<Rightarrow> tree \<Rightarrow> Chain \<Rightarrow> Chain rust" where
  "add_sprout_tree_and_anchor lib height t c = do {
     p \<leftarrow> add_pool_tree (sprout_root lib) height t (sprout_trees c);
     Some (c\<lparr>sprout_trees := p,
       sprout_trees_by_anchor := Mapping.update (sprout_root lib t) t (sprout_trees_by_anchor c)\<rparr>) }"

definition add_sapling_tree_and_anchor :: "TreeLib \<Rightarrow> u32 \<Rightarrow> tree \<Rightarrow> Chain \<Rightarrow> Chain rust" where
  "add_sapling_tree_and_anchor lib height t c = do {
     p \<leftarrow> add_pool_tree (sapling_root lib) height t (sapling_trees c);
     Some (c\<lparr>sapling_trees := p\<rparr>) }"

definition add_orchard_tree_and_anchor :: "TreeLib \<Rightarrow> u32 \<Rightarrow> tree \<Rightarrow> Chain \<Rightarrow> Chain rust" where
  "add_orchard_tree_and_anchor lib height t c = do {
     p \<leftarrow> add_pool_tree (orchard_root lib) height t (orchard_trees c);
     Some (c\<lparr>orchard_trees := p\<rparr>) }"

definition add_history_tree :: "u32 \<Rightarrow> tree \<Rightarrow> Chain \<Rightarrow> Chain rust" where
  "add_history_tree height t c = do {
     rassert (map_of (history_trees_by_height c) height = None);
     Some (c\<lparr>history_trees_by_height := btree_insert height t (history_trees_by_height c)\<rparr>) }"

text \<open>The Sprout loop also drops the trees whose anchor is no longer in the multiset.\<close>

fun remove_sprout_anchors :: "u32 list \<Rightarrow> Chain \<Rightarrow> Chain rust" where
  "remove_sprout_anchors [] c = Some c"
| "remove_sprout_anchors (height # rest) c = do {
     (anchor, p) \<leftarrow> remove_anchor_at height (sprout_trees c);
     let c = c\<lparr>sprout_trees := p\<rparr>;
     remove_sprout_anchors rest
       (if anchor \<in># anchors p then c
        else c\<lparr>sprout_trees_by_anchor := Mapping.delete anchor (sprout_trees_by_anchor c)\<rparr>) }"

definition remove_sprout_tree_and_anchor :: "RevertPosition \<Rightarrow> u32 \<Rightarrow> Chain \<Rightarrow> Chain rust" where
  "remove_sprout_tree_and_anchor pos height c = do {
     let highest = highest_removed_tree pos height (sprout_trees c);
     c \<leftarrow> remove_sprout_anchors (removed_heights pos height (sprout_trees c)) c;
     p \<leftarrow> restore_next_tree (max_block_height c) height highest (sprout_trees c);
     Some (c\<lparr>sprout_trees := p\<rparr>) }"

definition remove_sapling_tree_and_anchor :: "RevertPosition \<Rightarrow> u32 \<Rightarrow> Chain \<Rightarrow> Chain rust" where
  "remove_sapling_tree_and_anchor pos height c = do {
     let highest = highest_removed_tree pos height (sapling_trees c);
     p \<leftarrow> remove_anchors (removed_heights pos height (sapling_trees c)) (sapling_trees c);
     p \<leftarrow> restore_next_tree (max_block_height c) height highest p;
     Some (c\<lparr>sapling_trees := p\<rparr>) }"

definition remove_orchard_tree_and_anchor :: "RevertPosition \<Rightarrow> u32 \<Rightarrow> Chain \<Rightarrow> Chain rust" where
  "remove_orchard_tree_and_anchor pos height c = do {
     let highest = highest_removed_tree pos height (orchard_trees c);
     p \<leftarrow> remove_anchors (removed_heights pos height (orchard_trees c)) (orchard_trees c);
     p \<leftarrow> restore_next_tree (max_block_height c) height highest p;
     Some (c\<lparr>orchard_trees := p\<rparr>) }"

definition remove_history_tree :: "RevertPosition \<Rightarrow> u32 \<Rightarrow> Chain \<Rightarrow> Chain rust" where
  "remove_history_tree pos height c =
     (if pos = Root
      then Some (c\<lparr>history_trees_by_height := filter (\<lambda>(h, _). height < h) (history_trees_by_height c)\<rparr>)
      else do {
        rassert (map_of (history_trees_by_height c) height \<noteq> None);
        Some (c\<lparr>history_trees_by_height := AList.delete height (history_trees_by_height c)\<rparr>) })"

definition Chain_new ::
  "TreeLib \<Rightarrow> Network \<Rightarrow> u32 \<Rightarrow> tree \<Rightarrow> tree \<Rightarrow> tree \<Rightarrow> tree \<Rightarrow> ValueBalance \<Rightarrow>
    (BondKey \<times> DelegationBond \<times> BondStatus) list \<Rightarrow> Chain rust" where
  "Chain_new lib network finalized_tip_height sprout_t sapling_t orchard_t history_t pools finalized_bonds = do {
     c \<leftarrow> add_sprout_tree_and_anchor lib finalized_tip_height sprout_t (empty_chain network pools finalized_bonds);
     c \<leftarrow> add_sapling_tree_and_anchor lib finalized_tip_height sapling_t c;
     c \<leftarrow> add_orchard_tree_and_anchor lib finalized_tip_height orchard_t c;
     add_history_tree finalized_tip_height history_t c }"

section \<open>Updating the trees by a block\<close>

definition coinbase_height :: "Transaction list \<Rightarrow> u32 option" where
  "coinbase_height txs = (case txs of
       tx # _ \<Rightarrow> (case tx_inputs tx of Coinbase height # _ \<Rightarrow> Some height | _ \<Rightarrow> None)
     | [] \<Rightarrow> None)"

definition commitments_of :: "shielded \<Rightarrow> bytes list" where
  "commitments_of s = (case s of None \<Rightarrow> [] | Some d \<Rightarrow> note_commitments d)"

fun sprout_note_commitments :: "Transaction \<Rightarrow> bytes list" where
  "sprout_note_commitments (V2 _ _ j) = (case j of None \<Rightarrow> [] | Some d \<Rightarrow> joinsplit_commitments d)"
| "sprout_note_commitments (V3 _ _ j) = (case j of None \<Rightarrow> [] | Some d \<Rightarrow> joinsplit_commitments d)"
| "sprout_note_commitments (V4 _ _ j _) = (case j of None \<Rightarrow> [] | Some d \<Rightarrow> joinsplit_commitments d)"
| "sprout_note_commitments _ = []"

fun sapling_note_commitments :: "Transaction \<Rightarrow> bytes list" where
  "sapling_note_commitments (V4 _ _ _ s) = commitments_of s"
| "sapling_note_commitments (V5 _ _ s _) = commitments_of s"
| "sapling_note_commitments (VCrosslink _ _ s _ _) = commitments_of s"
| "sapling_note_commitments _ = []"

fun orchard_note_commitments :: "Transaction \<Rightarrow> bytes list" where
  "orchard_note_commitments (V5 _ _ _ r) = commitments_of r"
| "orchard_note_commitments (VCrosslink _ _ _ r _) = commitments_of r"
| "orchard_note_commitments _ = []"

fun update_sprout_note_commitment_tree :: "TreeLib \<Rightarrow> tree \<Rightarrow> bytes list \<Rightarrow> NoteCommitmentTreeError + tree" where
  "update_sprout_note_commitment_tree lib t [] = Inr t"
| "update_sprout_note_commitment_tree lib t (n # ns) = (case sprout_append lib t n of
       None \<Rightarrow> Inl SproutFullTree
     | Some t \<Rightarrow> update_sprout_note_commitment_tree lib t ns)"

text \<open>Appending notes to a Sapling or an Orchard tree, with the last subtree that was completed.\<close>

fun update_note_commitment_tree ::
  "NoteCommitmentTreeError \<Rightarrow> (tree \<Rightarrow> bytes \<Rightarrow> tree option) \<Rightarrow> (tree \<Rightarrow> (u16 \<times> bytes) option) \<Rightarrow> tree \<Rightarrow>
    (u16 \<times> bytes) option \<Rightarrow> bytes list \<Rightarrow> NoteCommitmentTreeError + (tree \<times> (u16 \<times> bytes) option)" where
  "update_note_commitment_tree e append_note completed t subtree_root [] = Inr (t, subtree_root)"
| "update_note_commitment_tree e append_note completed t subtree_root (n # ns) = (case append_note t n of
       None \<Rightarrow> Inl e
     | Some t \<Rightarrow> update_note_commitment_tree e append_note completed t
         (case completed t of Some index_and_node \<Rightarrow> Some index_and_node | None \<Rightarrow> subtree_root) ns)"

definition update_sapling_note_commitment_tree ::
  "TreeLib \<Rightarrow> tree \<Rightarrow> bytes list \<Rightarrow> NoteCommitmentTreeError + (tree \<times> (u16 \<times> bytes) option)" where
  "update_sapling_note_commitment_tree lib t ns =
     update_note_commitment_tree SaplingFullTree (sapling_append lib) (sapling_completed_subtree lib) t None ns"

definition update_orchard_note_commitment_tree ::
  "TreeLib \<Rightarrow> tree \<Rightarrow> bytes list \<Rightarrow> NoteCommitmentTreeError + (tree \<times> (u16 \<times> bytes) option)" where
  "update_orchard_note_commitment_tree lib t ns =
     update_note_commitment_tree OrchardFullTree (orchard_append lib) (orchard_completed_subtree lib) t None ns"

definition new_subtree :: "u32 \<Rightarrow> (u16 \<times> bytes) option \<Rightarrow> subtree option" where
  "new_subtree height subtree_root = map_option (\<lambda>(idx, node). (idx, height, node)) subtree_root"

text \<open>The errors of the three tasks are returned in the order Sprout, Sapling, Orchard.\<close>

definition update_trees_parallel ::
  "TreeLib \<Rightarrow> Transaction list \<Rightarrow> NoteCommitmentTrees \<Rightarrow> (NoteCommitmentTreeError, NoteCommitmentTrees) result" where
  "update_trees_parallel lib txs nct = do {
     height \<leftarrow> coinbase_height txs;
     let sprout_notes = concat (map sprout_note_commitments txs);
     let sapling_notes = concat (map sapling_note_commitments txs);
     let orchard_notes = concat (map orchard_note_commitments txs);
     tryr (if sprout_notes = [] then ok nct
       else tryr (Some (update_sprout_note_commitment_tree lib (nct_sprout nct) sprout_notes)) (\<lambda>t.
         ok (nct\<lparr>nct_sprout := t\<rparr>))) (\<lambda>nct.
     tryr (if sapling_notes = [] then ok nct
       else tryr (Some (update_sapling_note_commitment_tree lib (nct_sapling nct) sapling_notes)) (\<lambda>(t, r).
         ok (nct\<lparr>nct_sapling := t, nct_sapling_subtree := new_subtree height r\<rparr>))) (\<lambda>nct.
     (if orchard_notes = [] then ok nct
       else tryr (Some (update_orchard_note_commitment_tree lib (nct_orchard nct) orchard_notes)) (\<lambda>(t, r).
         ok (nct\<lparr>nct_orchard := t, nct_orchard_subtree := new_subtree height r\<rparr>))))) }"

definition trees_for_tip :: "Chain \<Rightarrow> NoteCommitmentTrees rust" where
  "trees_for_tip c = do {
     sprout_t \<leftarrow> sprout_note_commitment_tree_for_tip c;
     sapling_t \<leftarrow> sapling_note_commitment_tree_for_tip c;
     orchard_t \<leftarrow> orchard_note_commitment_tree_for_tip c;
     Some \<lparr>nct_sprout = sprout_t, nct_sapling = sapling_t, nct_sapling_subtree = sapling_subtree_for_tip c,
       nct_orchard = orchard_t, nct_orchard_subtree = orchard_subtree_for_tip c\<rparr> }"

text \<open>Storing the updated trees and the history tree of a block.\<close>

definition insert_subtree :: "subtree option \<Rightarrow> subtree list \<Rightarrow> subtree list" where
  "insert_subtree s subtrees = (case s of None \<Rightarrow> subtrees | Some (i, d) \<Rightarrow> btree_insert i d subtrees)"

definition add_trees ::
  "TreeLib \<Rightarrow> ContextuallyVerifiedBlock \<Rightarrow> NoteCommitmentTrees \<Rightarrow> Chain \<Rightarrow> (ValidateContextError, Chain) result" where
  "add_trees lib b nct c = do {
     c \<leftarrow> add_sprout_tree_and_anchor lib (cv_height b) (nct_sprout nct) c;
     c \<leftarrow> add_sapling_tree_and_anchor lib (cv_height b) (nct_sapling nct) c;
     c \<leftarrow> add_orchard_tree_and_anchor lib (cv_height b) (nct_orchard nct) c;
     let c = c\<lparr>sapling_subtrees := insert_subtree (nct_sapling_subtree nct) (sapling_subtrees c),
       orchard_subtrees := insert_subtree (nct_orchard_subtree nct) (orchard_subtrees c)\<rparr>;
     sapling_t \<leftarrow> sapling_note_commitment_tree_for_tip c;
     orchard_t \<leftarrow> orchard_note_commitment_tree_for_tip c;
     history_t \<leftarrow> history_block_commitment_tree c;
     (case history_push lib (chain_network c) history_t (cv_header b, cv_transactions b) (sapling_root lib sapling_t) (orchard_root lib orchard_t) of
        None \<Rightarrow> err HistoryTreeError
      | Some history_t \<Rightarrow> do {
          c \<leftarrow> add_history_tree (cv_height b) history_t c;
          ok c }) }"

definition remove_trees :: "RevertPosition \<Rightarrow> u32 \<Rightarrow> Chain \<Rightarrow> Chain rust" where
  "remove_trees pos height c = do {
     c \<leftarrow> remove_sprout_tree_and_anchor pos height c;
     c \<leftarrow> remove_sapling_tree_and_anchor pos height c;
     c \<leftarrow> remove_orchard_tree_and_anchor pos height c;
     remove_history_tree pos height c }"

section \<open>Lemmas\<close>

definition below :: "'k::linorder \<Rightarrow> ('k \<times> 'v) list \<Rightarrow> bool" where
  "below h m \<longleftrightarrow> (\<forall>k \<in> fst ` set m. k < h)"

lemma btree_insert_above: "below h m \<Longrightarrow> btree_insert h v m = m @ [(h, v)]"
  by (induction m) (auto simp: below_def)

lemma below_map_of: "below h m \<Longrightarrow> map_of m h = None"
  by (force simp: below_def map_of_eq_None_iff)

lemma below_delete: "below h m \<Longrightarrow> AList.delete h m = m"
  by (force simp: below_def AList.delete_eq filter_id_conv)

lemma delete_last: "below h m \<Longrightarrow> AList.delete h (m @ [(h, v)]) = m"
  using below_delete [of h m] by (simp add: AList.delete_eq)

lemma map_of_last: "below h m \<Longrightarrow> ([h \<mapsto> v] ++ map_of m) h = Some v"
  using below_map_of [of h m] by (simp add: map_add_def)

definition pool_below :: "u32 \<Rightarrow> PoolTrees \<Rightarrow> bool" where
  "pool_below h p \<longleftrightarrow> below h (trees_by_height p) \<and> below h (anchors_by_height p)"

lemma add_pool_tree_eq:
  assumes "pool_below h p" "add_pool_tree root h t p = Some p'"
  shows "\<exists>new. is_new_tree root h t p = Some new \<and>
    p' = p\<lparr>trees_by_height := trees_by_height p @ (if new then [(h, t)] else []),
      anchors_by_height := anchors_by_height p @ [(h, root t)], anchors := anchors p + {#root t#}\<rparr>"
proof (cases "is_new_tree root h t p")
  case (Some new)
  with assms show ?thesis
    by (cases new) (auto simp: add_pool_tree_def pool_below_def below_map_of btree_insert_above rassert_def)
qed (use assms(2) in \<open>simp add: add_pool_tree_def\<close>)

lemma remove_added_anchor:
  assumes "pool_below h p" "add_pool_tree root h t p = Some p'"
  shows "remove_anchor_at h p' = Some (root t, p)"
proof -
  obtain new where n: "p' = p\<lparr>trees_by_height := trees_by_height p @ (if new then [(h, t)] else []),
      anchors_by_height := anchors_by_height p @ [(h, root t)], anchors := anchors p + {#root t#}\<rparr>"
    using add_pool_tree_eq [OF assms] by blast
  show ?thesis
    using assms(1) unfolding n by (cases new)
      (simp_all add: remove_anchor_at_def pool_below_def map_of_last delete_last below_delete rassert_def)
qed

text \<open>The tip has a tree with the root of the last tree that was added.\<close>

lemma btree_last_snoc [simp]: "btree_last (m @ [(k, v)]) = Some v"
  by (simp add: btree_last_def)

lemma btree_at_most_all:
  assumes "below h m" "height_previous h = Some h'"
  shows "btree_at_most h' m = btree_last m"
proof -
  have "h \<noteq> 0" "h' = h - 1" using assms(2) by (auto simp: height_previous_def split: if_splits)
  then have "unat h' = unat h - 1" "unat h \<noteq> 0" by (simp_all add: unat_minus_one unat_eq_0)
  moreover have "unat k < unat h" if "(k, v) \<in> set m" for k v
    using assms(1) that by (force simp: below_def word_less_nat_alt)
  ultimately have "k \<le> h'" if "(k, v) \<in> set m" for k v
    using that unfolding word_le_nat_alt by fastforce
  then have "filter (\<lambda>(k, _). k \<le> h') m = m" by (intro filter_True) auto
  then show ?thesis by (simp add: btree_at_most_def btree_last_def)
qed

lemma tip_root:
  assumes "pool_below h p" "add_pool_tree root h t p = Some p'"
  shows "\<exists>t'. btree_last (trees_by_height p') = Some t' \<and> root t' = root t"
proof -
  obtain new where n: "is_new_tree root h t p = Some new"
    "p' = p\<lparr>trees_by_height := trees_by_height p @ (if new then [(h, t)] else []),
      anchors_by_height := anchors_by_height p @ [(h, root t)], anchors := anchors p + {#root t#}\<rparr>"
    using add_pool_tree_eq [OF assms] by blast
  show ?thesis
  proof (cases new)
    case False
    then obtain prev where h: "h \<noteq> 0" "height_previous h = Some prev"
      "(case btree_at_most prev (trees_by_height p) of None \<Rightarrow> True | Some t' \<Rightarrow> root t' \<noteq> root t) = False"
      using n(1) by (auto simp: is_new_tree_def bind_eq_Some_conv split: if_splits)
    from btree_at_most_all [OF _ h(2), of "trees_by_height p"] assms(1) h(3) n(2) False show ?thesis
      by (auto simp: pool_below_def split: option.splits)
  qed (simp add: n)
qed

section \<open>Adding and removing the trees of a tip block\<close>

text \<open>
  The trees of a chain below a height, and the index of Sprout trees by anchor, which has exactly the
  anchors of the multiset.
\<close>

definition trees_below :: "TreeLib \<Rightarrow> u32 \<Rightarrow> Chain \<Rightarrow> bool" where
  "trees_below lib h c \<longleftrightarrow> pool_below h (sprout_trees c) \<and> pool_below h (sapling_trees c) \<and>
     pool_below h (orchard_trees c) \<and> below h (history_trees_by_height c) \<and>
     (\<forall>a. case Mapping.lookup (sprout_trees_by_anchor c) a of
        None \<Rightarrow> a \<notin># anchors (sprout_trees c)
      | Some t \<Rightarrow> a \<in># anchors (sprout_trees c) \<and> sprout_root lib t = a)"

lemma add_trees_ok:
  assumes "add_trees lib b nct c = ok c'"
  shows "\<exists>p1 p2 p3 hist. add_pool_tree (sprout_root lib) (cv_height b) (nct_sprout nct) (sprout_trees c) = Some p1 \<and>
    add_pool_tree (sapling_root lib) (cv_height b) (nct_sapling nct) (sapling_trees c) = Some p2 \<and>
    add_pool_tree (orchard_root lib) (cv_height b) (nct_orchard nct) (orchard_trees c) = Some p3 \<and>
    c' = c\<lparr>sprout_trees := p1,
      sprout_trees_by_anchor := Mapping.update (sprout_root lib (nct_sprout nct)) (nct_sprout nct) (sprout_trees_by_anchor c),
      sapling_trees := p2, orchard_trees := p3,
      sapling_subtrees := insert_subtree (nct_sapling_subtree nct) (sapling_subtrees c),
      orchard_subtrees := insert_subtree (nct_orchard_subtree nct) (orchard_subtrees c),
      history_trees_by_height := btree_insert (cv_height b) hist (history_trees_by_height c)\<rparr>"
  using assms
  by (auto simp: add_trees_def add_sprout_tree_and_anchor_def add_sapling_tree_and_anchor_def
      add_orchard_tree_and_anchor_def add_history_tree_def bind_ok_iff bind_eq_Some_conv Let_def rassert_def
      split: option.splits if_splits)

lemma restore_next_tree_tip:
  "(\<And>tip. max_block_height c = Some tip \<Longrightarrow> tip \<le> h) \<Longrightarrow> restore_next_tree (max_block_height c) h highest p = Some p"
  by (cases "max_block_height c") (auto simp: restore_next_tree_def)

lemma max_block_height_same: "blocks c' = blocks c \<Longrightarrow> max_block_height c' = max_block_height c"
  by (simp add: max_block_height_def)

lemma max_block_height_upd [simp]:
  "max_block_height (c\<lparr>sprout_trees := p\<rparr>) = max_block_height c"
  "max_block_height (c\<lparr>sprout_trees_by_anchor := m\<rparr>) = max_block_height c"
  by (simp_all add: max_block_height_def)

lemma anchor_index_revert:
  assumes "trees_below lib h c" "r = sprout_root lib t"
    "m = (if r \<in># anchors (sprout_trees c) then Mapping.update r t (sprout_trees_by_anchor c)
      else Mapping.delete r (Mapping.update r t (sprout_trees_by_anchor c)))"
  shows "map_option (sprout_root lib) (Mapping.lookup m a) =
    map_option (sprout_root lib) (Mapping.lookup (sprout_trees_by_anchor c) a)"
proof -
  have "case Mapping.lookup (sprout_trees_by_anchor c) a of None \<Rightarrow> a \<notin># anchors (sprout_trees c)
      | Some t \<Rightarrow> a \<in># anchors (sprout_trees c) \<and> sprout_root lib t = a"
    using assms(1) by (simp add: trees_below_def)
  then show ?thesis
    by (cases "a = r"; cases "Mapping.lookup (sprout_trees_by_anchor c) a")
      (simp_all add: assms(2,3) lookup_update' lookup_delete lookup_delete_neq)
qed

lemma remove_sprout_tip:
  assumes "remove_anchor_at h (sprout_trees c) = Some (a, p)" "\<And>tip. max_block_height c = Some tip \<Longrightarrow> tip \<le> h"
  shows "remove_sprout_tree_and_anchor Tip h c = Some (c\<lparr>sprout_trees := p, sprout_trees_by_anchor :=
     (if a \<in># anchors p then sprout_trees_by_anchor c else Mapping.delete a (sprout_trees_by_anchor c))\<rparr>)"
  using assms restore_next_tree_tip [of c h]
  by (simp add: remove_sprout_tree_and_anchor_def removed_heights_def Let_def)

lemma remove_pool_tip:
  assumes "\<And>tip. max_block_height c = Some tip \<Longrightarrow> tip \<le> h"
  shows "remove_anchor_at h (sapling_trees c) = Some (a, p) \<Longrightarrow>
      remove_sapling_tree_and_anchor Tip h c = Some (c\<lparr>sapling_trees := p\<rparr>)"
    "remove_anchor_at h (orchard_trees c) = Some (a, p) \<Longrightarrow>
      remove_orchard_tree_and_anchor Tip h c = Some (c\<lparr>orchard_trees := p\<rparr>)"
  using restore_next_tree_tip [OF assms]
  by (simp_all add: remove_sapling_tree_and_anchor_def remove_orchard_tree_and_anchor_def removed_heights_def Let_def)

text \<open>C19: Reverting a tip block takes back exactly the trees and anchors the block added, in all three
  pools and in the history, and the tip trees after the block have the roots of the updated trees. The
  completed subtrees are not taken back: those of the reverted block stay in the chain.
\<close>

theorem tip_trees_revert:
  assumes "trees_below lib (cv_height b) c" "add_trees lib b nct c = ok c'"
    "\<And>tip. max_block_height c = Some tip \<Longrightarrow> tip \<le> cv_height b"
  shows "(\<exists>m. remove_trees Tip (cv_height b) c' = Some (c\<lparr>sprout_trees_by_anchor := m,
      sapling_subtrees := insert_subtree (nct_sapling_subtree nct) (sapling_subtrees c),
      orchard_subtrees := insert_subtree (nct_orchard_subtree nct) (orchard_subtrees c)\<rparr>) \<and>
      (\<forall>a. map_option (sprout_root lib) (Mapping.lookup m a) =
        map_option (sprout_root lib) (Mapping.lookup (sprout_trees_by_anchor c) a))) \<and>
    map_option (sprout_root lib) (sprout_note_commitment_tree_for_tip c') = Some (sprout_root lib (nct_sprout nct)) \<and>
    map_option (sapling_root lib) (sapling_note_commitment_tree_for_tip c') = Some (sapling_root lib (nct_sapling nct)) \<and>
    map_option (orchard_root lib) (orchard_note_commitment_tree_for_tip c') = Some (orchard_root lib (nct_orchard nct))"
proof -
  let ?h = "cv_height b"
  obtain p1 p2 p3 hist where p:
    "add_pool_tree (sprout_root lib) ?h (nct_sprout nct) (sprout_trees c) = Some p1"
    "add_pool_tree (sapling_root lib) ?h (nct_sapling nct) (sapling_trees c) = Some p2"
    "add_pool_tree (orchard_root lib) ?h (nct_orchard nct) (orchard_trees c) = Some p3"
    "c' = c\<lparr>sprout_trees := p1,
      sprout_trees_by_anchor := Mapping.update (sprout_root lib (nct_sprout nct)) (nct_sprout nct) (sprout_trees_by_anchor c),
      sapling_trees := p2, orchard_trees := p3,
      sapling_subtrees := insert_subtree (nct_sapling_subtree nct) (sapling_subtrees c),
      orchard_subtrees := insert_subtree (nct_orchard_subtree nct) (orchard_subtrees c),
      history_trees_by_height := btree_insert ?h hist (history_trees_by_height c)\<rparr>"
    using add_trees_ok [OF assms(2)] by blast
  have o: "pool_below ?h (sprout_trees c)" "pool_below ?h (sapling_trees c)" "pool_below ?h (orchard_trees c)"
    "below ?h (history_trees_by_height c)" using assms(1) by (simp_all add: trees_below_def)
  let ?a = "sprout_root lib (nct_sprout nct)"
  define m where "m = (if ?a \<in># anchors (sprout_trees c)
    then Mapping.update ?a (nct_sprout nct) (sprout_trees_by_anchor c)
    else Mapping.delete ?a (Mapping.update ?a (nct_sprout nct) (sprout_trees_by_anchor c)))"
  have tip: "tip \<le> ?h" if "max_block_height d = Some tip" "blocks d = blocks c" for d tip
    using assms(3) that max_block_height_same by metis
  define c1 where "c1 = c'\<lparr>sprout_trees := sprout_trees c, sprout_trees_by_anchor := m\<rparr>"
  define c2 where "c2 = c1\<lparr>sapling_trees := sapling_trees c\<rparr>"
  define c3 where "c3 = c2\<lparr>orchard_trees := orchard_trees c\<rparr>"
  have "remove_sprout_tree_and_anchor Tip ?h c' = Some c1"
    using remove_sprout_tip [of ?h c', OF _ tip] remove_added_anchor [OF o(1) p(1)] p(4)
    by (simp add: c1_def m_def)
  moreover have "remove_sapling_tree_and_anchor Tip ?h c1 = Some c2"
    using remove_pool_tip(1) [of c1 ?h, OF tip] remove_added_anchor [OF o(2) p(2)] p(4) by (simp add: c1_def c2_def)
  moreover have "remove_orchard_tree_and_anchor Tip ?h c2 = Some c3"
    using remove_pool_tip(2) [of c2 ?h, OF tip] remove_added_anchor [OF o(3) p(3)] p(4) by (simp add: c1_def c2_def c3_def)
  moreover have "remove_history_tree Tip ?h c3 = Some (c\<lparr>sprout_trees_by_anchor := m,
      sapling_subtrees := insert_subtree (nct_sapling_subtree nct) (sapling_subtrees c),
      orchard_subtrees := insert_subtree (nct_orchard_subtree nct) (orchard_subtrees c)\<rparr>)"
    using o(4) by (simp add: remove_history_tree_def c3_def c2_def c1_def p(4) btree_insert_above map_of_last delete_last rassert_def)
  ultimately have "remove_trees Tip ?h c' = Some (c\<lparr>sprout_trees_by_anchor := m,
      sapling_subtrees := insert_subtree (nct_sapling_subtree nct) (sapling_subtrees c),
      orchard_subtrees := insert_subtree (nct_orchard_subtree nct) (orchard_subtrees c)\<rparr>)"
    by (simp add: remove_trees_def)
  moreover have "map_option (sprout_root lib) (Mapping.lookup m a) =
      map_option (sprout_root lib) (Mapping.lookup (sprout_trees_by_anchor c) a)" for a
    by (rule anchor_index_revert [OF assms(1) refl m_def])
  moreover have "\<exists>t. sprout_note_commitment_tree_for_tip c' = Some t \<and> sprout_root lib t = ?a"
    "\<exists>t. sapling_note_commitment_tree_for_tip c' = Some t \<and> sapling_root lib t = sapling_root lib (nct_sapling nct)"
    "\<exists>t. orchard_note_commitment_tree_for_tip c' = Some t \<and> orchard_root lib t = orchard_root lib (nct_orchard nct)"
    using tip_root [OF o(1) p(1)] tip_root [OF o(2) p(2)] tip_root [OF o(3) p(3)]
    by (simp_all add: p(4) sprout_note_commitment_tree_for_tip_def sapling_note_commitment_tree_for_tip_def
        orchard_note_commitment_tree_for_tip_def)
  ultimately show ?thesis by auto
qed

definition sample_lib :: TreeLib where
  "sample_lib = \<lparr>sprout_append = (\<lambda>t n. Some (t @ n)), sprout_root = id, sapling_append = (\<lambda>t n. Some (t @ n)),
     sapling_root = id, sapling_completed_subtree = (\<lambda>t. if length t = 2 then Some (0, t) else None),
     orchard_append = (\<lambda>t n. Some (t @ n)), orchard_root = id, orchard_completed_subtree = (\<lambda>t. None),
     empty_sprout = [], empty_sapling = [], empty_orchard = [], empty_history = [],
     history_hash = (\<lambda>t. if t = [] then None else Some t), sapling_root_valid = (\<lambda>b. True),
     auth_data_root = (\<lambda>txs. []), commitment_hash = (\<lambda>r a. r @ a),
     history_push = (\<lambda>net t b r s. Some (t @ [7]))\<rparr>"

definition sample_tree_block :: ContextuallyVerifiedBlock where
  "sample_tree_block = \<lparr>cv_header =
       \<lparr>header_version = 5, header_previous = [], header_merkle_root = [],
         header_commitment = [], header_time = 0, header_threshold = 0x1f07ffff,
         header_nonce = [], header_solution = [], header_fat_pointer = FatPointer_null\<rparr>,
     cv_transactions =
       [V5 [Coinbase 9] [] (Some \<lparr>nullifiers = [], note_commitments = [[7]], spend_anchors = [], shared_anchor = [], shielded_value = 0\<rparr>) None],
     cv_hash = [7], cv_height = 9, cv_new_outputs = Mapping.empty,
     cv_spent_outputs = Mapping.empty, cv_transaction_hashes = [[1]], cv_chain_value_pool_change = vb_zero, cv_size = 100\<rparr>"

definition sample_trees :: NoteCommitmentTrees where
  "sample_trees = \<lparr>nct_sprout = [1], nct_sapling = [2, 7], nct_sapling_subtree = Some (0, 9, [2, 7]),
     nct_orchard = [3], nct_orchard_subtree = None\<rparr>"

definition sample_tree_chain :: Chain where
  "sample_tree_chain = the (Chain_new sample_lib Mainnet 8 [1] [2] [3] [4] vb_zero [])"

lemmas tree_run_simps = sample_tree_chain_def sample_trees_def sample_tree_block_def sample_lib_def Chain_new_def
  empty_chain_def no_trees_def add_sprout_tree_and_anchor_def add_sapling_tree_and_anchor_def
  add_orchard_tree_and_anchor_def add_history_tree_def add_pool_tree_def is_new_tree_def height_previous_def
  HEIGHT_MAX_def rassert_def btree_at_most_def

lemma sample_tree_run:
  "update_trees_parallel sample_lib (cv_transactions sample_tree_block)
     \<lparr>nct_sprout = [1], nct_sapling = [2], nct_sapling_subtree = None, nct_orchard = [3], nct_orchard_subtree = None\<rparr> =
     ok sample_trees"
  "trees_below sample_lib 9 sample_tree_chain" "max_block_height sample_tree_chain = None"
  "\<exists>c'. add_trees sample_lib sample_tree_block sample_trees sample_tree_chain = ok c'"
  by (simp_all add: tree_run_simps update_trees_parallel_def coinbase_height_def commitments_of_def
      update_sapling_note_commitment_tree_def new_subtree_def trees_below_def pool_below_def below_def lookup_update'
      max_block_height_def add_trees_def sapling_note_commitment_tree_for_tip_def orchard_note_commitment_tree_for_tip_def
      history_block_commitment_tree_def btree_last_def)

theorem tip_trees_revert_witness:
  "\<exists>c' m. add_trees sample_lib sample_tree_block sample_trees sample_tree_chain = ok c' \<and>
     remove_trees Tip 9 c' = Some (sample_tree_chain\<lparr>sprout_trees_by_anchor := m, sapling_subtrees := [(0, 9, [2, 7])]\<rparr>)"
proof -
  obtain c' where c': "add_trees sample_lib sample_tree_block sample_trees sample_tree_chain = ok c'"
    using sample_tree_run(4) by blast
  have h: "cv_height sample_tree_block = 9" by (simp add: sample_tree_block_def)
  obtain m where "remove_trees Tip 9 c' = Some (sample_tree_chain\<lparr>sprout_trees_by_anchor := m,
      sapling_subtrees := insert_subtree (nct_sapling_subtree sample_trees) (sapling_subtrees sample_tree_chain),
      orchard_subtrees := insert_subtree (nct_orchard_subtree sample_trees) (orchard_subtrees sample_tree_chain)\<rparr>)"
    using tip_trees_revert [of sample_lib sample_tree_block sample_tree_chain sample_trees c'] c' sample_tree_run(2,3)
    unfolding h by auto
  with c' show ?thesis by (auto simp: tree_run_simps insert_subtree_def)
qed

end
