(* ===== verification/Zebra_Db.thy ===== *)
theory Zebra_Db
  imports Chain_Trees
begin

text \<open>
  The finalized state: the column families of the database, the reads of
  \<^verbatim>\<open>zebra-state/src/service/finalized_state/zebra_db\<close> (\<^verbatim>\<open>block.rs\<close>, \<^verbatim>\<open>shielded.rs\<close>, \<^verbatim>\<open>transparent.rs\<close>,
  \<^verbatim>\<open>chain.rs\<close>). The write batches are in the theory of the finalized state.

  \<^item> A column that is read in key order is an association list in ascending key order, the others are
    mappings or sets. A column with the single key \<^verbatim>\<open>()\<close> is an option.
  \<^item> The value of a nullifier is left out, and so is the optional index of spending transactions.
\<close>

section \<open>Definitions\<close>

subsection \<open>Columns\<close>

text \<open>
  The balance of an address, or a change of it: the sum of its unspent outputs, the sum of all its
  outputs, and the location of its first output, by which the other columns refer to the address.
\<close>

record AddressBalance =
  ab_balance :: amount
  ab_received :: u64
  ab_location :: OutputLocation

record ZebraDb =
  db_network :: Network
  hash_by_height :: "(u32 \<times> bytes) list"
  db_height_by_hash :: "(bytes, u32) mapping"
  block_header_by_height :: "(u32, Header) mapping"
  tx_by_loc :: "(TransactionLocation \<times> Transaction) list"
  hash_by_tx_loc :: "(TransactionLocation, bytes) mapping"
  db_tx_loc_by_hash :: "(bytes, TransactionLocation) mapping"
  utxo_by_out_loc :: "(OutputLocation, TxOutput) mapping"
  balance_by_transparent_addr :: "(bytes, AddressBalance) mapping"
  utxo_loc_by_transparent_addr_loc :: "(OutputLocation \<times> OutputLocation) set"
  tx_loc_by_transparent_addr_loc :: "(OutputLocation \<times> TransactionLocation) set"
  db_sprout_nullifiers :: "bytes set"
  db_sapling_nullifiers :: "bytes set"
  db_orchard_nullifiers :: "bytes set"
  db_sprout_anchors :: "(bytes, tree) mapping"
  db_sprout_tree :: "tree option"
  db_sapling_anchors :: "bytes set"
  db_sapling_trees :: "(u32 \<times> tree) list"
  db_sapling_subtrees :: "(u16 \<times> u32 \<times> bytes) list"
  db_orchard_anchors :: "bytes set"
  db_orchard_trees :: "(u32 \<times> tree) list"
  db_orchard_subtrees :: "(u16 \<times> u32 \<times> bytes) list"
  db_history_tree :: "tree option"
  delegation_bond_by_key :: "(BondKey, DelegationBond) mapping"
  bond_status_by_key :: "(BondKey, BondStatus) mapping"
  tip_chain_value_pool :: "ValueBalance option"
  db_block_info :: "(u32, ValueBalance \<times> u32) mapping"

text \<open>A database without data.\<close>

definition new_db :: "Network \<Rightarrow> ZebraDb" where
  "new_db network = \<lparr>db_network = network, hash_by_height = [], db_height_by_hash = Mapping.empty,
     block_header_by_height = Mapping.empty, tx_by_loc = [], hash_by_tx_loc = Mapping.empty,
     db_tx_loc_by_hash = Mapping.empty, utxo_by_out_loc = Mapping.empty,
     balance_by_transparent_addr = Mapping.empty, utxo_loc_by_transparent_addr_loc = {},
     tx_loc_by_transparent_addr_loc = {}, db_sprout_nullifiers = {},
     db_sapling_nullifiers = {}, db_orchard_nullifiers = {}, db_sprout_anchors = Mapping.empty,
     db_sprout_tree = None, db_sapling_anchors = {}, db_sapling_trees = [], db_sapling_subtrees = [],
     db_orchard_anchors = {}, db_orchard_trees = [], db_orchard_subtrees = [], db_history_tree = None,
     delegation_bond_by_key = Mapping.empty, bond_status_by_key = Mapping.empty,
     tip_chain_value_pool = None, db_block_info = Mapping.empty\<rparr>"

subsection \<open>Blocks\<close>

definition GENESIS_PREVIOUS_BLOCK_HASH :: bytes where
  "GENESIS_PREVIOUS_BLOCK_HASH = replicate 32 0"

definition db_is_empty :: "ZebraDb \<Rightarrow> bool" where
  "db_is_empty db \<longleftrightarrow> hash_by_height db = []"

definition db_tip :: "ZebraDb \<Rightarrow> (u32 \<times> bytes) option" where
  "db_tip db = (case rev (hash_by_height db) of [] \<Rightarrow> None | t # _ \<Rightarrow> Some t)"

definition contains_height :: "ZebraDb \<Rightarrow> u32 \<Rightarrow> bool" where
  "contains_height db height \<longleftrightarrow> map_of (hash_by_height db) height \<noteq> None"

definition db_hash :: "ZebraDb \<Rightarrow> u32 \<Rightarrow> bytes option" where
  "db_hash db height = map_of (hash_by_height db) height"

definition contains_hash :: "ZebraDb \<Rightarrow> bytes \<Rightarrow> bool" where
  "contains_hash db hash \<longleftrightarrow> Mapping.lookup (db_height_by_hash db) hash \<noteq> None"

definition db_height :: "ZebraDb \<Rightarrow> bytes \<Rightarrow> u32 option" where
  "db_height db hash = Mapping.lookup (db_height_by_hash db) hash"

definition prev_block_hash_for_hash :: "ZebraDb \<Rightarrow> bytes \<Rightarrow> bytes option" where
  "prev_block_hash_for_hash db hash = do {
     height \<leftarrow> db_height db hash;
     prev_height \<leftarrow> height_previous height;
     db_hash db prev_height }"

definition prev_block_height_for_hash :: "ZebraDb \<Rightarrow> bytes \<Rightarrow> u32 option" where
  "prev_block_height_for_hash db hash = do {
     height \<leftarrow> db_height db hash;
     height_previous height }"

definition db_height_or_else :: "ZebraDb \<Rightarrow> HashOrHeight \<Rightarrow> u32 option" where
  "db_height_or_else db hash_or_height = (case hash_or_height of
       Hash hash \<Rightarrow> db_height db hash
     | Height height \<Rightarrow> Some height)"

definition block_header :: "ZebraDb \<Rightarrow> HashOrHeight \<Rightarrow> Header option" where
  "block_header db hash_or_height = do {
     height \<leftarrow> db_height_or_else db hash_or_height;
     Mapping.lookup (block_header_by_height db) height }"

definition transactions_by_location_range ::
  "ZebraDb \<Rightarrow> TransactionLocation \<Rightarrow> TransactionLocation \<Rightarrow> (TransactionLocation \<times> Transaction) list" where
  "transactions_by_location_range db lo hi = filter (\<lambda>(l, _). lo \<le> l \<and> l \<le> hi) (tx_by_loc db)"

definition transactions_by_height :: "ZebraDb \<Rightarrow> u32 \<Rightarrow> (TransactionLocation \<times> Transaction) list" where
  "transactions_by_height db height =
     transactions_by_location_range db (min_for_height height) (max_for_height height)"

definition db_block :: "ZebraDb \<Rightarrow> HashOrHeight \<Rightarrow> (Header \<times> Transaction list) option" where
  "db_block db hash_or_height = do {
     height \<leftarrow> db_height_or_else db hash_or_height;
     header \<leftarrow> block_header db (Height height);
     Some (header, map snd (transactions_by_height db height)) }"

definition finalized_tip_hash :: "ZebraDb \<Rightarrow> bytes" where
  "finalized_tip_hash db = (case db_tip db of None \<Rightarrow> GENESIS_PREVIOUS_BLOCK_HASH | Some (_, hash) \<Rightarrow> hash)"

definition finalized_tip_height :: "ZebraDb \<Rightarrow> u32 option" where
  "finalized_tip_height db = map_option fst (db_tip db)"

definition db_tip_block :: "ZebraDb \<Rightarrow> (Header \<times> Transaction list) option" where
  "db_tip_block db = do {
     (height, _) \<leftarrow> db_tip db;
     db_block db (Height height) }"

definition db_transaction_location :: "ZebraDb \<Rightarrow> bytes \<Rightarrow> TransactionLocation option" where
  "db_transaction_location db hash = Mapping.lookup (db_tx_loc_by_hash db) hash"

definition db_transaction_hash :: "ZebraDb \<Rightarrow> TransactionLocation \<Rightarrow> bytes option" where
  "db_transaction_hash db location = Mapping.lookup (hash_by_tx_loc db) location"

definition db_transaction :: "ZebraDb \<Rightarrow> bytes \<Rightarrow> (Transaction \<times> u32 \<times> int) option" where
  "db_transaction db hash = do {
     location \<leftarrow> db_transaction_location db hash;
     let block_time = map_option header_time (block_header db (Height (tl_height location)));
     tx \<leftarrow> map_of (tx_by_loc db) location;
     map_option (\<lambda>time. (tx, tl_height location, time)) block_time }"

subsection \<open>Transparent outputs\<close>

definition output_location :: "ZebraDb \<Rightarrow> outpoint \<Rightarrow> OutputLocation option" where
  "output_location db p = map_option (\<lambda>l. (l, snd p)) (db_transaction_location db (fst p))"

definition OrderedUtxo_new :: "TxOutput \<Rightarrow> u32 \<Rightarrow> nat \<Rightarrow> OrderedUtxo" where
  "OrderedUtxo_new output height tx_index =
     \<lparr>utxo_output = output, utxo_height = height, utxo_from_coinbase = (tx_index = 0), tx_index_in_block = tx_index\<rparr>"

definition utxo_by_location :: "ZebraDb \<Rightarrow> OutputLocation \<Rightarrow> OrderedUtxo option" where
  "utxo_by_location db l = map_option
     (\<lambda>output. OrderedUtxo_new output (tl_height (fst l)) (TransactionIndex_as_usize (tl_index (fst l))))
     (Mapping.lookup (utxo_by_out_loc db) l)"

definition db_utxo :: "ZebraDb \<Rightarrow> outpoint \<Rightarrow> OrderedUtxo option" where
  "db_utxo db p = do {
     l \<leftarrow> output_location db p;
     utxo_by_location db l }"

subsection \<open>Shielded data\<close>

fun tx_sprout_nullifiers :: "Transaction \<Rightarrow> bytes list" where
  "tx_sprout_nullifiers (V2 _ _ j) = (case j of None \<Rightarrow> [] | Some d \<Rightarrow> joinsplit_nullifiers d)"
| "tx_sprout_nullifiers (V3 _ _ j) = (case j of None \<Rightarrow> [] | Some d \<Rightarrow> joinsplit_nullifiers d)"
| "tx_sprout_nullifiers (V4 _ _ j _) = (case j of None \<Rightarrow> [] | Some d \<Rightarrow> joinsplit_nullifiers d)"
| "tx_sprout_nullifiers _ = []"

fun tx_sapling_nullifiers :: "Transaction \<Rightarrow> bytes list" where
  "tx_sapling_nullifiers (V4 _ _ _ s) = (case s of None \<Rightarrow> [] | Some d \<Rightarrow> nullifiers d)"
| "tx_sapling_nullifiers (V5 _ _ s _) = (case s of None \<Rightarrow> [] | Some d \<Rightarrow> nullifiers d)"
| "tx_sapling_nullifiers (VCrosslink _ _ s _ _) = (case s of None \<Rightarrow> [] | Some d \<Rightarrow> nullifiers d)"
| "tx_sapling_nullifiers _ = []"

fun tx_orchard_nullifiers :: "Transaction \<Rightarrow> bytes list" where
  "tx_orchard_nullifiers (V5 _ _ _ r) = (case r of None \<Rightarrow> [] | Some d \<Rightarrow> nullifiers d)"
| "tx_orchard_nullifiers (VCrosslink _ _ _ r _) = (case r of None \<Rightarrow> [] | Some d \<Rightarrow> nullifiers d)"
| "tx_orchard_nullifiers _ = []"

definition contains_sprout_nullifier :: "ZebraDb \<Rightarrow> bytes \<Rightarrow> bool" where
  "contains_sprout_nullifier db n \<longleftrightarrow> n \<in> db_sprout_nullifiers db"

definition contains_sapling_nullifier :: "ZebraDb \<Rightarrow> bytes \<Rightarrow> bool" where
  "contains_sapling_nullifier db n \<longleftrightarrow> n \<in> db_sapling_nullifiers db"

definition contains_orchard_nullifier :: "ZebraDb \<Rightarrow> bytes \<Rightarrow> bool" where
  "contains_orchard_nullifier db n \<longleftrightarrow> n \<in> db_orchard_nullifiers db"

definition contains_sprout_anchor :: "ZebraDb \<Rightarrow> bytes \<Rightarrow> bool" where
  "contains_sprout_anchor db a \<longleftrightarrow> Mapping.lookup (db_sprout_anchors db) a \<noteq> None"

definition contains_sapling_anchor :: "ZebraDb \<Rightarrow> bytes \<Rightarrow> bool" where
  "contains_sapling_anchor db a \<longleftrightarrow> a \<in> db_sapling_anchors db"

definition contains_orchard_anchor :: "ZebraDb \<Rightarrow> bytes \<Rightarrow> bool" where
  "contains_orchard_anchor db a \<longleftrightarrow> a \<in> db_orchard_anchors db"

definition sprout_tree_for_tip :: "TreeLib \<Rightarrow> ZebraDb \<Rightarrow> tree rust" where
  "sprout_tree_for_tip lib db = (if db_is_empty db then Some (empty_sprout lib) else db_sprout_tree db)"

definition sprout_tree_by_anchor :: "ZebraDb \<Rightarrow> bytes \<Rightarrow> tree option" where
  "sprout_tree_by_anchor db a = Mapping.lookup (db_sprout_anchors db) a"

text \<open>The tree of a height is the last one written at or below it.\<close>

definition tree_by_height :: "(u32 \<times> tree) list \<Rightarrow> ZebraDb \<Rightarrow> u32 \<Rightarrow> tree option rust" where
  "tree_by_height trees db height = (case finalized_tip_height db of
       None \<Rightarrow> Some None
     | Some tip_height \<Rightarrow>
         if height > tip_height then Some None else map_option Some (btree_at_most height trees))"

definition sapling_tree_by_height :: "ZebraDb \<Rightarrow> u32 \<Rightarrow> tree option rust" where
  "sapling_tree_by_height db height = tree_by_height (db_sapling_trees db) db height"

definition orchard_tree_by_height :: "ZebraDb \<Rightarrow> u32 \<Rightarrow> tree option rust" where
  "orchard_tree_by_height db height = tree_by_height (db_orchard_trees db) db height"

definition sapling_tree_for_tip :: "TreeLib \<Rightarrow> ZebraDb \<Rightarrow> tree rust" where
  "sapling_tree_for_tip lib db = (case finalized_tip_height db of
       None \<Rightarrow> Some (empty_sapling lib)
     | Some height \<Rightarrow> do { t \<leftarrow> sapling_tree_by_height db height; t })"

definition orchard_tree_for_tip :: "TreeLib \<Rightarrow> ZebraDb \<Rightarrow> tree rust" where
  "orchard_tree_for_tip lib db = (case finalized_tip_height db of
       None \<Rightarrow> Some (empty_orchard lib)
     | Some height \<Rightarrow> do { t \<leftarrow> orchard_tree_by_height db height; t })"

text \<open>The last subtree, if the tip completes it.\<close>

definition db_subtree_for_tip :: "subtree list \<Rightarrow> ZebraDb \<Rightarrow> subtree option" where
  "db_subtree_for_tip subtrees db = (case rev subtrees of
       [] \<Rightarrow> None
     | (i, end_height, root) # _ \<Rightarrow> do {
         tip_height \<leftarrow> finalized_tip_height db;
         if end_height \<noteq> tip_height then None else Some (i, end_height, root) })"

definition note_commitment_trees_for_tip :: "TreeLib \<Rightarrow> ZebraDb \<Rightarrow> NoteCommitmentTrees rust" where
  "note_commitment_trees_for_tip lib db = do {
     sprout_t \<leftarrow> sprout_tree_for_tip lib db;
     sapling_t \<leftarrow> sapling_tree_for_tip lib db;
     orchard_t \<leftarrow> orchard_tree_for_tip lib db;
     Some \<lparr>nct_sprout = sprout_t, nct_sapling = sapling_t,
       nct_sapling_subtree = db_subtree_for_tip (db_sapling_subtrees db) db,
       nct_orchard = orchard_t, nct_orchard_subtree = db_subtree_for_tip (db_orchard_subtrees db) db\<rparr> }"

subsection \<open>History tree and value pools\<close>

definition finalized_history_tree :: "TreeLib \<Rightarrow> ZebraDb \<Rightarrow> tree" where
  "finalized_history_tree lib db = (case db_history_tree db of None \<Rightarrow> empty_history lib | Some t \<Rightarrow> t)"

definition finalized_value_pool :: "ZebraDb \<Rightarrow> ValueBalance" where
  "finalized_value_pool db = (case tip_chain_value_pool db of None \<Rightarrow> vb_zero | Some v \<Rightarrow> v)"

definition db_block_info_at :: "ZebraDb \<Rightarrow> HashOrHeight \<Rightarrow> (ValueBalance \<times> u32) option" where
  "db_block_info_at db hash_or_height = do {
     height \<leftarrow> db_height_or_else db hash_or_height;
     Mapping.lookup (db_block_info db) height }"

end
