(* ===== verification/Bonds.thy ===== *)
theory Bonds
  imports Zebra_Db
begin

text \<open>
  Delegation bonds of the non-finalized state: the contextual checks of
  \<^verbatim>\<open>zebra-state/src/service/check/delegation.rs\<close>, the reads of
  \<^verbatim>\<open>zebra-state/src/service/finalized_state/zebra_db/delegation.rs\<close> they use, and the update, the
  revert and the rewards of bonds in \<^verbatim>\<open>zebra-state/src/service/non_finalized_state/chain.rs\<close>.
\<close>

section \<open>Definitions\<close>

subsection \<open>Finalized bonds\<close>

definition delegation_bond :: "ZebraDb \<Rightarrow> BondKey \<Rightarrow> DelegationBond option" where
  "delegation_bond db bond_key = Mapping.lookup (delegation_bond_by_key db) bond_key"

definition bond_status :: "ZebraDb \<Rightarrow> BondKey \<Rightarrow> BondStatus option" where
  "bond_status db bond_key = Mapping.lookup (bond_status_by_key db) bond_key"

definition delegation_bond_with_status :: "ZebraDb \<Rightarrow> BondKey \<Rightarrow> (DelegationBond \<times> BondStatus) option" where
  "delegation_bond_with_status db bond_key = do {
     bond \<leftarrow> delegation_bond db bond_key;
     status \<leftarrow> bond_status db bond_key;
     Some (bond, status) }"

definition is_bond_active :: "ZebraDb \<Rightarrow> BondKey \<Rightarrow> bool" where
  "is_bond_active db bond_key = (case bond_status db bond_key of Some status \<Rightarrow> is_active status | None \<Rightarrow> False)"

text \<open>The status column is read in key order.\<close>

definition all_bonds :: "ZebraDb \<Rightarrow> (BondKey \<times> DelegationBond \<times> BondStatus) list" where
  "all_bonds db = List.map_filter
     (\<lambda>key. do { status \<leftarrow> bond_status db key; bond \<leftarrow> delegation_bond db key; Some (key, bond, status) })
     (Mapping.ordered_keys (bond_status_by_key db))"

definition active_bonds :: "ZebraDb \<Rightarrow> (BondKey \<times> DelegationBond) list" where
  "active_bonds db =
     map (\<lambda>(key, bond, status). (key, bond)) (filter (\<lambda>(key, bond, status). is_active status) (all_bonds db))"

definition active_bond_count :: "ZebraDb \<Rightarrow> nat" where
  "active_bond_count db = length (active_bonds db)"

subsection \<open>Validation\<close>

definition validate_create_new_bond ::
  "BondKey \<Rightarrow> (BondKey \<times> DelegationBond) list \<Rightarrow> Chain \<Rightarrow> ZebraDb \<Rightarrow> (ValidateContextError, unit) result" where
  "validate_create_new_bond bond_key block_new_bonds chain db =
     (if map_of block_new_bonds bond_key \<noteq> None
      then err (InvalidDelegationBond ''duplicate delegation bond in block'')
      else if map_of (delegation_bonds chain) bond_key \<noteq> None
      then err (InvalidDelegationBond ''delegation bond already exists'')
      else if delegation_bond db bond_key \<noteq> None
      then err (InvalidDelegationBond ''delegation bond already exists in finalized state'')
      else ok ())"

definition validate_bond_for_unbonding ::
  "BondKey \<Rightarrow> (BondKey \<times> DelegationBond) list \<Rightarrow> BondKey list \<Rightarrow> Chain \<Rightarrow> ZebraDb \<Rightarrow>
    (ValidateContextError, unit) result" where
  "validate_bond_for_unbonding bond_key block_new_bonds block_unbonding_bonds chain db =
     (if bond_key \<in> set block_unbonding_bonds
      then err (InvalidDelegationBond ''delegation bond already unbonding in block'')
      else if map_of block_new_bonds bond_key \<noteq> None then ok ()
      else case map_of (delegation_bonds chain) bond_key of
        Some (_, status) \<Rightarrow> (case status of
            ChainActive \<Rightarrow> ok ()
          | ChainUnbonding \<Rightarrow> err (InvalidDelegationBond ''delegation bond is already unbonding'')
          | ChainWithdrawn \<Rightarrow> err (InvalidDelegationBond ''delegation bond is already withdrawn''))
      | None \<Rightarrow>
          if delegation_bond db bond_key \<noteq> None then
            (if is_bond_active db bond_key then ok ()
             else err (InvalidDelegationBond ''delegation bond is not active''))
          else err (InvalidDelegationBond ''delegation bond not found''))"

definition validate_bond_for_withdrawal ::
  "BondKey \<Rightarrow> u64 \<Rightarrow> Chain \<Rightarrow> (ValidateContextError, unit) result" where
  "validate_bond_for_withdrawal bond_key withdrawal_amount chain =
     (case map_of (delegation_bonds chain) bond_key of
        Some (bond, status) \<Rightarrow> (case status of
            ChainUnbonding \<Rightarrow> do {
              bond_amount \<leftarrow> amount_into_u64 (bond_amount bond);
              if withdrawal_amount \<noteq> bond_amount
              then err (InvalidDelegationBond ''withdrawal amount does not match bond amount'')
              else ok () }
          | ChainActive \<Rightarrow> err (InvalidDelegationBond ''delegation bond must be unbonded before withdrawal'')
          | ChainWithdrawn \<Rightarrow> err (InvalidDelegationBond ''delegation bond is already withdrawn''))
      | None \<Rightarrow> err (InvalidDelegationBond ''delegation bond not found''))"

definition validate_bond_for_retarget ::
  "BondKey \<Rightarrow> (BondKey \<times> DelegationBond) list \<Rightarrow> Chain \<Rightarrow> ZebraDb \<Rightarrow> (ValidateContextError, unit) result" where
  "validate_bond_for_retarget bond_key block_new_bonds chain db =
     (if map_of block_new_bonds bond_key \<noteq> None then ok ()
      else case map_of (delegation_bonds chain) bond_key of
        Some (_, status) \<Rightarrow> (case status of
            ChainActive \<Rightarrow> ok ()
          | ChainUnbonding \<Rightarrow> err (InvalidDelegationBond ''cannot retarget unbonding delegation bond'')
          | ChainWithdrawn \<Rightarrow> err (InvalidDelegationBond ''cannot retarget withdrawn delegation bond''))
      | None \<Rightarrow>
          if delegation_bond db bond_key \<noteq> None then
            (if is_bond_active db bond_key then ok ()
             else err (InvalidDelegationBond ''cannot retarget delegation bond that is not active''))
          else err (InvalidDelegationBond ''delegation bond not found for retarget''))"

text \<open>The loop over the transactions, with the bonds created and the bonds unbonded so far.\<close>

definition validate_staking_action ::
  "u32 \<Rightarrow> Chain \<Rightarrow> ZebraDb \<Rightarrow> StakingAction \<Rightarrow> (BondKey \<times> DelegationBond) list \<times> BondKey list \<Rightarrow>
    (ValidateContextError, (BondKey \<times> DelegationBond) list \<times> BondKey list) result" where
  "validate_staking_action height chain db a = (\<lambda>(block_new_bonds, block_unbonding_bonds).
     let bond_key = arg32_0 a in
     case sa_kind a of
       CreateNewDelegationBond \<Rightarrow>
         tryr (validate_create_new_bond bond_key block_new_bonds chain db) (\<lambda>_.
         tryr (map_err (\<lambda>_. InvalidDelegationBond ''invalid bond amount'')
             (amount_try_from_u64 NonNegative (amount_zats a))) (\<lambda>amount. do {
           location \<leftarrow> TransactionLocation_from_usize height 0;
           ok (AList.update bond_key
                 \<lparr>bond_amount = amount, target_finalizer = arg32_2 a, created_at = location\<rparr> block_new_bonds,
               block_unbonding_bonds) }))
     | BeginDelegationUnbonding \<Rightarrow>
         tryr (validate_bond_for_unbonding bond_key block_new_bonds block_unbonding_bonds chain db) (\<lambda>_.
           ok (block_new_bonds, List.insert bond_key block_unbonding_bonds))
     | WithdrawDelegationBond \<Rightarrow>
         tryr (validate_bond_for_withdrawal bond_key (amount_zats a) chain) (\<lambda>_.
           ok (block_new_bonds, block_unbonding_bonds))
     | RetargetDelegationBond \<Rightarrow>
         tryr (validate_bond_for_retarget bond_key block_new_bonds chain db) (\<lambda>_.
           ok (block_new_bonds, block_unbonding_bonds))
     | _ \<Rightarrow> ok (block_new_bonds, block_unbonding_bonds))"

fun validate_loop ::
  "u32 \<Rightarrow> Chain \<Rightarrow> ZebraDb \<Rightarrow> Transaction list \<Rightarrow> (BondKey \<times> DelegationBond) list \<times> BondKey list \<Rightarrow>
    (ValidateContextError, (BondKey \<times> DelegationBond) list \<times> BondKey list) result" where
  "validate_loop height chain db [] seen = ok seen"
| "validate_loop height chain db (transaction # txs) seen =
     (case staking_action transaction of
        Some a \<Rightarrow> tryr (validate_staking_action height chain db a seen) (validate_loop height chain db txs)
      | None \<Rightarrow> validate_loop height chain db txs seen)"

definition validate_delegation_bonds ::
  "u32 \<Rightarrow> Transaction list \<Rightarrow> Chain \<Rightarrow> ZebraDb \<Rightarrow> (ValidateContextError, unit) result" where
  "validate_delegation_bonds height transactions chain db =
     tryr (validate_loop height chain db transactions ([], [])) (\<lambda>_. ok ())"

subsection \<open>Applying a staking action\<close>

abbreviation bonded :: "Chain \<Rightarrow> amount" where "bonded c \<equiv> staking_bonded (chain_value_pools c)"
abbreviation unbonded :: "Chain \<Rightarrow> amount" where "unbonded c \<equiv> staking_unbonded (chain_value_pools c)"

definition set_bonded :: "amount \<Rightarrow> Chain \<Rightarrow> Chain" where
  "set_bonded a c = c\<lparr>chain_value_pools := (chain_value_pools c)\<lparr>staking_bonded := a\<rparr>\<rparr>"

definition set_unbonded :: "amount \<Rightarrow> Chain \<Rightarrow> Chain" where
  "set_unbonded a c = c\<lparr>chain_value_pools := (chain_value_pools c)\<lparr>staking_unbonded := a\<rparr>\<rparr>"

definition set_bond :: "BondKey \<Rightarrow> DelegationBond \<Rightarrow> BondStatusInChain \<Rightarrow> Chain \<Rightarrow> Chain" where
  "set_bond key bond status c = c\<lparr>delegation_bonds := AList.update key (bond, status) (delegation_bonds c)\<rparr>"

definition record_retarget :: "BondKey \<Rightarrow> bytes \<Rightarrow> (BondKey \<times> bytes) list \<Rightarrow> (BondKey \<times> bytes) list" where
  "record_retarget key old_target retargets =
     (if map_of retargets key = None then AList.update key old_target retargets else retargets)"

definition update_chain_tip_with_delegation_bond ::
  "StakingAction \<Rightarrow> TransactionLocation \<Rightarrow> Chain \<Rightarrow> (ValidateContextError, Chain) result" where
  "update_chain_tip_with_delegation_bond a transaction_location c =
     (let bond_key = arg32_0 a in
      case sa_kind a of
        CreateNewDelegationBond \<Rightarrow> do {
          amount \<leftarrow> expect (amount_try_from_u64 NonNegative (amount_zats a));
          rassert (map_of (delegation_bonds c) bond_key = None);
          ok (set_bond bond_key \<lparr>bond_amount = amount, target_finalizer = arg32_2 a,
                created_at = transaction_location\<rparr> ChainActive c) }
      | BeginDelegationUnbonding \<Rightarrow> do {
          (bond, _) \<leftarrow> map_of (delegation_bonds c) bond_key;
          let c = set_bond bond_key (bond\<lparr>created_at := transaction_location\<rparr>) ChainUnbonding c;
          tryr (map_err (\<lambda>_. InvalidDelegationBond ''staking_bonded pool underflow when unbonding'')
              (amount_sub NonNegative (bonded c) (bond_amount bond))) (\<lambda>new_bonded.
            let c = set_bonded new_bonded c in
            tryr (map_err (\<lambda>_. InvalidDelegationBond ''staking_unbonded pool overflow when unbonding'')
                (amount_add NonNegative (unbonded c) (bond_amount bond))) (\<lambda>new_unbonded.
              ok (set_unbonded new_unbonded c))) }
      | WithdrawDelegationBond \<Rightarrow> do {
          (bond, _) \<leftarrow> map_of (delegation_bonds c) bond_key;
          ok (set_bond bond_key (bond\<lparr>created_at := transaction_location\<rparr>) ChainWithdrawn c) }
      | RetargetDelegationBond \<Rightarrow> do {
          (bond, status) \<leftarrow> map_of (delegation_bonds c) bond_key;
          rassert (bond_retargets c \<noteq> []);
          let c = c\<lparr>bond_retargets := butlast (bond_retargets c) @
                [record_retarget bond_key (target_finalizer bond) (last (bond_retargets c))]\<rparr>;
          ok (set_bond bond_key (bond\<lparr>target_finalizer := arg32_2 a\<rparr>) status c) }
      | _ \<Rightarrow> ok c)"

subsection \<open>Reverting a staking action\<close>

definition revert_delegation_bond :: "StakingAction \<Rightarrow> RevertPosition \<Rightarrow> Chain \<Rightarrow> Chain rust" where
  "revert_delegation_bond a pos c =
     (if pos = Root then Some c
      else let bond_key = arg32_0 a in
      case sa_kind a of
        CreateNewDelegationBond \<Rightarrow> do {
          rassert (map_of (delegation_bonds c) bond_key \<noteq> None);
          Some (c\<lparr>delegation_bonds := AList.delete bond_key (delegation_bonds c)\<rparr>) }
      | BeginDelegationUnbonding \<Rightarrow> do {
          (bond, status) \<leftarrow> map_of (delegation_bonds c) bond_key;
          rassert (status = ChainUnbonding);
          let c = set_bond bond_key bond ChainActive c;
          new_bonded \<leftarrow> expect (amount_add NonNegative (bonded c) (bond_amount bond));
          let c = set_bonded new_bonded c;
          new_unbonded \<leftarrow> expect (amount_sub NonNegative (unbonded c) (bond_amount bond));
          Some (set_unbonded new_unbonded c) }
      | WithdrawDelegationBond \<Rightarrow> do {
          (bond, status) \<leftarrow> map_of (delegation_bonds c) bond_key;
          rassert (status = ChainWithdrawn);
          Some (set_bond bond_key bond ChainUnbonding c) }
      | _ \<Rightarrow> Some c)"

subsection \<open>Rewards\<close>

definition zats :: "amount \<Rightarrow> u64" where "zats a = word_of_int a"

text \<open>The largest active bond, the smallest key among equals, and the total stake.\<close>

fun max_staker_loop :: "bonds \<Rightarrow> BondKey \<times> u64 \<times> u64 \<Rightarrow> (BondKey \<times> u64 \<times> u64) rust" where
  "max_staker_loop [] best = Some best"
| "max_staker_loop ((key, (bond, status)) # rest) (max_staker, biggest, total_staked_zats) = do {
     total_staked_zats \<leftarrow> checked_add total_staked_zats (zats (bond_amount bond));
     if zats (bond_amount bond) > biggest \<or> zats (bond_amount bond) = biggest \<and> key < max_staker
     then max_staker_loop rest (key, zats (bond_amount bond), total_staked_zats)
     else max_staker_loop rest (max_staker, biggest, total_staked_zats) }"

definition find_max_staker :: "bonds \<Rightarrow> (BondKey \<times> u64) rust" where
  "find_max_staker bonds = (case filter (\<lambda>(_, (_, status)). status = ChainActive) bonds of
       [] \<Rightarrow> None
     | (key, (bond, _)) # rest \<Rightarrow> do {
         (max_staker, _, staked) \<leftarrow>
           max_staker_loop rest (key, zats (bond_amount bond), zats (bond_amount bond));
         Some (max_staker, staked) })"

definition BOND_REWARD_TOTAL :: u64 where "BOND_REWARD_TOTAL = 500000000"

definition add_reward :: "DelegationBond \<Rightarrow> u64 \<Rightarrow> DelegationBond rust" where
  "add_reward bond reward = do {
     r \<leftarrow> amount_new (sint reward);
     amount \<leftarrow> expect (amount_add NonNegative (bond_amount bond) r);
     Some (bond\<lparr>bond_amount := amount\<rparr>) }"

definition reward_share :: "u64 \<Rightarrow> DelegationBond \<Rightarrow> u64 rust" where
  "reward_share total_staked_zats bond = do {
     mul \<leftarrow> checked_mul (word_of_int (bond_amount bond) :: 128 word) (ucast BOND_REWARD_TOTAL);
     rassert (total_staked_zats \<noteq> 0);
     Some (ucast (mul div ucast total_staked_zats)) }"

text \<open>The loop over all bonds: the updated bonds, the reward paid so far and the stored rewards.\<close>

fun reward_loop :: "BondKey \<Rightarrow> u64 \<Rightarrow> bonds \<Rightarrow> u64 \<Rightarrow> (bonds \<times> u64 \<times> (BondKey \<times> u64) list) rust" where
  "reward_loop max_staker staked [] so_far = Some ([], so_far, [])"
| "reward_loop max_staker staked ((key, (bond, status)) # rest) so_far =
     (if status = ChainActive \<and> key \<noteq> max_staker then do {
        reward \<leftarrow> reward_share staked bond;
        so_far \<leftarrow> checked_add so_far reward;
        bond \<leftarrow> add_reward bond reward;
        (rest', so_far, store) \<leftarrow> reward_loop max_staker staked rest so_far;
        Some ((key, (bond, status)) # rest', so_far, (key, reward) # store) }
      else do {
        (rest', so_far, store) \<leftarrow> reward_loop max_staker staked rest so_far;
        Some ((key, (bond, status)) # rest', so_far, store) })"

definition distribute_rewards :: "Chain \<Rightarrow> Chain rust" where
  "distribute_rewards c =
     (if list_all (\<lambda>(_, (_, status)). status \<noteq> ChainActive) (delegation_bonds c)
      then Some (c\<lparr>bond_rewards := bond_rewards c @ [[]]\<rparr>)
      else do {
        (max_staker, staked) \<leftarrow> find_max_staker (delegation_bonds c);
        (bonds, so_far_payed_reward, store) \<leftarrow> reward_loop max_staker staked (delegation_bonds c) 0;
        (bond, status) \<leftarrow> map_of bonds max_staker;
        reward \<leftarrow> checked_sub BOND_REWARD_TOTAL so_far_payed_reward;
        bond \<leftarrow> add_reward bond reward;
        let c = c\<lparr>delegation_bonds := AList.update max_staker (bond, status) bonds\<rparr>;
        r \<leftarrow> amount_new (sint BOND_REWARD_TOTAL);
        new_bonded \<leftarrow> expect (amount_add NonNegative (bonded c) r);
        Some ((set_bonded new_bonded c)
          \<lparr>bond_rewards := bond_rewards c @ [store @ [(max_staker, reward)]]\<rparr>) })"

text \<open>Taking the rewards of the tip block back.\<close>

fun revert_rewards_loop :: "(BondKey \<times> u64) list \<Rightarrow> Chain \<Rightarrow> Chain rust" where
  "revert_rewards_loop [] c = Some c"
| "revert_rewards_loop ((bond_key, reward_amount) # rest) c = do {
     (bond, status) \<leftarrow> map_of (delegation_bonds c) bond_key;
     r \<leftarrow> expect (validate NonNegative (sint reward_amount));
     amount \<leftarrow> expect (amount_sub NonNegative (bond_amount bond) r);
     let c = set_bond bond_key (bond\<lparr>bond_amount := amount\<rparr>) status c;
     new_bonded \<leftarrow> expect (amount_sub NonNegative (bonded c) r);
     revert_rewards_loop rest (set_bonded new_bonded c) }"

fun revert_retargets_loop :: "(BondKey \<times> bytes) list \<Rightarrow> Chain \<Rightarrow> Chain rust" where
  "revert_retargets_loop [] c = Some c"
| "revert_retargets_loop ((bond_key, old_target) # rest) c = do {
     (bond, status) \<leftarrow> map_of (delegation_bonds c) bond_key;
     revert_retargets_loop rest (set_bond bond_key (bond\<lparr>target_finalizer := old_target\<rparr>) status c) }"

definition revert_rewards_and_retargets :: "Chain \<Rightarrow> Chain rust" where
  "revert_rewards_and_retargets c = do {
     rassert (bond_rewards c \<noteq> []);
     c \<leftarrow> revert_rewards_loop (last (bond_rewards c)) (c\<lparr>bond_rewards := butlast (bond_rewards c)\<rparr>);
     rassert (bond_retargets c \<noteq> []);
     revert_retargets_loop (last (bond_retargets c)) (c\<lparr>bond_retargets := butlast (bond_retargets c)\<rparr>) }"

end
