(* ===== verification/Bond_Rewards.thy ===== *)
theory Bond_Rewards
  imports Bonds
begin

text \<open>
  The rewards of a block: the code's loops compute the shares of a reference definition over the bonds,
  the shares sum to the reward exactly, and the result does not depend on the order in which the
  hash map is iterated. The totals over bonds that later theories use are defined here.
\<close>

section \<open>Totals over bonds\<close>

fun weight :: "BondStatusInChain \<Rightarrow> DelegationBond \<times> BondStatusInChain \<Rightarrow> int" where
  "weight s0 (b, s) = (if s = s0 then bond_amount b else 0)"

definition total_with :: "BondStatusInChain \<Rightarrow> bonds \<Rightarrow> int" where
  "total_with s bs = (\<Sum>(k, v)\<leftarrow>bs. weight s v)"

definition bonds_ok :: "bonds \<Rightarrow> bool" where
  "bonds_ok bs \<longleftrightarrow> distinct (map fst bs) \<and>
     list_all (\<lambda>(k, (b, s)). amount_ok NonNegative (bond_amount b)) bs"

lemma total_with_simps [simp]:
  "total_with s [] = 0"
  "total_with s ((k, v) # bs) = weight s v + total_with s bs"
  by (simp_all add: total_with_def)

lemma bonds_ok_simps [simp]:
  "bonds_ok []"
  "bonds_ok ((k, (b, s)) # bs) \<longleftrightarrow> k \<notin> fst ` set bs \<and> amount_ok NonNegative (bond_amount b) \<and> bonds_ok bs"
  by (auto simp: bonds_ok_def)

lemma bonds_ok_amount: "bonds_ok bs \<Longrightarrow> map_of bs k = Some (b, s) \<Longrightarrow> amount_ok NonNegative (bond_amount b)"
  by (auto simp: bonds_ok_def list_all_iff dest: map_of_SomeD)

lemma bonds_ok_distinct: "bonds_ok bs \<Longrightarrow> distinct (map fst bs)"
  by (simp add: bonds_ok_def)

lemma keys_update: "fst ` set (AList.update k v bs) = insert k (fst ` set bs)"
  by (induction bs) auto

lemma keys_delete: "fst ` set (AList.delete k bs) = fst ` set bs - {k}"
  by (auto simp: AList.delete_eq)

lemma bonds_ok_update:
  assumes "bonds_ok bs" "amount_ok NonNegative (bond_amount b)"
  shows "bonds_ok (AList.update k (b, s) bs)"
  using assms(1)
proof (induction bs)
  case (Cons x bs)
  then show ?case using assms(2) by (cases x) (auto simp: keys_update simp del: set_map)
qed (use assms(2) in simp)

lemma bonds_ok_delete: "bonds_ok bs \<Longrightarrow> bonds_ok (AList.delete k bs)"
  by (auto simp: bonds_ok_def AList.delete_eq list_all_iff distinct_map_filter)

lemma weight_nonneg: "amount_ok NonNegative (bond_amount b) \<Longrightarrow> 0 \<le> weight s (b, s')"
  by (simp add: amount_ok_simps)

lemma total_nonneg: "bonds_ok bs \<Longrightarrow> 0 \<le> total_with s bs"
  by (induction bs) (auto simp: amount_ok_simps)

lemma total_update:
  assumes "distinct (map fst bs)"
  shows "total_with s (AList.update k v bs) =
     total_with s bs - (case map_of bs k of None \<Rightarrow> 0 | Some v' \<Rightarrow> weight s v') + weight s v"
  using assms
proof (induction bs)
  case (Cons x bs)
  obtain k' v' where "x = (k', v')" by (cases x)
  with Cons show ?case by (cases "k' = k") simp_all
qed simp

lemma delete_absent: "k \<notin> fst ` set bs \<Longrightarrow> AList.delete k bs = bs"
  by (force simp: AList.delete_eq filter_id_conv)

lemma total_delete:
  assumes "distinct (map fst bs)"
  shows "total_with s (AList.delete k bs) =
     total_with s bs - (case map_of bs k of None \<Rightarrow> 0 | Some v' \<Rightarrow> weight s v')"
  using assms
proof (induction bs)
  case (Cons x bs)
  obtain k' v' where "x = (k', v')" by (cases x)
  with Cons show ?case by (cases "k' = k") (simp_all add: delete_absent)
qed simp

lemma weight_le_total:
  "bonds_ok bs \<Longrightarrow> map_of bs k = Some v \<Longrightarrow> weight s v \<le> total_with s bs"
proof (induction bs)
  case (Cons x bs)
  obtain k' b' s' where x: "x = (k', (b', s'))" by (cases x) auto
  have "0 \<le> weight s (b', s')" "0 \<le> total_with s bs"
    using Cons.prems x by (auto intro: total_nonneg simp: amount_ok_simps)
  with Cons x show ?case by (fastforce split: if_splits)
qed simp

lemma total_mset: "mset bs = mset bs' \<Longrightarrow> total_with s bs = total_with s bs'"
  unfolding total_with_def by (metis mset_map sum_mset_sum_list)


section \<open>The largest bond\<close>

lemma unat_zats: "amount_ok NonNegative a \<Longrightarrow> unat (zats a) = nat a"
  by (simp add: zats_def unsigned_of_int take_bit_int_eq_self amount_ok_simps MAX_MONEY_val)

lemma zats_less: "amount_ok NonNegative a \<Longrightarrow> amount_ok NonNegative b \<Longrightarrow> zats a < zats b \<longleftrightarrow> a < b"
  by (auto simp: word_less_nat_alt unat_zats amount_ok_simps)

lemma zats_eq: "amount_ok NonNegative a \<Longrightarrow> amount_ok NonNegative b \<Longrightarrow> zats a = zats b \<longleftrightarrow> a = b"
  by (auto simp: word_unat_eq_iff unat_zats amount_ok_simps)

text \<open>The amount of the best bond is largest, and its key is smallest among the largest.\<close>

definition beats :: "BondKey \<times> int \<Rightarrow> BondKey \<times> int \<Rightarrow> bool" where
  "beats x y \<longleftrightarrow> snd y < snd x \<or> snd y = snd x \<and> fst x \<le> fst y"

definition stakes_of :: "bonds \<Rightarrow> (BondKey \<times> int) list" where
  "stakes_of bs = map (\<lambda>(k, (b, s)). (k, bond_amount b)) (filter (\<lambda>(k, (b, s)). s = ChainActive) bs)"

lemma beats_trans: "beats x y \<Longrightarrow> beats y z \<Longrightarrow> beats x z"
  by (auto simp: beats_def)

lemma beats_refl [simp]: "beats x x"
  by (simp add: beats_def)

lemma beats_antisym: "beats x y \<Longrightarrow> beats y x \<Longrightarrow> x = y"
  by (cases x; cases y) (auto simp: beats_def)

lemma beats_total: "beats x y \<or> beats y x"
  by (auto simp: beats_def)

lemma max_staker_loop_spec:
  assumes "list_all (\<lambda>(k, (b, s)). amount_ok NonNegative (bond_amount b)) rest"
    "amount_ok NonNegative a" "unat t + (\<Sum>(k, (b, s))\<leftarrow>rest. nat (bond_amount b)) < 2 ^ 64"
  shows "\<exists>m a' t'. max_staker_loop rest (k, zats a, t) = Some (m, zats a', t') \<and>
    unat t' = unat t + (\<Sum>(k, (b, s))\<leftarrow>rest. nat (bond_amount b)) \<and> amount_ok NonNegative a' \<and>
    (m, a') \<in> insert (k, a) (set (map (\<lambda>(k, (b, s)). (k, bond_amount b)) rest)) \<and>
    (\<forall>y \<in> insert (k, a) (set (map (\<lambda>(k, (b, s)). (k, bond_amount b)) rest)). beats (m, a') y)"
  using assms
proof (induction rest arbitrary: k a t)
  case (Cons x rest)
  obtain k' b s where x: "x = (k', (b, s))" by (cases x) auto
  let ?b = "bond_amount b"
  have b: "amount_ok NonNegative ?b" and rest: "list_all (\<lambda>(k, (b, s)). amount_ok NonNegative (bond_amount b)) rest"
    using Cons.prems(1) x by simp_all
  define t' where "t' = t + zats ?b"
  have t': "checked_add t (zats ?b) = Some t'" "unat t' = unat t + nat ?b"
    using Cons.prems(3) b x
    by (simp_all add: checked_add_def t'_def unat_zats unat_word_ariths)
  define y where "y = (if beats (k', ?b) (k, a) \<and> (k', ?b) \<noteq> (k, a) then (k', ?b) else (k, a))"
  have y: "amount_ok NonNegative (snd y)" "y \<in> {(k, a), (k', ?b)}" "beats y (k, a)" "beats y (k', ?b)"
    using b Cons.prems(2) beats_total [of "(k', ?b)" "(k, a)"] by (auto simp: y_def)
  have step: "max_staker_loop (x # rest) (k, zats a, t) = max_staker_loop rest (fst y, zats (snd y), t')"
    using t'(1) b Cons.prems(2) by (auto simp: x y_def beats_def zats_less zats_eq)
  have "unat t' + (\<Sum>(k, (b, s))\<leftarrow>rest. nat (bond_amount b)) < 2 ^ 64"
    using Cons.prems(3) t' x by simp
  from Cons.IH [OF rest y(1) this, of "fst y"] obtain m a' t'' where
    IH: "max_staker_loop rest (fst y, zats (snd y), t') = Some (m, zats a', t'')"
    "unat t'' = unat t' + (\<Sum>(k, (b, s))\<leftarrow>rest. nat (bond_amount b))" "amount_ok NonNegative a'"
    "(m, a') \<in> insert y (set (map (\<lambda>(k, (b, s)). (k, bond_amount b)) rest))"
    "\<forall>z \<in> insert y (set (map (\<lambda>(k, (b, s)). (k, bond_amount b)) rest)). beats (m, a') z"
    unfolding prod.collapse by blast
  have "beats (m, a') (k, a)" "beats (m, a') (k', ?b)" using IH(5) y(3,4) beats_trans by blast+
  with IH step t'(2) y(2) show ?case
    by (intro exI [of _ m] exI [of _ a'] exI [of _ t'']) (auto simp: x)
qed simp


definition is_best :: "bonds \<Rightarrow> BondKey \<Rightarrow> bool" where
  "is_best bs m \<longleftrightarrow> (\<exists>a. (m, a) \<in> set (stakes_of bs) \<and> (\<forall>y \<in> set (stakes_of bs). beats (m, a) y))"

lemma stakes_of_total:
  "bonds_ok bs \<Longrightarrow> (\<Sum>(k, (b, s))\<leftarrow>filter (\<lambda>(k, (b, s)). s = ChainActive) bs. nat (bond_amount b)) =
     nat (total_with ChainActive bs)"
proof (induction bs)
  case (Cons x bs)
  obtain k b s where x: "x = (k, (b, s))" by (cases x) auto
  have "0 \<le> bond_amount b" "0 \<le> total_with ChainActive bs"
    using Cons.prems x by (auto intro: total_nonneg simp: amount_ok_simps)
  with Cons x show ?case by (auto simp: nat_add_distrib)
qed simp

lemma find_max_staker_spec:
  assumes "bonds_ok bs" "\<not> list_all (\<lambda>(_, (_, status)). status \<noteq> ChainActive) bs"
    "total_with ChainActive bs \<le> MAX_MONEY"
  shows "\<exists>m t. find_max_staker bs = Some (m, t) \<and> is_best bs m \<and> unat t = nat (total_with ChainActive bs)"
proof -
  obtain x rest where f: "filter (\<lambda>(_, (_, status)). status = ChainActive) bs = x # rest"
    using assms(2) by (cases "filter (\<lambda>(_, (_, status)). status = ChainActive) bs")
      (auto simp: list_all_iff filter_empty_conv split: prod.splits)
  obtain k b s where x: "x = (k, (b, s))" by (cases x) auto
  have "set (x # rest) \<subseteq> set bs" unfolding f [symmetric] by auto
  then have ok: "list_all (\<lambda>(k, (b, s)). amount_ok NonNegative (bond_amount b)) (x # rest)"
    using assms(1) by (auto simp: bonds_ok_def list_all_iff)
  then have b: "amount_ok NonNegative (bond_amount b)" by (simp add: x)
  have t: "nat (bond_amount b) + (\<Sum>(k, (b, s))\<leftarrow>rest. nat (bond_amount b)) = nat (total_with ChainActive bs)"
    using stakes_of_total [OF assms(1)] f x by simp
  have "nat (total_with ChainActive bs) < 2 ^ 64" using assms(3) by (simp add: MAX_MONEY_val)
  then have "unat (zats (bond_amount b)) + (\<Sum>(k, (b, s))\<leftarrow>rest. nat (bond_amount b)) < 2 ^ 64"
    using t b by (simp add: unat_zats)
  moreover have rest: "list_all (\<lambda>(k, (b, s)). amount_ok NonNegative (bond_amount b)) rest" using ok by simp
  moreover have st: "set (stakes_of bs) =
      insert (k, bond_amount b) (set (map (\<lambda>(k, (b, s)). (k, bond_amount b)) rest))"
    by (simp add: stakes_of_def f x)
  ultimately obtain m a' t' where
    "max_staker_loop rest (k, zats (bond_amount b), zats (bond_amount b)) = Some (m, zats a', t')"
    "unat t' = unat (zats (bond_amount b)) + (\<Sum>(k, (b, s))\<leftarrow>rest. nat (bond_amount b))"
    "(m, a') \<in> set (stakes_of bs)" "\<forall>y \<in> set (stakes_of bs). beats (m, a') y"
    unfolding st using max_staker_loop_spec [OF rest b, of "zats (bond_amount b)" k] by blast
  with f x t b show ?thesis by (auto simp: find_max_staker_def is_best_def unat_zats)
qed

lemma stakes_of_iff:
  assumes "bonds_ok bs"
  shows "(k, a) \<in> set (stakes_of bs) \<longleftrightarrow> (\<exists>b. map_of bs k = Some (b, ChainActive) \<and> bond_amount b = a)"
  using assms by (force simp: stakes_of_def bonds_ok_def image_iff)

lemma is_best_unique: "bonds_ok bs \<Longrightarrow> is_best bs m \<Longrightarrow> is_best bs m' \<Longrightarrow> m = m'"
  unfolding is_best_def using beats_antisym by fastforce


section \<open>The shares\<close>

definition share :: "int \<Rightarrow> int \<Rightarrow> nat" where
  "share T a = nat a * 500000000 div nat T"

fun payable :: "BondKey \<Rightarrow> BondKey \<times> DelegationBond \<times> BondStatusInChain \<Rightarrow> bool" where
  "payable m (k, (b, s)) \<longleftrightarrow> s = ChainActive \<and> k \<noteq> m"

fun paid :: "int \<Rightarrow> BondKey \<Rightarrow> BondKey \<times> DelegationBond \<times> BondStatusInChain \<Rightarrow> nat" where
  "paid T m (k, (b, s)) = (if s = ChainActive \<and> k \<noteq> m then share T (bond_amount b) else 0)"

fun pay :: "int \<Rightarrow> BondKey \<Rightarrow> BondKey \<times> DelegationBond \<times> BondStatusInChain \<Rightarrow>
    BondKey \<times> DelegationBond \<times> BondStatusInChain" where
  "pay T m (k, (b, s)) = (k, (b\<lparr>bond_amount := bond_amount b + int (paid T m (k, (b, s)))\<rparr>, s))"

lemma share_le: "a \<le> T \<Longrightarrow> share T a \<le> 500000000"
proof -
  assume "a \<le> T"
  then have "share T a \<le> nat T * 500000000 div nat T" unfolding share_def by (intro div_le_mono) simp
  also have "\<dots> \<le> 500000000" by simp
  finally show ?thesis .
qed

lemma reward_share_eq:
  assumes "amount_ok NonNegative (bond_amount b)" "bond_amount b \<le> T" "0 < T" "unat t = nat T"
  shows "\<exists>r. reward_share t b = Some r \<and> unat r = share T (bond_amount b)"
proof -
  let ?a = "bond_amount b"
  have a: "0 \<le> ?a" "?a \<le> 2100000000000000" using assms(1) by (simp_all add: amount_ok_simps MAX_MONEY_val)
  have ua: "unat (word_of_int ?a :: 128 word) = nat ?a"
    using a by (simp add: unsigned_of_int take_bit_int_eq_self)
  have ur: "unat (ucast BOND_REWARD_TOTAL :: 128 word) = 500000000" by (simp add: BOND_REWARD_TOTAL_def)
  have "nat ?a * 500000000 < 2 ^ 128" using a by (simp add: nat_less_iff)
  then have mul: "unat (word_of_int ?a * ucast BOND_REWARD_TOTAL :: 128 word) = nat ?a * 500000000"
    by (simp add: unat_word_ariths ua ur)
  have "unat t < 2 ^ 64" using unsigned_less [of t] by simp
  then have ut: "unat (ucast t :: 128 word) = nat T" using assms(4) by (simp add: unsigned_ucast_eq take_bit_eq_mod)
  have "unat ((word_of_int ?a * ucast BOND_REWARD_TOTAL) div ucast t :: 128 word) = share T ?a"
    by (simp add: unat_div_distrib mul ut share_def)
  moreover have "share T ?a < 2 ^ 64" using share_le [OF assms(2)] by simp
  ultimately have "unat (ucast ((word_of_int ?a * ucast BOND_REWARD_TOTAL) div ucast t :: 128 word) :: u64) = share T ?a"
    by (simp add: unsigned_ucast_eq take_bit_eq_mod)
  moreover have "t \<noteq> 0" using assms(3,4) by auto
  ultimately show ?thesis
    using \<open>nat ?a * 500000000 < 2 ^ 128\<close>
    by (simp add: reward_share_def checked_mul_def ua ur)
qed

lemma add_reward_eq:
  assumes "amount_ok NonNegative (bond_amount b)" "bond_amount b + int (unat r) \<le> MAX_MONEY"
  shows "add_reward b r = Some (b\<lparr>bond_amount := bond_amount b + int (unat r)\<rparr>)"
proof -
  have small: "int (unat r) \<le> MAX_MONEY" "0 \<le> bond_amount b" using assms by (simp_all add: amount_ok_simps)
  then have "uint r \<le> 2100000000000000" by (simp add: MAX_MONEY_val)
  moreover have "- (2 ^ 63) \<le> uint r" by (rule order_trans [of _ 0]) simp_all
  ultimately have "signed_take_bit 63 (uint r) = uint r" by (intro signed_take_bit_int_eq_self) simp_all
  then have "sint r = int (unat r)" by (simp add: sint_uint)
  moreover define v where "v = int (unat r)"
  ultimately have "sint r = v" "v \<le> MAX_MONEY" "0 \<le> v" "bond_amount b + v \<le> MAX_MONEY"
    using small assms(2) by simp_all
  moreover from this have "amount_add NonNegative (bond_amount b) v = ok (bond_amount b + v)"
    using assms(1) by (simp add: amount_add_eq [of NonNegative _ NonNegative] validate_eq amount_ok_simps)
  ultimately show ?thesis unfolding v_def [symmetric] by (simp add: add_reward_def amount_new_def)
qed

definition fundable :: "int \<Rightarrow> BondKey \<Rightarrow> bonds \<Rightarrow> bool" where
  "fundable T m bs \<longleftrightarrow> (\<forall>(k, (b, s)) \<in> set bs. payable m (k, (b, s)) \<longrightarrow>
     0 < T \<and> bond_amount b \<le> T \<and> bond_amount b + 500000000 \<le> MAX_MONEY)"

lemma reward_loop_eq:
  assumes "bonds_ok bs" "unat t = nat T" "fundable T m bs"
    "unat f + (\<Sum>x\<leftarrow>bs. paid T m x) < 2 ^ 64"
  shows "\<exists>f' store. reward_loop m t bs f = Some (map (pay T m) bs, f', store) \<and>
    unat f' = unat f + (\<Sum>x\<leftarrow>bs. paid T m x) \<and>
    map (\<lambda>(k, r). (k, unat r)) store = map (\<lambda>x. (fst x, paid T m x)) (filter (payable m) bs)"
  using assms(1,3,4)
proof (induction bs arbitrary: f)
  case (Cons x bs)
  obtain k b s where x: "x = (k, (b, s))" by (cases x) auto
  have ok: "bonds_ok bs" "amount_ok NonNegative (bond_amount b)" using Cons.prems(1) x by simp_all
  have fund: "fundable T m bs" using Cons.prems(2) by (simp add: fundable_def)
  show ?case
  proof (cases "payable m x")
    case True
    then have b: "0 < T" "bond_amount b \<le> T" "bond_amount b + 500000000 \<le> MAX_MONEY"
      using Cons.prems(2) x by (simp_all add: fundable_def)
    obtain r where r: "reward_share t b = Some r" "unat r = share T (bond_amount b)"
      using reward_share_eq [OF ok(2) b(2,1) assms(2)] by blast
    have rb: "bond_amount b + int (unat r) \<le> MAX_MONEY" using r(2) share_le [OF b(2)] b(3) by simp
    define f1 where "f1 = f + r"
    have f1: "checked_add f r = Some f1" "unat f1 = unat f + share T (bond_amount b)"
      using Cons.prems(3) r(2) True x by (simp_all add: checked_add_def f1_def unat_word_ariths)
    have "unat f1 + (\<Sum>x\<leftarrow>bs. paid T m x) < 2 ^ 64" using Cons.prems(3) f1(2) True x by simp
    from Cons.IH [OF ok(1) fund this] obtain f' store where
      "reward_loop m t bs f1 = Some (map (pay T m) bs, f', store)"
      "unat f' = unat f1 + (\<Sum>x\<leftarrow>bs. paid T m x)"
      "map (\<lambda>(k, r). (k, unat r)) store = map (\<lambda>x. (fst x, paid T m x)) (filter (payable m) bs)"
      by blast
    with True r f1 add_reward_eq [OF ok(2) rb] show ?thesis by (simp add: x)
  next
    case False
    have "unat f + (\<Sum>x\<leftarrow>bs. paid T m x) < 2 ^ 64" using Cons.prems(3) by simp
    from Cons.IH [OF ok(1) fund this] obtain f' store where
      "reward_loop m t bs f = Some (map (pay T m) bs, f', store)"
      "unat f' = unat f + (\<Sum>x\<leftarrow>bs. paid T m x)"
      "map (\<lambda>(k, r). (k, unat r)) store = map (\<lambda>x. (fst x, paid T m x)) (filter (payable m) bs)"
      by blast
    with False show ?thesis by (auto simp: x)
  qed
qed simp

lemma paid_sum:
  assumes "bonds_ok bs"
  shows "(\<Sum>x\<leftarrow>bs. paid T m x) * nat T \<le> nat (total_with ChainActive bs) * 500000000"
  using assms
proof (induction bs)
  case (Cons x bs)
  obtain k b s where x: "x = (k, (b, s))" by (cases x) auto
  have "share T (bond_amount b) * nat T \<le> nat (bond_amount b) * 500000000"
    by (simp add: share_def)
  moreover have "0 \<le> bond_amount b" "0 \<le> total_with ChainActive bs"
    using Cons.prems x by (auto intro: total_nonneg simp: amount_ok_simps)
  ultimately show ?case using Cons x by (auto simp: add_mult_distrib nat_add_distrib)
qed simp

lemma paid_sum_le:
  assumes "bonds_ok bs" "T = total_with ChainActive bs"
  shows "(\<Sum>x\<leftarrow>bs. paid T m x) \<le> 500000000"
proof (cases "0 < T")
  case True
  have "(\<Sum>x\<leftarrow>bs. paid T m x) * nat T \<le> 500000000 * nat T"
    using paid_sum [OF assms(1), of T m] assms(2) by (simp add: mult.commute)
  with True show ?thesis by simp
next
  case False
  then have "paid T m x = 0" for x by (cases x) (auto simp: share_def)
  then show ?thesis by simp
qed


section \<open>The distribution\<close>

text \<open>What a bond receives: its share of the staked total, and the largest bond what is left.\<close>

definition reward :: "bonds \<Rightarrow> BondKey \<Rightarrow> BondKey \<times> DelegationBond \<times> BondStatusInChain \<Rightarrow> nat" where
  "reward bs m x = (let T = total_with ChainActive bs in
     if fst x = m then 500000000 - (\<Sum>x\<leftarrow>bs. paid T m x) else paid T m x)"

definition award :: "bonds \<Rightarrow> BondKey \<Rightarrow> BondKey \<times> DelegationBond \<times> BondStatusInChain \<Rightarrow>
    BondKey \<times> DelegationBond \<times> BondStatusInChain" where
  "award bs m = (\<lambda>(k, (b, s)). (k, (b\<lparr>bond_amount := bond_amount b + int (reward bs m (k, (b, s)))\<rparr>, s)))"

definition rewards_payable :: "Chain \<Rightarrow> bool" where
  "rewards_payable c \<longleftrightarrow> (let bs = delegation_bonds c; T = total_with ChainActive bs in
     T + 500000000 \<le> MAX_MONEY \<and> (0 < T \<or> length (stakes_of bs) \<le> 1) \<and>
     0 \<le> bonded c \<and> bonded c + 500000000 \<le> MAX_MONEY)"

lemma update_present:
  assumes "distinct (map fst xs)" "map_of xs k = Some v0"
  shows "AList.update k v xs = map (\<lambda>(k', v'). (k', if k' = k then v else v')) xs"
  using assms
proof (induction xs)
  case (Cons x xs)
  obtain k' v' where x: "x = (k', v')" by (cases x)
  show ?case
  proof (cases "k' = k")
    case True
    then have "map (\<lambda>(k', v'). (k', if k' = k then v else v')) xs = xs"
      using Cons.prems(1) x by (intro map_idI) force
    with True show ?thesis by (simp add: x)
  qed (use Cons x in simp)
qed simp

lemma fst_pay [simp]: "fst (pay T m x) = fst x"
  by (cases x) auto

lemma map_of_pay:
  "map_of bs m = Some (b, s) \<Longrightarrow> map_of (map (pay T m) bs) m = Some (b, s)"
proof (induction bs)
  case (Cons x bs)
  obtain k' b' s' where "x = (k', (b', s'))" by (cases x) auto
  with Cons show ?case by (cases "k' = m") auto
qed simp

lemma single_stake:
  assumes "bonds_ok bs" "map_of bs m = Some (b, ChainActive)" "length (stakes_of bs) \<le> 1"
    "(k, (b', s')) \<in> set bs" "payable m (k, (b', s'))"
  shows False
proof -
  have "map_of bs k = Some (b', ChainActive)" using assms by (simp add: bonds_ok_distinct)
  then have "(m, bond_amount b) \<in> set (stakes_of bs)" "(k, bond_amount b') \<in> set (stakes_of bs)"
    using assms by (auto simp: stakes_of_iff)
  moreover have "k \<noteq> m" using assms by simp
  ultimately show False using assms(3) by (cases "stakes_of bs") auto
qed

lemma rewards_fundable:
  assumes "bonds_ok bs" "map_of bs m = Some (b, ChainActive)" "T = total_with ChainActive bs"
    "0 < T \<or> length (stakes_of bs) \<le> 1" "T + 500000000 \<le> MAX_MONEY"
  shows "fundable T m bs"
  unfolding fundable_def
proof (intro ballI, clarify)
  fix k b' s' assume x: "(k, (b', s')) \<in> set bs" "payable m (k, (b', s'))"
  then have "map_of bs k = Some (b', ChainActive)" using assms(1) by (simp add: bonds_ok_distinct)
  then have "bond_amount b' \<le> T" using weight_le_total [OF assms(1), of k _ ChainActive] assms(3) by simp
  moreover have "0 < T" using single_stake [OF assms(1,2) _ x] assms(4) by blast
  ultimately show "0 < T \<and> bond_amount b' \<le> T \<and> bond_amount b' + 500000000 \<le> MAX_MONEY"
    using assms(5) by simp
qed


lemma award_update:
  assumes "bonds_ok bs" "map_of bs m = Some (b, ChainActive)"
    "T = total_with ChainActive bs" "r = 500000000 - (\<Sum>x\<leftarrow>bs. paid T m x)"
  shows "AList.update m (b\<lparr>bond_amount := bond_amount b + int r\<rparr>, ChainActive) (map (pay T m) bs) =
    map (award bs m) bs"
proof -
  have d: "distinct (map fst (map (pay T m) bs))"
    using bonds_ok_distinct [OF assms(1)] by (simp add: comp_def)
  have "(case pay T m (k, (b', s')) of (k', v') \<Rightarrow>
      (k', if k' = m then (b\<lparr>bond_amount := bond_amount b + int r\<rparr>, ChainActive) else v')) =
      award bs m (k, (b', s'))" if "(k, (b', s')) \<in> set bs" for k b' s'
  proof (cases "k = m")
    case True
    then have "b' = b" "s' = ChainActive"
      using that assms(1,2) by (simp_all add: bonds_ok_distinct)
    with True show ?thesis by (simp add: award_def reward_def assms(3,4) Let_def)
  next
    case False
    then show ?thesis by (simp add: award_def reward_def assms(3) Let_def)
  qed
  then have "map (\<lambda>(k', v'). (k', if k' = m then (b\<lparr>bond_amount := bond_amount b + int r\<rparr>, ChainActive) else v'))
      (map (pay T m) bs) = map (award bs m) bs"
    unfolding map_map by (intro map_cong) (auto simp: comp_def)
  then show ?thesis using update_present [OF d map_of_pay [OF assms(2)]] by simp
qed

lemma distribute_rewards_eq:
  fixes c :: Chain
  defines "bs \<equiv> delegation_bonds c"
  assumes ok: "bonds_ok bs" and active: "\<not> list_all (\<lambda>(_, (_, status)). status \<noteq> ChainActive) bs"
    and pay: "rewards_payable c"
  shows "\<exists>m store. is_best bs m \<and>
    distribute_rewards c = Some ((set_bonded (bonded c + 500000000) c)
      \<lparr>delegation_bonds := map (award bs m) bs, bond_rewards := bond_rewards c @ [store]\<rparr>) \<and>
    map (\<lambda>(k, r). (k, unat r)) store =
      map (\<lambda>x. (fst x, reward bs m x)) (filter (payable m) bs) @ [(m, 500000000 - (\<Sum>x\<leftarrow>bs. paid (total_with ChainActive bs) m x))]"
proof -
  define T where "T = total_with ChainActive bs"
  have T: "0 \<le> T" "T + 500000000 \<le> MAX_MONEY" "0 < T \<or> length (stakes_of bs) \<le> 1"
    "0 \<le> bonded c" "bonded c + 500000000 \<le> MAX_MONEY"
    using pay total_nonneg [OF ok] by (auto simp: rewards_payable_def T_def bs_def Let_def)
  obtain m t where m: "find_max_staker bs = Some (m, t)" "is_best bs m" "unat t = nat T"
    using find_max_staker_spec [OF ok active] T by (auto simp: T_def)
  obtain b where b: "map_of bs m = Some (b, ChainActive)"
    using m(2) stakes_of_iff [OF ok] by (auto simp: is_best_def)
  have le: "(\<Sum>x\<leftarrow>bs. paid T m x) \<le> 500000000" using paid_sum_le [OF ok T_def] .
  then have "unat (0 :: u64) + (\<Sum>x\<leftarrow>bs. paid T m x) < 2 ^ 64" by simp
  then obtain f store where loop: "reward_loop m t bs 0 = Some (map (pay T m) bs, f, store)"
    "unat f = (\<Sum>x\<leftarrow>bs. paid T m x)"
    "map (\<lambda>(k, r). (k, unat r)) store = map (\<lambda>x. (fst x, paid T m x)) (filter (payable m) bs)"
    using reward_loop_eq [OF ok m(3) rewards_fundable [OF ok b T_def T(3,2)]] by fastforce
  define r where "r = BOND_REWARD_TOTAL - f"
  have R: "unat BOND_REWARD_TOTAL = 500000000" "sint BOND_REWARD_TOTAL = 500000000"
    by (simp_all add: BOND_REWARD_TOTAL_def)
  have r: "checked_sub BOND_REWARD_TOTAL f = Some r" "unat r = 500000000 - (\<Sum>x\<leftarrow>bs. paid T m x)"
    using le loop(2) R by (simp_all add: checked_sub_def r_def word_le_nat_alt unat_sub)
  have "bond_amount b \<le> T" using weight_le_total [OF ok b, of ChainActive] by (simp add: T_def)
  then have "bond_amount b + int (unat r) \<le> MAX_MONEY" using T(2) r(2) by simp
  then have add: "add_reward b r = Some (b\<lparr>bond_amount := bond_amount b + int (unat r)\<rparr>)"
    by (rule add_reward_eq [OF bonds_ok_amount [OF ok b]])
  have new: "amount_new (sint BOND_REWARD_TOTAL) = Some 500000000"
    by (simp add: R amount_new_def MAX_MONEY_val)
  have pool: "amount_add NonNegative (bonded c) 500000000 = ok (bonded c + 500000000)"
    using T by (simp add: amount_add_eq [of NonNegative _ NonNegative] amount_ok_simps validate_eq)
  have "distribute_rewards c = Some ((set_bonded (bonded c + 500000000) c)
      \<lparr>delegation_bonds := map (award bs m) bs, bond_rewards := bond_rewards c @ [store @ [(m, r)]]\<rparr>)"
    using active m(1) loop(1) map_of_pay [OF b, of T] r(1) add new pool
      award_update [OF ok b T_def r(2)]
    unfolding distribute_rewards_def bs_def [symmetric] by (simp add: set_bonded_def)
  moreover have "map (\<lambda>(k, r). (k, unat r)) (store @ [(m, r)]) =
      map (\<lambda>x. (fst x, reward bs m x)) (filter (payable m) bs) @ [(m, 500000000 - (\<Sum>x\<leftarrow>bs. paid T m x))]"
    using loop(3) r(2) by (auto simp: reward_def T_def Let_def)
  ultimately show ?thesis using m(2) unfolding T_def by blast
qed


lemma total_pay: "total_with ChainActive (map (pay T m) bs) = total_with ChainActive bs + int (\<Sum>x\<leftarrow>bs. paid T m x)"
  "s \<noteq> ChainActive \<Longrightarrow> total_with s (map (pay T m) bs) = total_with s bs"
  by (induction bs) auto

lemma award_total:
  assumes "bonds_ok bs" "is_best bs m"
  shows "total_with ChainActive (map (award bs m) bs) = total_with ChainActive bs + 500000000"
    "s \<noteq> ChainActive \<Longrightarrow> total_with s (map (award bs m) bs) = total_with s bs"
proof -
  define T where "T = total_with ChainActive bs"
  define r where "r = 500000000 - (\<Sum>x\<leftarrow>bs. paid T m x)"
  obtain b where b: "map_of bs m = Some (b, ChainActive)"
    using assms(2) stakes_of_iff [OF assms(1)] by (auto simp: is_best_def)
  have d: "distinct (map fst (map (pay T m) bs))"
    using bonds_ok_distinct [OF assms(1)] by (simp add: comp_def)
  have "total_with s (map (award bs m) bs) = total_with s (map (pay T m) bs) - weight s (b, ChainActive) +
      weight s (b\<lparr>bond_amount := bond_amount b + int r\<rparr>, ChainActive)" for s
    using total_update [OF d] award_update [OF assms(1) b T_def r_def] map_of_pay [OF b, of T] by (metis option.simps(5))
  moreover have "(\<Sum>x\<leftarrow>bs. paid T m x) + r = 500000000"
    using paid_sum_le [OF assms(1) T_def, of m] by (simp add: r_def)
  ultimately show "total_with ChainActive (map (award bs m) bs) = total_with ChainActive bs + 500000000"
    "s \<noteq> ChainActive \<Longrightarrow> total_with s (map (award bs m) bs) = total_with s bs"
    by (simp_all add: total_pay flip: T_def)
qed

lemma award_fst [simp]: "fst (award bs m x) = fst x"
  by (cases x) (auto simp: award_def)

lemma reward_le: "bonds_ok bs \<Longrightarrow> (k, (b, s)) \<in> set bs \<Longrightarrow> reward bs m (k, (b, s)) \<le> 500000000"
proof -
  assume ok: "bonds_ok bs" and x: "(k, (b, s)) \<in> set bs"
  have "bond_amount b \<le> total_with ChainActive bs" if "s = ChainActive"
    using weight_le_total [OF ok, of k "(b, s)" ChainActive] x ok that by (simp add: bonds_ok_distinct)
  then show ?thesis by (auto simp: reward_def Let_def intro: share_le)
qed

lemma award_bonds_ok:
  assumes "bonds_ok bs" "is_best bs m" "total_with ChainActive bs + 500000000 \<le> MAX_MONEY"
  shows "bonds_ok (map (award bs m) bs)"
proof -
  obtain a where best: "map_of bs m = Some (a, ChainActive)"
    using assms(2) stakes_of_iff [OF assms(1)] by (auto simp: is_best_def)
  have "amount_ok NonNegative (bond_amount b + int (reward bs m (k, (b, s))))"
    if x: "(k, (b, s)) \<in> set bs" for k b s
  proof (cases "s = ChainActive")
    case True
    have "bond_amount b \<le> total_with ChainActive bs"
      using weight_le_total [OF assms(1), of k "(b, s)" ChainActive] x assms(1) True by (simp add: bonds_ok_distinct)
    moreover have "amount_ok NonNegative (bond_amount b)" using assms(1) x by (auto simp: bonds_ok_def list_all_iff)
    ultimately show ?thesis using reward_le [OF assms(1) x, of m] assms(3) by (simp add: amount_ok_simps)
  next
    case False
    have "map_of bs k = Some (b, s)" using x bonds_ok_distinct [OF assms(1)] by simp
    then have "k \<noteq> m" using best False by auto
    then have "reward bs m (k, (b, s)) = 0" using False by (simp add: reward_def Let_def)
    then show ?thesis using assms(1) x by (auto simp: bonds_ok_def list_all_iff)
  qed
  then show ?thesis
    using bonds_ok_distinct [OF assms(1)]
    by (auto simp: bonds_ok_def list_all_iff award_def comp_def split_def)
qed

lemma sum_filter_zero: "(\<And>x. x \<in> set xs \<Longrightarrow> \<not> P x \<Longrightarrow> f x = 0) \<Longrightarrow> (\<Sum>x\<leftarrow>filter P xs. f x) = (\<Sum>x\<leftarrow>xs. f x :: nat)"
  by (induction xs) auto

lemma stored_total:
  assumes "bonds_ok bs" "map (\<lambda>(k, r). (k, unat r)) store =
      map (\<lambda>x. (fst x, reward bs m x)) (filter (payable m) bs) @
      [(m, 500000000 - (\<Sum>x\<leftarrow>bs. paid (total_with ChainActive bs) m x))]"
  shows "(\<Sum>(k, r)\<leftarrow>store. unat r) = 500000000"
proof -
  let ?T = "total_with ChainActive bs"
  have "(\<Sum>(k, r)\<leftarrow>store. unat r) = (\<Sum>x\<leftarrow>map (\<lambda>(k, r). (k, unat r)) store. snd x)"
    by (simp add: comp_def split_def)
  also have "\<dots> = (\<Sum>x\<leftarrow>filter (payable m) bs. reward bs m x) + (500000000 - (\<Sum>x\<leftarrow>bs. paid ?T m x))"
    unfolding assms(2) by (simp add: comp_def)
  also have "map (reward bs m) (filter (payable m) bs) = map (paid ?T m) (filter (payable m) bs)"
    by (auto simp: reward_def Let_def)
  also have "(\<Sum>x\<leftarrow>filter (payable m) bs. paid ?T m x) = (\<Sum>x\<leftarrow>bs. paid ?T m x)"
    by (intro sum_filter_zero) auto
  finally show ?thesis using paid_sum_le [OF assms(1) refl, of m] by simp
qed


lemma best_mset: "mset bs = mset bs' \<Longrightarrow> is_best bs m \<longleftrightarrow> is_best bs' m"
proof -
  assume "mset bs = mset bs'"
  then have "set bs = set bs'" by (rule mset_eq_setD)
  then show ?thesis by (simp add: is_best_def stakes_of_def)
qed

lemma reward_mset: "mset bs = mset bs' \<Longrightarrow> reward bs m = reward bs' m"
proof -
  assume e: "mset bs = mset bs'"
  then have "(\<Sum>x\<leftarrow>bs. paid T m x) = (\<Sum>x\<leftarrow>bs'. paid T m x)" for T by (metis mset_map sum_mset_sum_list)
  with total_mset [OF e] show ?thesis by (auto simp: reward_def Let_def)
qed

lemma award_mset: "mset bs = mset bs' \<Longrightarrow> mset (map (award bs m) bs) = mset (map (award bs' m) bs')"
  by (simp add: award_def reward_mset [of bs bs'])

lemma store_mset:
  assumes "mset bs = mset bs'"
    "map (\<lambda>(k, r). (k, unat r)) st =
      map (\<lambda>x. (fst x, reward bs m x)) (filter (payable m) bs) @ [(m, 500000000 - (\<Sum>x\<leftarrow>bs. paid (total_with ChainActive bs) m x))]"
    "map (\<lambda>(k, r). (k, unat r)) st' =
      map (\<lambda>x. (fst x, reward bs' m x)) (filter (payable m) bs') @ [(m, 500000000 - (\<Sum>x\<leftarrow>bs'. paid (total_with ChainActive bs') m x))]"
  shows "mset st = mset (st' :: (BondKey \<times> u64) list)"
proof -
  have "(\<Sum>x\<leftarrow>bs. paid T m x) = (\<Sum>x\<leftarrow>bs'. paid T m x)" for T
    using assms(1) by (metis mset_map sum_mset_sum_list)
  then have "mset (map (\<lambda>(k, r). (k, unat r)) st) = mset (map (\<lambda>(k, r). (k, unat r)) st')"
    unfolding assms(2,3) using assms(1) reward_mset [OF assms(1)] total_mset [OF assms(1)] by simp
  then have "image_mset (\<lambda>(k, n). (k, word_of_nat n)) (image_mset (\<lambda>(k, r). (k, unat r)) (mset st)) =
      image_mset (\<lambda>(k, n). (k, word_of_nat n :: u64)) (image_mset (\<lambda>(k, r). (k, unat r)) (mset st'))"
    by simp
  then show ?thesis by (simp add: multiset.map_comp comp_def split_def)
qed

section \<open>The properties of rewards\<close>

text \<open>C17: when a bond is active, a block distributes exactly 500000000 zatoshis: the stored rewards sum to
  that amount, the active bonds and the bonded pool grow by it, the largest bond (the smallest key
  among equals) receives what rounding leaves over, and nothing else changes.
\<close>

theorem rewards_exact:
  assumes "bonds_ok (delegation_bonds c)" "rewards_payable c"
    "\<not> list_all (\<lambda>(_, (_, status)). status \<noteq> ChainActive) (delegation_bonds c)"
  shows "\<exists>m c'. distribute_rewards c = Some c' \<and> is_best (delegation_bonds c) m \<and>
    delegation_bonds c' = map (award (delegation_bonds c) m) (delegation_bonds c) \<and>
    bonds_ok (delegation_bonds c') \<and>
    total_with ChainActive (delegation_bonds c') = total_with ChainActive (delegation_bonds c) + 500000000 \<and>
    total_with ChainUnbonding (delegation_bonds c') = total_with ChainUnbonding (delegation_bonds c) \<and>
    bonded c' = bonded c + 500000000 \<and> unbonded c' = unbonded c \<and>
    (\<Sum>(k, r)\<leftarrow>last (bond_rewards c'). unat r) = 500000000"
proof -
  let ?bs = "delegation_bonds c"
  obtain m store where best: "is_best ?bs m" and
    eq: "distribute_rewards c = Some ((set_bonded (bonded c + 500000000) c)
      \<lparr>delegation_bonds := map (award ?bs m) ?bs, bond_rewards := bond_rewards c @ [store]\<rparr>)" and
    store: "map (\<lambda>(k, r). (k, unat r)) store = map (\<lambda>x. (fst x, reward ?bs m x)) (filter (payable m) ?bs) @
      [(m, 500000000 - (\<Sum>x\<leftarrow>?bs. paid (total_with ChainActive ?bs) m x))]"
    using distribute_rewards_eq [OF assms(1,3,2)] by blast
  have "total_with ChainActive ?bs + 500000000 \<le> MAX_MONEY"
    using assms(2) by (simp add: rewards_payable_def Let_def)
  then have "bonds_ok (map (award ?bs m) ?bs)" by (rule award_bonds_ok [OF assms(1) best])
  moreover note award_total [OF assms(1) best] stored_total [OF assms(1) store] best
  ultimately show ?thesis
    by - (rule exI [of _ m], rule exI, intro conjI, rule eq, simp_all add: set_bonded_def)
qed

definition sample_bonds :: bonds where
  "sample_bonds =
    [([1], \<lparr>bond_amount = 70, target_finalizer = [9], created_at = \<lparr>tl_height = 1, tl_index = 0\<rparr>\<rparr>, ChainActive),
     ([2], \<lparr>bond_amount = 30, target_finalizer = [9], created_at = \<lparr>tl_height = 1, tl_index = 1\<rparr>\<rparr>, ChainActive),
     ([3], \<lparr>bond_amount = 5, target_finalizer = [9], created_at = \<lparr>tl_height = 1, tl_index = 2\<rparr>\<rparr>, ChainUnbonding)]"

definition sample_chain :: Chain where
  "sample_chain = (empty_chain Mainnet (vb_zero\<lparr>staking_bonded := 100, staking_unbonded := 5\<rparr>) [])
     \<lparr>delegation_bonds := sample_bonds\<rparr>"

lemma sample_chain_simps [simp]:
  "delegation_bonds sample_chain = sample_bonds" "bonded sample_chain = 100" "unbonded sample_chain = 5"
  "bonds_ok sample_bonds" "rewards_payable sample_chain"
  "\<not> list_all (\<lambda>(_, (_, status)). status \<noteq> ChainActive) sample_bonds"
  by (simp_all add: sample_chain_def empty_chain_def sample_bonds_def bonds_ok_def amount_ok_simps MAX_MONEY_val
      rewards_payable_def)

theorem rewards_exact_witness:
  "\<exists>m c'. distribute_rewards sample_chain = Some c' \<and> is_best sample_bonds m \<and>
    delegation_bonds c' = map (award sample_bonds m) sample_bonds \<and> bonds_ok (delegation_bonds c') \<and>
    total_with ChainActive (delegation_bonds c') = total_with ChainActive sample_bonds + 500000000 \<and>
    total_with ChainUnbonding (delegation_bonds c') = total_with ChainUnbonding sample_bonds \<and>
    bonded c' = bonded sample_chain + 500000000 \<and> unbonded c' = unbonded sample_chain \<and>
    (\<Sum>(k, r)\<leftarrow>last (bond_rewards c'). unat r) = 500000000"
  using rewards_exact [of sample_chain] by simp

text \<open>The rewards do not depend on the order in which the hash map of bonds is iterated: from the same
  bonds in another order, the same bonds receive the same rewards.
\<close>

theorem rewards_order_independent:
  assumes "bonds_ok (delegation_bonds c)" "rewards_payable c"
    "\<not> list_all (\<lambda>(_, (_, status)). status \<noteq> ChainActive) (delegation_bonds c)"
    "mset bs = mset (delegation_bonds c)"
  shows "\<exists>c1 c2. distribute_rewards c = Some c1 \<and> distribute_rewards (c\<lparr>delegation_bonds := bs\<rparr>) = Some c2 \<and>
    mset (delegation_bonds c1) = mset (delegation_bonds c2) \<and>
    mset (last (bond_rewards c1)) = mset (last (bond_rewards c2)) \<and>
    chain_value_pools c1 = chain_value_pools c2"
proof -
  let ?bs = "delegation_bonds c" and ?c = "c\<lparr>delegation_bonds := bs\<rparr>"
  have "mset (map fst bs) = mset (map fst ?bs)" using assms(4) by simp
  then have "distinct (map fst bs) \<longleftrightarrow> distinct (map fst ?bs)" by (rule mset_eq_imp_distinct_iff)
  then have ok: "bonds_ok bs"
    using assms(1) mset_eq_setD [OF assms(4)] by (simp add: bonds_ok_def list_all_iff)
  have "length (stakes_of bs) = length (stakes_of ?bs)"
    using assms(4) unfolding stakes_of_def length_map by (metis mset_filter size_mset)
  then have pay: "rewards_payable ?c"
    using assms(2) total_mset [OF assms(4)] by (simp add: rewards_payable_def Let_def)
  have active: "\<not> list_all (\<lambda>(_, (_, status)). status \<noteq> ChainActive) (delegation_bonds ?c)"
    using assms(3) mset_eq_setD [OF assms(4)] by (simp add: list_all_iff)
  obtain m store where 1: "is_best ?bs m"
    "distribute_rewards c = Some ((set_bonded (bonded c + 500000000) c)
      \<lparr>delegation_bonds := map (award ?bs m) ?bs, bond_rewards := bond_rewards c @ [store]\<rparr>)"
    "map (\<lambda>(k, r). (k, unat r)) store = map (\<lambda>x. (fst x, reward ?bs m x)) (filter (payable m) ?bs) @
      [(m, 500000000 - (\<Sum>x\<leftarrow>?bs. paid (total_with ChainActive ?bs) m x))]"
    using distribute_rewards_eq [OF assms(1,3,2)] by blast
  obtain m' store' where 2: "is_best bs m'"
    "distribute_rewards ?c = Some ((set_bonded (bonded c + 500000000) ?c)
      \<lparr>delegation_bonds := map (award bs m') bs, bond_rewards := bond_rewards c @ [store']\<rparr>)"
    "map (\<lambda>(k, r). (k, unat r)) store' = map (\<lambda>x. (fst x, reward bs m' x)) (filter (payable m') bs) @
      [(m', 500000000 - (\<Sum>x\<leftarrow>bs. paid (total_with ChainActive bs) m' x))]"
    using distribute_rewards_eq [of ?c] ok active pay by auto
  have m: "m' = m" using is_best_unique [OF ok 2(1)] best_mset [OF assms(4)] 1(1) by simp
  show ?thesis
    using award_mset [OF assms(4), of m] store_mset [OF assms(4) 2(3) [unfolded m] 1(3)]
    by - (rule exI, rule exI, intro conjI, rule 1(2), rule 2(2), simp_all add: set_bonded_def m)
qed

theorem rewards_order_independent_witness:
  "\<exists>c1 c2. distribute_rewards sample_chain = Some c1 \<and>
    distribute_rewards (sample_chain\<lparr>delegation_bonds := rev sample_bonds\<rparr>) = Some c2 \<and>
    mset (delegation_bonds c1) = mset (delegation_bonds c2) \<and>
    mset (last (bond_rewards c1)) = mset (last (bond_rewards c2)) \<and>
    chain_value_pools c1 = chain_value_pools c2"
  using rewards_order_independent [of sample_chain "rev sample_bonds"] by simp


text \<open>Two active bonds of amount zero: the share is a division by zero.\<close>

lemma zero_stake_rewards_panic:
  "distribute_rewards ((empty_chain Mainnet vb_zero [])\<lparr>delegation_bonds :=
     [([1], \<lparr>bond_amount = 0, target_finalizer = [9], created_at = l\<rparr>, ChainActive),
      ([2], \<lparr>bond_amount = 0, target_finalizer = [9], created_at = l\<rparr>, ChainActive)]\<rparr>) = None"
  by (simp add: distribute_rewards_def empty_chain_def find_max_staker_def zats_def checked_add_def
      reward_share_def checked_mul_def rassert_def)

end
