(* ===== verification/Chain_Indexes.thy ===== *)
theory Chain_Indexes
  imports Zebra_Db
begin

text \<open>
  The indexes of a non-finalized chain other than bonds: nullifiers
  (\<^verbatim>\<open>zebra-state/src/service/check/nullifier.rs\<close>), transparent outputs and spends
  (\<^verbatim>\<open>UpdateWith\<close> in \<^verbatim>\<open>non_finalized_state/chain.rs\<close>), transfers by address
  (\<^verbatim>\<open>non_finalized_state/chain/index.rs\<close>) and value pools.
\<close>

section \<open>Nullifiers\<close>

fun no_duplicates_loop :: "(bytes \<Rightarrow> ValidateContextError) \<Rightarrow> (bytes \<Rightarrow> bool) \<Rightarrow> bytes list \<Rightarrow>
    (ValidateContextError, unit) result" where
  "no_duplicates_loop e contains [] = ok ()"
| "no_duplicates_loop e contains (n # ns) = (if contains n then err (e n) else no_duplicates_loop e contains ns)"

definition no_duplicates_in_finalized_chain ::
  "Transaction list \<Rightarrow> ZebraDb \<Rightarrow> (ValidateContextError, unit) result" where
  "no_duplicates_in_finalized_chain txs db =
     tryr (no_duplicates_loop (\<lambda>n. DuplicateSproutNullifier n True) (contains_sprout_nullifier db)
       (concat (map tx_sprout_nullifiers txs))) (\<lambda>_.
     tryr (no_duplicates_loop (\<lambda>n. DuplicateSaplingNullifier n True) (contains_sapling_nullifier db)
       (concat (map tx_sapling_nullifiers txs))) (\<lambda>_.
     tryr (no_duplicates_loop (\<lambda>n. DuplicateOrchardNullifier n True) (contains_orchard_nullifier db)
       (concat (map tx_orchard_nullifiers txs))) (\<lambda>_. ok ())))"

fun find_duplicate_nullifier ::
  "(bytes \<Rightarrow> bool \<Rightarrow> ValidateContextError) \<Rightarrow> bytes list \<Rightarrow> (bytes \<Rightarrow> bool) \<Rightarrow> (bytes \<Rightarrow> bool) option \<Rightarrow>
    (ValidateContextError, unit) result" where
  "find_duplicate_nullifier e [] finalized_chain_contains non_finalized_chain_contains = ok ()"
| "find_duplicate_nullifier e (n # ns) finalized_chain_contains non_finalized_chain_contains =
     (if map_option (\<lambda>f. f n) non_finalized_chain_contains = Some True then err (e n False)
      else if finalized_chain_contains n then err (e n True)
      else find_duplicate_nullifier e ns finalized_chain_contains non_finalized_chain_contains)"

definition tx_no_duplicates_in_chain ::
  "ZebraDb \<Rightarrow> Chain option \<Rightarrow> Transaction \<Rightarrow> (ValidateContextError, unit) result" where
  "tx_no_duplicates_in_chain db chain tx =
     tryr (find_duplicate_nullifier DuplicateSproutNullifier (tx_sprout_nullifiers tx)
       (contains_sprout_nullifier db)
       (map_option (\<lambda>c n. Mapping.lookup (sprout_nullifiers c) n \<noteq> None) chain)) (\<lambda>_.
     tryr (find_duplicate_nullifier DuplicateSaplingNullifier (tx_sapling_nullifiers tx)
       (contains_sapling_nullifier db)
       (map_option (\<lambda>c n. Mapping.lookup (sapling_nullifiers c) n \<noteq> None) chain)) (\<lambda>_.
     tryr (find_duplicate_nullifier DuplicateOrchardNullifier (tx_orchard_nullifiers tx)
       (contains_orchard_nullifier db)
       (map_option (\<lambda>c n. Mapping.lookup (orchard_nullifiers c) n \<noteq> None) chain)) (\<lambda>_. ok ())))"

fun add_to_non_finalized_chain_unique ::
  "(bytes \<Rightarrow> bool \<Rightarrow> ValidateContextError) \<Rightarrow> (bytes, bytes) mapping \<Rightarrow> bytes list \<Rightarrow> bytes \<Rightarrow>
    (ValidateContextError, (bytes, bytes) mapping) result" where
  "add_to_non_finalized_chain_unique e chain_nullifiers [] revealing_tx_id = ok chain_nullifiers"
| "add_to_non_finalized_chain_unique e chain_nullifiers (n # ns) revealing_tx_id =
     (if Mapping.lookup chain_nullifiers n \<noteq> None then err (e n False)
      else add_to_non_finalized_chain_unique e (Mapping.update n revealing_tx_id chain_nullifiers) ns
        revealing_tx_id)"

fun remove_from_non_finalized_chain ::
  "(bytes, bytes) mapping \<Rightarrow> bytes list \<Rightarrow> (bytes, bytes) mapping rust" where
  "remove_from_non_finalized_chain chain_nullifiers [] = Some chain_nullifiers"
| "remove_from_non_finalized_chain chain_nullifiers (n # ns) = do {
     rassert (Mapping.lookup chain_nullifiers n \<noteq> None);
     remove_from_non_finalized_chain (Mapping.delete n chain_nullifiers) ns }"

definition update_joinsplit :: "joinsplits \<Rightarrow> bytes \<Rightarrow> Chain \<Rightarrow> (ValidateContextError, Chain) result" where
  "update_joinsplit joinsplit_data tx_id c = (case joinsplit_data of
       None \<Rightarrow> ok c
     | Some d \<Rightarrow> tryr (add_to_non_finalized_chain_unique DuplicateSproutNullifier (sprout_nullifiers c) (joinsplit_nullifiers d) tx_id)
         (\<lambda>m. ok (c\<lparr>sprout_nullifiers := m\<rparr>)))"

definition update_sapling :: "shielded \<Rightarrow> bytes \<Rightarrow> Chain \<Rightarrow> (ValidateContextError, Chain) result" where
  "update_sapling sapling_shielded_data tx_id c = (case sapling_shielded_data of
       None \<Rightarrow> ok c
     | Some d \<Rightarrow> tryr (add_to_non_finalized_chain_unique DuplicateSaplingNullifier (sapling_nullifiers c) (nullifiers d) tx_id)
         (\<lambda>m. ok (c\<lparr>sapling_nullifiers := m\<rparr>)))"

definition update_orchard :: "shielded \<Rightarrow> bytes \<Rightarrow> Chain \<Rightarrow> (ValidateContextError, Chain) result" where
  "update_orchard orchard_shielded_data tx_id c = (case orchard_shielded_data of
       None \<Rightarrow> ok c
     | Some d \<Rightarrow> tryr (add_to_non_finalized_chain_unique DuplicateOrchardNullifier (orchard_nullifiers c) (nullifiers d) tx_id)
         (\<lambda>m. ok (c\<lparr>orchard_nullifiers := m\<rparr>)))"

definition revert_joinsplit :: "joinsplits \<Rightarrow> Chain \<Rightarrow> Chain rust" where
  "revert_joinsplit joinsplit_data c = (case joinsplit_data of
       None \<Rightarrow> Some c
     | Some d \<Rightarrow> do {
         m \<leftarrow> remove_from_non_finalized_chain (sprout_nullifiers c) (joinsplit_nullifiers d);
         Some (c\<lparr>sprout_nullifiers := m\<rparr>) })"

definition revert_sapling :: "shielded \<Rightarrow> Chain \<Rightarrow> Chain rust" where
  "revert_sapling sapling_shielded_data c = (case sapling_shielded_data of
       None \<Rightarrow> Some c
     | Some d \<Rightarrow> do {
         m \<leftarrow> remove_from_non_finalized_chain (sapling_nullifiers c) (nullifiers d);
         Some (c\<lparr>sapling_nullifiers := m\<rparr>) })"

definition revert_orchard :: "shielded \<Rightarrow> Chain \<Rightarrow> Chain rust" where
  "revert_orchard orchard_shielded_data c = (case orchard_shielded_data of
       None \<Rightarrow> Some c
     | Some d \<Rightarrow> do {
         m \<leftarrow> remove_from_non_finalized_chain (orchard_nullifiers c) (nullifiers d);
         Some (c\<lparr>orchard_nullifiers := m\<rparr>) })"

section \<open>Transfers by address\<close>

definition transfers_default :: TransparentTransfers where
  "transfers_default = \<lparr>balance = 0, tx_ids = {#}, tt_created_utxos = Mapping.empty, tt_spent_utxos = {}\<rparr>"

definition transfers_is_empty :: "TransparentTransfers \<Rightarrow> bool" where
  "transfers_is_empty t \<longleftrightarrow>
     balance t = 0 \<and> tx_ids t = {#} \<and> Mapping.is_empty (tt_created_utxos t) \<and> tt_spent_utxos t = {}"

definition transaction_location :: "OrderedUtxo \<Rightarrow> TransactionLocation rust" where
  "transaction_location u = TransactionLocation_from_usize (utxo_height u) (tx_index_in_block u)"

definition OutputLocation_from_outpoint :: "TransactionLocation \<Rightarrow> outpoint \<Rightarrow> OutputLocation" where
  "OutputLocation_from_outpoint l outpoint = (l, snd outpoint)"

definition transfers_update_created ::
  "outpoint \<Rightarrow> OrderedUtxo \<Rightarrow> TransparentTransfers \<Rightarrow> TransparentTransfers rust" where
  "transfers_update_created outpoint created_utxo t = do {
     v \<leftarrow> expect (constrain NegativeAllowed (out_value (utxo_output created_utxo)));
     new_balance \<leftarrow> expect (amount_add NegativeAllowed (balance t) v);
     l \<leftarrow> transaction_location created_utxo;
     let output_location = OutputLocation_from_outpoint l outpoint;
     rassert (Mapping.lookup (tt_created_utxos t) output_location = None);
     Some (t\<lparr>balance := new_balance,
       tt_created_utxos := Mapping.update output_location (utxo_output created_utxo) (tt_created_utxos t),
       tx_ids := add_mset (fst outpoint) (tx_ids t)\<rparr>) }"

definition transfers_revert_created ::
  "outpoint \<Rightarrow> OrderedUtxo \<Rightarrow> TransparentTransfers \<Rightarrow> TransparentTransfers rust" where
  "transfers_revert_created outpoint created_utxo t = do {
     v \<leftarrow> expect (constrain NegativeAllowed (out_value (utxo_output created_utxo)));
     new_balance \<leftarrow> expect (amount_sub NegativeAllowed (balance t) v);
     l \<leftarrow> transaction_location created_utxo;
     let output_location = OutputLocation_from_outpoint l outpoint;
     rassert (Mapping.lookup (tt_created_utxos t) output_location \<noteq> None);
     rassert (fst outpoint \<in># tx_ids t);
     Some (t\<lparr>balance := new_balance,
       tt_created_utxos := Mapping.delete output_location (tt_created_utxos t),
       tx_ids := tx_ids t - {#fst outpoint#}\<rparr>) }"

definition transfers_update_spent ::
  "outpoint \<Rightarrow> bytes \<Rightarrow> OrderedUtxo \<Rightarrow> TransparentTransfers \<Rightarrow> TransparentTransfers rust" where
  "transfers_update_spent spent_outpoint spending_tx_hash spent_output t = do {
     v \<leftarrow> expect (constrain NegativeAllowed (out_value (utxo_output spent_output)));
     new_balance \<leftarrow> expect (amount_sub NegativeAllowed (balance t) v);
     l \<leftarrow> transaction_location spent_output;
     let output_location = OutputLocation_from_outpoint l spent_outpoint;
     rassert (output_location \<notin> tt_spent_utxos t);
     Some (t\<lparr>balance := new_balance, tt_spent_utxos := insert output_location (tt_spent_utxos t),
       tx_ids := add_mset spending_tx_hash (tx_ids t)\<rparr>) }"

definition transfers_revert_spent ::
  "outpoint \<Rightarrow> bytes \<Rightarrow> OrderedUtxo \<Rightarrow> TransparentTransfers \<Rightarrow> TransparentTransfers rust" where
  "transfers_revert_spent spent_outpoint spending_tx_hash spent_output t = do {
     v \<leftarrow> expect (constrain NegativeAllowed (out_value (utxo_output spent_output)));
     new_balance \<leftarrow> expect (amount_add NegativeAllowed (balance t) v);
     l \<leftarrow> transaction_location spent_output;
     let output_location = OutputLocation_from_outpoint l spent_outpoint;
     rassert (output_location \<in> tt_spent_utxos t);
     rassert (spending_tx_hash \<in># tx_ids t);
     Some (t\<lparr>balance := new_balance, tt_spent_utxos := tt_spent_utxos t - {output_location},
       tx_ids := tx_ids t - {#spending_tx_hash#}\<rparr>) }"

section \<open>Transparent outputs and spends\<close>

definition transfers_entry :: "Chain \<Rightarrow> bytes \<Rightarrow> TransparentTransfers" where
  "transfers_entry c address = (case Mapping.lookup (partial_transparent_transfers c) address of
       Some t \<Rightarrow> t | None \<Rightarrow> transfers_default)"

definition set_transfers :: "bytes \<Rightarrow> TransparentTransfers \<Rightarrow> Chain \<Rightarrow> Chain" where
  "set_transfers address t c =
     c\<lparr>partial_transparent_transfers := Mapping.update address t (partial_transparent_transfers c)\<rparr>"

text \<open>After a revert an address without transfers left is removed.\<close>

definition reset_transfers :: "bytes \<Rightarrow> TransparentTransfers \<Rightarrow> Chain \<Rightarrow> Chain" where
  "reset_transfers address t c = (if transfers_is_empty t
     then c\<lparr>partial_transparent_transfers := Mapping.delete address (partial_transparent_transfers c)\<rparr>
     else set_transfers address t c)"

definition output_outpoint :: "bytes \<Rightarrow> nat \<Rightarrow> outpoint rust" where
  "output_outpoint tx_hash output_index = do {
     rassert (output_index < 2 ^ 32);
     Some (tx_hash, word_of_nat output_index) }"

text \<open>The address index of one output, created or spent, and its reverts.\<close>

definition index_created :: "outpoint \<Rightarrow> OrderedUtxo \<Rightarrow> Chain \<Rightarrow> Chain rust" where
  "index_created outpoint created_utxo c = (case out_address (utxo_output created_utxo) of
       None \<Rightarrow> Some c
     | Some receiving_address \<Rightarrow> do {
         t \<leftarrow> transfers_update_created outpoint created_utxo (transfers_entry c receiving_address);
         Some (set_transfers receiving_address t c) })"

definition unindex_created :: "outpoint \<Rightarrow> OrderedUtxo \<Rightarrow> Chain \<Rightarrow> Chain rust" where
  "unindex_created outpoint created_utxo c = (case out_address (utxo_output created_utxo) of
       None \<Rightarrow> Some c
     | Some receiving_address \<Rightarrow> do {
         t \<leftarrow> Mapping.lookup (partial_transparent_transfers c) receiving_address;
         t \<leftarrow> transfers_revert_created outpoint created_utxo t;
         Some (reset_transfers receiving_address t c) })"

definition index_spent :: "outpoint \<Rightarrow> bytes \<Rightarrow> OrderedUtxo \<Rightarrow> Chain \<Rightarrow> Chain rust" where
  "index_spent spent_outpoint spending_tx_hash spent_output c =
     (case out_address (utxo_output spent_output) of
        None \<Rightarrow> Some c
      | Some spending_address \<Rightarrow> do {
          t \<leftarrow> transfers_update_spent spent_outpoint spending_tx_hash spent_output
            (transfers_entry c spending_address);
          Some (set_transfers spending_address t c) })"

definition unindex_spent :: "outpoint \<Rightarrow> bytes \<Rightarrow> OrderedUtxo \<Rightarrow> Chain \<Rightarrow> Chain rust" where
  "unindex_spent spent_outpoint spending_tx_hash spent_output c =
     (case out_address (utxo_output spent_output) of
        None \<Rightarrow> Some c
      | Some receiving_address \<Rightarrow> do {
          t \<leftarrow> Mapping.lookup (partial_transparent_transfers c) receiving_address;
          t \<leftarrow> transfers_revert_spent spent_outpoint spending_tx_hash spent_output t;
          Some (reset_transfers receiving_address t c) })"

fun update_created_loop :: "bytes \<Rightarrow> (outpoint, OrderedUtxo) mapping \<Rightarrow> nat list \<Rightarrow> Chain \<Rightarrow> Chain rust" where
  "update_created_loop tx_hash block_created_outputs [] c = Some c"
| "update_created_loop tx_hash block_created_outputs (output_index # rest) c = do {
     outpoint \<leftarrow> output_outpoint tx_hash output_index;
     created_utxo \<leftarrow> Mapping.lookup block_created_outputs outpoint;
     rassert (Mapping.lookup (created_utxos c) outpoint = None);
     let c = c\<lparr>created_utxos := Mapping.update outpoint created_utxo (created_utxos c)\<rparr>;
     c \<leftarrow> index_created outpoint created_utxo c;
     update_created_loop tx_hash block_created_outputs rest c }"

definition update_created_utxos ::
  "TxOutput list \<Rightarrow> bytes \<Rightarrow> (outpoint, OrderedUtxo) mapping \<Rightarrow> Chain \<Rightarrow> Chain rust" where
  "update_created_utxos created_outputs creating_tx_hash block_created_outputs c =
     update_created_loop creating_tx_hash block_created_outputs [0..<length created_outputs] c"

fun revert_created_loop :: "bytes \<Rightarrow> (outpoint, OrderedUtxo) mapping \<Rightarrow> nat list \<Rightarrow> Chain \<Rightarrow> Chain rust" where
  "revert_created_loop tx_hash block_created_outputs [] c = Some c"
| "revert_created_loop tx_hash block_created_outputs (output_index # rest) c = do {
     outpoint \<leftarrow> output_outpoint tx_hash output_index;
     created_utxo \<leftarrow> Mapping.lookup block_created_outputs outpoint;
     rassert (Mapping.lookup (created_utxos c) outpoint \<noteq> None);
     let c = c\<lparr>created_utxos := Mapping.delete outpoint (created_utxos c)\<rparr>;
     c \<leftarrow> unindex_created outpoint created_utxo c;
     revert_created_loop tx_hash block_created_outputs rest c }"

definition revert_created_utxos ::
  "TxOutput list \<Rightarrow> bytes \<Rightarrow> (outpoint, OrderedUtxo) mapping \<Rightarrow> Chain \<Rightarrow> Chain rust" where
  "revert_created_utxos created_outputs creating_tx_hash block_created_outputs c =
     revert_created_loop creating_tx_hash block_created_outputs [0..<length created_outputs] c"

fun update_spent_utxos ::
  "Input list \<Rightarrow> bytes \<Rightarrow> (outpoint, OrderedUtxo) mapping \<Rightarrow> Chain \<Rightarrow> Chain rust" where
  "update_spent_utxos [] spending_tx_hash spent_outputs c = Some c"
| "update_spent_utxos (spending_input # rest) spending_tx_hash spent_outputs c =
     (case input_outpoint spending_input of
        None \<Rightarrow> update_spent_utxos rest spending_tx_hash spent_outputs c
      | Some spent_outpoint \<Rightarrow> do {
          rassert (Mapping.lookup (spent_utxos c) spent_outpoint = None);
          let c = c\<lparr>spent_utxos := Mapping.update spent_outpoint spending_tx_hash (spent_utxos c)\<rparr>;
          spent_output \<leftarrow> Mapping.lookup spent_outputs spent_outpoint;
          c \<leftarrow> index_spent spent_outpoint spending_tx_hash spent_output c;
          update_spent_utxos rest spending_tx_hash spent_outputs c })"

fun revert_spent_utxos ::
  "Input list \<Rightarrow> bytes \<Rightarrow> (outpoint, OrderedUtxo) mapping \<Rightarrow> Chain \<Rightarrow> Chain rust" where
  "revert_spent_utxos [] spending_tx_hash spent_outputs c = Some c"
| "revert_spent_utxos (spending_input # rest) spending_tx_hash spent_outputs c =
     (case input_outpoint spending_input of
        None \<Rightarrow> revert_spent_utxos rest spending_tx_hash spent_outputs c
      | Some spent_outpoint \<Rightarrow> do {
          rassert (Mapping.lookup (spent_utxos c) spent_outpoint \<noteq> None);
          let c = c\<lparr>spent_utxos := Mapping.delete spent_outpoint (spent_utxos c)\<rparr>;
          spent_output \<leftarrow> Mapping.lookup spent_outputs spent_outpoint;
          c \<leftarrow> unindex_spent spent_outpoint spending_tx_hash spent_output c;
          revert_spent_utxos rest spending_tx_hash spent_outputs c })"

text \<open>The outputs of the chain that are not spent in it.\<close>

definition unspent_utxos :: "Chain \<Rightarrow> (outpoint, OrderedUtxo) mapping" where
  "unspent_utxos c = Mapping.filter (\<lambda>outpoint _. Mapping.lookup (spent_utxos c) outpoint = None) (created_utxos c)"

section \<open>Value pools\<close>

definition update_value_pools :: "ValueBalance \<Rightarrow> u32 \<Rightarrow> nat \<Rightarrow> Chain \<Rightarrow> (ValidateContextError, Chain) result" where
  "update_value_pools block_value_pool_change height block_size c =
     tryr (map_err (\<lambda>e. AddValuePool e (chain_value_pools c) block_value_pool_change (Some height))
         (add_chain_value_pool_change (chain_value_pools c) block_value_pool_change)) (\<lambda>pools.
       ok (c\<lparr>chain_value_pools := pools,
         block_info_by_height := Mapping.update height (pools, word_of_nat block_size) (block_info_by_height c)\<rparr>))"

definition revert_value_pools :: "ValueBalance \<Rightarrow> u32 \<Rightarrow> RevertPosition \<Rightarrow> Chain \<Rightarrow> Chain rust" where
  "revert_value_pools block_value_pool_change height pos c = do {
     c \<leftarrow> (if pos = Tip then do {
         n \<leftarrow> vb_neg block_value_pool_change;
         pools \<leftarrow> expect (add_chain_value_pool_change (chain_value_pools c) n);
         Some (c\<lparr>chain_value_pools := pools\<rparr>) }
       else Some c);
     Some (c\<lparr>block_info_by_height := Mapping.delete height (block_info_by_height c)\<rparr>) }"

section \<open>Lemmas\<close>

lemma lookup_del: "Mapping.lookup (Mapping.delete k m) k' = (if k = k' then None else Mapping.lookup m k')"
  by (simp add: lookup_delete lookup_delete_neq)

lemma mapping_delete_update: "Mapping.lookup m k = None \<Longrightarrow> Mapping.delete k (Mapping.update k v m) = m"
  by (intro mapping_eqI) (auto simp: lookup_del lookup_update')

text \<open>A set of nullifiers is accepted when it has no repetition and none was revealed before.\<close>

lemma add_unique_ok:
  "(\<exists>m'. add_to_non_finalized_chain_unique e m ns tx = ok m') \<longleftrightarrow>
     distinct ns \<and> (\<forall>n \<in> set ns. Mapping.lookup m n = None)"
proof (induction ns arbitrary: m)
  case (Cons n ns)
  then show ?case by (auto simp: lookup_update' split: if_splits)
qed simp

lemma add_unique_result:
  "add_to_non_finalized_chain_unique e m ns tx = ok m' \<Longrightarrow>
     Mapping.lookup m' k = (if k \<in> set ns then Some tx else Mapping.lookup m k)"
proof (induction ns arbitrary: m)
  case (Cons n ns)
  then have "add_to_non_finalized_chain_unique e (Mapping.update n tx m) ns tx = ok m'"
    by (simp split: if_splits)
  from Cons.IH [OF this] show ?case by (auto simp: lookup_update')
qed simp

lemma add_unique_total: "add_to_non_finalized_chain_unique e m ns tx \<noteq> None"
  by (induction ns arbitrary: m) (auto simp: ok_def err_def)

lemma remove_result:
  "distinct ns \<Longrightarrow> \<forall>n \<in> set ns. Mapping.lookup m n \<noteq> None \<Longrightarrow>
     \<exists>m'. remove_from_non_finalized_chain m ns = Some m' \<and>
       (\<forall>k. Mapping.lookup m' k = (if k \<in> set ns then None else Mapping.lookup m k))"
proof (induction ns arbitrary: m)
  case (Cons n ns)
  have "\<forall>k \<in> set ns. Mapping.lookup (Mapping.delete n m) k \<noteq> None"
    using Cons.prems by (auto simp: lookup_del)
  from Cons.IH [OF _ this] Cons.prems show ?case by (auto simp: lookup_del)
qed simp

text \<open>Removing the nullifiers of a block undoes adding them, in any order of the two loops.\<close>

lemma remove_add_unique:
  assumes "add_to_non_finalized_chain_unique e m ns tx = ok m'"
  shows "remove_from_non_finalized_chain m' ns = Some m"
proof -
  have d: "distinct ns" "\<forall>n \<in> set ns. Mapping.lookup m n = None"
    using assms add_unique_ok by blast+
  note l = add_unique_result [OF assms]
  obtain m'' where m'': "remove_from_non_finalized_chain m' ns = Some m''"
    "\<forall>k. Mapping.lookup m'' k = (if k \<in> set ns then None else Mapping.lookup m' k)"
    using remove_result [OF d(1), of m'] l by auto
  have "m'' = m" using m''(2) l d(2) by (intro mapping_eqI) simp
  with m''(1) show ?thesis by simp
qed

text \<open>The fields that only bonds and pools change.\<close>

definition same_bonds :: "Chain \<Rightarrow> Chain \<Rightarrow> bool" where
  "same_bonds c c' \<longleftrightarrow> delegation_bonds c' = delegation_bonds c \<and> bond_rewards c' = bond_rewards c \<and>
     bond_retargets c' = bond_retargets c \<and> chain_value_pools c' = chain_value_pools c"

lemma same_bonds_refl [simp]: "same_bonds c c"
  by (simp add: same_bonds_def)

lemma same_bonds_trans: "same_bonds a b \<Longrightarrow> same_bonds b c \<Longrightarrow> same_bonds a c"
  by (simp add: same_bonds_def)

lemma same_bonds_set_transfers: "same_bonds c (set_transfers a t c)"
  by (simp add: same_bonds_def set_transfers_def)

lemma index_same:
  "index_created p u c = Some c' \<Longrightarrow> same_bonds c c'"
  "index_spent p h u c = Some c' \<Longrightarrow> same_bonds c c'"
  by (auto simp: index_created_def index_spent_def bind_eq_Some_conv same_bonds_def set_transfers_def
      split: option.splits)

lemma created_loop_same: "update_created_loop h m is c = Some c' \<Longrightarrow> same_bonds c c'"
proof (induction "is" arbitrary: c)
  case (Cons i "is")
  then obtain p u c1 where
    "index_created p u (c\<lparr>created_utxos := Mapping.update p u (created_utxos c)\<rparr>) = Some c1"
    "update_created_loop h m is c1 = Some c'"
    by (auto simp: bind_eq_Some_conv Let_def)
  with Cons.IH index_same(1) show ?case by (fastforce simp: same_bonds_def)
qed simp

lemma spent_loop_same: "update_spent_utxos ins h m c = Some c' \<Longrightarrow> same_bonds c c'"
proof (induction ins arbitrary: c)
  case (Cons i ins)
  show ?case
  proof (cases "input_outpoint i")
    case (Some p)
    with Cons.prems obtain u c1 where
      "index_spent p h u (c\<lparr>spent_utxos := Mapping.update p h (spent_utxos c)\<rparr>) = Some c1"
      "update_spent_utxos ins h m c1 = Some c'"
      by (auto simp: bind_eq_Some_conv Let_def)
    with Cons.IH index_same(2) show ?thesis by (fastforce simp: same_bonds_def)
  qed (use Cons in simp)
qed simp

lemma shielded_same:
  "update_joinsplit j h c = ok c' \<Longrightarrow> same_bonds c c'"
  "update_sapling d h c = ok c' \<Longrightarrow> same_bonds c c'"
  "update_orchard d h c = ok c' \<Longrightarrow> same_bonds c c'"
  by (auto simp: update_joinsplit_def update_sapling_def update_orchard_def tryr_ok_iff same_bonds_def
      split: option.splits)

end
