(* ===== verification/Chain_State.thy ===== *)
theory Chain_State
  imports Bond_Rewards Chain_Indexes Chain_Trees
begin

text \<open>
  Whole blocks on a non-finalized chain, \<^verbatim>\<open>zebra-state/src/service/non_finalized_state/chain.rs\<close>:
  applying and reverting a block, pushing and popping blocks at both ends, forking, and the order by
  which the best chain is chosen.
\<close>

section \<open>Definitions\<close>

definition update_transaction ::
  "ContextuallyVerifiedBlock \<Rightarrow> nat \<Rightarrow> Transaction \<Rightarrow> bytes \<Rightarrow> Chain \<Rightarrow> (ValidateContextError, Chain) result" where
  "update_transaction b transaction_index transaction transaction_hash c = do {
     (inputs, outputs, joinsplit_data, sapling_per_spend, sapling_shared, orchard_data) \<leftarrow> tx_parts transaction;
     transaction_location \<leftarrow> TransactionLocation_from_usize (cv_height b) transaction_index;
     rassert (Mapping.lookup (tx_loc_by_hash c) transaction_hash = None);
     let c = c\<lparr>tx_loc_by_hash := Mapping.update transaction_hash transaction_location (tx_loc_by_hash c)\<rparr>;
     c \<leftarrow> update_created_utxos outputs transaction_hash (cv_new_outputs b) c;
     c \<leftarrow> update_spent_utxos inputs transaction_hash (cv_spent_outputs b) c;
     tryr (case staking_action transaction of
         Some a \<Rightarrow> update_chain_tip_with_delegation_bond a transaction_location c
       | None \<Rightarrow> ok c) (\<lambda>c.
     tryr (update_joinsplit joinsplit_data transaction_hash c) (\<lambda>c.
     tryr (update_sapling sapling_per_spend transaction_hash c) (\<lambda>c.
     tryr (update_sapling sapling_shared transaction_hash c) (\<lambda>c.
     update_orchard orchard_data transaction_hash c)))) }"

fun update_transactions ::
  "ContextuallyVerifiedBlock \<Rightarrow> nat \<Rightarrow> (Transaction \<times> bytes) list \<Rightarrow> Chain \<Rightarrow>
    (ValidateContextError, Chain) result" where
  "update_transactions b i [] c = ok c"
| "update_transactions b i ((transaction, transaction_hash) # txs) c =
     tryr (update_transaction b i transaction transaction_hash c) (update_transactions b (Suc i) txs)"

definition block_work :: "ContextuallyVerifiedBlock \<Rightarrow> nat rust" where
  "block_work b = do { work \<leftarrow> to_work (header_threshold (cv_header b)); work }"

definition update_chain_tip_with_block_except_trees ::
  "ContextuallyVerifiedBlock \<Rightarrow> Chain \<Rightarrow> (ValidateContextError, Chain) result" where
  "update_chain_tip_with_block_except_trees b c = do {
     rassert (Mapping.lookup (height_by_hash c) (cv_hash b) = None);
     let c = c\<lparr>height_by_hash := Mapping.update (cv_hash b) (cv_height b) (height_by_hash c)\<rparr>;
     work \<leftarrow> block_work b;
     new_work \<leftarrow> work_add (partial_cumulative_work c) work;
     let c = c\<lparr>partial_cumulative_work := new_work, bond_retargets := bond_retargets c @ [[]]\<rparr>;
     tryr (update_transactions b 0 (zip (cv_transactions b) (cv_transaction_hashes b)) c) (\<lambda>c.
     tryr (update_value_pools (cv_chain_value_pool_change b) (cv_height b) (cv_size b) c) (\<lambda>c. do {
       c \<leftarrow> distribute_rewards c;
       ok c })) }"

definition revert_transaction ::
  "ContextuallyVerifiedBlock \<Rightarrow> RevertPosition \<Rightarrow> Transaction \<Rightarrow> bytes \<Rightarrow> Chain \<Rightarrow> Chain rust" where
  "revert_transaction b pos transaction transaction_hash c = do {
     (inputs, outputs, joinsplit_data, sapling_per_spend, sapling_shared, orchard_data) \<leftarrow> tx_parts transaction;
     c \<leftarrow> revert_created_utxos outputs transaction_hash (cv_new_outputs b) c;
     c \<leftarrow> revert_spent_utxos inputs transaction_hash (cv_spent_outputs b) c;
     c \<leftarrow> (case staking_action transaction of
         Some a \<Rightarrow> revert_delegation_bond a pos c
       | None \<Rightarrow> Some c);
     rassert (Mapping.lookup (tx_loc_by_hash c) transaction_hash \<noteq> None);
     let c = c\<lparr>tx_loc_by_hash := Mapping.delete transaction_hash (tx_loc_by_hash c)\<rparr>;
     c \<leftarrow> revert_joinsplit joinsplit_data c;
     c \<leftarrow> revert_sapling sapling_per_spend c;
     c \<leftarrow> revert_sapling sapling_shared c;
     revert_orchard orchard_data c }"

fun revert_transactions ::
  "ContextuallyVerifiedBlock \<Rightarrow> RevertPosition \<Rightarrow> (Transaction \<times> bytes) list \<Rightarrow> Chain \<Rightarrow> Chain rust" where
  "revert_transactions b pos [] c = Some c"
| "revert_transactions b pos ((transaction, transaction_hash) # txs) c = do {
     c \<leftarrow> revert_transaction b pos transaction transaction_hash c;
     revert_transactions b pos txs c }"

definition revert_chain_with :: "ContextuallyVerifiedBlock \<Rightarrow> RevertPosition \<Rightarrow> Chain \<Rightarrow> Chain rust" where
  "revert_chain_with b pos c = do {
     c \<leftarrow> (if pos = Root then Some c else revert_rewards_and_retargets c);
     rassert (Mapping.lookup (height_by_hash c) (cv_hash b) \<noteq> None);
     let c = c\<lparr>height_by_hash := Mapping.delete (cv_hash b) (height_by_hash c)\<rparr>;
     work \<leftarrow> block_work b;
     new_work \<leftarrow> work_sub (partial_cumulative_work c) work;
     let c = c\<lparr>partial_cumulative_work := new_work\<rparr>;
     c \<leftarrow> revert_transactions b pos (zip (cv_transactions b) (cv_transaction_hashes b)) c;
     c \<leftarrow> remove_trees pos (cv_height b) c;
     revert_value_pools (cv_chain_value_pool_change b) (cv_height b) pos c }"

text \<open>
  The update of the trees and the rest of the update run in parallel on separate data; an error of
  the trees is returned first.
\<close>

definition update_chain_tip_with_block_parallel ::
  "TreeLib \<Rightarrow> ContextuallyVerifiedBlock \<Rightarrow> Chain \<Rightarrow> (ValidateContextError, Chain) result" where
  "update_chain_tip_with_block_parallel lib b c = do {
     nct \<leftarrow> trees_for_tip c;
     tree_result \<leftarrow> update_trees_parallel lib (cv_transactions b) nct;
     partial_result \<leftarrow> update_chain_tip_with_block_except_trees b c;
     tryr (map_err TreeError (Some tree_result)) (\<lambda>nct.
     tryr (Some partial_result) (\<lambda>c.
     add_trees lib b nct c)) }"

definition push :: "TreeLib \<Rightarrow> Chain \<Rightarrow> ContextuallyVerifiedBlock \<Rightarrow> (ValidateContextError, Chain) result" where
  "push lib c b = tryr (update_chain_tip_with_block_parallel lib b c) (\<lambda>c.
     ok (c\<lparr>blocks := btree_insert (cv_height b) b (blocks c)\<rparr>))"

definition non_finalized_root_height :: "Chain \<Rightarrow> u32 rust" where
  "non_finalized_root_height c = (case blocks c of [] \<Rightarrow> None | (h, _) # _ \<Rightarrow> Some h)"

definition non_finalized_tip_hash :: "Chain \<Rightarrow> bytes rust" where
  "non_finalized_tip_hash c = (if blocks c = [] then None else Some (cv_hash (snd (last (blocks c)))))"

definition non_finalized_root_hash :: "Chain \<Rightarrow> bytes rust" where
  "non_finalized_root_hash c = (case blocks c of [] \<Rightarrow> None | (_, b) # _ \<Rightarrow> Some (cv_hash b))"

definition child_blocks :: "Chain \<Rightarrow> u32 \<Rightarrow> ContextuallyVerifiedBlock list" where
  "child_blocks c block_height = map snd (filter (\<lambda>(h, _). block_height \<le> h) (blocks c))"

text \<open>The amounts of the bonds that the block begins to unbond.\<close>

fun unbonding_amounts :: "Transaction list \<Rightarrow> Chain \<Rightarrow> (BondKey \<times> u64) list rust" where
  "unbonding_amounts [] c = Some []"
| "unbonding_amounts (tx # txs) c =
     (case staking_action tx of
        Some a \<Rightarrow>
          if sa_kind a = BeginDelegationUnbonding then do {
            (bond, _) \<leftarrow> map_of (delegation_bonds c) (arg32_0 a);
            amount \<leftarrow> amount_into_u64 (bond_amount bond);
            rest \<leftarrow> unbonding_amounts txs c;
            Some ((arg32_0 a, amount) # rest) }
          else unbonding_amounts txs c
      | None \<Rightarrow> unbonding_amounts txs c)"

definition pop_root ::
  "Chain \<Rightarrow> (ContextuallyVerifiedBlock \<times> Treestate \<times> (BondKey \<times> u64) list \<times> (BondKey \<times> u64) list \<times> Chain) rust" where
  "pop_root c = (case blocks c of
       [] \<Rightarrow> None
     | (block_height, b) # rest \<Rightarrow> do {
         ts \<leftarrow> treestate (Height block_height) c;
         let trees = ts_note_commitment_trees ts;
         let c = (if nct_sapling_subtree trees \<noteq> None then c\<lparr>sapling_subtrees := tl (sapling_subtrees c)\<rparr> else c);
         let c = (if nct_orchard_subtree trees \<noteq> None then c\<lparr>orchard_subtrees := tl (orchard_subtrees c)\<rparr> else c);
         let c = c\<lparr>blocks := rest\<rparr>;
         let rewards = (case bond_rewards c of [] \<Rightarrow> [] | r # _ \<Rightarrow> r);
         let c = c\<lparr>bond_rewards := tl (bond_rewards c), bond_retargets := tl (bond_retargets c)\<rparr>;
         amounts \<leftarrow> unbonding_amounts (cv_transactions b) c;
         c \<leftarrow> revert_chain_with b Root c;
         Some (b, ts, rewards, amounts, c) })"

definition pop_tip :: "Chain \<Rightarrow> Chain rust" where
  "pop_tip c = do {
     rassert (blocks c \<noteq> []);
     let block = snd (last (blocks c));
     let c = c\<lparr>blocks := butlast (blocks c)\<rparr>;
     rassert (blocks c \<noteq> []);
     revert_chain_with block Tip c }"

text \<open>
  The order of chains: by work, then by the hash of the tip. Two chains with the same tip are
  \<^verbatim>\<open>unreachable!\<close>; the result says whether the first chain is smaller.
\<close>

definition chain_less :: "Chain \<Rightarrow> Chain \<Rightarrow> bool rust" where
  "chain_less c d =
     (if partial_cumulative_work c \<noteq> partial_cumulative_work d
      then Some (partial_cumulative_work c < partial_cumulative_work d)
      else do {
        self_hash \<leftarrow> non_finalized_tip_hash c;
        other_hash \<leftarrow> non_finalized_tip_hash d;
        if self_hash = other_hash then None else Some (self_hash < other_hash) })"

section \<open>The frame of a chain\<close>

text \<open>
  What the parts of an update and of a revert leave alone. Only the outermost steps of
  \<^verbatim>\<open>push\<close>, \<^verbatim>\<open>pop_root\<close> and \<^verbatim>\<open>pop_tip\<close> change the blocks, the heights by hash and the work of a
  chain; the transactions, the rewards, the trees and the value pools do not.
\<close>

definition frame :: "Chain \<Rightarrow> (u32 \<times> ContextuallyVerifiedBlock) list \<times> (bytes, u32) mapping \<times> nat \<times> Network \<times> u32 option" where
  "frame c = (blocks c, height_by_hash c, partial_cumulative_work c, chain_network c, last_fork_height c)"

lemma frame_set [simp]:
  "frame (set_bonded a c) = frame c" "frame (set_unbonded a c) = frame c"
  "frame (set_bond k b s c) = frame c" "frame (set_transfers ad t c) = frame c"
  "frame (reset_transfers ad t c) = frame c"
  by (simp_all add: frame_def set_bonded_def set_unbonded_def set_bond_def set_transfers_def reset_transfers_def)

lemma frame_update [simp]:
  "frame (c\<lparr>tx_loc_by_hash := x1\<rparr>) = frame c" "frame (c\<lparr>created_utxos := x2\<rparr>) = frame c"
  "frame (c\<lparr>spent_utxos := x2'\<rparr>) = frame c" "frame (c\<lparr>delegation_bonds := x3\<rparr>) = frame c"
  "frame (c\<lparr>bond_rewards := x4\<rparr>) = frame c" "frame (c\<lparr>bond_retargets := x5\<rparr>) = frame c"
  "frame (c\<lparr>sprout_trees := x6\<rparr>) = frame c" "frame (c\<lparr>sprout_trees_by_anchor := x7\<rparr>) = frame c"
  "frame (c\<lparr>sapling_trees := x6\<rparr>) = frame c" "frame (c\<lparr>orchard_trees := x6\<rparr>) = frame c"
  "frame (c\<lparr>sapling_subtrees := x8\<rparr>) = frame c" "frame (c\<lparr>orchard_subtrees := x8\<rparr>) = frame c"
  "frame (c\<lparr>history_trees_by_height := x9\<rparr>) = frame c" "frame (c\<lparr>sprout_nullifiers := x10\<rparr>) = frame c"
  "frame (c\<lparr>sapling_nullifiers := x10\<rparr>) = frame c" "frame (c\<lparr>orchard_nullifiers := x10\<rparr>) = frame c"
  "frame (c\<lparr>chain_value_pools := x11\<rparr>) = frame c" "frame (c\<lparr>block_info_by_height := x12\<rparr>) = frame c"
  by (simp_all add: frame_def)

lemma frame_eqD:
  assumes "frame c = frame d"
  shows "blocks c = blocks d" "height_by_hash c = height_by_hash d" "partial_cumulative_work c = partial_cumulative_work d"
    "chain_network c = chain_network d" "last_fork_height c = last_fork_height d"
  using assms by (simp_all add: frame_def)

subsection \<open>Updates\<close>

lemma index_frame:
  "index_created p u c = Some c' \<Longrightarrow> frame c' = frame c"
  "index_spent p h u c = Some c' \<Longrightarrow> frame c' = frame c"
  "unindex_created p u c = Some c' \<Longrightarrow> frame c' = frame c"
  "unindex_spent p h u c = Some c' \<Longrightarrow> frame c' = frame c"
  by (auto simp: index_created_def index_spent_def unindex_created_def unindex_spent_def bind_eq_Some_conv
      split: option.splits)

lemma created_loop_frame: "update_created_loop h m is c = Some c' \<Longrightarrow> frame c' = frame c"
proof (induction "is" arbitrary: c)
  case (Cons i "is")
  then obtain p u c1 where
    "index_created p u (c\<lparr>created_utxos := Mapping.update p u (created_utxos c)\<rparr>) = Some c1"
    "update_created_loop h m is c1 = Some c'"
    by (auto simp: bind_eq_Some_conv Let_def)
  with Cons.IH index_frame(1) show ?case by fastforce
qed simp

lemma spent_loop_frame: "update_spent_utxos ins h m c = Some c' \<Longrightarrow> frame c' = frame c"
proof (induction ins arbitrary: c)
  case (Cons i ins)
  show ?case
  proof (cases "input_outpoint i")
    case (Some p)
    with Cons.prems obtain u c1 where
      "index_spent p h u (c\<lparr>spent_utxos := Mapping.update p h (spent_utxos c)\<rparr>) = Some c1"
      "update_spent_utxos ins h m c1 = Some c'"
      by (auto simp: bind_eq_Some_conv Let_def)
    with Cons.IH index_frame(2) show ?thesis by fastforce
  qed (use Cons in simp)
qed simp

lemma shielded_frame:
  "update_joinsplit j h c = ok c' \<Longrightarrow> frame c' = frame c"
  "update_sapling d h c = ok c' \<Longrightarrow> frame c' = frame c"
  "update_orchard d h c = ok c' \<Longrightarrow> frame c' = frame c"
  "revert_joinsplit j c = Some c' \<Longrightarrow> frame c' = frame c"
  "revert_sapling d c = Some c' \<Longrightarrow> frame c' = frame c"
  "revert_orchard d c = Some c' \<Longrightarrow> frame c' = frame c"
  by (auto simp: update_joinsplit_def update_sapling_def update_orchard_def tryr_ok_iff revert_joinsplit_def
      revert_sapling_def revert_orchard_def bind_eq_Some_conv split: option.splits)

lemma staking_frame: "update_chain_tip_with_delegation_bond a l c = ok c' \<Longrightarrow> frame c' = frame c"
  by (cases "sa_kind a") (auto simp: update_chain_tip_with_delegation_bond_def Let_def bind_ok_iff tryr_ok_iff)

lemma update_transaction_frame:
  assumes "update_transaction b i tx h c = ok c'"
  shows "frame c' = frame c"
proof -
  obtain ins outs j s1 s2 r where p: "tx_parts tx = Some (ins, outs, j, s1, s2, r)"
    using assms by (cases "tx_parts tx") (auto simp: update_transaction_def)
  obtain l c1 c2 c3 c4 c5 c6 where c:
    "update_created_loop h (cv_new_outputs b) [0..<length (outs :: TxOutput list)]
       (c\<lparr>tx_loc_by_hash := Mapping.update h l (tx_loc_by_hash c)\<rparr>) = Some c1"
    "update_spent_utxos ins h (cv_spent_outputs b) c1 = Some c2"
    "(case staking_action tx of Some a \<Rightarrow> update_chain_tip_with_delegation_bond a l c2 | None \<Rightarrow> ok c2) = ok c3"
    "update_joinsplit j h c3 = ok c4" "update_sapling s1 h c4 = ok c5" "update_sapling s2 h c5 = ok c6"
    "update_orchard r h c6 = ok c'"
    using assms by (auto simp: update_transaction_def update_created_utxos_def p bind_ok_iff tryr_ok_iff Let_def)
  have "frame c3 = frame c2" using c(3) by (auto split: option.splits dest: staking_frame)
  with created_loop_frame [OF c(1)] spent_loop_frame [OF c(2)] shielded_frame(1) [OF c(4)]
    shielded_frame(2) [OF c(5)] shielded_frame(2) [OF c(6)] shielded_frame(3) [OF c(7)]
  show ?thesis by simp
qed

lemma update_transactions_frame: "update_transactions b i txs c = ok c' \<Longrightarrow> frame c' = frame c"
  by (induction b i txs c rule: update_transactions.induct) (auto simp: tryr_ok_iff dest: update_transaction_frame)

lemma rewards_frame: "distribute_rewards c = Some c' \<Longrightarrow> frame c' = frame c"
  by (auto simp: distribute_rewards_def bind_eq_Some_conv Let_def split: if_splits)

lemma value_pools_frame: "update_value_pools v h n c = ok c' \<Longrightarrow> frame c' = frame c"
  by (auto simp: update_value_pools_def tryr_ok_iff frame_def)

lemma add_trees_frame: "add_trees lib b nct c = ok c' \<Longrightarrow> frame c' = frame c"
  by (auto simp: add_trees_def bind_ok_iff add_sprout_tree_and_anchor_def add_sapling_tree_and_anchor_def
      add_orchard_tree_and_anchor_def add_history_tree_def bind_eq_Some_conv Let_def split: option.splits if_splits)

text \<open>What a push does to the frame.\<close>

lemma push_frame:
  assumes "push lib c b = ok c'"
  shows "Mapping.lookup (height_by_hash c) (cv_hash b) = None"
    "\<exists>w. block_work b = Some w \<and> work_add (partial_cumulative_work c) w = Some (partial_cumulative_work c')"
    "blocks c' = btree_insert (cv_height b) b (blocks c)"
    "height_by_hash c' = Mapping.update (cv_hash b) (cv_height b) (height_by_hash c)"
    "chain_network c' = chain_network c" "last_fork_height c' = last_fork_height c"
proof -
  obtain pr c4 nct c5 where "update_chain_tip_with_block_except_trees b c = Some pr" "Some pr = ok c4"
    and p': "add_trees lib b nct c4 = ok c5" "c' = c5\<lparr>blocks := btree_insert (cv_height b) b (blocks c5)\<rparr>"
    using assms by (auto simp: push_def update_chain_tip_with_block_parallel_def tryr_ok_iff bind_ok_iff)
  then have p: "update_chain_tip_with_block_except_trees b c = ok c4" by simp
  obtain w w' c2 c3 where c: "Mapping.lookup (height_by_hash c) (cv_hash b) = None"
    "block_work b = Some w" "work_add (partial_cumulative_work c) w = Some w'"
    "update_transactions b 0 (zip (cv_transactions b) (cv_transaction_hashes b))
      (c\<lparr>height_by_hash := Mapping.update (cv_hash b) (cv_height b) (height_by_hash c),
      partial_cumulative_work := w', bond_retargets := bond_retargets c @ [[]]\<rparr>) = ok c2"
    "update_value_pools (cv_chain_value_pool_change b) (cv_height b) (cv_size b) c2 = ok c3" "distribute_rewards c3 = Some c4"
    using p by (auto simp: update_chain_tip_with_block_except_trees_def bind_ok_iff tryr_ok_iff Let_def)
  have "frame c5 = frame (c\<lparr>height_by_hash := Mapping.update (cv_hash b) (cv_height b) (height_by_hash c),
      partial_cumulative_work := w', bond_retargets := bond_retargets c @ [[]]\<rparr>)"
    using update_transactions_frame [OF c(4)] value_pools_frame [OF c(5)] rewards_frame [OF c(6)] add_trees_frame [OF p'(1)]
    by simp
  with c(1-3) p'(2) show "Mapping.lookup (height_by_hash c) (cv_hash b) = None"
    "\<exists>w. block_work b = Some w \<and> work_add (partial_cumulative_work c) w = Some (partial_cumulative_work c')"
    "blocks c' = btree_insert (cv_height b) b (blocks c)"
    "height_by_hash c' = Mapping.update (cv_hash b) (cv_height b) (height_by_hash c)"
    "chain_network c' = chain_network c" "last_fork_height c' = last_fork_height c"
    by (simp_all add: frame_def)
qed

subsection \<open>Reverts\<close>

lemma revert_rewards_loop_frame: "revert_rewards_loop rs c = Some c' \<Longrightarrow> frame c' = frame c"
  by (induction rs c rule: revert_rewards_loop.induct) (force simp: bind_eq_Some_conv Let_def)+

lemma revert_retargets_loop_frame: "revert_retargets_loop rs c = Some c' \<Longrightarrow> frame c' = frame c"
  by (induction rs c rule: revert_retargets_loop.induct) (force simp: bind_eq_Some_conv Let_def)+

lemma revert_created_frame: "revert_created_loop h m is c = Some c' \<Longrightarrow> frame c' = frame c"
proof (induction "is" arbitrary: c)
  case (Cons i "is")
  then obtain p u c1 where
    "unindex_created p u (c\<lparr>created_utxos := Mapping.delete p (created_utxos c)\<rparr>) = Some c1"
    "revert_created_loop h m is c1 = Some c'"
    by (auto simp: bind_eq_Some_conv Let_def)
  with Cons.IH index_frame(3) show ?case by fastforce
qed simp

lemma revert_spent_frame: "revert_spent_utxos ins h m c = Some c' \<Longrightarrow> frame c' = frame c"
proof (induction ins arbitrary: c)
  case (Cons i ins)
  show ?case
  proof (cases "input_outpoint i")
    case (Some p)
    with Cons.prems obtain u c1 where
      "unindex_spent p h u (c\<lparr>spent_utxos := Mapping.delete p (spent_utxos c)\<rparr>) = Some c1"
      "revert_spent_utxos ins h m c1 = Some c'"
      by (auto simp: bind_eq_Some_conv Let_def)
    with Cons.IH index_frame(4) show ?thesis by fastforce
  qed (use Cons in simp)
qed simp

lemma revert_bond_frame: "revert_delegation_bond a pos c = Some c' \<Longrightarrow> frame c' = frame c"
  by (cases "sa_kind a") (auto simp: revert_delegation_bond_def bind_eq_Some_conv Let_def split: if_splits)

lemma revert_transaction_frame:
  assumes "revert_transaction b pos tx h c = Some c'"
  shows "frame c' = frame c"
proof -
  obtain ins outs j s1 s2 r where p: "tx_parts tx = Some (ins, outs, j, s1, s2, r)"
    using assms by (cases "tx_parts tx") (auto simp: revert_transaction_def)
  obtain c1 c2 c3 c5 c6 c7 where c:
    "revert_created_loop h (cv_new_outputs b) [0..<length (outs :: TxOutput list)] c = Some c1"
    "revert_spent_utxos ins h (cv_spent_outputs b) c1 = Some c2"
    "(case staking_action tx of Some a \<Rightarrow> revert_delegation_bond a pos c2 | None \<Rightarrow> Some c2) = Some c3"
    "revert_joinsplit j (c3\<lparr>tx_loc_by_hash := Mapping.delete h (tx_loc_by_hash c3)\<rparr>) = Some c5"
    "revert_sapling s1 c5 = Some c6" "revert_sapling s2 c6 = Some c7" "revert_orchard r c7 = Some c'"
    using assms [unfolded revert_transaction_def revert_created_utxos_def p bind.bind_lunit prod.case
      bind_eq_Some_conv Let_def] by blast
  have "frame c3 = frame c2" using c(3) by (auto split: option.splits dest: revert_bond_frame)
  with revert_created_frame [OF c(1)] revert_spent_frame [OF c(2)] shielded_frame(4) [OF c(4)]
    shielded_frame(5) [OF c(5)] shielded_frame(5) [OF c(6)] shielded_frame(6) [OF c(7)]
  show ?thesis by simp
qed

lemma revert_transactions_frame: "revert_transactions b pos txs c = Some c' \<Longrightarrow> frame c' = frame c"
  by (induction b pos txs c rule: revert_transactions.induct)
    (auto simp: bind_eq_Some_conv dest: revert_transaction_frame)

lemma revert_rewards_and_retargets_frame:
  assumes "revert_rewards_and_retargets c = Some c'"
  shows "frame c' = frame c"
proof -
  obtain c1 where c1: "revert_rewards_loop (last (bond_rewards c)) (c\<lparr>bond_rewards := butlast (bond_rewards c)\<rparr>) = Some c1"
    "revert_retargets_loop (last (bond_retargets c1)) (c1\<lparr>bond_retargets := butlast (bond_retargets c1)\<rparr>) = Some c'"
    using assms [unfolded revert_rewards_and_retargets_def bind_eq_Some_conv] by blast
  from revert_rewards_loop_frame [OF c1(1)] revert_retargets_loop_frame [OF c1(2)] show ?thesis by simp
qed

lemma remove_sprout_anchors_frame: "remove_sprout_anchors hs c = Some c' \<Longrightarrow> frame c' = frame c"
proof (induction hs arbitrary: c)
  case (Cons h hs)
  then obtain d where "remove_sprout_anchors hs d = Some c'" "frame d = frame c"
    by (cases "remove_anchor_at h (sprout_trees c)") (auto simp: Let_def split: if_splits)
  with Cons.IH [of d] show ?case by simp
qed simp

lemma remove_trees_frame:
  assumes "remove_trees pos h c = Some c'"
  shows "frame c' = frame c"
proof -
  obtain c1 c2 c3 where c: "remove_sprout_tree_and_anchor pos h c = Some c1"
    "remove_sapling_tree_and_anchor pos h c1 = Some c2" "remove_orchard_tree_and_anchor pos h c2 = Some c3"
    "remove_history_tree pos h c3 = Some c'"
    using assms by (auto simp: remove_trees_def bind_eq_Some_conv)
  have "frame c1 = frame c"
    using c(1) by (auto simp: remove_sprout_tree_and_anchor_def bind_eq_Some_conv Let_def
        dest: remove_sprout_anchors_frame)
  moreover have "frame c2 = frame c1" "frame c3 = frame c2" "frame c' = frame c3"
    using c(2-4) by (auto simp: remove_sapling_tree_and_anchor_def remove_orchard_tree_and_anchor_def
        remove_history_tree_def bind_eq_Some_conv Let_def split: if_splits)
  ultimately show ?thesis by simp
qed

lemma revert_value_pools_frame: "revert_value_pools v h pos c = Some c' \<Longrightarrow> frame c' = frame c"
  by (cases "pos = Tip") (auto simp: revert_value_pools_def bind_eq_Some_conv frame_def)

lemma revert_chain_frame:
  assumes "revert_chain_with b pos c = Some c'"
  shows "\<exists>w w'. block_work b = Some w \<and> work_sub (partial_cumulative_work c) w = Some w' \<and>
    Mapping.lookup (height_by_hash c) (cv_hash b) \<noteq> None \<and>
    frame c' = (blocks c, Mapping.delete (cv_hash b) (height_by_hash c), w', chain_network c, last_fork_height c)"
proof -
  obtain c1 where c1: "(if pos = Root then Some c else revert_rewards_and_retargets c) = Some c1"
    using assms by (auto simp: revert_chain_with_def bind_eq_Some_conv)
  have f1: "frame c1 = frame c" using c1 revert_rewards_and_retargets_frame by (auto split: if_splits)
  obtain w w' c2 c3 where c: "Mapping.lookup (height_by_hash c1) (cv_hash b) \<noteq> None" "block_work b = Some w"
    "work_sub (partial_cumulative_work c1) w = Some w'"
    "revert_transactions b pos (zip (cv_transactions b) (cv_transaction_hashes b))
       (c1\<lparr>height_by_hash := Mapping.delete (cv_hash b) (height_by_hash c1), partial_cumulative_work := w'\<rparr>) = Some c2"
    "remove_trees pos (cv_height b) c2 = Some c3"
    "revert_value_pools (cv_chain_value_pool_change b) (cv_height b) pos c3 = Some c'"
    using assms c1 by (auto simp: revert_chain_with_def bind_eq_Some_conv Let_def)
  have "frame c' = frame (c1\<lparr>height_by_hash := Mapping.delete (cv_hash b) (height_by_hash c1), partial_cumulative_work := w'\<rparr>)"
    using revert_transactions_frame [OF c(4)] remove_trees_frame [OF c(5)] revert_value_pools_frame [OF c(6)] by simp
  with f1 c(1-3) show ?thesis by (auto simp: frame_def)
qed

text \<open>What the pops do to the frame.\<close>

lemma unbonding_amounts_cong:
  "delegation_bonds c = delegation_bonds d \<Longrightarrow> unbonding_amounts txs c = unbonding_amounts txs d"
  by (induction txs) (auto split: option.split)

lemma pop_root_frame:
  assumes "pop_root c = Some (b, ts, rewards, amounts, c')"
  shows "\<exists>h. blocks c = (h, b) # blocks c'"
    "\<exists>w. block_work b = Some w \<and> work_sub (partial_cumulative_work c) w = Some (partial_cumulative_work c')"
    "Mapping.lookup (height_by_hash c) (cv_hash b) \<noteq> None"
    "height_by_hash c' = Mapping.delete (cv_hash b) (height_by_hash c)"
    "chain_network c' = chain_network c" "last_fork_height c' = last_fork_height c"
    "rewards = (case bond_rewards c of [] \<Rightarrow> [] | r # _ \<Rightarrow> r)"
    "unbonding_amounts (cv_transactions b) c = Some amounts"
proof -
  obtain h b0 rest where bs: "blocks c = (h, b0) # rest"
    using assms by (auto simp: pop_root_def split: list.splits)
  define d where "d = (let trees = ts_note_commitment_trees ts;
         c = (if nct_sapling_subtree trees \<noteq> None then c\<lparr>sapling_subtrees := tl (sapling_subtrees c)\<rparr> else c);
         c = (if nct_orchard_subtree trees \<noteq> None then c\<lparr>orchard_subtrees := tl (orchard_subtrees c)\<rparr> else c);
         c = c\<lparr>blocks := rest\<rparr>
       in c\<lparr>bond_rewards := tl (bond_rewards c), bond_retargets := tl (bond_retargets c)\<rparr>)"
  have fd: "frame d = (rest, height_by_hash c, partial_cumulative_work c, chain_network c, last_fork_height c)"
    and dd: "delegation_bonds d = delegation_bonds c"
    by (simp_all add: d_def Let_def frame_def)
  have "b0 = b" and am: "unbonding_amounts (cv_transactions b) d = Some amounts"
    and rv: "revert_chain_with b Root d = Some c'" and r: "rewards = (case bond_rewards c of [] \<Rightarrow> [] | r # _ \<Rightarrow> r)"
    using assms by (auto simp: pop_root_def bs d_def bind_eq_Some_conv Let_def)
  obtain w w' where w: "block_work b = Some w" "work_sub (partial_cumulative_work d) w = Some w'"
    "Mapping.lookup (height_by_hash d) (cv_hash b) \<noteq> None"
    "frame c' = (blocks d, Mapping.delete (cv_hash b) (height_by_hash d), w', chain_network d, last_fork_height d)"
    using revert_chain_frame [OF rv] by blast
  show "\<exists>h. blocks c = (h, b) # blocks c'"
    "\<exists>w. block_work b = Some w \<and> work_sub (partial_cumulative_work c) w = Some (partial_cumulative_work c')"
    "Mapping.lookup (height_by_hash c) (cv_hash b) \<noteq> None"
    "height_by_hash c' = Mapping.delete (cv_hash b) (height_by_hash c)"
    "chain_network c' = chain_network c" "last_fork_height c' = last_fork_height c"
    using w fd bs \<open>b0 = b\<close> by (auto simp: frame_def)
  show "rewards = (case bond_rewards c of [] \<Rightarrow> [] | r # _ \<Rightarrow> r)" by (rule r)
  show "unbonding_amounts (cv_transactions b) c = Some amounts"
    using am unbonding_amounts_cong [OF dd] by simp
qed

lemma pop_tip_frame:
  assumes "pop_tip c = Some c'"
  shows "blocks c' \<noteq> []" "\<exists>h b w. blocks c = blocks c' @ [(h, b)] \<and> Mapping.lookup (height_by_hash c) (cv_hash b) \<noteq> None \<and>
      block_work b = Some w \<and> work_sub (partial_cumulative_work c) w = Some (partial_cumulative_work c') \<and>
      height_by_hash c' = Mapping.delete (cv_hash b) (height_by_hash c)"
    "chain_network c' = chain_network c" "last_fork_height c' = last_fork_height c"
proof -
  obtain h b where hb: "last (blocks c) = (h, b)" by (cases "last (blocks c)")
  have d: "blocks c \<noteq> []" "butlast (blocks c) \<noteq> []" "revert_chain_with b Tip (c\<lparr>blocks := butlast (blocks c)\<rparr>) = Some c'"
    using assms hb by (auto simp: pop_tip_def bind_eq_Some_conv Let_def)
  obtain w w' where w: "block_work b = Some w" "work_sub (partial_cumulative_work c) w = Some w'"
    "Mapping.lookup (height_by_hash c) (cv_hash b) \<noteq> None"
    "frame c' = (butlast (blocks c), Mapping.delete (cv_hash b) (height_by_hash c), w', chain_network c, last_fork_height c)"
    using revert_chain_frame [OF d(3)] by auto
  have "blocks c = butlast (blocks c) @ [(h, b)]" using d(1) hb by (metis append_butlast_last_id)
  then show "blocks c' \<noteq> []" "\<exists>h b w. blocks c = blocks c' @ [(h, b)] \<and> Mapping.lookup (height_by_hash c) (cv_hash b) \<noteq> None \<and>
      block_work b = Some w \<and> work_sub (partial_cumulative_work c) w = Some (partial_cumulative_work c') \<and>
      height_by_hash c' = Mapping.delete (cv_hash b) (height_by_hash c)"
    "chain_network c' = chain_network c" "last_fork_height c' = last_fork_height c"
    using w d(2) by (auto simp: frame_def)
qed

section \<open>Forking\<close>

lemma pop_tip_blocks: "pop_tip c = Some c' \<Longrightarrow> blocks c' = butlast (blocks c) \<and> blocks c' \<noteq> []"
  using pop_tip_frame(1,2) by (metis butlast_snoc)

text \<open>The loop pops the tip until it is the requested block; every turn removes a block.\<close>

function fork_loop :: "bytes \<Rightarrow> Chain \<Rightarrow> Chain rust" where
  "fork_loop fork_tip forked = do {
     tip \<leftarrow> non_finalized_tip_hash forked;
     if tip \<noteq> fork_tip then do {
       forked \<leftarrow> pop_tip forked;
       height \<leftarrow> non_finalized_tip_height forked;
       fork_loop fork_tip (forked\<lparr>last_fork_height := Some height\<rparr>) }
     else Some forked }"
  by pat_completeness auto

termination
  by (relation "measure (\<lambda>(_, c). length (blocks c))")
    (auto simp: non_finalized_tip_hash_def dest!: pop_tip_blocks split: if_splits)

declare fork_loop.simps [simp del]

definition fork :: "Chain \<Rightarrow> bytes \<Rightarrow> Chain option rust" where
  "fork c fork_tip =
     (if Mapping.lookup (height_by_hash c) fork_tip = None then Some None
      else map_option Some (fork_loop fork_tip c))"

definition option_min :: "'a::linorder option \<Rightarrow> 'a \<Rightarrow> 'a option" where
  "option_min a b = (case a of None \<Rightarrow> None | Some a \<Rightarrow> Some (min a b))"

text \<open>\<^verbatim>\<open>None\<close> is the smallest \<^verbatim>\<open>Option\<close>.\<close>

definition invalidate_block :: "Chain \<Rightarrow> bytes \<Rightarrow> (Chain \<times> ContextuallyVerifiedBlock list) option rust" where
  "invalidate_block c block_hash = (case Mapping.lookup (height_by_hash c) block_hash of
       None \<Rightarrow> Some None
     | Some block_height \<Rightarrow> do {
         new_chain \<leftarrow> fork c block_hash;
         (case new_chain of
            None \<Rightarrow> Some None
          | Some new_chain \<Rightarrow> do {
              new_chain \<leftarrow> pop_tip new_chain;
              let new_chain = new_chain\<lparr>last_fork_height := option_min (last_fork_height c) block_height\<rparr>;
              Some (Some (new_chain, child_blocks c block_height)) }) })"

section \<open>Properties\<close>

lemma fork_loop_blocks:
  "fork_loop h c = Some c' \<Longrightarrow>
     (\<exists>rest. blocks c = blocks c' @ rest) \<and> blocks c' \<noteq> [] \<and> cv_hash (snd (last (blocks c'))) = h"
proof (induction h c arbitrary: c' rule: fork_loop.induct)
  case (1 h c)
  obtain t where t: "non_finalized_tip_hash c = Some t" using 1(2) by (auto simp: fork_loop.simps [of h c] bind_eq_Some_conv)
  show ?case
  proof (cases "t = h")
    case True
    with 1(2) t show ?thesis by (auto simp: fork_loop.simps [of h c] non_finalized_tip_hash_def split: if_splits)
  next
    case False
    with 1(2) t obtain d k where d: "pop_tip c = Some d" "non_finalized_tip_height d = Some k"
      "fork_loop h (d\<lparr>last_fork_height := Some k\<rparr>) = Some c'"
      by (auto simp: fork_loop.simps [of h c] bind_eq_Some_conv)
    from 1(1) [OF t False d] obtain rest where "blocks d = blocks c' @ rest" "blocks c' \<noteq> []"
      "cv_hash (snd (last (blocks c'))) = h" by auto
    moreover have "blocks c = blocks d @ [last (blocks c)]"
      using pop_tip_blocks [OF d(1)] by (metis append_butlast_last_id butlast.simps(1))
    ultimately show ?thesis by (metis append.assoc)
  qed
qed

text \<open>C24: Forking ends, and a chain forked at a hash consists of the blocks up to the block with that hash:
  the loop that pops tip blocks stops at the first block with the hash, and never leaves an empty chain.
\<close>

theorem fork_at_hash:
  assumes "fork c h = Some r"
  shows "case r of
      None \<Rightarrow> Mapping.lookup (height_by_hash c) h = None
    | Some c' \<Rightarrow> (\<exists>rest. blocks c = blocks c' @ rest) \<and> blocks c' \<noteq> [] \<and> cv_hash (snd (last (blocks c'))) = h"
  using assms fork_loop_blocks by (auto simp: fork_def split: if_splits)

text \<open>A chain with two blocks above the finalized tip.\<close>

definition sample_header :: Header where
  "sample_header = \<lparr>header_version = 5, header_previous = [], header_merkle_root = [],
         header_commitment = [], header_time = 0, header_threshold = 0x1f07ffff,
         header_nonce = [], header_solution = [], header_fat_pointer = FatPointer_null\<rparr>"

definition coinbase_block :: "u32 \<Rightarrow> bytes \<Rightarrow> bytes \<Rightarrow> bytes \<Rightarrow> ContextuallyVerifiedBlock" where
  "coinbase_block height hash tx_hash note = \<lparr>cv_header = sample_header, cv_transactions =
       [V5 [Coinbase height] [] (Some \<lparr>nullifiers = [], note_commitments = [note], spend_anchors = [], shared_anchor = [], shielded_value = 0\<rparr>) None],
     cv_hash = hash, cv_height = height, cv_new_outputs = Mapping.empty,
     cv_spent_outputs = Mapping.empty, cv_transaction_hashes = [tx_hash], cv_chain_value_pool_change = vb_zero,
     cv_size = 100\<rparr>"

lemma coinbase_block_work: "block_work (coinbase_block h x y z) = Some 8192"
  by (simp add: block_work_def coinbase_block_def sample_header_def to_work_eq expanded_of_def compact_value_def)

lemmas push_simps = push_def update_chain_tip_with_block_parallel_def update_chain_tip_with_block_except_trees_def
  trees_for_tip_def sprout_note_commitment_tree_for_tip_def sapling_note_commitment_tree_for_tip_def
  orchard_note_commitment_tree_for_tip_def sapling_subtree_for_tip_def orchard_subtree_for_tip_def
  update_trees_parallel_def coinbase_height_def commitments_of_def update_sapling_note_commitment_tree_def
  new_subtree_def max_block_height_def update_transaction_def TransactionLocation_from_usize_def
  TransactionIndex_from_usize_def update_created_utxos_def update_joinsplit_def update_sapling_def update_orchard_def
  update_value_pools_def distribute_rewards_def work_add_def add_trees_def history_block_commitment_tree_def
  btree_last_def insert_subtree_def lookup_update'

lemma bind_ok [simp]: "Option.bind (ok x) f = f (Inr x)" "map_err g (Some (Inr x)) = ok x"
  by (simp_all add: ok_def map_err_def)

lemma pools_unchanged:
  "add_chain_value_pool_change vb_zero vb_zero = ok vb_zero" "vb_neg vb_zero = Some vb_zero"
proof -
  have z: "vb_ok NonNegative vb_zero" "vb_ok NegativeAllowed vb_zero"
    by (simp_all add: vb_ok_def vb_zero_def amount_ok_simps MAX_MONEY_val)
  have "pool_plus vb_zero vb_zero = vb_zero" "pool_uminus vb_zero = vb_zero"
    by (simp_all add: pool_plus_def pool_uminus_def vb_zero_def)
  with pool_change_ok [OF z, of vb_zero] vb_neg_eq(1) [OF z(1)]
  show "add_chain_value_pool_change vb_zero vb_zero = ok vb_zero" "vb_neg vb_zero = Some vb_zero" by (simp_all add: z)
qed

lemmas pop_simps = pop_tip_def revert_chain_with_def revert_rewards_and_retargets_def revert_transaction_def
  revert_created_utxos_def revert_joinsplit_def revert_sapling_def revert_orchard_def remove_trees_def
  remove_sprout_tree_and_anchor_def remove_sapling_tree_and_anchor_def remove_orchard_tree_and_anchor_def
  remove_history_tree_def removed_heights_def highest_removed_tree_def remove_anchor_at_def restore_next_tree_def
  revert_value_pools_def work_sub_def

lemma two_pushes:
  "\<exists>c1 c2 d. push sample_lib sample_tree_chain (coinbase_block 9 [7] [1] [5]) = ok c1 \<and>
     push sample_lib c1 (coinbase_block 10 [8] [2] [6]) = ok c2 \<and>
     non_finalized_tip_hash c2 = Some [8] \<and> Mapping.lookup (height_by_hash c2) [7] = Some 9 \<and>
     pop_tip c2 = Some d \<and> non_finalized_tip_height d = Some 9 \<and> non_finalized_tip_hash d = Some [7]"
  using coinbase_block_work [of 9 "[7]" "[1]" "[5]"] coinbase_block_work [of 10 "[8]" "[2]" "[6]"] pools_unchanged
  by (simp add: push_simps pop_simps tree_run_simps coinbase_block_def non_finalized_tip_hash_def non_finalized_tip_height_def
      sapling_subtree_def orchard_subtree_def height_or_else_def)

lemma fork_loop_step:
  "non_finalized_tip_hash c = Some t \<Longrightarrow> t \<noteq> h \<Longrightarrow> pop_tip c = Some d \<Longrightarrow>
     non_finalized_tip_height d = Some k \<Longrightarrow> fork_loop h c = fork_loop h (d\<lparr>last_fork_height := Some k\<rparr>)"
  "non_finalized_tip_hash c = Some h \<Longrightarrow> fork_loop h c = Some c"
  by (simp_all add: fork_loop.simps [of h c])

theorem fork_at_hash_witness:
  "\<exists>c1 c2 c'. push sample_lib sample_tree_chain (coinbase_block 9 [7] [1] [5]) = ok c1 \<and>
     push sample_lib c1 (coinbase_block 10 [8] [2] [6]) = ok c2 \<and> fork c2 [7] = Some (Some c') \<and>
     (\<exists>rest. blocks c2 = blocks c' @ rest) \<and> blocks c' \<noteq> [] \<and> cv_hash (snd (last (blocks c'))) = [7]"
proof -
  obtain c1 c2 d where c: "push sample_lib sample_tree_chain (coinbase_block 9 [7] [1] [5]) = ok c1"
    "push sample_lib c1 (coinbase_block 10 [8] [2] [6]) = ok c2" "non_finalized_tip_hash c2 = Some [8]"
    "Mapping.lookup (height_by_hash c2) [7] = Some 9" "pop_tip c2 = Some d"
    "non_finalized_tip_height d = Some 9" "non_finalized_tip_hash d = Some [7]"
    using two_pushes by blast
  have "non_finalized_tip_hash (d\<lparr>last_fork_height := Some 9\<rparr>) = Some [7]"
    using c(7) by (simp add: non_finalized_tip_hash_def split: if_splits)
  then have "fork c2 [7] = Some (Some (d\<lparr>last_fork_height := Some 9\<rparr>))"
    using fork_loop_step(1) [OF c(3) _ c(5,6), of "[7]"] fork_loop_step(2) [of "d\<lparr>last_fork_height := Some 9\<rparr>" "[7]"] c(4)
    by (simp add: fork_def)
  with fork_at_hash [OF this] c(1,2) show ?thesis by auto
qed

end
