(* ===== verification/Bond_Pools.thy ===== *)
theory Bond_Pools
  imports Chain_State
begin

text \<open>
  The staking pools of a chain are the sums of its bonds: the bonded pool holds exactly the amounts of
  the active bonds, and the unbonded pool those of the unbonding bonds. The invariant is kept by a
  whole block that passes the validation of its staking actions, and broken by a block that withdraws
  the same bond twice, which the validation accepts.
\<close>

section \<open>The invariant\<close>

definition pools_match :: "Chain \<Rightarrow> bool" where
  "pools_match c \<longleftrightarrow> bonds_ok (delegation_bonds c) \<and> vb_ok NonNegative (chain_value_pools c) \<and>
     bonded c = total_with ChainActive (delegation_bonds c) \<and>
     unbonded c = total_with ChainUnbonding (delegation_bonds c)"

text \<open>What the staking actions of a block add to the bonded and take out of the unbonded pool.\<close>

definition actions_of :: "Transaction list \<Rightarrow> StakingAction list" where
  "actions_of txs = List.map_filter staking_action txs"

definition created_total :: "StakingAction list \<Rightarrow> int" where
  "created_total as = (\<Sum>a\<leftarrow>filter (\<lambda>a. sa_kind a = CreateNewDelegationBond) as. uint (amount_zats a))"

definition withdrawals :: "StakingAction list \<Rightarrow> StakingAction list" where
  "withdrawals as = filter (\<lambda>a. sa_kind a = WithdrawDelegationBond) as"

definition withdrawn_total :: "StakingAction list \<Rightarrow> int" where
  "withdrawn_total as = (\<Sum>a\<leftarrow>withdrawals as. uint (amount_zats a))"

lemma actions_simps [simp]:
  "actions_of [] = []"
  "actions_of (tx # txs) = (case staking_action tx of None \<Rightarrow> [] | Some a \<Rightarrow> [a]) @ actions_of txs"
  by (auto simp: actions_of_def map_filter_simps split: option.splits)

lemma totals_simps [simp]:
  "created_total [] = 0" "withdrawn_total [] = 0" "withdrawals [] = []"
  "created_total (a # as) = (if sa_kind a = CreateNewDelegationBond then uint (amount_zats a) else 0) + created_total as"
  "withdrawn_total (a # as) = (if sa_kind a = WithdrawDelegationBond then uint (amount_zats a) else 0) + withdrawn_total as"
  "withdrawals (a # as) = (if sa_kind a = WithdrawDelegationBond then [a] else []) @ withdrawals as"
  by (simp_all add: created_total_def withdrawn_total_def withdrawals_def)

section \<open>One staking action\<close>

text \<open>
  The bonds in the middle of a block, compared with the chain \<open>c0\<close> the block extends: \<open>new\<close> and \<open>unb\<close>
  are the keys created and unbonded so far, \<open>wd\<close> those withdrawn.
\<close>

definition bond_view_at :: "bonds \<Rightarrow> BondKey set \<Rightarrow> BondKey set \<Rightarrow> BondKey set \<Rightarrow> bonds \<Rightarrow> BondKey \<Rightarrow> bool" where
  "bond_view_at bs0 new unb wd bs k \<longleftrightarrow> (case map_of bs0 k of
       Some (b0, s0) \<Rightarrow> k \<notin> new \<and> (k \<in> wd \<longrightarrow> s0 = ChainUnbonding) \<and> (k \<in> unb \<longrightarrow> s0 = ChainActive) \<and>
         (\<exists>b. map_of bs k = Some (b, if k \<in> wd then ChainWithdrawn else if k \<in> unb then ChainUnbonding else s0) \<and>
           bond_amount b = bond_amount b0)
     | None \<Rightarrow> k \<notin> wd \<and> (if k \<in> new
         then \<exists>b. map_of bs k = Some (b, if k \<in> unb then ChainUnbonding else ChainActive)
         else k \<notin> unb \<and> map_of bs k = None))"

definition bond_view :: "bonds \<Rightarrow> BondKey set \<Rightarrow> BondKey set \<Rightarrow> BondKey set \<Rightarrow> bonds \<Rightarrow> bool" where
  "bond_view bs0 new unb wd bs \<longleftrightarrow> (\<forall>k. bond_view_at bs0 new unb wd bs k)"

text \<open>
  In the middle of a block the pools lag behind: the amounts \<open>cr\<close> of created bonds and \<open>dr\<close> of withdrawn
  bonds are accounted for when the value pool change of the block is added.
\<close>

definition lagging :: "int \<Rightarrow> int \<Rightarrow> Chain \<Rightarrow> bool" where
  "lagging cr dr c \<longleftrightarrow> bonds_ok (delegation_bonds c) \<and> vb_ok NonNegative (chain_value_pools c) \<and>
     bonded c + cr = total_with ChainActive (delegation_bonds c) \<and>
     unbonded c = total_with ChainUnbonding (delegation_bonds c) + dr"

lemma bond_view_start: "bond_view bs {} {} {} bs"
  by (auto simp: bond_view_def bond_view_at_def split: option.splits)

lemma bond_view_update:
  assumes "bond_view bs0 new unb wd bs" "bond_view_at bs0 new' unb' wd' (AList.update key v bs) key"
    "new' - {key} = new - {key}" "unb' - {key} = unb - {key}" "wd' - {key} = wd - {key}"
  shows "bond_view bs0 new' unb' wd' (AList.update key v bs)"
  unfolding bond_view_def
proof
  fix k
  show "bond_view_at bs0 new' unb' wd' (AList.update key v bs) k"
  proof (cases "k = key")
    case False
    then have "k \<in> new' \<longleftrightarrow> k \<in> new" "k \<in> unb' \<longleftrightarrow> k \<in> unb" "k \<in> wd' \<longleftrightarrow> k \<in> wd"
      "map_of (AList.update key v bs) k = map_of bs k" using assms(3-5) by (blast, blast, blast, simp add: update_conv')
    then have "bond_view_at bs0 new' unb' wd' (AList.update key v bs) k = bond_view_at bs0 new unb wd bs k"
      by (simp only: bond_view_at_def)
    with assms(1) show ?thesis by (simp add: bond_view_def)
  qed (use assms(2) in simp)
qed

lemma pools_match_lagging: "pools_match c \<longleftrightarrow> lagging 0 0 c"
  by (auto simp: pools_match_def lagging_def)

lemma set_sel [simp]:
  "delegation_bonds (set_bonded a c) = delegation_bonds c" "delegation_bonds (set_unbonded a c) = delegation_bonds c"
  "bonded (set_bonded a c) = a" "unbonded (set_bonded a c) = unbonded c"
  "bonded (set_unbonded a c) = bonded c" "unbonded (set_unbonded a c) = a"
  "chain_value_pools (set_bond k b s c) = chain_value_pools c"
  "delegation_bonds (set_bond k b s c) = AList.update k (b, s) (delegation_bonds c)"
  by (simp_all add: set_bonded_def set_unbonded_def set_bond_def)

lemma vb_ok_set:
  "vb_ok NonNegative (chain_value_pools c) \<Longrightarrow> amount_ok NonNegative a \<Longrightarrow>
     vb_ok NonNegative (chain_value_pools (set_bonded a c))"
  "vb_ok NonNegative (chain_value_pools c) \<Longrightarrow> amount_ok NonNegative a \<Longrightarrow>
     vb_ok NonNegative (chain_value_pools (set_unbonded a c))"
  by (simp_all add: vb_ok_def set_bonded_def set_unbonded_def)

lemma lagging_transfer:
  assumes "lagging (cr - x) (dr - x) c" "amount_ok NonNegative (bonded c - x)" "amount_ok NonNegative (unbonded c + x)"
  shows "lagging cr dr (set_unbonded (unbonded c + x) (set_bonded (bonded c - x) c))"
  using assms by (simp add: lagging_def vb_ok_set)

text \<open>Writing one bond.\<close>

lemma lagging_set_bond:
  assumes "lagging cr dr c" "amount_ok NonNegative (bond_amount b)"
    "(case map_of (delegation_bonds c) k of None \<Rightarrow> 0 | Some v \<Rightarrow> weight ChainActive v) + x = weight ChainActive (b, s)"
    "(case map_of (delegation_bonds c) k of None \<Rightarrow> 0 | Some v \<Rightarrow> weight ChainUnbonding v) = weight ChainUnbonding (b, s) + y"
  shows "lagging (cr + x) (dr + y) (set_bond k b s c)"
  using assms bonds_ok_update [of "delegation_bonds c" b k s]
  by (simp add: lagging_def total_update bonds_ok_distinct)

lemma try_from_u64_ok:
  "amount_try_from_u64 NonNegative w = ok a \<Longrightarrow> a = uint w \<and> amount_ok NonNegative a"
  by (auto simp: amount_try_from_u64_def i64_checked_def split: if_splits option.splits)

lemma create_step:
  assumes "lagging cr dr c" "sa_kind a = CreateNewDelegationBond"
    "update_chain_tip_with_delegation_bond a l c = ok c'"
  shows "lagging (cr + uint (amount_zats a)) dr c' \<and> map_of (delegation_bonds c) (arg32_0 a) = None \<and>
    (\<exists>b. delegation_bonds c' = AList.update (arg32_0 a) (b, ChainActive) (delegation_bonds c))"
proof -
  obtain m where m: "amount_try_from_u64 NonNegative (amount_zats a) = ok m"
    "map_of (delegation_bonds c) (arg32_0 a) = None"
    "c' = set_bond (arg32_0 a) \<lparr>bond_amount = m, target_finalizer = arg32_2 a, created_at = l\<rparr> ChainActive c"
    using assms(2,3)
    by (auto simp: update_chain_tip_with_delegation_bond_def Let_def bind_ok_iff rassert_def split: if_splits)
  show ?thesis
    using lagging_set_bond [OF assms(1), of "\<lparr>bond_amount = m, target_finalizer = arg32_2 a, created_at = l\<rparr>"
        "arg32_0 a" "uint (amount_zats a)" ChainActive 0] try_from_u64_ok [OF m(1)] m by auto
qed

lemma unbond_step:
  assumes "lagging cr dr c" "sa_kind a = BeginDelegationUnbonding"
    "update_chain_tip_with_delegation_bond a l c = ok c'"
    "map_of (delegation_bonds c) (arg32_0 a) = Some (b0, ChainActive)"
  shows "lagging cr dr c' \<and>
    delegation_bonds c' = AList.update (arg32_0 a) (b0\<lparr>created_at := l\<rparr>, ChainUnbonding) (delegation_bonds c)"
proof -
  let ?d = "set_bond (arg32_0 a) (b0\<lparr>created_at := l\<rparr>) ChainUnbonding c"
  obtain nb nu where n: "amount_sub NonNegative (bonded ?d) (bond_amount b0) = ok nb"
    "amount_add NonNegative (unbonded (set_bonded nb ?d)) (bond_amount b0) = ok nu"
    "c' = set_unbonded nu (set_bonded nb ?d)"
    using assms(2-4) by (auto simp: update_chain_tip_with_delegation_bond_def Let_def tryr_ok_iff)
  have ok: "bonds_ok (delegation_bonds c)" "vb_ok NonNegative (chain_value_pools c)" using assms(1) by (simp_all add: lagging_def)
  then have a: "amount_ok NonNegative (bond_amount b0)" "amount_ok NonNegative (bonded c)" "amount_ok NonNegative (unbonded c)"
    using bonds_ok_amount assms(4) by (auto simp: vb_ok_def)
  have "nb = bonded c - bond_amount b0 \<and> amount_ok NonNegative nb" "nu = unbonded c + bond_amount b0 \<and> amount_ok NonNegative nu"
    using n(1,2) amount_sub_eq [OF a(2) a(1)] amount_add_eq [OF a(3) a(1)] by simp_all
  moreover have "lagging (cr - bond_amount b0) (dr - bond_amount b0) ?d"
    using lagging_set_bond [OF assms(1), of "b0\<lparr>created_at := l\<rparr>" "arg32_0 a" "- bond_amount b0" ChainUnbonding "- bond_amount b0"]
      assms(4) a(1) by simp
  ultimately show ?thesis unfolding n(3) using lagging_transfer [of cr "bond_amount b0" dr ?d] by auto
qed

lemma withdraw_step:
  assumes "lagging cr dr c" "sa_kind a = WithdrawDelegationBond"
    "update_chain_tip_with_delegation_bond a l c = ok c'"
    "map_of (delegation_bonds c) (arg32_0 a) = Some (b0, ChainUnbonding)"
  shows "lagging cr (dr + bond_amount b0) c' \<and>
    delegation_bonds c' = AList.update (arg32_0 a) (b0\<lparr>created_at := l\<rparr>, ChainWithdrawn) (delegation_bonds c)"
proof -
  have "c' = set_bond (arg32_0 a) (b0\<lparr>created_at := l\<rparr>) ChainWithdrawn c"
    using assms(2-4) by (simp add: update_chain_tip_with_delegation_bond_def Let_def)
  moreover have "amount_ok NonNegative (bond_amount b0)"
    using assms(1,4) bonds_ok_amount by (auto simp: lagging_def)
  ultimately show ?thesis
    using lagging_set_bond [OF assms(1), of "b0\<lparr>created_at := l\<rparr>" "arg32_0 a" 0 ChainWithdrawn "bond_amount b0"]
      assms(4) by simp
qed

lemma retarget_step:
  assumes "lagging cr dr c" "sa_kind a = RetargetDelegationBond"
    "update_chain_tip_with_delegation_bond a l c = ok c'"
  shows "lagging cr dr c' \<and> (\<exists>b0 b s. map_of (delegation_bonds c) (arg32_0 a) = Some (b0, s) \<and>
    bond_amount b = bond_amount b0 \<and> delegation_bonds c' = AList.update (arg32_0 a) (b, s) (delegation_bonds c))"
proof -
  obtain b0 s where b0: "map_of (delegation_bonds c) (arg32_0 a) = Some (b0, s)"
    using assms(2,3) by (auto simp: update_chain_tip_with_delegation_bond_def Let_def bind_ok_iff)
  obtain r where c': "c' = set_bond (arg32_0 a) (b0\<lparr>target_finalizer := arg32_2 a\<rparr>) s (c\<lparr>bond_retargets := r\<rparr>)"
    using assms(2,3) b0 by (auto simp: update_chain_tip_with_delegation_bond_def Let_def rassert_def split: if_splits)
  have "amount_ok NonNegative (bond_amount b0)" using assms(1) b0 bonds_ok_amount by (auto simp: lagging_def)
  moreover have "lagging cr dr (c\<lparr>bond_retargets := r\<rparr>)" using assms(1) by (simp add: lagging_def)
  ultimately show ?thesis
    using lagging_set_bond [of cr dr "c\<lparr>bond_retargets := r\<rparr>" "b0\<lparr>target_finalizer := arg32_2 a\<rparr>" "arg32_0 a" 0 s 0] b0 c'
    by (cases s) (auto intro!: exI [of _ "b0\<lparr>target_finalizer := arg32_2 a\<rparr>"])
qed

section \<open>The validation\<close>

text \<open>The keys of the bonds created in the block so far.\<close>

definition new_keys :: "(BondKey \<times> DelegationBond) list \<Rightarrow> BondKey set" where
  "new_keys block_new_bonds = dom (map_of block_new_bonds)"

lemma new_keys_simps [simp]:
  "new_keys [] = {}"
  "new_keys (AList.update k b nb) = insert k (new_keys nb)"
  "map_of nb k = None \<longleftrightarrow> k \<notin> new_keys nb"
  by (auto simp: new_keys_def update_conv')

lemma validate_create:
  "validate_staking_action h c0 db a (nb, ub) = ok seen \<Longrightarrow> sa_kind a = CreateNewDelegationBond \<Longrightarrow>
     map_of (delegation_bonds c0) (arg32_0 a) = None \<and> arg32_0 a \<notin> new_keys nb \<and>
     new_keys (fst seen) = insert (arg32_0 a) (new_keys nb) \<and> snd seen = ub"
  by (cases "map_of (delegation_bonds c0) (arg32_0 a)")
    (auto simp: validate_staking_action_def validate_create_new_bond_def tryr_ok_iff bind_ok_iff Let_def
      split: if_splits)

lemma validate_unbond:
  "validate_staking_action h c0 db a (nb, ub) = ok seen \<Longrightarrow> sa_kind a = BeginDelegationUnbonding \<Longrightarrow>
     arg32_0 a \<notin> set ub \<and> fst seen = nb \<and> set (snd seen) = insert (arg32_0 a) (set ub) \<and>
     (arg32_0 a \<in> new_keys nb \<or> map_of (delegation_bonds c0) (arg32_0 a) = None \<or>
      (\<exists>b. map_of (delegation_bonds c0) (arg32_0 a) = Some (b, ChainActive)))"
  by (auto simp: validate_staking_action_def validate_bond_for_unbonding_def tryr_ok_iff Let_def
      split: if_splits option.splits BondStatusInChain.splits)

lemma validate_withdraw:
  "validate_staking_action h c0 db a (nb, ub) = ok seen \<Longrightarrow> sa_kind a = WithdrawDelegationBond \<Longrightarrow>
     seen = (nb, ub) \<and> (\<exists>b. map_of (delegation_bonds c0) (arg32_0 a) = Some (b, ChainUnbonding) \<and>
       amount_into_u64 (bond_amount b) = Some (amount_zats a))"
  by (auto simp: validate_staking_action_def validate_bond_for_withdrawal_def tryr_ok_iff bind_ok_iff
      split: if_splits option.splits BondStatusInChain.splits)

lemma validate_other:
  "validate_staking_action h c0 db a seen = ok seen' \<Longrightarrow>
     sa_kind a \<notin> {CreateNewDelegationBond, BeginDelegationUnbonding, WithdrawDelegationBond} \<Longrightarrow> seen' = seen"
  by (cases "sa_kind a") (auto simp: validate_staking_action_def tryr_ok_iff split: prod.splits)

section \<open>A block\<close>

text \<open>One validated staking action in the middle of a block.\<close>

definition in_block :: "Chain \<Rightarrow> (BondKey \<times> DelegationBond) list \<times> BondKey list \<Rightarrow> StakingAction list \<Rightarrow> Chain \<Rightarrow> bool" where
  "in_block c0 seen done c \<longleftrightarrow> lagging (created_total done) (withdrawn_total done) c \<and>
     bond_view (delegation_bonds c0) (new_keys (fst seen)) (set (snd seen)) (arg32_0 ` set (withdrawals done))
       (delegation_bonds c)"

text \<open>The view after an action that writes the bond of its key.\<close>

lemma in_blockI:
  assumes "bond_view (delegation_bonds c0) (new_keys nb) (set ub) (arg32_0 ` set (withdrawals past)) (delegation_bonds c)"
    "lagging (created_total (past @ [a])) (withdrawn_total (past @ [a])) c'"
    "delegation_bonds c' = AList.update (arg32_0 a) v (delegation_bonds c)"
    "new_keys (fst seen) - {arg32_0 a} = new_keys nb - {arg32_0 a}" "set (snd seen) - {arg32_0 a} = set ub - {arg32_0 a}"
    "bond_view_at (delegation_bonds c0) (new_keys (fst seen)) (set (snd seen))
       (arg32_0 ` set (withdrawals (past @ [a]))) (AList.update (arg32_0 a) v (delegation_bonds c)) (arg32_0 a)"
  shows "in_block c0 seen (past @ [a]) c'"
proof -
  have "arg32_0 ` set (withdrawals (past @ [a])) - {arg32_0 a} = arg32_0 ` set (withdrawals past) - {arg32_0 a}"
    by (auto simp: withdrawals_def)
  from bond_view_update [OF assms(1,6,4,5) this] show ?thesis using assms(2,3) by (simp add: in_block_def)
qed

lemma in_blockD:
  assumes "in_block c0 (nb, ub) past c"
  shows "lagging (created_total past) (withdrawn_total past) c"
    "bond_view (delegation_bonds c0) (new_keys nb) (set ub) (arg32_0 ` set (withdrawals past)) (delegation_bonds c)"
    "bond_view_at (delegation_bonds c0) (new_keys nb) (set ub) (arg32_0 ` set (withdrawals past)) (delegation_bonds c) k"
  using assms by (simp_all add: in_block_def bond_view_def)

lemma totals_snoc [simp]:
  "created_total (as @ [a]) = created_total as + created_total [a]"
  "withdrawn_total (as @ [a]) = withdrawn_total as + withdrawn_total [a]"
  "withdrawals (as @ [a]) = withdrawals as @ withdrawals [a]"
  by (simp_all add: created_total_def withdrawn_total_def withdrawals_def)

lemma in_block_create:
  assumes "in_block c0 (nb, ub) past c" "sa_kind a = CreateNewDelegationBond"
    "validate_staking_action h c0 db a (nb, ub) = ok seen" "update_chain_tip_with_delegation_bond a l c = ok c'"
  shows "in_block c0 seen (past @ [a]) c'"
proof -
  note v = validate_create [OF assms(3,2)] and ib = in_blockD [OF assms(1)]
  obtain b where b: "delegation_bonds c' = AList.update (arg32_0 a) (b, ChainActive) (delegation_bonds c)"
    and lg: "lagging (created_total past + uint (amount_zats a)) (withdrawn_total past) c'"
    using create_step [OF ib(1) assms(2,4)] by blast
  show ?thesis
    by (rule in_blockI [OF ib(2) _ b])
      (use v lg assms(2) ib(3) [of "arg32_0 a"] in \<open>simp_all add: bond_view_at_def update_conv'\<close>)
qed

lemma in_block_unbond:
  assumes "in_block c0 (nb, ub) past c" "sa_kind a = BeginDelegationUnbonding"
    "validate_staking_action h c0 db a (nb, ub) = ok seen" "update_chain_tip_with_delegation_bond a l c = ok c'"
  shows "in_block c0 seen (past @ [a]) c'"
proof -
  note v = validate_unbond [OF assms(3,2)] and ib = in_blockD [OF assms(1)]
  obtain b0 s where "map_of (delegation_bonds c) (arg32_0 a) = Some (b0, s)"
    using assms(2,4) by (auto simp: update_chain_tip_with_delegation_bond_def Let_def bind_ok_iff)
  then have b0: "map_of (delegation_bonds c) (arg32_0 a) = Some (b0, ChainActive)"
    using v ib(3) [of "arg32_0 a"] by (auto simp: bond_view_at_def split: option.splits if_splits)
  from unbond_step [OF ib(1) assms(2,4) b0] have lg: "lagging (created_total past) (withdrawn_total past) c'"
    and b: "delegation_bonds c' = AList.update (arg32_0 a) (b0\<lparr>created_at := l\<rparr>, ChainUnbonding) (delegation_bonds c)" by blast+
  show ?thesis
    by (rule in_blockI [OF ib(2) _ b])
      (use v lg assms(2) b0 ib(3) [of "arg32_0 a"] in \<open>auto simp: bond_view_at_def update_conv' split: option.splits if_splits\<close>)
qed

lemma in_block_withdraw:
  assumes "in_block c0 (nb, ub) past c" "sa_kind a = WithdrawDelegationBond"
    "validate_staking_action h c0 db a (nb, ub) = ok seen" "update_chain_tip_with_delegation_bond a l c = ok c'"
    "arg32_0 a \<notin> arg32_0 ` set (withdrawals past)" "bonds_ok (delegation_bonds c0)"
  shows "in_block c0 seen (past @ [a]) c'"
proof -
  note v = validate_withdraw [OF assms(3,2)] and ib = in_blockD [OF assms(1)]
  obtain b1 where b1: "map_of (delegation_bonds c0) (arg32_0 a) = Some (b1, ChainUnbonding)"
    "amount_into_u64 (bond_amount b1) = Some (amount_zats a)" using v by blast
  have "uint (word_of_int (bond_amount b1) :: u64) = bond_amount b1"
    using bonds_ok_amount [OF assms(6) b1(1)]
    by (simp add: amount_ok_simps MAX_MONEY_val unsigned_of_int take_bit_int_eq_self)
  then have amt: "bond_amount b1 = uint (amount_zats a)"
    using b1(2) by (auto simp: amount_into_u64_def rassert_def split: if_splits)
  obtain b0 where b0: "map_of (delegation_bonds c) (arg32_0 a) = Some (b0, ChainUnbonding)" "bond_amount b0 = bond_amount b1"
    using b1 assms(5) ib(3) [of "arg32_0 a"] by (auto simp: bond_view_at_def split: if_splits)
  from withdraw_step [OF ib(1) assms(2,4) b0(1)] have
    lg: "lagging (created_total past) (withdrawn_total past + bond_amount b0) c'"
    and b: "delegation_bonds c' = AList.update (arg32_0 a) (b0\<lparr>created_at := l\<rparr>, ChainWithdrawn) (delegation_bonds c)" by blast+
  show ?thesis
    by (rule in_blockI [OF ib(2) _ b])
      (use v lg amt assms(2) b0 b1 ib(3) [of "arg32_0 a"] in \<open>auto simp: bond_view_at_def update_conv' split: if_splits\<close>)
qed

lemma in_block_retarget:
  assumes "in_block c0 (nb, ub) past c" "sa_kind a = RetargetDelegationBond"
    "validate_staking_action h c0 db a (nb, ub) = ok seen" "update_chain_tip_with_delegation_bond a l c = ok c'"
  shows "in_block c0 seen (past @ [a]) c'"
proof -
  have v: "seen = (nb, ub)" using validate_other [OF assms(3)] assms(2) by simp
  note ib = in_blockD [OF assms(1)]
  from retarget_step [OF ib(1) assms(2,4)] obtain b0 b s where
    lg: "lagging (created_total past) (withdrawn_total past) c'"
    and b0: "map_of (delegation_bonds c) (arg32_0 a) = Some (b0, s)" "bond_amount b = bond_amount b0"
    and b: "delegation_bonds c' = AList.update (arg32_0 a) (b, s) (delegation_bonds c)" by blast
  show ?thesis
    by (rule in_blockI [OF ib(2) _ b])
      (use v lg assms(2) b0 ib(3) [of "arg32_0 a"] in \<open>auto simp: bond_view_at_def update_conv' split: option.splits if_splits\<close>)
qed

lemma in_block_action:
  assumes "in_block c0 seen past c" "validate_staking_action h c0 db a seen = ok seen'"
    "update_chain_tip_with_delegation_bond a l c = ok c'" "bonds_ok (delegation_bonds c0)"
    "sa_kind a = WithdrawDelegationBond \<Longrightarrow> arg32_0 a \<notin> arg32_0 ` set (withdrawals past)"
  shows "in_block c0 seen' (past @ [a]) c'"
proof -
  obtain nb ub where s: "seen = (nb, ub)" by (cases seen)
  consider (create) "sa_kind a = CreateNewDelegationBond" | (unbond) "sa_kind a = BeginDelegationUnbonding"
    | (withdraw) "sa_kind a = WithdrawDelegationBond" | (retarget) "sa_kind a = RetargetDelegationBond"
    | (other) "sa_kind a \<notin> {CreateNewDelegationBond, BeginDelegationUnbonding, WithdrawDelegationBond, RetargetDelegationBond}"
    by blast
  then show ?thesis
  proof cases
    case other
    then have "c' = c" "seen' = seen"
      using assms(3) validate_other [OF assms(2)]
      by (cases "sa_kind a"; simp add: update_chain_tip_with_delegation_bond_def)+
    with other assms(1) show ?thesis by (simp add: in_block_def)
  next
    case create
    from in_block_create [OF assms(1) [unfolded s] create assms(2) [unfolded s] assms(3)] show ?thesis .
  next
    case unbond
    from in_block_unbond [OF assms(1) [unfolded s] unbond assms(2) [unfolded s] assms(3)] show ?thesis .
  next
    case withdraw
    from in_block_withdraw [OF assms(1) [unfolded s] withdraw assms(2) [unfolded s] assms(3) assms(5) [OF withdraw] assms(4)]
    show ?thesis .
  next
    case retarget
    from in_block_retarget [OF assms(1) [unfolded s] retarget assms(2) [unfolded s] assms(3)] show ?thesis .
  qed
qed

text \<open>The transactions of a block.\<close>

lemma in_block_same: "same_bonds c c' \<Longrightarrow> in_block c0 seen past c \<Longrightarrow> in_block c0 seen past c'"
  by (simp add: same_bonds_def in_block_def lagging_def)

lemma update_transaction_bonds:
  assumes "update_transaction b i tx h c = ok c'"
  shows "\<exists>c1 c2 l. same_bonds c c1 \<and> same_bonds c2 c' \<and>
    (case staking_action tx of None \<Rightarrow> c2 = c1 | Some a \<Rightarrow> update_chain_tip_with_delegation_bond a l c1 = ok c2)"
proof -
  obtain ins outs j s1 s2 r where p: "tx_parts tx = Some (ins, outs, j, s1, s2, r)"
    using assms by (cases "tx_parts tx") (auto simp: update_transaction_def)
  obtain l c1 c3 c4 c5 c6 c7 where c:
    "update_created_utxos outs h (cv_new_outputs b)
       (c\<lparr>tx_loc_by_hash := Mapping.update h l (tx_loc_by_hash c)\<rparr>) = Some c1"
    "update_spent_utxos ins h (cv_spent_outputs b) c1 = Some c3"
    "(case staking_action tx of Some a \<Rightarrow> update_chain_tip_with_delegation_bond a l c3 | None \<Rightarrow> ok c3) = ok c4"
    "update_joinsplit j h c4 = ok c5" "update_sapling s1 h c5 = ok c6" "update_sapling s2 h c6 = ok c7"
    "update_orchard r h c7 = ok c'"
    using assms [unfolded update_transaction_def p bind.bind_lunit prod.case bind_ok_iff Let_def tryr_ok_iff] by blast
  have "same_bonds (c\<lparr>tx_loc_by_hash := Mapping.update h l (tx_loc_by_hash c)\<rparr>) c1"
    using c(1) by (simp add: update_created_utxos_def created_loop_same)
  then have "same_bonds c c1" by (simp add: same_bonds_def)
  then have 1: "same_bonds c c3" using spent_loop_same [OF c(2)] by (rule same_bonds_trans)
  have 2: "same_bonds c4 c'"
    using shielded_same(1) [OF c(4)] shielded_same(2) [OF c(5)] shielded_same(2) [OF c(6)] shielded_same(3) [OF c(7)]
    by (simp add: same_bonds_def)
  have "case staking_action tx of None \<Rightarrow> c4 = c3 | Some a \<Rightarrow> update_chain_tip_with_delegation_bond a l c3 = ok c4"
    using c(3) by (auto split: option.splits)
  with 1 2 show ?thesis by blast
qed

lemma in_block_transactions:
  assumes "in_block c0 seen past c" "bonds_ok (delegation_bonds c0)"
    "update_transactions b i (zip txs hs) c = ok c'" "length hs = length txs"
    "validate_loop h c0 db txs seen = ok seen'" "distinct (map arg32_0 (withdrawals (past @ actions_of txs)))"
  shows "in_block c0 seen' (past @ actions_of txs) c'"
  using assms(1,3-)
proof (induction txs arbitrary: hs seen past c i)
  case (Cons tx txs)
  obtain hh hs' where hs: "hs = hh # hs'" using Cons.prems(3) by (cases hs) auto
  obtain c1 where c1: "update_transaction b i tx hh c = ok c1" "update_transactions b (Suc i) (zip txs hs') c1 = ok c'"
    using Cons.prems(2) hs by (auto simp: tryr_ok_iff)
  obtain d1 d2 l where d: "same_bonds c d1" "same_bonds d2 c1" "case staking_action tx of None \<Rightarrow> d2 = d1
      | Some a \<Rightarrow> update_chain_tip_with_delegation_bond a l d1 = ok d2"
    using update_transaction_bonds [OF c1(1)] by blast
  note i1 = in_block_same [OF d(1) Cons.prems(1)]
  show ?case
  proof (cases "staking_action tx")
    case None
    then have "in_block c0 seen past c1" using d(2,3) i1 in_block_same by auto
    from Cons.IH [OF this c1(2)] Cons.prems(3-) None hs show ?thesis by simp
  next
    case (Some a)
    then obtain s1 where s1: "validate_staking_action h c0 db a seen = ok s1" "validate_loop h c0 db txs s1 = ok seen'"
      using Cons.prems(4) by (auto simp: tryr_ok_iff)
    have "arg32_0 a \<notin> arg32_0 ` set (withdrawals past)" if "sa_kind a = WithdrawDelegationBond"
      using Cons.prems(5) Some that by (auto simp: withdrawals_def)
    with in_block_action [OF i1 s1(1) _ assms(2), of l d2] d(3) Some
    have "in_block c0 s1 (past @ [a]) d2" by auto
    then have "in_block c0 s1 (past @ [a]) c1" using d(2) in_block_same by blast
    from Cons.IH [OF this c1(2) _ s1(2)] Cons.prems(3-) Some hs show ?thesis by simp
  qed
qed simp

text \<open>The value pool change of the block catches up with the created and withdrawn bonds.\<close>

lemma pools_catch_up:
  assumes "lagging cr dr c" "vb_ok NegativeAllowed change" "staking_bonded change = cr"
    "staking_unbonded change = - dr" "update_value_pools change h n c = ok c'"
  shows "pools_match c'"
proof -
  obtain p where p: "add_chain_value_pool_change (chain_value_pools c) change = ok p"
    "delegation_bonds c' = delegation_bonds c" "chain_value_pools c' = p"
    using assms(5) by (auto simp: update_value_pools_def tryr_ok_iff)
  have "vb_ok NonNegative (chain_value_pools c)" using assms(1) by (simp add: lagging_def)
  from pool_change_ok [OF this assms(2), of p] p(1) have "p = pool_plus (chain_value_pools c) change" "vb_ok NonNegative p" by auto
  with assms p(2,3) show ?thesis by (simp add: pools_match_def lagging_def pool_plus_def)
qed

text \<open>Rewards that are paid out at all are paid out exactly.\<close>

lemma reward_loop_zero:
  "reward_loop m 0 bs f = Some r \<Longrightarrow> x \<in> set bs \<Longrightarrow> \<not> payable m x"
proof (induction bs arbitrary: f r)
  case (Cons y bs)
  obtain k b s where y: "y = (k, (b, s))" by (cases y) auto
  show ?case
  proof (cases "s = ChainActive \<and> k \<noteq> m")
    case True
    then show ?thesis using Cons.prems(1) y by (auto simp: reward_share_def rassert_def bind_eq_Some_conv)
  next
    case False
    with Cons.prems(1) y obtain r' where "reward_loop m 0 bs f = Some r'" by (auto simp: bind_eq_Some_conv)
    from Cons.IH [OF this] Cons.prems(2) y False show ?thesis by auto
  qed
qed simp

lemma stakes_distinct: "bonds_ok bs \<Longrightarrow> distinct (map fst (stakes_of bs))"
  by (simp add: stakes_of_def comp_def case_prod_beta bonds_ok_def distinct_map_filter)

lemma single_staker:
  assumes "bonds_ok bs" "\<And>x. x \<in> set bs \<Longrightarrow> \<not> payable m x"
  shows "length (stakes_of bs) \<le> 1"
proof -
  have "set (map fst (stakes_of bs)) \<subseteq> {m}" using assms(2) by (force simp: stakes_of_def)
  then have "card (set (map fst (stakes_of bs))) \<le> card {m}" by (intro card_mono) simp_all
  then show ?thesis using distinct_card [OF stakes_distinct [OF assms(1)]] by simp
qed

lemma rewards_pools_match:
  assumes "pools_match c" "distribute_rewards c = Some c'"
  shows "pools_match c'"
proof (cases "list_all (\<lambda>(_, (_, status)). status \<noteq> ChainActive) (delegation_bonds c)")
  case True
  with assms show ?thesis by (auto simp: distribute_rewards_def pools_match_def)
next
  case False
  let ?bs = "delegation_bonds c"
  have ok: "bonds_ok ?bs" "vb_ok NonNegative (chain_value_pools c)"
    and T: "bonded c = total_with ChainActive ?bs" using assms(1) by (simp_all add: pools_match_def)
  obtain m t bs' f st nb where d: "find_max_staker ?bs = Some (m, t)" "reward_loop m t ?bs 0 = Some (bs', f, st)"
    "amount_add NonNegative (bonded c) (sint BOND_REWARD_TOTAL) = ok nb"
    using assms(2) False by (auto simp: distribute_rewards_def bind_eq_Some_conv amount_new_def Let_def set_bonded_def)
  have b: "amount_ok NonNegative (bonded c)" using ok(2) by (simp add: vb_ok_def)
  have "sint BOND_REWARD_TOTAL = 500000000" by (simp add: BOND_REWARD_TOTAL_def sint_uint)
  then have nb: "bonded c + 500000000 \<le> MAX_MONEY"
    using d(3) amount_add_eq [OF b, of NonNegative 500000000] by (simp add: amount_ok_simps MAX_MONEY_val)
  obtain m' t' where "find_max_staker ?bs = Some (m', t')" "is_best ?bs m'" "unat t' = nat (total_with ChainActive ?bs)"
    using find_max_staker_spec [OF ok(1) False] b T by (auto simp: amount_ok_simps)
  with d(1) have m: "is_best ?bs m" "unat t = nat (total_with ChainActive ?bs)" by auto
  have "0 < total_with ChainActive ?bs \<or> length (stakes_of ?bs) \<le> 1"
  proof (cases "0 < total_with ChainActive ?bs")
    case False
    then have "t = 0" using m(2) by (simp add: unat_eq_0)
    then have "\<not> payable m x" if "x \<in> set ?bs" for x using reward_loop_zero d(2) that by blast
    with single_staker [OF ok(1)] show ?thesis by blast
  qed simp
  then have pay: "rewards_payable c" using nb T b by (simp add: rewards_payable_def Let_def amount_ok_simps)
  obtain m2 store where r: "is_best ?bs m2" "distribute_rewards c = Some ((set_bonded (bonded c + 500000000) c)
      \<lparr>delegation_bonds := map (award ?bs m2) ?bs, bond_rewards := bond_rewards c @ [store]\<rparr>)"
    using distribute_rewards_eq [OF ok(1) False pay] by blast
  have "amount_ok NonNegative (bonded c + 500000000)" using nb b by (simp add: amount_ok_simps)
  then show ?thesis
    using r(2) assms(1,2) award_total [OF ok(1) r(1)] award_bonds_ok [OF ok(1) r(1)] nb T
    by (auto simp: pools_match_def set_bonded_def vb_ok_def)
qed

section \<open>Properties\<close>


definition staking_tx :: "StakingActionKind \<Rightarrow> bytes \<Rightarrow> u64 \<Rightarrow> Transaction" where
  "staking_tx kind key amt = VCrosslink [] [] None None (Some (StakingAction_default
     \<lparr>sa_kind := kind, arg32_0 := key, amount_zats := amt\<rparr>))"

definition staking_block :: "Transaction list \<Rightarrow> bytes list \<Rightarrow> amount \<Rightarrow> amount \<Rightarrow> ContextuallyVerifiedBlock" where
  "staking_block txs hs db du = \<lparr>cv_header = sample_header, cv_transactions = txs, cv_hash = [7],
     cv_height = 9, cv_new_outputs = Mapping.empty, cv_spent_outputs = Mapping.empty, cv_transaction_hashes = hs,
     cv_chain_value_pool_change = vb_zero\<lparr>staking_bonded := db, staking_unbonded := du\<rparr>, cv_size = 1000\<rparr>"

definition empty_db :: ZebraDb where
  "empty_db = new_db Mainnet"

definition sample_txs :: "Transaction list" where
  "sample_txs = [staking_tx CreateNewDelegationBond [4] 50, staking_tx BeginDelegationUnbonding [2] 0,
     staking_tx WithdrawDelegationBond [3] 5]"

lemma staking_tx_simps [simp]:
  "staking_action (staking_tx kind key amt) =
     Some (StakingAction_default\<lparr>sa_kind := kind, arg32_0 := key, amount_zats := amt\<rparr>)"
  "tx_parts (staking_tx kind key amt) = Some ([], [], None, None, None, None)"
  by (simp_all add: staking_tx_def)

lemma staking_block_simps [simp]:
  "cv_transactions (staking_block txs hs db du) = txs" "cv_transaction_hashes (staking_block txs hs db du) = hs"
  "cv_height (staking_block txs hs db du) = 9" "cv_hash (staking_block txs hs db du) = [7]"
  "cv_size (staking_block txs hs db du) = 1000"
  "cv_chain_value_pool_change (staking_block txs hs db du) = vb_zero\<lparr>staking_bonded := db, staking_unbonded := du\<rparr>"
  by (simp_all add: staking_block_def)

lemma staking_block_work: "block_work (staking_block txs hs db du) = Some 8192"
  by (simp add: block_work_def staking_block_def sample_header_def to_work_eq expanded_of_def compact_value_def)

lemma sample_pools_match: "pools_match sample_chain"
  by (simp add: pools_match_def sample_bonds_def sample_chain_def empty_chain_def vb_ok_def vb_zero_def
      amount_ok_simps MAX_MONEY_val)

lemma sample_txs_valid: "validate_delegation_bonds 9 sample_txs sample_chain empty_db = ok ()"
  by (simp add: validate_delegation_bonds_def sample_txs_def validate_staking_action_def Let_def
      validate_create_new_bond_def validate_bond_for_unbonding_def validate_bond_for_withdrawal_def sample_bonds_def
      amount_try_from_u64_def i64_checked_def in_i64_def validate_eq amount_ok_simps MAX_MONEY_val delegation_bond_def empty_db_def new_db_def
      TransactionLocation_from_usize_def TransactionIndex_from_usize_def rassert_def amount_into_u64_def)

lemmas staking_run_simps = update_transaction_def update_chain_tip_with_delegation_bond_def
  TransactionLocation_from_usize_def TransactionIndex_from_usize_def rassert_def update_created_utxos_def
  update_joinsplit_def update_sapling_def update_orchard_def lookup_update' lookup_empty
  amount_try_from_u64_def i64_checked_def in_i64_def validate_eq amount_ok_simps MAX_MONEY_val
  amount_sub_eq [of NonNegative _ NonNegative] amount_add_eq [of NonNegative _ NonNegative] Let_def

text \<open>A staking block is accepted when its actions and its pool change are, and the rewards can be paid.\<close>

lemma staking_block_accepted:
  assumes "Mapping.lookup (height_by_hash c) [7] = None" "partial_cumulative_work c = 0"
    "update_transactions b 0 (zip txs hs) (c\<lparr>height_by_hash := Mapping.update [7] 9 (height_by_hash c),
       partial_cumulative_work := 8192, bond_retargets := bond_retargets c @ [[]]\<rparr>) = ok c2"
    "b = staking_block txs hs db du" "vb_ok NonNegative (chain_value_pools c2)" "vb_ok NegativeAllowed (vb_zero\<lparr>staking_bonded := db, staking_unbonded := du\<rparr>)"
    "p = pool_plus (chain_value_pools c2) (vb_zero\<lparr>staking_bonded := db, staking_unbonded := du\<rparr>)" "vb_ok NonNegative p"
    "distribute_rewards (c2\<lparr>chain_value_pools := p,
       block_info_by_height := Mapping.update 9 (p, 1000) (block_info_by_height c2)\<rparr>) = Some c'"
  shows "update_chain_tip_with_block_except_trees b c = ok c'"
proof -
  have "update_value_pools (vb_zero\<lparr>staking_bonded := db, staking_unbonded := du\<rparr>) 9 1000 c2 =
      ok (c2\<lparr>chain_value_pools := p, block_info_by_height := Mapping.update 9 (p, 1000) (block_info_by_height c2)\<rparr>)"
    using pool_change_ok [OF assms(5,6), of p] assms(7,8) by (simp add: update_value_pools_def)
  moreover have "work_add (partial_cumulative_work c) 8192 = Some 8192"
    using assms(2) by (simp add: work_add_def rassert_def)
  ultimately show ?thesis
    using assms(1-4,9) staking_block_work [of txs hs db du]
    by (simp add: update_chain_tip_with_block_except_trees_def rassert_def)
qed

definition sample_result :: bonds where
  "sample_result =
    [([1], \<lparr>bond_amount = 70, target_finalizer = [9], created_at = \<lparr>tl_height = 1, tl_index = 0\<rparr>\<rparr>, ChainActive),
     ([2], \<lparr>bond_amount = 30, target_finalizer = [9], created_at = \<lparr>tl_height = 9, tl_index = 1\<rparr>\<rparr>, ChainUnbonding),
     ([3], \<lparr>bond_amount = 5, target_finalizer = [9], created_at = \<lparr>tl_height = 9, tl_index = 2\<rparr>\<rparr>, ChainWithdrawn),
     ([4], \<lparr>bond_amount = 50, target_finalizer = replicate 32 0, created_at = \<lparr>tl_height = 9, tl_index = 0\<rparr>\<rparr>, ChainActive)]"

lemma sample_run:
  "\<exists>c2. update_transactions (staking_block sample_txs [[1], [2], [3]] 50 (- 5)) 0 (zip sample_txs [[1], [2], [3]])
     (sample_chain\<lparr>height_by_hash := Mapping.update [7] 9 (height_by_hash sample_chain),
       partial_cumulative_work := 8192, bond_retargets := bond_retargets sample_chain @ [[]]\<rparr>) = ok c2 \<and>
     delegation_bonds c2 = sample_result \<and>
     chain_value_pools c2 = vb_zero\<lparr>staking_bonded := 70, staking_unbonded := 35\<rparr>"
  by (simp add: sample_txs_def sample_chain_def empty_chain_def sample_bonds_def sample_result_def
      StakingAction_default_def vb_zero_def set_bond_def set_bonded_def set_unbonded_def staking_run_simps)

lemma sample_block_accepted:
  "\<exists>c'. update_chain_tip_with_block_except_trees (staking_block sample_txs [[1], [2], [3]] 50 (- 5)) sample_chain = ok c'"
proof -
  obtain c2 where c2: "update_transactions (staking_block sample_txs [[1], [2], [3]] 50 (- 5)) 0 (zip sample_txs [[1], [2], [3]])
     (sample_chain\<lparr>height_by_hash := Mapping.update [7] 9 (height_by_hash sample_chain),
       partial_cumulative_work := 8192, bond_retargets := bond_retargets sample_chain @ [[]]\<rparr>) = ok c2"
     "delegation_bonds c2 = sample_result"
     "chain_value_pools c2 = vb_zero\<lparr>staking_bonded := 70, staking_unbonded := 35\<rparr>"
    using sample_run by blast
  define p where "p = pool_plus (chain_value_pools c2) (vb_zero\<lparr>staking_bonded := 50, staking_unbonded := - 5\<rparr>)"
  let ?c3 = "c2\<lparr>chain_value_pools := p, block_info_by_height := Mapping.update 9 (p, 1000) (block_info_by_height c2)\<rparr>"
  have "rewards_payable ?c3"
    by (simp add: rewards_payable_def Let_def p_def c2 pool_plus_def sample_result_def MAX_MONEY_val)
  then obtain c' where "distribute_rewards ?c3 = Some c'"
    using distribute_rewards_eq [of ?c3] by (auto simp: c2 sample_result_def amount_ok_simps MAX_MONEY_val)
  from staking_block_accepted [OF _ _ c2(1) refl _ _ p_def _ this] show ?thesis
    by (auto simp: sample_chain_def empty_chain_def c2(3) p_def pool_plus_def vb_ok_def vb_zero_def amount_ok_simps MAX_MONEY_val)
qed


text \<open>Two unbonding bonds, and a block with two withdrawals of the first.\<close>

definition twin_bonds :: bonds where
  "twin_bonds =
    [([3], \<lparr>bond_amount = 5, target_finalizer = [9], created_at = \<lparr>tl_height = 1, tl_index = 0\<rparr>\<rparr>, ChainUnbonding),
     ([5], \<lparr>bond_amount = 5, target_finalizer = [9], created_at = \<lparr>tl_height = 1, tl_index = 1\<rparr>\<rparr>, ChainUnbonding)]"

definition twin_chain :: Chain where
  "twin_chain = (empty_chain Mainnet (vb_zero\<lparr>staking_unbonded := 10\<rparr>) [])\<lparr>delegation_bonds := twin_bonds\<rparr>"

definition twin_txs :: "Transaction list" where
  "twin_txs = [staking_tx WithdrawDelegationBond [3] 5, staking_tx WithdrawDelegationBond [3] 5]"

text \<open>C18: The validation accepts a block that withdraws the same bond twice: on a chain with two unbonding
  bonds of 5 zatoshis, whose pools match, the block pays 10 out of the unbonded pool for one of them.
  The chain accepts the block, and the other bond stays in the chain while the pool is empty.
\<close>

theorem double_withdrawal_accepted:
  "pools_match twin_chain \<and> validate_delegation_bonds 9 twin_txs twin_chain empty_db = ok () \<and>
   (\<exists>c'. update_chain_tip_with_block_except_trees (staking_block twin_txs [[1], [2]] 0 (- 10)) twin_chain = ok c' \<and>
     unbonded c' = 0 \<and> total_with ChainUnbonding (delegation_bonds c') = 5 \<and> \<not> pools_match c')"
proof (intro conjI)
  show "pools_match twin_chain"
    by (simp add: pools_match_def twin_chain_def twin_bonds_def empty_chain_def vb_ok_def vb_zero_def amount_ok_simps MAX_MONEY_val)
  show "validate_delegation_bonds 9 twin_txs twin_chain empty_db = ok ()"
    by (simp add: validate_delegation_bonds_def twin_txs_def validate_staking_action_def Let_def
        validate_bond_for_withdrawal_def twin_chain_def twin_bonds_def amount_into_u64_def rassert_def)
  obtain c2 where c2: "update_transactions (staking_block twin_txs [[1], [2]] 0 (- 10)) 0 (zip twin_txs [[1], [2]])
     (twin_chain\<lparr>height_by_hash := Mapping.update [7] 9 (height_by_hash twin_chain),
       partial_cumulative_work := 8192, bond_retargets := bond_retargets twin_chain @ [[]]\<rparr>) = ok c2"
     "map_of (delegation_bonds c2) [5] = map_of twin_bonds [5]" "map fst (delegation_bonds c2) = [[3], [5]]"
     "map (snd \<circ> snd) (delegation_bonds c2) = [ChainWithdrawn, ChainUnbonding]"
     "chain_value_pools c2 = vb_zero\<lparr>staking_unbonded := 10\<rparr>"
    by (simp add: twin_txs_def twin_chain_def empty_chain_def twin_bonds_def
        StakingAction_default_def vb_zero_def set_bond_def staking_run_simps)
  define p where "p = pool_plus (chain_value_pools c2) (vb_zero\<lparr>staking_bonded := 0, staking_unbonded := - 10\<rparr>)"
  let ?c3 = "c2\<lparr>chain_value_pools := p, block_info_by_height := Mapping.update 9 (p, 1000) (block_info_by_height c2)\<rparr>"
  obtain b b' where bs: "delegation_bonds c2 = [([3], (b, ChainWithdrawn)), ([5], (b', ChainUnbonding))]" "bond_amount b' = 5"
    using c2(2-4) by (auto simp: map_eq_Cons_conv twin_bonds_def)
  then have "distribute_rewards ?c3 = Some (?c3\<lparr>bond_rewards := bond_rewards c2 @ [[]]\<rparr>)"
    by (simp add: distribute_rewards_def)
  from staking_block_accepted [OF _ _ c2(1) refl _ _ p_def _ this]
  have "update_chain_tip_with_block_except_trees (staking_block twin_txs [[1], [2]] 0 (- 10)) twin_chain =
      ok (?c3\<lparr>bond_rewards := bond_rewards c2 @ [[]]\<rparr>)"
    by (auto simp: twin_chain_def empty_chain_def c2(5) p_def pool_plus_def vb_ok_def vb_zero_def amount_ok_simps MAX_MONEY_val)
  then show "\<exists>c'. update_chain_tip_with_block_except_trees (staking_block twin_txs [[1], [2]] 0 (- 10)) twin_chain = ok c' \<and>
     unbonded c' = 0 \<and> total_with ChainUnbonding (delegation_bonds c') = 5 \<and> \<not> pools_match c'"
    using bs by (auto simp: pools_match_def p_def pool_plus_def c2(5) vb_zero_def)
qed

end
