(* ===== verification/Chain_Reads.thy ===== *)
theory Chain_Reads
  imports Chain_State
begin

text \<open>
  Reads of a non-finalized chain, \<^verbatim>\<open>non_finalized_state/chain.rs\<close>, and reads that look into a chain
  first and into the finalized state then, \<^verbatim>\<open>zebra-state/src/service/read/block.rs\<close> and
  \<^verbatim>\<open>zebra-state/src/service/read/delegation.rs\<close>.
\<close>

section \<open>Definitions\<close>

subsection \<open>Reads of a chain\<close>

definition recent_fork_height :: "Chain \<Rightarrow> u32 option rust" where
  "recent_fork_height c = (case last_fork_height c of
       None \<Rightarrow> Some None
     | Some h \<Rightarrow> do {
         root \<leftarrow> non_finalized_root_height c;
         Some (if h \<ge> root then Some h else None) })"

definition recent_fork_length :: "Chain \<Rightarrow> u32 option rust" where
  "recent_fork_length c = do {
     tip \<leftarrow> non_finalized_tip_height c;
     h \<leftarrow> recent_fork_height c;
     Some (case h of None \<Rightarrow> None | Some h \<Rightarrow> if h \<le> tip then Some (tip - h) else None) }"

definition chain_block :: "HashOrHeight \<Rightarrow> Chain \<Rightarrow> ContextuallyVerifiedBlock option" where
  "chain_block hash_or_height c = do {
     height \<leftarrow> height_or_else hash_or_height c;
     map_of (blocks c) height }"

definition chain_transaction :: "bytes \<Rightarrow> Chain \<Rightarrow> (Transaction \<times> u32 \<times> int) option rust" where
  "chain_transaction hash c = (case Mapping.lookup (tx_loc_by_hash c) hash of
       None \<Rightarrow> Some None
     | Some l \<Rightarrow> do {
         b \<leftarrow> map_of (blocks c) (tl_height l);
         rassert (TransactionIndex_as_usize (tl_index l) < length (cv_transactions b));
         Some (Some (cv_transactions b ! TransactionIndex_as_usize (tl_index l), tl_height l, header_time (cv_header b))) })"

definition nth_option :: "'a list \<Rightarrow> nat \<Rightarrow> 'a option" where
  "nth_option xs i = (if i < length xs then Some (xs ! i) else None)"

definition transaction_by_loc :: "TransactionLocation \<Rightarrow> Chain \<Rightarrow> Transaction option" where
  "transaction_by_loc l c = do {
     b \<leftarrow> map_of (blocks c) (tl_height l);
     nth_option (cv_transactions b) (TransactionIndex_as_usize (tl_index l)) }"

definition transaction_hash_by_loc :: "TransactionLocation \<Rightarrow> Chain \<Rightarrow> bytes option" where
  "transaction_hash_by_loc l c = do {
     b \<leftarrow> map_of (blocks c) (tl_height l);
     nth_option (cv_transaction_hashes b) (TransactionIndex_as_usize (tl_index l)) }"

definition transaction_hashes_for_block :: "HashOrHeight \<Rightarrow> Chain \<Rightarrow> bytes list option" where
  "transaction_hashes_for_block hash_or_height c = map_option cv_transaction_hashes (chain_block hash_or_height c)"

definition chain_hash_by_height :: "u32 \<Rightarrow> Chain \<Rightarrow> bytes option" where
  "chain_hash_by_height height c = map_option cv_hash (map_of (blocks c) height)"

definition chain_height_by_hash :: "bytes \<Rightarrow> Chain \<Rightarrow> u32 option" where
  "chain_height_by_hash hash c = Mapping.lookup (height_by_hash c) hash"

definition contains_block_hash :: "bytes \<Rightarrow> Chain \<Rightarrow> bool" where
  "contains_block_hash hash c \<longleftrightarrow> Mapping.lookup (height_by_hash c) hash \<noteq> None"

definition contains_block_height :: "u32 \<Rightarrow> Chain \<Rightarrow> bool" where
  "contains_block_height height c \<longleftrightarrow> map_of (blocks c) height \<noteq> None"

definition contains_hash_or_height :: "HashOrHeight \<Rightarrow> Chain \<Rightarrow> bool" where
  "contains_hash_or_height hash_or_height c = (case hash_or_height of
       Hash hash \<Rightarrow> contains_block_hash hash c
     | Height height \<Rightarrow> contains_block_height height c)"

definition non_finalized_tip :: "Chain \<Rightarrow> (u32 \<times> bytes) rust" where
  "non_finalized_tip c = do {
     height \<leftarrow> non_finalized_tip_height c;
     hash \<leftarrow> non_finalized_tip_hash c;
     Some (height, hash) }"

definition non_finalized_tip_with_value_balance :: "Chain \<Rightarrow> (u32 \<times> bytes \<times> ValueBalance) rust" where
  "non_finalized_tip_with_value_balance c = do {
     height \<leftarrow> non_finalized_tip_height c;
     hash \<leftarrow> non_finalized_tip_hash c;
     Some (height, hash, chain_value_pools c) }"

definition chain_block_info :: "HashOrHeight \<Rightarrow> Chain \<Rightarrow> (ValueBalance \<times> u32) option" where
  "chain_block_info hash_or_height c = do {
     height \<leftarrow> height_or_else hash_or_height c;
     Mapping.lookup (block_info_by_height c) height }"

definition non_finalized_root :: "Chain \<Rightarrow> (bytes \<times> u32) rust" where
  "non_finalized_root c = do {
     hash \<leftarrow> non_finalized_root_hash c;
     height \<leftarrow> non_finalized_root_height c;
     Some (hash, height) }"

definition non_finalized_nth_hash :: "nat \<Rightarrow> Chain \<Rightarrow> bytes option" where
  "non_finalized_nth_hash n c = map_option cv_hash (nth_option (map snd (blocks c)) n)"

definition tip_block :: "Chain \<Rightarrow> ContextuallyVerifiedBlock option" where
  "tip_block c = btree_last (blocks c)"

definition chain_is_empty :: "Chain \<Rightarrow> bool" where
  "chain_is_empty c \<longleftrightarrow> blocks c = []"

definition chain_len :: "Chain \<Rightarrow> nat" where
  "chain_len c = length (blocks c)"

definition created_utxo :: "outpoint \<Rightarrow> Chain \<Rightarrow> OrderedUtxo option" where
  "created_utxo p c = Mapping.lookup (created_utxos c) p"

datatype Spend = SpendOutPoint outpoint | SpendSprout bytes | SpendSapling bytes | SpendOrchard bytes

definition spending_transaction_hash :: "Spend \<Rightarrow> Chain \<Rightarrow> bytes option" where
  "spending_transaction_hash spend c = (case spend of
       SpendOutPoint p \<Rightarrow> Mapping.lookup (spent_utxos c) p
     | SpendSprout n \<Rightarrow> Mapping.lookup (sprout_nullifiers c) n
     | SpendSapling n \<Rightarrow> Mapping.lookup (sapling_nullifiers c) n
     | SpendOrchard n \<Rightarrow> Mapping.lookup (orchard_nullifiers c) n)"

subsection \<open>Reads of a chain over the finalized state\<close>

definition or_else :: "'a option \<Rightarrow> 'a option \<Rightarrow> 'a option" where
  "or_else a b = (case a of Some x \<Rightarrow> Some x | None \<Rightarrow> b)"

definition read_block :: "Chain option \<Rightarrow> ZebraDb \<Rightarrow> HashOrHeight \<Rightarrow> (Header \<times> Transaction list) option" where
  "read_block chain db hash_or_height = or_else
     (do { c \<leftarrow> chain; map_option (\<lambda>b. (cv_header b, cv_transactions b)) (chain_block hash_or_height c) })
     (db_block db hash_or_height)"

definition read_block_header :: "Chain option \<Rightarrow> ZebraDb \<Rightarrow> HashOrHeight \<Rightarrow> Header option" where
  "read_block_header chain db hash_or_height = or_else
     (do { c \<leftarrow> chain; map_option cv_header (chain_block hash_or_height c) })
     (block_header db hash_or_height)"

definition read_transaction :: "Chain option \<Rightarrow> ZebraDb \<Rightarrow> bytes \<Rightarrow> (Transaction \<times> u32 \<times> int) option rust" where
  "read_transaction chain db hash = do {
     t \<leftarrow> (case chain of None \<Rightarrow> Some None | Some c \<Rightarrow> chain_transaction hash c);
     Some (or_else t (db_transaction db hash)) }"

definition read_tip :: "Chain option \<Rightarrow> ZebraDb \<Rightarrow> (u32 \<times> bytes) option rust" where
  "read_tip chain db = (case chain of
       None \<Rightarrow> Some (db_tip db)
     | Some c \<Rightarrow> map_option Some (non_finalized_tip c))"

definition read_tip_height :: "Chain option \<Rightarrow> ZebraDb \<Rightarrow> u32 option rust" where
  "read_tip_height chain db = map_option (map_option fst) (read_tip chain db)"

definition read_tip_hash :: "Chain option \<Rightarrow> ZebraDb \<Rightarrow> bytes option rust" where
  "read_tip_hash chain db = map_option (map_option snd) (read_tip chain db)"

definition mined_transaction ::
  "Chain option \<Rightarrow> ZebraDb \<Rightarrow> bytes \<Rightarrow> (Transaction \<times> u32 \<times> u32 \<times> int) option rust" where
  "mined_transaction chain db hash = do {
     t \<leftarrow> read_transaction chain db hash;
     (case t of
        None \<Rightarrow> Some None
      | Some (tx, height, time) \<Rightarrow> do {
          tip \<leftarrow> read_tip_height chain db;
          (case tip of
             None \<Rightarrow> Some None
           | Some tip \<Rightarrow> do {
               rassert (1 + unat tip < 2 ^ 32 \<and> unat height \<le> 1 + unat tip);
               Some (Some (tx, height, 1 + tip - height, time)) }) }) }"

definition read_height_by_hash :: "Chain option \<Rightarrow> ZebraDb \<Rightarrow> bytes \<Rightarrow> u32 option" where
  "read_height_by_hash chain db hash = or_else (do { c \<leftarrow> chain; chain_height_by_hash hash c }) (db_height db hash)"

definition read_utxo :: "Chain option \<Rightarrow> ZebraDb \<Rightarrow> outpoint \<Rightarrow> OrderedUtxo option" where
  "read_utxo chain db p = or_else (do { c \<leftarrow> chain; created_utxo p c }) (db_utxo db p)"

definition read_unspent_utxo :: "Chain option \<Rightarrow> ZebraDb \<Rightarrow> outpoint \<Rightarrow> OrderedUtxo option" where
  "read_unspent_utxo chain db p = (case chain of
       Some c \<Rightarrow> if Mapping.lookup (spent_utxos c) p \<noteq> None then None else read_utxo chain db p
     | None \<Rightarrow> read_utxo chain db p)"

definition read_block_info :: "Chain option \<Rightarrow> ZebraDb \<Rightarrow> HashOrHeight \<Rightarrow> (ValueBalance \<times> u32) option" where
  "read_block_info chain db hash_or_height = or_else
     (do { c \<leftarrow> chain; chain_block_info hash_or_height c }) (db_block_info_at db hash_or_height)"

subsection \<open>Bond queries\<close>

text \<open>A status in the chain has no location; the query fills in the location stored in the bond.\<close>

definition read_delegation_bond :: "ZebraDb \<Rightarrow> Chain option \<Rightarrow> BondKey \<Rightarrow> (DelegationBond \<times> BondStatus) option" where
  "read_delegation_bond db chain bond_key = or_else
     (do {
       c \<leftarrow> chain;
       (bond, status) \<leftarrow> map_of (delegation_bonds c) bond_key;
       Some (bond, case status of
           ChainActive \<Rightarrow> Active
         | ChainUnbonding \<Rightarrow> Unbonding (created_at bond)
         | ChainWithdrawn \<Rightarrow> Withdrawn (created_at bond)) })
     (delegation_bond_with_status db bond_key)"

definition read_is_bond_active :: "ZebraDb \<Rightarrow> Chain option \<Rightarrow> BondKey \<Rightarrow> bool" where
  "read_is_bond_active db chain bond_key = (case do { c \<leftarrow> chain; map_of (delegation_bonds c) bond_key } of
       Some (_, status) \<Rightarrow> status = ChainActive
     | None \<Rightarrow> is_bond_active db bond_key)"

definition read_is_bond_unbonding :: "ZebraDb \<Rightarrow> Chain option \<Rightarrow> BondKey \<Rightarrow> bool" where
  "read_is_bond_unbonding db chain bond_key = (case do { c \<leftarrow> chain; map_of (delegation_bonds c) bond_key } of
       Some (_, status) \<Rightarrow> status = ChainUnbonding
     | None \<Rightarrow> (case bond_status db bond_key of Some status \<Rightarrow> is_unbonding status | None \<Rightarrow> False))"

definition read_is_bond_withdrawn :: "ZebraDb \<Rightarrow> Chain option \<Rightarrow> BondKey \<Rightarrow> bool" where
  "read_is_bond_withdrawn db chain bond_key = (case do { c \<leftarrow> chain; map_of (delegation_bonds c) bond_key } of
       Some (_, status) \<Rightarrow> status = ChainWithdrawn
     | None \<Rightarrow> (case bond_status db bond_key of Some status \<Rightarrow> is_withdrawn status | None \<Rightarrow> False))"

definition bond_exists :: "ZebraDb \<Rightarrow> Chain option \<Rightarrow> BondKey \<Rightarrow> bool" where
  "bond_exists db chain bond_key \<longleftrightarrow>
     do { c \<leftarrow> chain; map_of (delegation_bonds c) bond_key } \<noteq> None \<or> delegation_bond db bond_key \<noteq> None"

end
