(* ===== verification/Tx_Values.thy ===== *)
theory Tx_Values
  imports Chain_Types
begin

text \<open>
  The value balance of a transaction, \<^verbatim>\<open>value_balance_from_outputs\<close> in
  \<^verbatim>\<open>zebra-chain/src/transaction.rs\<close>, and the change of the chain value pools by a block,
  \<^verbatim>\<open>chain_value_pool_change\<close> in \<^verbatim>\<open>zebra-chain/src/block.rs\<close>. The outputs that the inputs spend are
  looked up in a map; an input whose output is missing is a panic.
\<close>

section \<open>Definitions\<close>

subsection \<open>Transparent values\<close>

type_synonym utxos = "(outpoint, OrderedUtxo) mapping"

definition value_from_outputs :: "utxos \<Rightarrow> Input \<Rightarrow> amount rust" where
  "value_from_outputs utxos i = (case i of
       PrevOut p \<Rightarrow> map_option (\<lambda>u. out_value (utxo_output u)) (Mapping.lookup utxos p)
     | Coinbase _ \<Rightarrow> Some 0)"

text \<open>Every input is looked up: after an overflow the remaining values are still counted.\<close>

definition sum_inputs :: "utxos \<Rightarrow> Input list \<Rightarrow> (amount_error, amount) result" where
  "sum_inputs utxos ins = do {
     vs \<leftarrow> those (map (value_from_outputs utxos) ins);
     amount_sum NonNegative vs }"

definition transparent_value_balance_from_outputs ::
  "utxos \<Rightarrow> Transaction \<Rightarrow> (ValueBalanceError, ValueBalance) result" where
  "transparent_value_balance_from_outputs utxos tx =
     tryr (map_err Transparent (sum_inputs utxos (tx_inputs tx))) (\<lambda>input_value. do {
       input_value \<leftarrow> expect (constrain NegativeAllowed input_value);
       tryr (map_err Transparent (amount_sum NonNegative (map out_value (tx_outputs tx)))) (\<lambda>output_value. do {
         output_value \<leftarrow> expect (constrain NegativeAllowed output_value);
         tryr (map_err Transparent (amount_sub NegativeAllowed input_value output_value)) (\<lambda>a.
           ok (from_transparent_amount a)) }) })"

subsection \<open>Shielded values\<close>

definition joinsplit_value_balance :: "JoinSplit \<Rightarrow> amount rust" where
  "joinsplit_value_balance js = do {
     new \<leftarrow> expect (constrain NegativeAllowed (vpub_new js));
     old \<leftarrow> expect (constrain NegativeAllowed (vpub_old js));
     expect (amount_sub NegativeAllowed new old) }"

fun tx_joinsplits :: "Transaction \<Rightarrow> JoinSplit list" where
  "tx_joinsplits (V2 _ _ (Some js)) = js"
| "tx_joinsplits (V3 _ _ (Some js)) = js"
| "tx_joinsplits (V4 _ _ (Some js) _) = js"
| "tx_joinsplits _ = []"

definition sprout_joinsplit_value_balances :: "Transaction \<Rightarrow> ValueBalance list rust" where
  "sprout_joinsplit_value_balances tx =
     those (map (\<lambda>js. map_option from_sprout_amount (joinsplit_value_balance js)) (tx_joinsplits tx))"

definition sprout_value_balance :: "Transaction \<Rightarrow> (ValueBalanceError, ValueBalance) result" where
  "sprout_value_balance tx = do {
     vs \<leftarrow> sprout_joinsplit_value_balances tx;
     vb_sum NegativeAllowed vs }"

fun tx_sapling_data :: "Transaction \<Rightarrow> shielded" where
  "tx_sapling_data (V4 _ _ _ s) = s"
| "tx_sapling_data (V5 _ _ s _) = s"
| "tx_sapling_data (VCrosslink _ _ s _ _) = s"
| "tx_sapling_data _ = None"

fun tx_orchard_data :: "Transaction \<Rightarrow> shielded" where
  "tx_orchard_data (V5 _ _ _ r) = r"
| "tx_orchard_data (VCrosslink _ _ _ r _) = r"
| "tx_orchard_data _ = None"

definition sapling_value_balance :: "Transaction \<Rightarrow> ValueBalance" where
  "sapling_value_balance tx =
     from_sapling_amount (case tx_sapling_data tx of Some d \<Rightarrow> shielded_value d | None \<Rightarrow> 0)"

definition orchard_value_balance :: "Transaction \<Rightarrow> ValueBalance" where
  "orchard_value_balance tx =
     from_orchard_amount (case tx_orchard_data tx of Some d \<Rightarrow> shielded_value d | None \<Rightarrow> 0)"

subsection \<open>Transactions and blocks\<close>

text \<open>All operands are evaluated, also after an error of an earlier sum.\<close>

definition value_balance :: "utxos \<Rightarrow> Transaction \<Rightarrow> (ValueBalanceError, ValueBalance) result" where
  "value_balance utxos tx =
     tryr (transparent_value_balance_from_outputs utxos tx) (\<lambda>t.
     tryr (sprout_value_balance tx) (\<lambda>s. do {
       r \<leftarrow> vb_add NegativeAllowed t s;
       r \<leftarrow> tryr (Some r) (\<lambda>v. vb_add NegativeAllowed v (sapling_value_balance tx));
       r \<leftarrow> tryr (Some r) (\<lambda>v. vb_add NegativeAllowed v (orchard_value_balance tx));
       a \<leftarrow> staking_action_value_balance (staking_action tx);
       tryr (Some r) (\<lambda>v. vb_add NegativeAllowed v a) }))"

text \<open>
  The sum over the transactions of a block. \<^verbatim>\<open>flat_map\<close> over the results keeps the balances and drops
  the errors.
\<close>

fun sum_value_balances :: "utxos \<Rightarrow> ValueBalance \<Rightarrow> Transaction list \<Rightarrow> (ValueBalanceError, ValueBalance) result" where
  "sum_value_balances utxos acc [] = ok acc"
| "sum_value_balances utxos acc (tx # txs) = do {
     r \<leftarrow> value_balance utxos tx;
     (case r of
        Inl _ \<Rightarrow> sum_value_balances utxos acc txs
      | Inr v \<Rightarrow> tryr (vb_add NegativeAllowed acc v) (\<lambda>acc. sum_value_balances utxos acc txs)) }"

definition chain_value_pool_change ::
  "Transaction list \<Rightarrow> utxos \<Rightarrow> amount option \<Rightarrow> (ValueBalanceError, ValueBalance) result" where
  "chain_value_pool_change txs utxos deferred_pool_balance_change =
     tryr (sum_value_balances utxos vb_zero txs) (\<lambda>v. do {
       v \<leftarrow> vb_neg v;
       ok (v\<lparr>deferred := (case deferred_pool_balance_change of Some a \<Rightarrow> a | None \<Rightarrow> 0)\<rparr>) })"

section \<open>Lemmas\<close>

text \<open>The parts of a balance that its pools keep apart.\<close>

lemma from_amount_simps [simp]:
  "staking_bonded (from_transparent_amount a) = 0" "staking_unbonded (from_transparent_amount a) = 0"
  "staking_bonded (from_sprout_amount a) = 0" "staking_unbonded (from_sprout_amount a) = 0"
  "staking_bonded (sapling_value_balance tx) = 0" "staking_unbonded (sapling_value_balance tx) = 0"
  "staking_bonded (orchard_value_balance tx) = 0" "staking_unbonded (orchard_value_balance tx) = 0"
  by (simp_all add: from_transparent_amount_def from_sprout_amount_def from_sapling_amount_def
      from_orchard_amount_def sapling_value_balance_def orchard_value_balance_def vb_zero_def)

text \<open>A sum of balances is exact in every pool, without any assumption on its operands.\<close>

lemma amount_add_okD: "amount_add c a b = ok r \<Longrightarrow> r = a + b \<and> amount_ok c r"
  by (auto simp: amount_add_def i64_checked_def bind_ok_iff split: if_splits)

lemma vb_add_okD: "vb_add c v w = ok r \<Longrightarrow> r = pool_plus v w \<and> vb_ok c r"
  by (auto simp: vb_add_def tryr_ok_iff pool_plus_def vb_ok_def dest!: amount_add_okD)

lemma vb_fold_add_staking:
  "vb_fold_add c acc vs = ok r \<Longrightarrow> (\<And>v. v \<in> set vs \<Longrightarrow> staking_bonded v = 0 \<and> staking_unbonded v = 0) \<Longrightarrow>
     staking_bonded r = staking_bonded acc \<and> staking_unbonded r = staking_unbonded acc"
  by (induction vs arbitrary: acc) (auto simp: tryr_ok_iff pool_plus_def dest!: vb_add_okD)

lemma those_set: "those (map f xs) = Some ys \<Longrightarrow> y \<in> set ys \<Longrightarrow> \<exists>x \<in> set xs. f x = Some y"
  by (induction xs arbitrary: ys) (auto split: option.splits)

lemma sprout_balance_staking:
  assumes "sprout_value_balance tx = ok v"
  shows "staking_bonded v = 0 \<and> staking_unbonded v = 0"
proof -
  obtain vs where vs: "sprout_joinsplit_value_balances tx = Some vs" "vb_fold_add NegativeAllowed vb_zero vs = ok v"
    using assms by (auto simp: sprout_value_balance_def vb_sum_def bind_ok_iff)
  have "staking_bonded x = 0 \<and> staking_unbonded x = 0" if "x \<in> set vs" for x
    using those_set [OF vs(1) [unfolded sprout_joinsplit_value_balances_def] that] by auto
  from vb_fold_add_staking [OF vs(2) this] show ?thesis by (simp add: vb_zero_def)
qed

text \<open>The staking pools of a transaction are moved by its staking action alone.\<close>

lemma value_balance_staking:
  assumes "value_balance utxos tx = ok v"
  shows "\<exists>a. staking_action_value_balance (staking_action tx) = Some a \<and>
    staking_bonded v = staking_bonded a \<and> staking_unbonded v = staking_unbonded a"
proof -
  obtain t s r1 r2 r3 a where b: "transparent_value_balance_from_outputs utxos tx = ok t" "sprout_value_balance tx = ok s"
    "vb_add NegativeAllowed t s = ok r1" "vb_add NegativeAllowed r1 (sapling_value_balance tx) = ok r2"
    "vb_add NegativeAllowed r2 (orchard_value_balance tx) = ok r3"
    "staking_action_value_balance (staking_action tx) = Some a" "vb_add NegativeAllowed r3 a = ok v"
    using assms by (auto simp: value_balance_def tryr_ok_iff bind_ok_iff)
  have "staking_bonded t = 0 \<and> staking_unbonded t = 0"
    using b(1) by (auto simp: transparent_value_balance_from_outputs_def tryr_ok_iff bind_ok_iff)
  with sprout_balance_staking [OF b(2)] b(3-7) show ?thesis by (auto simp: pool_plus_def dest!: vb_add_okD)
qed

text \<open>A balance depends on the outputs that the inputs spend only.\<close>

lemma value_balance_cong:
  assumes "\<And>p. PrevOut p \<in> set (tx_inputs tx) \<Longrightarrow> Mapping.lookup u p = Mapping.lookup u' p"
  shows "value_balance u tx = value_balance u' tx"
proof -
  have "map (value_from_outputs u) (tx_inputs tx) = map (value_from_outputs u') (tx_inputs tx)"
    using assms by (auto simp: value_from_outputs_def split: Input.splits)
  then have "sum_inputs u (tx_inputs tx) = sum_inputs u' (tx_inputs tx)" by (simp only: sum_inputs_def)
  then show ?thesis by (simp add: value_balance_def transparent_value_balance_from_outputs_def)
qed

lemma chain_value_pool_change_cong:
  assumes "\<And>tx p. tx \<in> set txs \<Longrightarrow> PrevOut p \<in> set (tx_inputs tx) \<Longrightarrow> Mapping.lookup u p = Mapping.lookup u' p"
  shows "chain_value_pool_change txs u d = chain_value_pool_change txs u' d"
proof -
  have "sum_value_balances u acc txs = sum_value_balances u' acc txs" for acc
    using assms
  proof (induction txs arbitrary: acc)
    case (Cons tx txs)
    have "value_balance u tx = value_balance u' tx" using Cons.prems by (intro value_balance_cong) (metis list.set_intros(1))
    moreover have "sum_value_balances u acc txs = sum_value_balances u' acc txs" for acc
      using Cons.prems by (intro Cons.IH) (metis list.set_intros(2))
    ultimately show ?case by simp
  qed simp
  then show ?thesis by (simp add: chain_value_pool_change_def)
qed

lemma chain_value_pool_change_deferred:
  "chain_value_pool_change txs u d = ok v \<Longrightarrow> chain_value_pool_change txs u (Some (deferred v)) = ok v"
  by (auto simp: chain_value_pool_change_def tryr_ok_iff bind_ok_iff)

lemmas value_run_simps = value_balance_def transparent_value_balance_from_outputs_def sum_inputs_def value_from_outputs_def
  amount_sum_def validate_def amount_add_def amount_sub_def i64_checked_def in_i64_def MAX_MONEY_val constrain_def
  sprout_value_balance_def sprout_joinsplit_value_balances_def vb_sum_def vb_add_def from_transparent_amount_def
  sapling_value_balance_def orchard_value_balance_def from_sapling_amount_def from_orchard_amount_def vb_zero_def
  remaining_transaction_value_def

end
