(* ===== verification/Contextual_Checks.thy ===== *)
theory Contextual_Checks
  imports Chain_Reads Tx_Values
begin

text \<open>
  The contextual checks of a semantically verified block, \<^verbatim>\<open>zebra-state/src/service/check.rs\<close>,
  \<^verbatim>\<open>check/utxo.rs\<close> and \<^verbatim>\<open>check/anchors.rs\<close>: the position of the block, its time and difficulty, its
  commitment to the chain history, the outputs that it spends and the anchors that it refers to. A block
  that passes becomes a \<^verbatim>\<open>ContextuallyVerifiedBlock\<close> of \<^verbatim>\<open>zebra-state/src/request.rs\<close>.
\<close>

section \<open>Definitions\<close>

record SemanticallyVerifiedBlock =
  sv_header :: Header
  sv_transactions :: "Transaction list"
  sv_hash :: bytes
  sv_height :: u32
  sv_new_outputs :: "(outpoint, OrderedUtxo) mapping"
  sv_transaction_hashes :: "bytes list"
  sv_deferred_pool_balance_change :: "amount option"
  sv_size :: nat

text \<open>\<^verbatim>\<open>HashMap::extend\<close>: the entries of the second map win.\<close>

definition extend :: "('k, 'v) mapping \<Rightarrow> ('k, 'v) mapping \<Rightarrow> ('k, 'v) mapping" where
  "extend m n = Mapping.combine (\<lambda>_ v. v) m n"

definition with_block_and_spent_utxos ::
  "SemanticallyVerifiedBlock \<Rightarrow> utxos \<Rightarrow> (ValueBalanceError, ContextuallyVerifiedBlock) result" where
  "with_block_and_spent_utxos b spent_outputs =
    (let spent_outputs = extend spent_outputs (sv_new_outputs b) in
     tryr (chain_value_pool_change (sv_transactions b) spent_outputs (sv_deferred_pool_balance_change b)) (\<lambda>change.
     ok \<lparr>cv_header = sv_header b, cv_transactions = sv_transactions b, cv_hash = sv_hash b,
       cv_height = sv_height b, cv_new_outputs = sv_new_outputs b, cv_spent_outputs = spent_outputs,
       cv_transaction_hashes = sv_transaction_hashes b, cv_chain_value_pool_change = change,
       cv_size = sv_size b\<rparr>))"

text \<open>\<^verbatim>\<open>Height + HeightDiff\<close> for a small positive difference.\<close>

definition height_add :: "u32 \<Rightarrow> nat \<Rightarrow> u32 option" where
  "height_add h n = (if unat h + n \<le> HEIGHT_MAX then Some (h + of_nat n) else None)"

subsection \<open>Spent outputs\<close>

datatype CoinbaseSpendRestriction = DisallowCoinbaseSpend | CheckCoinbaseMaturity u32

definition should_allow_unshielded_coinbase_spends :: "Network \<Rightarrow> bool" where
  "should_allow_unshielded_coinbase_spends network = (case network of
       Testnet params \<Rightarrow> testnet_allow_unshielded_coinbase_spends params
     | Mainnet \<Rightarrow> False)"

definition coinbase_spend_restriction :: "Transaction \<Rightarrow> Network \<Rightarrow> u32 \<Rightarrow> CoinbaseSpendRestriction" where
  "coinbase_spend_restriction tx network spend_height =
     (if tx_outputs tx = [] \<or> should_allow_unshielded_coinbase_spends network
      then CheckCoinbaseMaturity spend_height else DisallowCoinbaseSpend)"

definition MIN_TRANSPARENT_COINBASE_MATURITY :: nat where "MIN_TRANSPARENT_COINBASE_MATURITY = 2"

definition transparent_coinbase_spend ::
  "outpoint \<Rightarrow> CoinbaseSpendRestriction \<Rightarrow> OrderedUtxo \<Rightarrow> (ValidateContextError, unit) result" where
  "transparent_coinbase_spend p spend_restriction utxo =
     (if \<not> utxo_from_coinbase utxo then ok ()
      else case spend_restriction of
        CheckCoinbaseMaturity spend_height \<Rightarrow> do {
          min_spend_height \<leftarrow> height_add (utxo_height utxo) MIN_TRANSPARENT_COINBASE_MATURITY;
          if spend_height \<ge> min_spend_height then ok ()
          else err (ImmatureTransparentCoinbaseSpend p spend_height min_spend_height (utxo_height utxo)) }
      | DisallowCoinbaseSpend \<Rightarrow> err (UnshieldedTransparentCoinbaseSpend p))"

definition transparent_spend_chain_order ::
  "outpoint \<Rightarrow> nat \<Rightarrow> utxos \<Rightarrow> utxos \<Rightarrow> (outpoint, bytes) mapping \<Rightarrow> ZebraDb \<Rightarrow>
    (ValidateContextError, OrderedUtxo) result" where
  "transparent_spend_chain_order spend spend_tx_index_in_block block_new_outputs
     non_finalized_chain_unspent_utxos non_finalized_chain_spent_utxos finalized_state =
    (case Mapping.lookup block_new_outputs spend of
       Some out \<Rightarrow>
         if tx_index_in_block out \<ge> spend_tx_index_in_block then err (EarlyTransparentSpend spend) else ok out
     | None \<Rightarrow>
         if Mapping.lookup non_finalized_chain_spent_utxos spend \<noteq> None
         then err (DuplicateTransparentSpend spend ''the non-finalized chain'')
         else case or_else (Mapping.lookup non_finalized_chain_unspent_utxos spend) (db_utxo finalized_state spend) of
           Some utxo \<Rightarrow> ok utxo
         | None \<Rightarrow> err (MissingTransparentOutput spend ''the non-finalized and finalized chain''))"

text \<open>One spend: the output must be spendable at this point, and not yet spent by the block.\<close>

definition spend_step ::
  "SemanticallyVerifiedBlock \<Rightarrow> utxos \<Rightarrow> (outpoint, bytes) mapping \<Rightarrow> ZebraDb \<Rightarrow> nat \<times> Transaction \<times> outpoint \<Rightarrow>
    utxos \<Rightarrow> (ValidateContextError, utxos) result" where
  "spend_step b unspent spent db s block_spends = (case s of (i, tx, spend) \<Rightarrow>
     tryr (transparent_spend_chain_order spend i (sv_new_outputs b) unspent spent db) (\<lambda>utxo.
     tryr (transparent_coinbase_spend spend (coinbase_spend_restriction tx (db_network db) (sv_height b)) utxo) (\<lambda>_.
     if Mapping.lookup block_spends spend \<noteq> None then err (DuplicateTransparentSpend spend ''the same block'')
     else ok (Mapping.update spend utxo block_spends))))"

fun spend_loop ::
  "SemanticallyVerifiedBlock \<Rightarrow> utxos \<Rightarrow> (outpoint, bytes) mapping \<Rightarrow> ZebraDb \<Rightarrow> (nat \<times> Transaction \<times> outpoint) list \<Rightarrow>
    utxos \<Rightarrow> (ValidateContextError, utxos) result" where
  "spend_loop b unspent spent db [] block_spends = ok block_spends"
| "spend_loop b unspent spent db (s # ss) block_spends =
     tryr (spend_step b unspent spent db s block_spends) (spend_loop b unspent spent db ss)"

text \<open>The spends of a block, in the order of the two loops over transactions and inputs.\<close>

definition block_spend_list :: "Transaction list \<Rightarrow> (nat \<times> Transaction \<times> outpoint) list" where
  "block_spend_list txs = concat (map (\<lambda>(i, tx).
     map (\<lambda>p. (i, tx, p)) (List.map_filter input_outpoint (tx_inputs tx))) (enumerate 0 txs))"

definition is_coinbase :: "Transaction \<Rightarrow> bool" where
  "is_coinbase tx \<longleftrightarrow> (case tx_inputs tx of [Coinbase _] \<Rightarrow> True | _ \<Rightarrow> False)"

definition check_remaining_value ::
  "SemanticallyVerifiedBlock \<Rightarrow> utxos \<Rightarrow> nat \<times> Transaction \<Rightarrow> (ValidateContextError, unit) result" where
  "check_remaining_value b utxos s = (case s of (i, tx) \<Rightarrow>
     if is_coinbase tx then ok ()
     else do {
       r \<leftarrow> value_balance utxos tx;
       (case r of
          Inl value_balance_error \<Rightarrow> do {
            hash \<leftarrow> index (sv_transaction_hashes b) i;
            err (CalculateTransactionValueBalances value_balance_error (sv_height b) i hash) }
        | Inr vb \<Rightarrow> do {
            r \<leftarrow> remaining_transaction_value vb;
            (case r of
               Inr _ \<Rightarrow> ok ()
             | Inl amount_error \<Rightarrow> do {
                 hash \<leftarrow> index (sv_transaction_hashes b) i;
                 (case amount_error of
                    Constraint v _ \<Rightarrow>
                      if v < 0 then err (NegativeRemainingTransactionValue amount_error (sv_height b) i hash)
                      else err (CalculateRemainingTransactionValue amount_error (sv_height b) i hash)
                  | _ \<Rightarrow> err (CalculateRemainingTransactionValue amount_error (sv_height b) i hash)) }) }) })"

fun try_for_each :: "('a \<Rightarrow> ('e, unit) result) \<Rightarrow> 'a list \<Rightarrow> ('e, unit) result" where
  "try_for_each f [] = ok ()"
| "try_for_each f (x # xs) = tryr (f x) (\<lambda>_. try_for_each f xs)"

definition check_remaining_transaction_value ::
  "SemanticallyVerifiedBlock \<Rightarrow> utxos \<Rightarrow> (ValidateContextError, unit) result" where
  "check_remaining_transaction_value b utxos =
     try_for_each (check_remaining_value b utxos) (enumerate 0 (sv_transactions b))"

definition transparent_spend ::
  "SemanticallyVerifiedBlock \<Rightarrow> utxos \<Rightarrow> (outpoint, bytes) mapping \<Rightarrow> ZebraDb \<Rightarrow> (ValidateContextError, utxos) result" where
  "transparent_spend b unspent spent db =
     tryr (spend_loop b unspent spent db (block_spend_list (sv_transactions b)) Mapping.empty) (\<lambda>block_spends.
     tryr (check_remaining_transaction_value b block_spends) (\<lambda>_. ok block_spends))"

subsection \<open>Anchors\<close>

text \<open>\<^verbatim>\<open>unique_by\<close> keeps the first of equal elements.\<close>

definition unique :: "'a list \<Rightarrow> 'a list" where
  "unique xs = rev (remdups (rev xs))"

definition tx_sapling_anchors :: "Transaction \<Rightarrow> bytes list" where
  "tx_sapling_anchors tx = (case tx_sapling_data tx of None \<Rightarrow> [] | Some d \<Rightarrow> unique (spend_anchors d))"

fun sprout_groth16_joinsplits :: "Transaction \<Rightarrow> JoinSplit list" where
  "sprout_groth16_joinsplits (V4 _ _ (Some js) _) = js"
| "sprout_groth16_joinsplits _ = []"

fun has_sprout_joinsplit_data :: "Transaction \<Rightarrow> bool" where
  "has_sprout_joinsplit_data (V2 _ _ js) = (js \<noteq> None)"
| "has_sprout_joinsplit_data (V3 _ _ js) = (js \<noteq> None)"
| "has_sprout_joinsplit_data (V4 _ _ js _) = (js \<noteq> None)"
| "has_sprout_joinsplit_data _ = False"

definition sapling_orchard_anchors_refer_to_final_treestates ::
  "ZebraDb \<Rightarrow> Chain option \<Rightarrow> Transaction \<Rightarrow> bytes \<Rightarrow> nat option \<Rightarrow> u32 option \<Rightarrow> (ValidateContextError, unit) result" where
  "sapling_orchard_anchors_refer_to_final_treestates db parent_chain tx transaction_hash i height =
     tryr (try_for_each (\<lambda>anchor.
       if \<not> (case parent_chain of Some c \<Rightarrow> anchor \<in># anchors (sapling_trees c) | None \<Rightarrow> False) \<and>
          \<not> contains_sapling_anchor db anchor
       then err (UnknownSaplingAnchor anchor height i transaction_hash) else ok ()) (tx_sapling_anchors tx)) (\<lambda>_.
     case tx_orchard_data tx of
       Some d \<Rightarrow>
         if \<not> (case parent_chain of Some c \<Rightarrow> shared_anchor d \<in># anchors (orchard_trees c) | None \<Rightarrow> False) \<and>
            \<not> contains_orchard_anchor db (shared_anchor d)
         then err (UnknownOrchardAnchor (shared_anchor d) height i transaction_hash) else ok ()
     | None \<Rightarrow> ok ())"

definition fetch_sprout_step ::
  "ZebraDb \<Rightarrow> Chain option \<Rightarrow> JoinSplit \<Rightarrow> (bytes, tree) mapping \<Rightarrow> (bytes, tree) mapping" where
  "fetch_sprout_step db parent_chain js treestates =
    (if Mapping.lookup treestates (js_anchor js) \<noteq> None then treestates
     else case or_else (do { c \<leftarrow> parent_chain; Mapping.lookup (sprout_trees_by_anchor c) (js_anchor js) })
         (sprout_tree_by_anchor db (js_anchor js)) of
       Some input_tree \<Rightarrow> Mapping.update (js_anchor js) input_tree treestates
     | None \<Rightarrow> treestates)"

definition fetch_sprout_final_treestates ::
  "ZebraDb \<Rightarrow> Chain option \<Rightarrow> Transaction \<Rightarrow> (bytes, tree) mapping \<Rightarrow> (bytes, tree) mapping" where
  "fetch_sprout_final_treestates db parent_chain tx treestates =
     fold (fetch_sprout_step db parent_chain) (sprout_groth16_joinsplits tx) treestates"

fun append_all :: "(tree \<Rightarrow> bytes \<Rightarrow> tree option) \<Rightarrow> bytes list \<Rightarrow> tree \<Rightarrow> tree rust" where
  "append_all app [] t = Some t"
| "append_all app (cm # cms) t = do { t \<leftarrow> app t cm; append_all app cms t }"

text \<open>The last joinsplit adds no interstitial tree.\<close>

fun sprout_anchor_loop ::
  "TreeLib \<Rightarrow> (bytes, tree) mapping \<Rightarrow> (bytes \<Rightarrow> ValidateContextError) \<Rightarrow> (bytes, tree) mapping \<Rightarrow> JoinSplit list \<Rightarrow>
    (ValidateContextError, unit) result" where
  "sprout_anchor_loop lib final_treestates e interstitial_trees [] = ok ()"
| "sprout_anchor_loop lib final_treestates e interstitial_trees (js # jss) =
    (case or_else (Mapping.lookup interstitial_trees (js_anchor js)) (Mapping.lookup final_treestates (js_anchor js)) of
       None \<Rightarrow> err (e (js_anchor js))
     | Some input_tree \<Rightarrow>
         if jss = [] then sprout_anchor_loop lib final_treestates e interstitial_trees jss
         else do {
           input_tree \<leftarrow> append_all (sprout_append lib) (js_commitments js) input_tree;
           sprout_anchor_loop lib final_treestates e
             (Mapping.update (sprout_root lib input_tree) input_tree interstitial_trees) jss })"

definition sprout_anchors_refer_to_treestates ::
  "TreeLib \<Rightarrow> (bytes, tree) mapping \<Rightarrow> Transaction \<Rightarrow> bytes \<Rightarrow> nat option \<Rightarrow> u32 option \<Rightarrow> (ValidateContextError, unit) result" where
  "sprout_anchors_refer_to_treestates lib final_treestates tx transaction_hash i height =
     sprout_anchor_loop lib final_treestates (\<lambda>anchor. UnknownSproutAnchor anchor height i transaction_hash)
       Mapping.empty (sprout_groth16_joinsplits tx)"

definition block_sapling_orchard_anchors_refer_to_final_treestates ::
  "ZebraDb \<Rightarrow> Chain \<Rightarrow> SemanticallyVerifiedBlock \<Rightarrow> (ValidateContextError, unit) result" where
  "block_sapling_orchard_anchors_refer_to_final_treestates db parent_chain b =
     try_for_each (\<lambda>(i, tx). do {
       hash \<leftarrow> index (sv_transaction_hashes b) i;
       sapling_orchard_anchors_refer_to_final_treestates db (Some parent_chain) tx hash (Some i) (Some (sv_height b)) })
       (enumerate 0 (sv_transactions b))"

definition block_fetch_sprout_final_treestates ::
  "ZebraDb \<Rightarrow> Chain \<Rightarrow> SemanticallyVerifiedBlock \<Rightarrow> (bytes, tree) mapping" where
  "block_fetch_sprout_final_treestates db parent_chain b =
     fold (fetch_sprout_final_treestates db (Some parent_chain)) (sv_transactions b) Mapping.empty"

text \<open>
  The parallel iterator may report the error of any failing transaction; the model reports the first one
  in block order.
\<close>

definition block_sprout_anchors_refer_to_treestates ::
  "TreeLib \<Rightarrow> (bytes, tree) mapping \<Rightarrow> Transaction list \<Rightarrow> bytes list \<Rightarrow> u32 \<Rightarrow> (ValidateContextError, unit) result" where
  "block_sprout_anchors_refer_to_treestates lib final_treestates txs transaction_hashes height =
     try_for_each (\<lambda>(i, tx). do {
       hash \<leftarrow> index transaction_hashes i;
       sprout_anchors_refer_to_treestates lib final_treestates tx hash (Some i) (Some height) })
       (enumerate 0 txs)"

definition tx_anchors_refer_to_final_treestates ::
  "TreeLib \<Rightarrow> ZebraDb \<Rightarrow> Chain option \<Rightarrow> Transaction \<Rightarrow> bytes \<Rightarrow> (ValidateContextError, unit) result" where
  "tx_anchors_refer_to_final_treestates lib db parent_chain tx mined_id =
     tryr (sapling_orchard_anchors_refer_to_final_treestates db parent_chain tx mined_id None None) (\<lambda>_.
     if has_sprout_joinsplit_data tx then
       sprout_anchors_refer_to_treestates lib (fetch_sprout_final_treestates db parent_chain tx Mapping.empty)
         tx mined_id None None
     else ok ())"

subsection \<open>Block commitments\<close>

datatype Commitment =
    PreSaplingReserved bytes
  | FinalSaplingRoot bytes
  | ChainHistoryActivationReserved
  | ChainHistoryRoot bytes
  | ChainHistoryBlockTxAuthCommitment bytes

definition CHAIN_HISTORY_ACTIVATION_RESERVED :: bytes where
  "CHAIN_HISTORY_ACTIVATION_RESERVED = replicate 32 0"

definition current_with_activation_height :: "Network \<Rightarrow> u32 \<Rightarrow> (NetworkUpgrade \<times> u32) rust" where
  "current_with_activation_height network height =
     (case rev (filter (\<lambda>(h, nu). h \<le> height) (activation_list network)) of
        [] \<Rightarrow> None | (h, nu) # _ \<Rightarrow> Some (nu, h))"

definition activation_reserved :: "bytes \<Rightarrow> (CommitmentError, Commitment) result" where
  "activation_reserved b =
     (if b = CHAIN_HISTORY_ACTIVATION_RESERVED then ok ChainHistoryActivationReserved
      else err (InvalidChainHistoryActivationReserved b))"

definition Commitment_from_bytes ::
  "TreeLib \<Rightarrow> bytes \<Rightarrow> Network \<Rightarrow> u32 \<Rightarrow> (CommitmentError, Commitment) result" where
  "Commitment_from_bytes lib b network height = do {
     (nu, upgrade_height) \<leftarrow> current_with_activation_height network height;
     if nu \<in> {Genesis, BeforeOverwinter, Overwinter} then ok (PreSaplingReserved b)
     else if nu \<in> {SaplingUpgrade, Blossom} then
       (if sapling_root_valid lib b then ok (FinalSaplingRoot b) else err InvalidSapingRootBytes)
     else if nu = Heartwood \<and> height = upgrade_height then activation_reserved b
     else if nu \<in> {Canopy, Nu5, Nu6, Nu6_1, Nu7} \<and> height = upgrade_height \<and>
         Some height = activation_height Heartwood network then activation_reserved b
     else if nu \<in> {Heartwood, Canopy} then ok (ChainHistoryRoot b)
     else ok (ChainHistoryBlockTxAuthCommitment b) }"

definition block_commitment ::
  "TreeLib \<Rightarrow> Network \<Rightarrow> Header \<Rightarrow> Transaction list \<Rightarrow> bytes \<Rightarrow> (CommitmentError, Commitment) result" where
  "block_commitment lib network header txs hash = (case coinbase_height txs of
       None \<Rightarrow> err (MissingBlockHeight hash)
     | Some height \<Rightarrow> Commitment_from_bytes lib (header_commitment header) network height)"

definition block_commitment_is_valid_for_chain_history ::
  "TreeLib \<Rightarrow> Header \<Rightarrow> Transaction list \<Rightarrow> bytes \<Rightarrow> Network \<Rightarrow> tree \<Rightarrow> (ValidateContextError, unit) result" where
  "block_commitment_is_valid_for_chain_history lib header txs hash network history =
     tryr (map_err InvalidBlockCommitment (block_commitment lib network header txs hash)) (\<lambda>commitment.
     case commitment of
       ChainHistoryRoot actual_history_tree_root \<Rightarrow> do {
         history_tree_root \<leftarrow> history_hash lib history;
         if actual_history_tree_root = history_tree_root then ok ()
         else err (InvalidBlockCommitment (InvalidChainHistoryRoot history_tree_root actual_history_tree_root)) }
     | ChainHistoryBlockTxAuthCommitment actual_hash_block_commitments \<Rightarrow> do {
         history_tree_root \<leftarrow> history_hash lib history;
         let hash_block_commitments = commitment_hash lib history_tree_root (auth_data_root lib txs);
         if actual_hash_block_commitments = hash_block_commitments then ok ()
         else err (InvalidBlockCommitment
           (InvalidChainHistoryBlockTxAuthCommitment hash_block_commitments actual_hash_block_commitments)) }
     | _ \<Rightarrow> ok ())"

subsection \<open>Position, time and difficulty\<close>

definition block_is_not_orphaned :: "u32 \<Rightarrow> u32 \<Rightarrow> (ValidateContextError, unit) result" where
  "block_is_not_orphaned finalized_height height =
     (if height \<le> finalized_height then err (OrphanedBlock height finalized_height) else ok ())"

definition height_one_more_than_parent_height :: "u32 \<Rightarrow> u32 \<Rightarrow> (ValidateContextError, unit) result" where
  "height_one_more_than_parent_height parent_height height =
     (if height_add parent_height 1 \<noteq> Some height then err (NonSequentialBlock height parent_height) else ok ())"

definition TESTNET_MAX_TIME_START_HEIGHT :: u32 where "TESTNET_MAX_TIME_START_HEIGHT = 653606"
definition BLOCK_MAX_TIME_SINCE_MEDIAN :: int where "BLOCK_MAX_TIME_SINCE_MEDIAN = 90 * 60"

definition is_max_block_time_enforced :: "Network \<Rightarrow> u32 \<Rightarrow> bool" where
  "is_max_block_time_enforced network height = (case network of
       Mainnet \<Rightarrow> True
     | Testnet _ \<Rightarrow> height \<ge> TESTNET_MAX_TIME_START_HEIGHT)"

definition difficulty_threshold_and_time_are_valid ::
  "u32 \<Rightarrow> AdjustedDifficulty \<Rightarrow> (ValidateContextError, unit) result" where
  "difficulty_threshold_and_time_are_valid difficulty_threshold a = do {
     median \<leftarrow> median_time_past a;
     let block_time_max = median + BLOCK_MAX_TIME_SINCE_MEDIAN;
     genesis_height \<leftarrow> activation_height Genesis (ad_network a);
     if candidate_time a \<le> median \<and> candidate_height a \<noteq> genesis_height
     then err (TimeTooEarly (candidate_time a) median)
     else if is_max_block_time_enforced (ad_network a) (candidate_height a) \<and> candidate_time a > block_time_max
     then err (TimeTooLate (candidate_time a) block_time_max)
     else do {
       expected_difficulty \<leftarrow> expected_difficulty_threshold a;
       if difficulty_threshold \<noteq> expected_difficulty
       then err (InvalidDifficultyThreshold difficulty_threshold expected_difficulty) else ok () } }"

definition block_is_valid_for_recent_chain ::
  "SemanticallyVerifiedBlock \<Rightarrow> Network \<Rightarrow> u32 option \<Rightarrow> (Header \<times> Transaction list) list \<Rightarrow>
    (ValidateContextError, unit) result" where
  "block_is_valid_for_recent_chain b network finalized_height relevant_chain = do {
     finalized_height \<leftarrow> finalized_height;
     tryr (block_is_not_orphaned finalized_height (sv_height b)) (\<lambda>_.
       case take POW_ADJUSTMENT_BLOCK_SPAN relevant_chain of
         [] \<Rightarrow> err NotReadyToBeCommitted
       | (parent_header, parent_txs) # ancestors \<Rightarrow> do {
           parent_height \<leftarrow> coinbase_height parent_txs;
           tryr (height_one_more_than_parent_height parent_height (sv_height b)) (\<lambda>_. do {
             a \<leftarrow> new_from_block (coinbase_height (sv_transactions b)) (header_time (sv_header b)) network
               (map (\<lambda>(header, _). (header_threshold header, header_time header))
                 ((parent_header, parent_txs) # ancestors));
             difficulty_threshold_and_time_are_valid (header_threshold (sv_header b)) a }) }) }"


section \<open>Spent outputs\<close>

text \<open>
  A spend is in order when its output is created by an earlier transaction of the block, or else is
  unspent in the parent chain: created there, or stored in the finalized state, and not spent by the
  chain. An output of a coinbase transaction must be mature, and may have to be shielded.
\<close>

definition spend_in_order ::
  "SemanticallyVerifiedBlock \<Rightarrow> utxos \<Rightarrow> (outpoint, bytes) mapping \<Rightarrow> ZebraDb \<Rightarrow> nat \<times> Transaction \<times> outpoint \<Rightarrow>
    OrderedUtxo \<Rightarrow> bool" where
  "spend_in_order b unspent spent db s u = (case s of (i, tx, p) \<Rightarrow>
     (case Mapping.lookup (sv_new_outputs b) p of
        Some out \<Rightarrow> out = u \<and> tx_index_in_block u < i
      | None \<Rightarrow> Mapping.lookup spent p = None \<and>
          or_else (Mapping.lookup unspent p) (db_utxo db p) = Some u) \<and>
     (utxo_from_coinbase u \<longrightarrow>
        (tx_outputs tx = [] \<or> should_allow_unshielded_coinbase_spends (db_network db)) \<and>
        unat (utxo_height u) + MIN_TRANSPARENT_COINBASE_MATURITY \<le> unat (sv_height b)))"

lemma chain_order_ok_iff:
  "transparent_spend_chain_order p i outs unspent spent db = ok u \<longleftrightarrow>
    (case Mapping.lookup outs p of
       Some out \<Rightarrow> out = u \<and> tx_index_in_block u < i
     | None \<Rightarrow> Mapping.lookup spent p = None \<and> or_else (Mapping.lookup unspent p) (db_utxo db p) = Some u)"
  by (auto simp: transparent_spend_chain_order_def split: option.splits)

lemma height_add_le_iff:
  "height_add h n = Some m \<Longrightarrow> m \<le> k \<longleftrightarrow> unat h + n \<le> unat k"
proof -
  assume "height_add h n = Some m"
  then have m: "m = h + of_nat n" "unat h + n \<le> HEIGHT_MAX" by (auto simp: height_add_def split: if_splits)
  have "unat (of_nat n :: u32) = n" using m(2) by (simp add: unat_of_nat HEIGHT_MAX_def)
  then have "unat m = unat h + n" using m unat_add_lem [of h "of_nat n"] by (simp add: HEIGHT_MAX_def)
  then show ?thesis by (simp add: word_le_nat_alt)
qed

lemma coinbase_spend_ok:
  assumes "transparent_coinbase_spend p (coinbase_spend_restriction tx network h) u = ok ()" "utxo_from_coinbase u"
  shows "(tx_outputs tx = [] \<or> should_allow_unshielded_coinbase_spends network) \<and>
    unat (utxo_height u) + MIN_TRANSPARENT_COINBASE_MATURITY \<le> unat h"
  using assms
  by (auto simp: transparent_coinbase_spend_def coinbase_spend_restriction_def bind_ok_iff height_add_le_iff
      split: if_splits)

lemma spend_step_ok:
  assumes "spend_step b unspent spent db (i, tx, p) spends = ok spends'"
  shows "\<exists>u. spend_in_order b unspent spent db (i, tx, p) u \<and> Mapping.lookup spends p = None \<and>
    spends' = Mapping.update p u spends"
proof -
  obtain u where u: "transparent_spend_chain_order p i (sv_new_outputs b) unspent spent db = ok u"
    "transparent_coinbase_spend p (coinbase_spend_restriction tx (db_network db) (sv_height b)) u = ok ()"
    "Mapping.lookup spends p = None" "spends' = Mapping.update p u spends"
    using assms by (auto simp: spend_step_def tryr_ok_iff split: if_splits)
  have "spend_in_order b unspent spent db (i, tx, p) u"
    using u(1) coinbase_spend_ok [OF u(2)] by (simp add: spend_in_order_def chain_order_ok_iff)
  with u(3,4) show ?thesis by blast
qed

abbreviation spend_point :: "nat \<times> Transaction \<times> outpoint \<Rightarrow> outpoint" where
  "spend_point s \<equiv> snd (snd s)"

lemma spend_loop_ok:
  assumes "spend_loop b unspent spent db ss spends = ok spends'"
  shows "distinct (map spend_point ss) \<and>
    (\<forall>s \<in> set ss. Mapping.lookup spends (spend_point s) = None \<and>
      (\<exists>u. Mapping.lookup spends' (spend_point s) = Some u \<and> spend_in_order b unspent spent db s u)) \<and>
    (\<forall>p. p \<notin> spend_point ` set ss \<longrightarrow> Mapping.lookup spends' p = Mapping.lookup spends p)"
  using assms
proof (induction ss arbitrary: spends)
  case (Cons s ss)
  obtain i tx p where s: "s = (i, tx, p)" by (cases s)
  obtain m where m: "spend_step b unspent spent db (i, tx, p) spends = ok m" "spend_loop b unspent spent db ss m = ok spends'"
    using Cons.prems s by (auto simp: tryr_ok_iff)
  obtain u where u: "spend_in_order b unspent spent db (i, tx, p) u" "Mapping.lookup spends p = None"
    "m = Mapping.update p u spends"
    using spend_step_ok [OF m(1)] by blast
  note ih = Cons.IH [OF m(2)]
  have p: "p \<notin> spend_point ` set ss" using ih u(3) by (force simp: lookup_update')
  have old: "Mapping.lookup m q = Mapping.lookup spends q" if "q \<in> spend_point ` set ss" for q
    using that p u(3) by (auto simp: lookup_update')
  show ?case
  proof (intro conjI)
    show "distinct (map spend_point (s # ss))" using ih p s by simp
    show "\<forall>q. q \<notin> spend_point ` set (s # ss) \<longrightarrow> Mapping.lookup spends' q = Mapping.lookup spends q"
      using ih u(3) s by (simp add: lookup_update')
    show "\<forall>t \<in> set (s # ss). Mapping.lookup spends (spend_point t) = None \<and>
        (\<exists>u. Mapping.lookup spends' (spend_point t) = Some u \<and> spend_in_order b unspent spent db t u)"
    proof
      fix t assume t: "t \<in> set (s # ss)"
      show "Mapping.lookup spends (spend_point t) = None \<and>
          (\<exists>u. Mapping.lookup spends' (spend_point t) = Some u \<and> spend_in_order b unspent spent db t u)"
      proof (cases "t = s")
        case True
        have "Mapping.lookup spends' p = Mapping.lookup m p" using ih p by blast
        with True s u show ?thesis by (simp add: lookup_update')
      next
        case False
        with t have t: "t \<in> set ss" by simp
        with ih old [of "spend_point t"] show ?thesis by force
      qed
    qed
  qed
qed simp

lemma try_for_each_ok_iff: "try_for_each f xs = ok () \<longleftrightarrow> (\<forall>x \<in> set xs. f x = ok ())"
  by (induction xs) (auto simp: tryr_ok_iff)

lemma bind_err: "Option.bind (err e) f = f (Inl e)"
  by (simp add: err_def)

lemma check_remaining_value_ok:
  assumes "check_remaining_value b utxos (i, tx) = ok ()" "\<not> is_coinbase tx"
  shows "\<exists>v fee. value_balance utxos tx = ok v \<and> remaining_transaction_value v = ok fee"
proof (cases "value_balance utxos tx" rule: result_cases)
  case (val v)
  with assms have *: "Option.bind (remaining_transaction_value v) (\<lambda>r. case r of Inr _ \<Rightarrow> ok ()
      | Inl amount_error \<Rightarrow> Option.bind (index (sv_transaction_hashes b) i) (\<lambda>hash. case amount_error of
          Constraint v _ \<Rightarrow> if v < 0 then err (NegativeRemainingTransactionValue amount_error (sv_height b) i hash)
            else err (CalculateRemainingTransactionValue amount_error (sv_height b) i hash)
        | _ \<Rightarrow> err (CalculateRemainingTransactionValue amount_error (sv_height b) i hash))) = ok ()"
    by (simp add: check_remaining_value_def)
  show ?thesis
  proof (cases "remaining_transaction_value v" rule: result_cases)
    case (error e)
    with * show ?thesis by (cases e) (auto simp: bind_err bind_ok_iff split: if_splits)
  qed (use * val in auto)
next
  case (error e)
  with assms show ?thesis by (auto simp: check_remaining_value_def bind_err bind_ok_iff)
next
  case panic
  with assms show ?thesis by (simp add: check_remaining_value_def)
qed



text \<open>A block that spends an output of the chain, and then an output that it has created itself.\<close>

definition spend_utxo :: "amount \<Rightarrow> nat \<Rightarrow> OrderedUtxo" where
  "spend_utxo v i = \<lparr>utxo_output = \<lparr>out_value = v, out_address = None\<rparr>, utxo_height = 9,
     utxo_from_coinbase = False, tx_index_in_block = i\<rparr>"

definition spend_block :: SemanticallyVerifiedBlock where
  "spend_block = \<lparr>sv_header = sample_header, sv_transactions = [V5 [Coinbase 9] [] None None,
       V5 [PrevOut ([1], 0)] [\<lparr>out_value = 7, out_address = None\<rparr>] None None,
       V5 [PrevOut ([2], 0)] [\<lparr>out_value = 7, out_address = None\<rparr>] None None],
     sv_hash = [9], sv_height = 9, sv_new_outputs = Mapping.update ([2], 0) (spend_utxo 7 1) Mapping.empty,
     sv_transaction_hashes = [[3], [2], [4]], sv_deferred_pool_balance_change = None, sv_size = 100\<rparr>"



end
