(* ===== verification/Finalized_State.thy ===== *)
theory Finalized_State
  imports Contextual_Checks Bond_Pools
begin

text \<open>
  Committing a block to the finalized state: \<^verbatim>\<open>zebra-state/src/service/finalized_state.rs\<close> and the write
  batches of \<^verbatim>\<open>finalized_state/zebra_db\<close> (\<^verbatim>\<open>block.rs\<close>, \<^verbatim>\<open>shielded.rs\<close>, \<^verbatim>\<open>transparent.rs\<close>, \<^verbatim>\<open>chain.rs\<close>,
  \<^verbatim>\<open>delegation.rs\<close>).

  A batch is the list of its writes. Reads see the database without the batch, and writing a batch
  applies its writes in order.
\<close>

section \<open>Definitions\<close>

subsection \<open>Writes\<close>

datatype DiskWrite =
    PutHeader u32 Header
  | PutHashByHeight u32 bytes
  | PutHeightByHash bytes u32
  | PutTx TransactionLocation Transaction
  | PutHashByTxLoc TransactionLocation bytes
  | PutTxLocByHash bytes TransactionLocation
  | PutUtxo OutputLocation TxOutput
  | DeleteUtxo OutputLocation
  | MergeBalance bytes AddressBalance
  | PutAddressUtxo OutputLocation OutputLocation
  | DeleteAddressUtxo OutputLocation OutputLocation
  | PutAddressTx OutputLocation TransactionLocation
  | PutSproutNullifier bytes
  | PutSaplingNullifier bytes
  | PutOrchardNullifier bytes
  | PutSproutAnchor bytes tree
  | PutSproutTree tree
  | PutSaplingAnchor bytes
  | PutSaplingTree u32 tree
  | PutSaplingSubtree u16 u32 bytes
  | PutOrchardAnchor bytes
  | PutOrchardTree u32 tree
  | PutOrchardSubtree u16 u32 bytes
  | PutHistoryTree tree
  | PutBond BondKey DelegationBond
  | PutBondStatus BondKey BondStatus
  | PutValuePool ValueBalance
  | PutBlockInfo u32 "ValueBalance \<times> u32"

definition saturating_add :: "u64 \<Rightarrow> u64 \<Rightarrow> u64" where
  "saturating_add a b = (if unat a + unat b < 2 ^ 64 then a + b else - 1)"

definition AddressBalance_add :: "AddressBalance \<Rightarrow> AddressBalance \<Rightarrow> (amount_error, AddressBalance) result" where
  "AddressBalance_add a b =
     tryr (amount_add NegativeAllowed (ab_balance a) (ab_balance b)) (\<lambda>v.
       ok \<lparr>ab_balance = v, ab_received = saturating_add (ab_received a) (ab_received b),
         ab_location = min (ab_location a) (ab_location b)\<rparr>)"

text \<open>
  One write. Balances are merged: \<^verbatim>\<open>fetch_add_balance_and_received\<close> adds the change to the stored balance.
\<close>

fun apply_write :: "DiskWrite \<Rightarrow> ZebraDb \<Rightarrow> ZebraDb rust" where
  "apply_write (PutHeader h v) db = Some (db\<lparr>block_header_by_height := Mapping.update h v (block_header_by_height db)\<rparr>)"
| "apply_write (PutHashByHeight h v) db = Some (db\<lparr>hash_by_height := btree_insert h v (hash_by_height db)\<rparr>)"
| "apply_write (PutHeightByHash k h) db = Some (db\<lparr>db_height_by_hash := Mapping.update k h (db_height_by_hash db)\<rparr>)"
| "apply_write (PutTx l v) db = Some (db\<lparr>tx_by_loc := btree_insert l v (tx_by_loc db)\<rparr>)"
| "apply_write (PutHashByTxLoc l v) db = Some (db\<lparr>hash_by_tx_loc := Mapping.update l v (hash_by_tx_loc db)\<rparr>)"
| "apply_write (PutTxLocByHash k l) db = Some (db\<lparr>db_tx_loc_by_hash := Mapping.update k l (db_tx_loc_by_hash db)\<rparr>)"
| "apply_write (PutUtxo l v) db = Some (db\<lparr>utxo_by_out_loc := Mapping.update l v (utxo_by_out_loc db)\<rparr>)"
| "apply_write (DeleteUtxo l) db = Some (db\<lparr>utxo_by_out_loc := Mapping.delete l (utxo_by_out_loc db)\<rparr>)"
| "apply_write (MergeBalance k change) db = do {
     v \<leftarrow> (case Mapping.lookup (balance_by_transparent_addr db) k of
         None \<Rightarrow> Some change
       | Some v \<Rightarrow> expect (AddressBalance_add v change));
     Some (db\<lparr>balance_by_transparent_addr := Mapping.update k v (balance_by_transparent_addr db)\<rparr>) }"
| "apply_write (PutAddressUtxo a l) db =
     Some (db\<lparr>utxo_loc_by_transparent_addr_loc := insert (a, l) (utxo_loc_by_transparent_addr_loc db)\<rparr>)"
| "apply_write (DeleteAddressUtxo a l) db =
     Some (db\<lparr>utxo_loc_by_transparent_addr_loc := utxo_loc_by_transparent_addr_loc db - {(a, l)}\<rparr>)"
| "apply_write (PutAddressTx a l) db =
     Some (db\<lparr>tx_loc_by_transparent_addr_loc := insert (a, l) (tx_loc_by_transparent_addr_loc db)\<rparr>)"
| "apply_write (PutSproutNullifier n) db = Some (db\<lparr>db_sprout_nullifiers := insert n (db_sprout_nullifiers db)\<rparr>)"
| "apply_write (PutSaplingNullifier n) db = Some (db\<lparr>db_sapling_nullifiers := insert n (db_sapling_nullifiers db)\<rparr>)"
| "apply_write (PutOrchardNullifier n) db = Some (db\<lparr>db_orchard_nullifiers := insert n (db_orchard_nullifiers db)\<rparr>)"
| "apply_write (PutSproutAnchor a t) db = Some (db\<lparr>db_sprout_anchors := Mapping.update a t (db_sprout_anchors db)\<rparr>)"
| "apply_write (PutSproutTree t) db = Some (db\<lparr>db_sprout_tree := Some t\<rparr>)"
| "apply_write (PutSaplingAnchor a) db = Some (db\<lparr>db_sapling_anchors := insert a (db_sapling_anchors db)\<rparr>)"
| "apply_write (PutSaplingTree h t) db = Some (db\<lparr>db_sapling_trees := btree_insert h t (db_sapling_trees db)\<rparr>)"
| "apply_write (PutSaplingSubtree i h a) db =
     Some (db\<lparr>db_sapling_subtrees := btree_insert i (h, a) (db_sapling_subtrees db)\<rparr>)"
| "apply_write (PutOrchardAnchor a) db = Some (db\<lparr>db_orchard_anchors := insert a (db_orchard_anchors db)\<rparr>)"
| "apply_write (PutOrchardTree h t) db = Some (db\<lparr>db_orchard_trees := btree_insert h t (db_orchard_trees db)\<rparr>)"
| "apply_write (PutOrchardSubtree i h a) db =
     Some (db\<lparr>db_orchard_subtrees := btree_insert i (h, a) (db_orchard_subtrees db)\<rparr>)"
| "apply_write (PutHistoryTree t) db = Some (db\<lparr>db_history_tree := Some t\<rparr>)"
| "apply_write (PutBond k v) db = Some (db\<lparr>delegation_bond_by_key := Mapping.update k v (delegation_bond_by_key db)\<rparr>)"
| "apply_write (PutBondStatus k v) db = Some (db\<lparr>bond_status_by_key := Mapping.update k v (bond_status_by_key db)\<rparr>)"
| "apply_write (PutValuePool v) db = Some (db\<lparr>tip_chain_value_pool := Some v\<rparr>)"
| "apply_write (PutBlockInfo h v) db = Some (db\<lparr>db_block_info := Mapping.update h v (db_block_info db)\<rparr>)"

fun write_batch :: "DiskWrite list \<Rightarrow> ZebraDb \<Rightarrow> ZebraDb rust" where
  "write_batch [] db = Some db"
| "write_batch (w # ws) db = do { db \<leftarrow> apply_write w db; write_batch ws db }"

subsection \<open>Blocks and errors\<close>

datatype BoxError =
    Message string
  | AmountError amount_error
  | ValueError ValueBalanceError
  | ContextError ValidateContextError
  | NoteError NoteCommitmentTreeError
  | HistoryError

record FinalizedBlock =
  fb_header :: Header
  fb_transactions :: "Transaction list"
  fb_hash :: bytes
  fb_height :: u32
  fb_new_outputs :: "(outpoint, OrderedUtxo) mapping"
  fb_transaction_hashes :: "bytes list"
  fb_treestate :: Treestate
  fb_deferred_pool_balance_change :: "amount option"
  fb_bond_rewards :: "(BondKey \<times> u64) list"
  fb_unbonding_amounts :: "(BondKey \<times> u64) list"
  fb_size :: nat

datatype FinalizableBlock =
    Checkpoint SemanticallyVerifiedBlock
  | Contextual ContextuallyVerifiedBlock Treestate "(BondKey \<times> u64) list" "(BondKey \<times> u64) list"

definition semantically_verified :: "ContextuallyVerifiedBlock \<Rightarrow> SemanticallyVerifiedBlock" where
  "semantically_verified b = \<lparr>sv_header = cv_header b, sv_transactions = cv_transactions b, sv_hash = cv_hash b,
     sv_height = cv_height b, sv_new_outputs = cv_new_outputs b, sv_transaction_hashes = cv_transaction_hashes b,
     sv_deferred_pool_balance_change = Some (deferred (cv_chain_value_pool_change b)), sv_size = cv_size b\<rparr>"

definition from_semantically_verified ::
  "SemanticallyVerifiedBlock \<Rightarrow> Treestate \<Rightarrow> (BondKey \<times> u64) list \<Rightarrow> (BondKey \<times> u64) list \<Rightarrow> FinalizedBlock" where
  "from_semantically_verified b ts rewards amounts = \<lparr>fb_header = sv_header b, fb_transactions = sv_transactions b,
     fb_hash = sv_hash b, fb_height = sv_height b, fb_new_outputs = sv_new_outputs b,
     fb_transaction_hashes = sv_transaction_hashes b, fb_treestate = ts,
     fb_deferred_pool_balance_change = sv_deferred_pool_balance_change b, fb_bond_rewards = rewards,
     fb_unbonding_amounts = amounts, fb_size = sv_size b\<rparr>"

definition from_checkpoint_verified :: "SemanticallyVerifiedBlock \<Rightarrow> Treestate \<Rightarrow> FinalizedBlock" where
  "from_checkpoint_verified b ts = from_semantically_verified b ts [] []"

definition from_contextually_verified ::
  "ContextuallyVerifiedBlock \<Rightarrow> Treestate \<Rightarrow> (BondKey \<times> u64) list \<Rightarrow> (BondKey \<times> u64) list \<Rightarrow> FinalizedBlock" where
  "from_contextually_verified b ts rewards amounts =
     from_semantically_verified (semantically_verified b) ts rewards amounts"

subsection \<open>Header and transaction data\<close>

text \<open>The list of the results of a fallible function, with the first panic.\<close>

definition collect :: "('a \<Rightarrow> 'b rust) \<Rightarrow> 'a list \<Rightarrow> 'b list rust" where
  "collect f xs = those (map f xs)"

definition prepare_block_header_and_transaction_data_batch :: "FinalizedBlock \<Rightarrow> DiskWrite list rust" where
  "prepare_block_header_and_transaction_data_batch f = do {
     txs \<leftarrow> collect (\<lambda>(i, tx, hash). do {
       l \<leftarrow> TransactionLocation_from_usize (fb_height f) i;
       Some [PutTx l tx, PutHashByTxLoc l hash, PutTxLocByHash hash l] })
       (enumerate 0 (zip (fb_transactions f) (fb_transaction_hashes f)));
     Some ([PutHeader (fb_height f) (fb_header f), PutHashByHeight (fb_height f) (fb_hash f),
       PutHeightByHash (fb_hash f) (fb_height f)] @ concat txs) }"

subsection \<open>Shielded data\<close>

definition prepare_nullifier_batch :: "Transaction \<Rightarrow> DiskWrite list" where
  "prepare_nullifier_batch tx = map PutSproutNullifier (tx_sprout_nullifiers tx) @
     map PutSaplingNullifier (tx_sapling_nullifiers tx) @ map PutOrchardNullifier (tx_orchard_nullifiers tx)"

definition prepare_shielded_transaction_batch :: "FinalizedBlock \<Rightarrow> DiskWrite list" where
  "prepare_shielded_transaction_batch f = concat (map prepare_nullifier_batch (fb_transactions f))"

definition update_sprout_tree :: "TreeLib \<Rightarrow> tree \<Rightarrow> DiskWrite list" where
  "update_sprout_tree lib t = [PutSproutAnchor (sprout_root lib t) t, PutSproutTree t]"

definition create_sapling_tree :: "TreeLib \<Rightarrow> u32 \<Rightarrow> tree \<Rightarrow> DiskWrite list" where
  "create_sapling_tree lib height t = [PutSaplingAnchor (sapling_root lib t), PutSaplingTree height t]"

definition insert_sapling_subtree :: "subtree option \<Rightarrow> DiskWrite list" where
  "insert_sapling_subtree s = (case s of None \<Rightarrow> [] | Some (i, h, r) \<Rightarrow> [PutSaplingSubtree i h r])"

definition create_orchard_tree :: "TreeLib \<Rightarrow> u32 \<Rightarrow> tree \<Rightarrow> DiskWrite list" where
  "create_orchard_tree lib height t = [PutOrchardAnchor (orchard_root lib t), PutOrchardTree height t]"

definition insert_orchard_subtree :: "subtree option \<Rightarrow> DiskWrite list" where
  "insert_orchard_subtree s = (case s of None \<Rightarrow> [] | Some (i, h, r) \<Rightarrow> [PutOrchardSubtree i h r])"

text \<open>An empty history tree is not stored.\<close>

definition update_history_tree :: "TreeLib \<Rightarrow> tree \<Rightarrow> DiskWrite list" where
  "update_history_tree lib t = (if history_hash lib t \<noteq> None then [PutHistoryTree t] else [])"

text \<open>Trees are equal when their roots are.\<close>

definition prepare_trees_batch ::
  "TreeLib \<Rightarrow> ZebraDb \<Rightarrow> FinalizedBlock \<Rightarrow> NoteCommitmentTrees option \<Rightarrow> DiskWrite list rust" where
  "prepare_trees_batch lib db f prev = do {
     let height = fb_height f;
     let trees = ts_note_commitment_trees (fb_treestate f);
     prev_sprout_tree \<leftarrow> (case prev of None \<Rightarrow> sprout_tree_for_tip lib db | Some t \<Rightarrow> Some (nct_sprout t));
     prev_sapling_tree \<leftarrow> (case prev of None \<Rightarrow> sapling_tree_for_tip lib db | Some t \<Rightarrow> Some (nct_sapling t));
     prev_orchard_tree \<leftarrow> (case prev of None \<Rightarrow> orchard_tree_for_tip lib db | Some t \<Rightarrow> Some (nct_orchard t));
     Some (
       (if height = 0 \<or> sprout_root lib prev_sprout_tree \<noteq> sprout_root lib (nct_sprout trees)
        then update_sprout_tree lib (nct_sprout trees) else []) @
       (if height = 0 \<or> sapling_root lib prev_sapling_tree \<noteq> sapling_root lib (nct_sapling trees)
        then create_sapling_tree lib height (nct_sapling trees) @ insert_sapling_subtree (nct_sapling_subtree trees)
        else []) @
       (if height = 0 \<or> orchard_root lib prev_orchard_tree \<noteq> orchard_root lib (nct_orchard trees)
        then create_orchard_tree lib height (nct_orchard trees) @ insert_orchard_subtree (nct_orchard_subtree trees)
        else []) @
       update_history_tree lib (ts_history_tree (fb_treestate f))) }"

subsection \<open>Transparent data\<close>

type_synonym out_locs = "(OutputLocation \<times> OrderedUtxo) list"
type_synonym balances = "(bytes \<times> AddressBalance) list"

definition AddressBalance_new :: "OutputLocation \<Rightarrow> AddressBalance" where
  "AddressBalance_new location = \<lparr>ab_balance = 0, ab_received = 0, ab_location = location\<rparr>"

definition receive_output :: "TxOutput \<Rightarrow> AddressBalance \<Rightarrow> (amount_error, AddressBalance) result" where
  "receive_output out b = do {
     v \<leftarrow> i64_checked (ab_balance b + out_value out);
     tryr (validate NegativeAllowed v) (\<lambda>v. do {
       received \<leftarrow> amount_into_u64 (out_value out);
       ok (b\<lparr>ab_balance := v, ab_received := saturating_add (ab_received b) received\<rparr>) }) }"

definition spend_output :: "TxOutput \<Rightarrow> AddressBalance \<Rightarrow> (amount_error, AddressBalance) result" where
  "spend_output out b = do {
     v \<leftarrow> i64_checked (ab_balance b - out_value out);
     tryr (validate NegativeAllowed v) (\<lambda>v. ok (b\<lparr>ab_balance := v\<rparr>)) }"

fun prepare_new_transparent_outputs_batch :: "out_locs \<Rightarrow> balances \<Rightarrow> (DiskWrite list \<times> balances) rust" where
  "prepare_new_transparent_outputs_batch [] balances = Some ([], balances)"
| "prepare_new_transparent_outputs_batch ((l, utxo) # rest) balances = do {
     let out = utxo_output utxo;
     (ws, balances) \<leftarrow> (case out_address out of
         None \<Rightarrow> Some ([], balances)
       | Some address \<Rightarrow> do {
           let b = (case map_of balances address of Some b \<Rightarrow> b | None \<Rightarrow> AddressBalance_new l);
           b \<leftarrow> expect (receive_output out b);
           Some ([PutAddressUtxo (ab_location b) l, PutAddressTx (ab_location b) (fst l)],
             AList.update address b balances) });
     (ws', balances) \<leftarrow> prepare_new_transparent_outputs_batch rest balances;
     Some (ws @ [PutUtxo l out] @ ws', balances) }"

fun prepare_spent_transparent_outputs_batch :: "out_locs \<Rightarrow> balances \<Rightarrow> (DiskWrite list \<times> balances) rust" where
  "prepare_spent_transparent_outputs_batch [] balances = Some ([], balances)"
| "prepare_spent_transparent_outputs_batch ((l, utxo) # rest) balances = do {
     let out = utxo_output utxo;
     (ws, balances) \<leftarrow> (case out_address out of
         None \<Rightarrow> Some ([], balances)
       | Some address \<Rightarrow> do {
           b \<leftarrow> map_of balances address;
           b \<leftarrow> expect (spend_output out b);
           Some ([DeleteAddressUtxo (ab_location b) l], AList.update address b balances) });
     (ws', balances) \<leftarrow> prepare_spent_transparent_outputs_batch rest balances;
     Some (ws @ [DeleteUtxo l] @ ws', balances) }"

definition prepare_spending_transparent_tx_ids_batch ::
  "TransactionLocation \<Rightarrow> Transaction \<Rightarrow> utxos \<Rightarrow> balances \<Rightarrow> DiskWrite list rust" where
  "prepare_spending_transparent_tx_ids_batch location tx spent_utxos_by_outpoint balances = do {
     ws \<leftarrow> collect (\<lambda>p. do {
       utxo \<leftarrow> Mapping.lookup spent_utxos_by_outpoint p;
       (case out_address (utxo_output utxo) of
          None \<Rightarrow> Some []
        | Some address \<Rightarrow> do {
            b \<leftarrow> map_of balances address;
            Some [PutAddressTx (ab_location b) location] }) })
       (List.map_filter input_outpoint (tx_inputs tx));
     Some (concat ws) }"

definition prepare_transparent_balances_batch :: "balances \<Rightarrow> DiskWrite list" where
  "prepare_transparent_balances_batch balances = map (\<lambda>(address, b). MergeBalance address b) balances"

definition prepare_transparent_transaction_batch ::
  "FinalizedBlock \<Rightarrow> out_locs \<Rightarrow> utxos \<Rightarrow> out_locs \<Rightarrow> balances \<Rightarrow> DiskWrite list rust" where
  "prepare_transparent_transaction_batch f new_outputs_by_out_loc spent_utxos_by_outpoint spent_utxos_by_out_loc balances = do {
     (new_ws, balances) \<leftarrow> prepare_new_transparent_outputs_batch new_outputs_by_out_loc balances;
     (spent_ws, balances) \<leftarrow> prepare_spent_transparent_outputs_batch spent_utxos_by_out_loc balances;
     spending_ws \<leftarrow> collect (\<lambda>(i, tx). do {
       location \<leftarrow> TransactionLocation_from_usize (fb_height f) i;
       prepare_spending_transparent_tx_ids_batch location tx spent_utxos_by_outpoint balances })
       (enumerate 0 (fb_transactions f));
     Some (new_ws @ spent_ws @ concat spending_ws @ prepare_transparent_balances_batch balances) }"

subsection \<open>Delegation bonds\<close>

definition prepare_new_delegation_bond :: "BondKey \<Rightarrow> DelegationBond \<Rightarrow> DiskWrite list" where
  "prepare_new_delegation_bond bond_key bond = [PutBond bond_key bond, PutBondStatus bond_key Active]"

definition prepare_unbonding_delegation_bond ::
  "ZebraDb \<Rightarrow> BondKey \<Rightarrow> TransactionLocation \<Rightarrow> (BoxError, DiskWrite list) result" where
  "prepare_unbonding_delegation_bond db bond_key location = (case bond_status db bond_key of
       None \<Rightarrow> err (Message ''bond not found'')
     | Some current_status \<Rightarrow>
         if \<not> is_active current_status then err (Message ''bond is not active'')
         else ok [PutBondStatus bond_key (Unbonding location)])"

definition prepare_withdrawn_delegation_bond ::
  "ZebraDb \<Rightarrow> BondKey \<Rightarrow> TransactionLocation \<Rightarrow> (BoxError, DiskWrite list) result" where
  "prepare_withdrawn_delegation_bond db bond_key location = (case bond_status db bond_key of
       None \<Rightarrow> err (Message ''bond not found'')
     | Some current_status \<Rightarrow>
         if \<not> is_unbonding current_status then err (Message ''bond is not unbonding'')
         else ok [PutBondStatus bond_key (Withdrawn location)])"

type_synonym block_bonds = "(BondKey, DelegationBond) mapping"

definition block_or_db_bond :: "ZebraDb \<Rightarrow> block_bonds \<Rightarrow> BondKey \<Rightarrow> DelegationBond option" where
  "block_or_db_bond db bonds_created_in_block bond_key =
     or_else (Mapping.lookup bonds_created_in_block bond_key) (delegation_bond db bond_key)"

definition prepare_retarget_delegation_bond ::
  "ZebraDb \<Rightarrow> BondKey \<Rightarrow> bytes \<Rightarrow> block_bonds \<Rightarrow> (BoxError, block_bonds \<times> DiskWrite list) result" where
  "prepare_retarget_delegation_bond db bond_key new_target bonds_created_in_block =
    (case block_or_db_bond db bonds_created_in_block bond_key of
       None \<Rightarrow> err (Message ''bond not found for retarget'')
     | Some bond \<Rightarrow>
         let bond = bond\<lparr>target_finalizer := new_target\<rparr> in
         ok (Mapping.update bond_key bond bonds_created_in_block, [PutBond bond_key bond]))"

definition prepare_staking_action ::
  "ZebraDb \<Rightarrow> StakingAction \<Rightarrow> TransactionLocation \<Rightarrow> block_bonds \<Rightarrow> (BoxError, block_bonds \<times> DiskWrite list) result" where
  "prepare_staking_action db a location created =
    (let bond_key = arg32_0 a in
     case sa_kind a of
       CreateNewDelegationBond \<Rightarrow>
         tryr (map_err AmountError (amount_try_from_u64 NonNegative (amount_zats a))) (\<lambda>amount.
           let bond = \<lparr>bond_amount = amount, target_finalizer = arg32_2 a, created_at = location\<rparr> in
           ok (Mapping.update bond_key bond created, prepare_new_delegation_bond bond_key bond))
     | BeginDelegationUnbonding \<Rightarrow>
         tryr (prepare_unbonding_delegation_bond db bond_key location) (\<lambda>ws. ok (created, ws))
     | WithdrawDelegationBond \<Rightarrow>
         tryr (prepare_withdrawn_delegation_bond db bond_key location) (\<lambda>ws. ok (created, ws))
     | RetargetDelegationBond \<Rightarrow> prepare_retarget_delegation_bond db bond_key (arg32_2 a) created
     | _ \<Rightarrow> ok (created, []))"

fun prepare_bonds_loop ::
  "ZebraDb \<Rightarrow> u32 \<Rightarrow> nat \<Rightarrow> Transaction list \<Rightarrow> block_bonds \<Rightarrow> (BoxError, block_bonds \<times> DiskWrite list) result" where
  "prepare_bonds_loop db height i [] created = ok (created, [])"
| "prepare_bonds_loop db height i (tx # txs) created =
    (case staking_action tx of
       None \<Rightarrow> prepare_bonds_loop db height (Suc i) txs created
     | Some a \<Rightarrow> do {
         location \<leftarrow> TransactionLocation_from_usize height i;
         tryr (prepare_staking_action db a location created) (\<lambda>(created, ws).
         tryr (prepare_bonds_loop db height (Suc i) txs created) (\<lambda>(created, ws').
         ok (created, ws @ ws'))) })"

text \<open>The reward of a bond, on top of the bond as this block has left it.\<close>

fun prepare_rewards_loop ::
  "ZebraDb \<Rightarrow> block_bonds \<Rightarrow> (BondKey \<times> u64) list \<Rightarrow> (BoxError, DiskWrite list) result" where
  "prepare_rewards_loop db created [] = ok []"
| "prepare_rewards_loop db created ((bond_key, reward_amount) # rest) =
    (case block_or_db_bond db created bond_key of
       None \<Rightarrow> prepare_rewards_loop db created rest
     | Some bond \<Rightarrow>
         tryr (map_err AmountError (validate NonNegative (sint reward_amount))) (\<lambda>r.
         tryr (map_err AmountError (amount_add NonNegative (bond_amount bond) r)) (\<lambda>amount.
         tryr (prepare_rewards_loop db created rest) (\<lambda>ws.
         ok (PutBond bond_key (bond\<lparr>bond_amount := amount\<rparr>) # ws)))))"

definition prepare_delegation_bonds_batch ::
  "ZebraDb \<Rightarrow> FinalizedBlock \<Rightarrow> (BoxError, DiskWrite list) result" where
  "prepare_delegation_bonds_batch db f =
     tryr (prepare_bonds_loop db (fb_height f) 0 (fb_transactions f) Mapping.empty) (\<lambda>(created, ws).
     tryr (prepare_rewards_loop db created (fb_bond_rewards f)) (\<lambda>ws'.
     ok (ws @ ws')))"

subsection \<open>Value pools\<close>

fun u64_sum :: "u64 list \<Rightarrow> u64 rust" where
  "u64_sum [] = Some 0"
| "u64_sum (x # xs) = do { s \<leftarrow> u64_sum xs; checked_add x s }"

fun move_unbonding_amounts :: "(BondKey \<times> u64) list \<Rightarrow> ValueBalance \<Rightarrow> (BoxError, ValueBalance) result" where
  "move_unbonding_amounts [] pool = ok pool"
| "move_unbonding_amounts ((_, amount) # rest) pool =
     tryr (map_err AmountError (validate NonNegative (sint amount))) (\<lambda>a. do {
       new_bonded \<leftarrow> expect (amount_sub NonNegative (staking_bonded pool) a);
       let pool = pool\<lparr>staking_bonded := new_bonded\<rparr>;
       new_unbonded \<leftarrow> expect (amount_add NonNegative (staking_unbonded pool) a);
       move_unbonding_amounts rest (pool\<lparr>staking_unbonded := new_unbonded\<rparr>) })"

definition add_total_rewards :: "(BondKey \<times> u64) list \<Rightarrow> ValueBalance \<Rightarrow> (BoxError, ValueBalance) result" where
  "add_total_rewards rewards pool = do {
     total_rewards \<leftarrow> u64_sum (map snd rewards);
     if total_rewards > 0 then
       tryr (map_err AmountError (validate NonNegative (sint total_rewards))) (\<lambda>r. do {
         new_bonded \<leftarrow> expect (amount_add NonNegative (staking_bonded pool) r);
         ok (pool\<lparr>staking_bonded := new_bonded\<rparr>) })
     else ok pool }"

definition prepare_chain_value_pools_batch ::
  "FinalizedBlock \<Rightarrow> utxos \<Rightarrow> ValueBalance \<Rightarrow> (BoxError, DiskWrite list) result" where
  "prepare_chain_value_pools_batch f utxos_spent_by_block value_pool =
     tryr (map_err ValueError (chain_value_pool_change (fb_transactions f) utxos_spent_by_block
         (fb_deferred_pool_balance_change f))) (\<lambda>change.
     tryr (map_err ValueError (add_chain_value_pool_change value_pool change)) (\<lambda>pool.
     tryr (add_total_rewards (fb_bond_rewards f) pool) (\<lambda>pool.
     tryr (move_unbonding_amounts (fb_unbonding_amounts f) pool) (\<lambda>pool.
     ok [PutValuePool pool, PutBlockInfo (fb_height f) (pool, word_of_nat (fb_size f))]))))"

subsection \<open>Whole blocks\<close>

definition prepare_block_batch ::
  "TreeLib \<Rightarrow> ZebraDb \<Rightarrow> FinalizedBlock \<Rightarrow> out_locs \<Rightarrow> utxos \<Rightarrow> out_locs \<Rightarrow> balances \<Rightarrow> ValueBalance \<Rightarrow>
    NoteCommitmentTrees option \<Rightarrow> (BoxError, DiskWrite list) result" where
  "prepare_block_batch lib db f new_outputs_by_out_loc spent_utxos_by_outpoint spent_utxos_by_out_loc balances
     value_pool prev = do {
     data_ws \<leftarrow> prepare_block_header_and_transaction_data_batch f;
     trees_ws \<leftarrow> prepare_trees_batch lib db f prev;
     tryr (if fb_height f \<noteq> 0 then do {
         transparent_ws \<leftarrow> prepare_transparent_transaction_batch f new_outputs_by_out_loc spent_utxos_by_outpoint
           spent_utxos_by_out_loc balances;
         tryr (prepare_delegation_bonds_batch db f) (\<lambda>bond_ws. ok (transparent_ws @ bond_ws)) }
       else ok []) (\<lambda>index_ws.
     tryr (prepare_chain_value_pools_batch f spent_utxos_by_outpoint value_pool) (\<lambda>pool_ws.
     ok (data_ws @ prepare_shielded_transaction_batch f @ trees_ws @ index_ws @ pool_ws))) }"

definition tx_hash_indexes :: "bytes list \<Rightarrow> (bytes, nat) mapping" where
  "tx_hash_indexes hashes = fold (\<lambda>(i, hash). Mapping.update hash i) (enumerate 0 hashes) Mapping.empty"

definition lookup_out_loc :: "u32 \<Rightarrow> outpoint \<Rightarrow> (bytes, nat) mapping \<Rightarrow> OutputLocation rust" where
  "lookup_out_loc height p indexes = do {
     tx_index \<leftarrow> Mapping.lookup indexes (fst p);
     tx_loc \<leftarrow> TransactionLocation_from_usize height tx_index;
     Some (OutputLocation_from_outpoint tx_loc p) }"

text \<open>
  The entries of a \<^verbatim>\<open>HashMap\<close>. It is iterated in some order; the results below are maps, which do not
  depend on it.
\<close>

definition map_entries :: "('k::linorder, 'v) mapping \<Rightarrow> ('k \<times> 'v) list" where
  "map_entries m = List.map_filter (\<lambda>k. map_option (Pair k) (Mapping.lookup m k)) (Mapping.ordered_keys m)"

definition btree_collect :: "('k::linorder \<times> 'v) list \<Rightarrow> ('k \<times> 'v) list" where
  "btree_collect xs = fold (\<lambda>(k, v). btree_insert k v) xs []"

definition mapping_collect :: "('k \<times> 'v) list \<Rightarrow> ('k, 'v) mapping" where
  "mapping_collect xs = fold (\<lambda>(k, v). Mapping.update k v) xs Mapping.empty"

definition spent_outpoints :: "Transaction list \<Rightarrow> outpoint list" where
  "spent_outpoints txs = List.map_filter input_outpoint (concat (map tx_inputs txs))"

definition find_spent_utxo ::
  "ZebraDb \<Rightarrow> FinalizedBlock \<Rightarrow> (bytes, nat) mapping \<Rightarrow> outpoint \<Rightarrow> (outpoint \<times> OutputLocation \<times> OrderedUtxo) rust" where
  "find_spent_utxo db f indexes p = do {
     l \<leftarrow> (case output_location db p of Some l \<Rightarrow> Some l | None \<Rightarrow> lookup_out_loc (fb_height f) p indexes);
     utxo \<leftarrow> or_else (db_utxo db p) (Mapping.lookup (fb_new_outputs f) p);
     Some (p, l, utxo) }"

definition write_block ::
  "TreeLib \<Rightarrow> ZebraDb \<Rightarrow> FinalizedBlock \<Rightarrow> NoteCommitmentTrees option \<Rightarrow> (BoxError, bytes \<times> ZebraDb) result" where
  "write_block lib db f prev = do {
     let indexes = tx_hash_indexes (fb_transaction_hashes f);
     new_outputs \<leftarrow> collect (\<lambda>(p, utxo). do { l \<leftarrow> lookup_out_loc (fb_height f) p indexes; Some (l, utxo) })
       (map_entries (fb_new_outputs f));
     spent \<leftarrow> collect (find_spent_utxo db f indexes) (spent_outpoints (fb_transactions f));
     let spent_utxos_by_outpoint = mapping_collect (map (\<lambda>(p, l, utxo). (p, utxo)) spent);
     let spent_utxos_by_out_loc = btree_collect (map (\<lambda>(p, l, utxo). (l, utxo)) spent);
     let changed_addresses = unique (List.map_filter (\<lambda>utxo. out_address (utxo_output utxo))
       (map snd spent_utxos_by_out_loc @ map snd (map_entries (fb_new_outputs f))));
     let balances = List.map_filter (\<lambda>address. map_option (\<lambda>b. (address, AddressBalance_new (ab_location b)))
       (Mapping.lookup (balance_by_transparent_addr db) address)) changed_addresses;
     tryr (prepare_block_batch lib db f (btree_collect new_outputs) spent_utxos_by_outpoint spent_utxos_by_out_loc
       balances (finalized_value_pool db) prev) (\<lambda>batch. do {
     db \<leftarrow> write_batch batch db;
     ok (fb_hash f, db) }) }"

text \<open>
  The trees and the history tree of a checkpoint-verified block are computed from those of the tip; a
  contextually verified block brings its own.
\<close>

definition checkpoint_treestate ::
  "TreeLib \<Rightarrow> ZebraDb \<Rightarrow> SemanticallyVerifiedBlock \<Rightarrow> NoteCommitmentTrees option \<Rightarrow>
    (BoxError, Treestate \<times> NoteCommitmentTrees) result" where
  "checkpoint_treestate lib db b prev = do {
     let history_tree = finalized_history_tree lib db;
     prev \<leftarrow> (case prev of Some t \<Rightarrow> Some t | None \<Rightarrow> note_commitment_trees_for_tip lib db);
     tryr (map_err NoteError (update_trees_parallel lib (sv_transactions b) prev)) (\<lambda>trees.
     tryr (map_err ContextError (block_commitment_is_valid_for_chain_history lib (sv_header b) (sv_transactions b)
       (sv_hash b) (db_network db) history_tree)) (\<lambda>_.
     case history_push lib (db_network db) history_tree (sv_header b, sv_transactions b)
         (sapling_root lib (nct_sapling trees)) (orchard_root lib (nct_orchard trees)) of
       None \<Rightarrow> err HistoryError
     | Some history_tree \<Rightarrow>
         ok (\<lparr>ts_note_commitment_trees = trees, ts_history_tree = history_tree\<rparr>, prev))) }"

definition finalized_block ::
  "TreeLib \<Rightarrow> ZebraDb \<Rightarrow> FinalizableBlock \<Rightarrow> NoteCommitmentTrees option \<Rightarrow>
    (BoxError, FinalizedBlock \<times> NoteCommitmentTrees option) result" where
  "finalized_block lib db finalizable_block prev = (case finalizable_block of
       Checkpoint b \<Rightarrow> tryr (checkpoint_treestate lib db b prev) (\<lambda>(ts, prev).
         ok (from_checkpoint_verified b ts, Some prev))
     | Contextual b ts rewards amounts \<Rightarrow> ok (from_contextually_verified b ts rewards amounts, prev))"

definition commit_finalized_direct ::
  "TreeLib \<Rightarrow> ZebraDb \<Rightarrow> FinalizableBlock \<Rightarrow> NoteCommitmentTrees option \<Rightarrow>
    (BoxError, bytes \<times> NoteCommitmentTrees \<times> ZebraDb) result" where
  "commit_finalized_direct lib db finalizable_block prev =
     tryr (finalized_block lib db finalizable_block prev) (\<lambda>(f, prev). do {
       rassert (finalized_tip_hash db = header_previous (fb_header f));
       (if db_is_empty db then rassert (fb_height f = 0)
        else do {
          tip_height \<leftarrow> finalized_tip_height db;
          rassert (height_add tip_height 1 = Some (fb_height f)) });
       tryr (write_block lib db f prev) (\<lambda>(hash, db).
         ok (hash, ts_note_commitment_trees (fb_treestate f), db)) })"

definition commit_finalized ::
  "TreeLib \<Rightarrow> ZebraDb \<Rightarrow> SemanticallyVerifiedBlock \<Rightarrow> NoteCommitmentTrees option \<Rightarrow>
    (BoxError, SemanticallyVerifiedBlock \<times> NoteCommitmentTrees \<times> ZebraDb) result" where
  "commit_finalized lib db checkpoint_verified prev =
     tryr (commit_finalized_direct lib db (Checkpoint checkpoint_verified) prev) (\<lambda>(_, trees, db).
       ok (checkpoint_verified, trees, db))"

end
