(* ===== verification/Finalized_Bonds.thy ===== *)
theory Finalized_Bonds
  imports Finalized_State
begin

text \<open>
  Delegation bonds are kept twice: in the non-finalized chain and, once a block is finalized, in the
  database. Both are refinements of one ledger, a map from bond keys to the amount, the target and the
  status of a bond. Finalizing a block in the database has the same effect on the ledger and on the
  value pools as pushing the block on the chain.
\<close>

section \<open>The ledger\<close>

type_synonym ledger = "BondKey \<Rightarrow> (amount \<times> bytes \<times> BondStatusInChain) option"

definition ledger_change ::
  "(amount \<times> bytes \<times> BondStatusInChain \<Rightarrow> amount \<times> bytes \<times> BondStatusInChain) \<Rightarrow> BondKey \<Rightarrow> ledger \<Rightarrow> ledger" where
  "ledger_change f k L = L(k := map_option f (L k))"

definition ledger_step :: "StakingAction \<Rightarrow> ledger \<Rightarrow> ledger" where
  "ledger_step a L = (case sa_kind a of
       CreateNewDelegationBond \<Rightarrow> L(arg32_0 a \<mapsto> (uint (amount_zats a), arg32_2 a, ChainActive))
     | BeginDelegationUnbonding \<Rightarrow> ledger_change (\<lambda>(v, t, s). (v, t, ChainUnbonding)) (arg32_0 a) L
     | WithdrawDelegationBond \<Rightarrow> ledger_change (\<lambda>(v, t, s). (v, t, ChainWithdrawn)) (arg32_0 a) L
     | RetargetDelegationBond \<Rightarrow> ledger_change (\<lambda>(v, t, s). (v, arg32_2 a, s)) (arg32_0 a) L
     | _ \<Rightarrow> L)"

definition ledger_rewards :: "(BondKey \<times> u64) list \<Rightarrow> ledger \<Rightarrow> ledger" where
  "ledger_rewards rewards L k = (case map_of rewards k of
       None \<Rightarrow> L k
     | Some r \<Rightarrow> map_option (\<lambda>(v, t, s). (v + sint r, t, s)) (L k))"

text \<open>
  What a store of bonds promises: every staking action that it accepts has the effect of the ledger,
  and keeps the store consistent.
\<close>

locale bond_store =
  fixes view :: "'s \<Rightarrow> ledger"
    and consistent :: "'s \<Rightarrow> bool"
    and act :: "StakingAction \<Rightarrow> TransactionLocation \<Rightarrow> 's \<Rightarrow> 's option"
  assumes act_view: "consistent s \<Longrightarrow> act a l s = Some s' \<Longrightarrow> view s' = ledger_step a (view s)"
    and act_consistent: "consistent s \<Longrightarrow> act a l s = Some s' \<Longrightarrow> consistent s'"
begin

fun acts :: "(StakingAction \<times> TransactionLocation) list \<Rightarrow> 's \<Rightarrow> 's option" where
  "acts [] s = Some s"
| "acts ((a, l) # as) s = Option.bind (act a l s) (acts as)"

lemma acts_view:
  "consistent s \<Longrightarrow> acts as s = Some s' \<Longrightarrow> view s' = fold ledger_step (map fst as) (view s) \<and> consistent s'"
proof (induction as arbitrary: s)
  case (Cons x as)
  obtain a l where x: "x = (a, l)" by (cases x)
  obtain s1 where s1: "act a l s = Some s1" "acts as s1 = Some s'"
    using Cons.prems(2) x by (auto simp: bind_eq_Some_conv)
  from Cons.IH [OF act_consistent [OF Cons.prems(1) s1(1)] s1(2)] act_view [OF Cons.prems(1) s1(1)] x
  show ?case by simp
qed simp

end

section \<open>The chain as a store\<close>

definition chain_ledger :: "Chain \<Rightarrow> ledger" where
  "chain_ledger c k = map_option (\<lambda>(b, s). (bond_amount b, target_finalizer b, s)) (map_of (delegation_bonds c) k)"

definition result_value :: "('e, 'a) result \<Rightarrow> 'a option" where
  "result_value m = do { r \<leftarrow> m; (case r of Inl _ \<Rightarrow> None | Inr a \<Rightarrow> Some a) }"

lemma result_value_Some [simp]: "result_value m = Some a \<longleftrightarrow> m = ok a"
  by (cases m rule: result_cases) (auto simp: result_value_def ok_def err_def)

definition chain_act :: "StakingAction \<Rightarrow> TransactionLocation \<Rightarrow> Chain \<Rightarrow> Chain option" where
  "chain_act a l c = result_value (update_chain_tip_with_delegation_bond a l c)"

lemma chain_ledger_set [simp]:
  "chain_ledger (set_bond k b s c) = (chain_ledger c)(k \<mapsto> (bond_amount b, target_finalizer b, s))"
  "chain_ledger (set_bonded v c) = chain_ledger c" "chain_ledger (set_unbonded v c) = chain_ledger c"
  "chain_ledger (c\<lparr>bond_retargets := r\<rparr>) = chain_ledger c"
  by (auto simp: chain_ledger_def update_conv')

lemma chain_act_view:
  assumes "update_chain_tip_with_delegation_bond a l c = ok c'"
  shows "chain_ledger c' = ledger_step a (chain_ledger c)"
proof (cases "sa_kind a")
  case CreateNewDelegationBond
  then obtain m where m: "amount_try_from_u64 NonNegative (amount_zats a) = ok m"
    "c' = set_bond (arg32_0 a) \<lparr>bond_amount = m, target_finalizer = arg32_2 a, created_at = l\<rparr> ChainActive c"
    using assms by (auto simp: update_chain_tip_with_delegation_bond_def Let_def bind_ok_iff)
  then show ?thesis using CreateNewDelegationBond try_from_u64_ok [OF m(1)] by (simp add: ledger_step_def)
next
  case BeginDelegationUnbonding
  then obtain b s nb nu where "map_of (delegation_bonds c) (arg32_0 a) = Some (b, s)"
    "c' = set_unbonded nu (set_bonded nb (set_bond (arg32_0 a) (b\<lparr>created_at := l\<rparr>) ChainUnbonding c))"
    using assms by (auto simp: update_chain_tip_with_delegation_bond_def Let_def bind_ok_iff tryr_ok_iff)
  then show ?thesis using BeginDelegationUnbonding by (simp add: ledger_step_def ledger_change_def chain_ledger_def)
next
  case WithdrawDelegationBond
  then obtain b s where "map_of (delegation_bonds c) (arg32_0 a) = Some (b, s)"
    "c' = set_bond (arg32_0 a) (b\<lparr>created_at := l\<rparr>) ChainWithdrawn c"
    using assms by (auto simp: update_chain_tip_with_delegation_bond_def Let_def bind_ok_iff)
  then show ?thesis using WithdrawDelegationBond by (simp add: ledger_step_def ledger_change_def chain_ledger_def)
next
  case RetargetDelegationBond
  then obtain b s r where "map_of (delegation_bonds c) (arg32_0 a) = Some (b, s)"
    "c' = set_bond (arg32_0 a) (b\<lparr>target_finalizer := arg32_2 a\<rparr>) s (c\<lparr>bond_retargets := r\<rparr>)"
    using assms by (auto simp: update_chain_tip_with_delegation_bond_def Let_def bind_ok_iff)
  then show ?thesis using RetargetDelegationBond by (simp add: ledger_step_def ledger_change_def chain_ledger_def)
qed (use assms in \<open>simp_all add: update_chain_tip_with_delegation_bond_def ledger_step_def\<close>)

interpretation chain_store: bond_store chain_ledger "\<lambda>_. True" chain_act
  by unfold_locales (simp_all add: chain_act_def chain_act_view)

section \<open>The database as a store\<close>

definition db_ledger :: "ZebraDb \<Rightarrow> ledger" where
  "db_ledger db k = do {
     b \<leftarrow> delegation_bond db k;
     s \<leftarrow> bond_status db k;
     Some (bond_amount b, target_finalizer b, chain_status s) }"

text \<open>
  While the batch of a block is prepared, the bonds written so far are those in the map of the block,
  on top of the database before the block.
\<close>

definition block_consistent :: "ZebraDb \<Rightarrow> block_bonds \<times> ZebraDb \<Rightarrow> bool" where
  "block_consistent db s \<longleftrightarrow> (\<forall>k. delegation_bond (snd s) k = block_or_db_bond db (fst s) k \<and>
     (bond_status db k \<noteq> None \<longrightarrow> bond_status (snd s) k \<noteq> None))"

definition db_act ::
  "ZebraDb \<Rightarrow> StakingAction \<Rightarrow> TransactionLocation \<Rightarrow> block_bonds \<times> ZebraDb \<Rightarrow> (block_bonds \<times> ZebraDb) option" where
  "db_act db a l s = do {
     (created, ws) \<leftarrow> result_value (prepare_staking_action db a l (fst s));
     d \<leftarrow> write_batch ws (snd s);
     Some (created, d) }"

lemma db_reads [simp]:
  "delegation_bond (d\<lparr>bond_status_by_key := m\<rparr>) k = delegation_bond d k"
  "delegation_bond (d\<lparr>delegation_bond_by_key := n\<rparr>) k = Mapping.lookup n k"
  "bond_status (d\<lparr>delegation_bond_by_key := n\<rparr>) k = bond_status d k"
  "bond_status (d\<lparr>bond_status_by_key := m\<rparr>) k = Mapping.lookup m k"
  by (simp_all add: delegation_bond_def bond_status_def)

lemma lookup_columns: "Mapping.lookup (delegation_bond_by_key d) = delegation_bond d"
    "Mapping.lookup (bond_status_by_key d) = bond_status d"
  by (simp_all add: fun_eq_iff delegation_bond_def bond_status_def)

lemma chain_status_simps [simp]:
  "chain_status Active = ChainActive" "chain_status (Unbonding l) = ChainUnbonding"
  "chain_status (Withdrawn l) = ChainWithdrawn"
  by (simp_all add: chain_status_def)

lemma block_or_db_update [simp]:
  "block_or_db_bond db (Mapping.update k b m) k' = (if k' = k then Some b else block_or_db_bond db m k')"
  by (simp add: block_or_db_bond_def lookup_update' or_else_def)

lemma status_change:
  assumes "bond_status d k \<noteq> None"
  shows "db_ledger (d\<lparr>bond_status_by_key := Mapping.update k st (bond_status_by_key d)\<rparr>) =
    ledger_change (\<lambda>(v, t, s). (v, t, chain_status st)) k (db_ledger d)"
  using assms by (auto simp: db_ledger_def ledger_change_def fun_eq_iff lookup_update' lookup_columns split: bind_splits)

lemma bond_change:
  assumes "delegation_bond d k = Some b" "\<And>s. f (bond_amount b, target_finalizer b, s) = (bond_amount b', target_finalizer b', s)"
  shows "db_ledger (d\<lparr>delegation_bond_by_key := Mapping.update k b' (delegation_bond_by_key d)\<rparr>) = ledger_change f k (db_ledger d)"
proof
  fix k'
  show "db_ledger (d\<lparr>delegation_bond_by_key := Mapping.update k b' (delegation_bond_by_key d)\<rparr>) k' = ledger_change f k (db_ledger d) k'"
    using assms by (cases "bond_status d k") (auto simp: db_ledger_def ledger_change_def lookup_update' lookup_columns)
qed

lemma db_act_view:
  assumes "block_consistent db s" "db_act db a l s = Some s'"
  shows "db_ledger (snd s') = ledger_step a (db_ledger (snd s)) \<and> block_consistent db s'"
proof -
  obtain created d where s: "s = (created, d)" by (cases s)
  have cons: "delegation_bond d k = block_or_db_bond db created k"
    "bond_status db k \<noteq> None \<Longrightarrow> bond_status d k \<noteq> None" for k
    using assms(1) s by (simp_all add: block_consistent_def)
  obtain created' ws d' where p: "prepare_staking_action db a l created = ok (created', ws)" "write_batch ws d = Some d'"
    "s' = (created', d')"
    using assms(2) s by (auto simp: db_act_def bind_eq_Some_conv)
  show ?thesis
  proof (cases "sa_kind a")
    case CreateNewDelegationBond
    then obtain m where m: "amount_try_from_u64 NonNegative (amount_zats a) = ok m"
      using p(1) by (auto simp: prepare_staking_action_def Let_def tryr_ok_iff)
    let ?b = "\<lparr>bond_amount = m, target_finalizer = arg32_2 a, created_at = l\<rparr>"
    have "created' = Mapping.update (arg32_0 a) ?b created"
      "d' = d\<lparr>delegation_bond_by_key := Mapping.update (arg32_0 a) ?b (delegation_bond_by_key d),
        bond_status_by_key := Mapping.update (arg32_0 a) Active (bond_status_by_key d)\<rparr>"
      using CreateNewDelegationBond m p(1,2) by (auto simp: prepare_staking_action_def Let_def prepare_new_delegation_bond_def)
    with p(3) s CreateNewDelegationBond try_from_u64_ok [OF m] cons show ?thesis
      by (auto simp: ledger_step_def db_ledger_def fun_eq_iff block_consistent_def lookup_update' lookup_columns)
  next
    case BeginDelegationUnbonding
    then obtain st where "bond_status db (arg32_0 a) = Some st" "created' = created" "ws = [PutBondStatus (arg32_0 a) (Unbonding l)]"
      using p(1) by (auto simp: prepare_staking_action_def prepare_unbonding_delegation_bond_def tryr_ok_iff Let_def
          split: option.splits if_splits)
    with p(2,3) s BeginDelegationUnbonding cons show ?thesis
      by (force simp: ledger_step_def status_change block_consistent_def lookup_update' lookup_columns)
  next
    case WithdrawDelegationBond
    then obtain st where "bond_status db (arg32_0 a) = Some st" "created' = created" "ws = [PutBondStatus (arg32_0 a) (Withdrawn l)]"
      using p(1) by (auto simp: prepare_staking_action_def prepare_withdrawn_delegation_bond_def tryr_ok_iff Let_def
          split: option.splits if_splits)
    with p(2,3) s WithdrawDelegationBond cons show ?thesis
      by (force simp: ledger_step_def status_change block_consistent_def lookup_update' lookup_columns)
  next
    case RetargetDelegationBond
    then obtain b where b: "block_or_db_bond db created (arg32_0 a) = Some b"
      "created' = Mapping.update (arg32_0 a) (b\<lparr>target_finalizer := arg32_2 a\<rparr>) created"
      "ws = [PutBond (arg32_0 a) (b\<lparr>target_finalizer := arg32_2 a\<rparr>)]"
      using p(1) by (auto simp: prepare_staking_action_def prepare_retarget_delegation_bond_def tryr_ok_iff Let_def
          split: option.splits)
    have "db_ledger (snd s') = ledger_step a (db_ledger (snd s))"
      using p(2,3) s b cons(1) RetargetDelegationBond
        bond_change [of d "arg32_0 a" b "\<lambda>(v, t, s). (v, arg32_2 a, s)" "b\<lparr>target_finalizer := arg32_2 a\<rparr>"]
      by (auto simp: ledger_step_def)
    moreover have "block_consistent db s'"
      using p(2,3) s b cons by (auto simp: block_consistent_def lookup_update' lookup_columns)
    ultimately show ?thesis by blast
  qed (use p s cons in \<open>auto simp: prepare_staking_action_def ledger_step_def block_consistent_def\<close>)
qed

interpretation db_store: bond_store "\<lambda>s. db_ledger (snd s)" "block_consistent db" "db_act db" for db
  by unfold_locales (blast dest: db_act_view)+


section \<open>The actions of a block\<close>

lemma ledger_status:
  assumes "db_ledger db = chain_ledger c" "map_of (delegation_bonds c) k = Some (b, s)"
  shows "\<exists>st. bond_status db k = Some st \<and> chain_status st = s"
proof -
  have "db_ledger db k = Some (bond_amount b, target_finalizer b, s)" using assms by (simp add: chain_ledger_def)
  then show ?thesis by (auto simp: db_ledger_def bind_eq_Some_conv)
qed

lemma ledger_bond:
  assumes "db_ledger db = chain_ledger c"
  shows "map_of (delegation_bonds c) k \<noteq> None \<longleftrightarrow> delegation_bond db k \<noteq> None \<and> bond_status db k \<noteq> None"
proof -
  have "chain_ledger c k \<noteq> None \<longleftrightarrow> db_ledger db k \<noteq> None" using assms by simp
  then show ?thesis by (auto simp: chain_ledger_def db_ledger_def bind_eq_Some_conv)
qed

lemma chain_status_eq [simp]:
  "chain_status st = ChainActive \<longleftrightarrow> is_active st" "chain_status st = ChainUnbonding \<longleftrightarrow> is_unbonding st"
  by (cases st; simp)+

lemma validated_unbond:
  assumes "validate_staking_action h c0 db a (nb, ub) = ok seen" "sa_kind a = BeginDelegationUnbonding"
    "arg32_0 a \<notin> new_keys nb" "db_ledger db = chain_ledger c0"
  shows "\<exists>st. bond_status db (arg32_0 a) = Some st \<and> is_active st"
proof (cases "map_of (delegation_bonds c0) (arg32_0 a)")
  case None
  then show ?thesis
    using assms by (auto simp: validate_staking_action_def validate_bond_for_unbonding_def tryr_ok_iff Let_def
        is_bond_active_def split: if_splits option.splits)
next
  case (Some v)
  then obtain b where "map_of (delegation_bonds c0) (arg32_0 a) = Some (b, ChainActive)"
    using validate_unbond [OF assms(1,2)] assms(3) by auto
  from ledger_status [OF assms(4) this] show ?thesis by simp
qed

lemma action_accepted:
  assumes "validate_staking_action h c0 db a seen = ok seen'" "update_chain_tip_with_delegation_bond a l' c = ok c'"
    "db_ledger db = chain_ledger c0" "db_ledger d = chain_ledger c" "block_consistent db (created, d)"
    "sa_kind a = BeginDelegationUnbonding \<Longrightarrow> arg32_0 a \<notin> new_keys (fst seen)"
  shows "\<exists>s'. db_act db a l (created, d) = Some s'"
proof -
  obtain nb ub where seen: "seen = (nb, ub)" by (cases seen)
  show ?thesis
  proof (cases "sa_kind a")
    case CreateNewDelegationBond
    then obtain m where "amount_try_from_u64 NonNegative (amount_zats a) = ok m"
      using assms(2) by (auto simp: update_chain_tip_with_delegation_bond_def Let_def bind_ok_iff)
    with CreateNewDelegationBond show ?thesis
      by (simp add: db_act_def prepare_staking_action_def Let_def prepare_new_delegation_bond_def result_value_def ok_def)
  next
    case BeginDelegationUnbonding
    then show ?thesis
      using validated_unbond [OF assms(1) [unfolded seen]] assms(3,6) seen
      by (auto simp: db_act_def prepare_staking_action_def Let_def prepare_unbonding_delegation_bond_def result_value_def ok_def)
  next
    case WithdrawDelegationBond
    then obtain b where "map_of (delegation_bonds c0) (arg32_0 a) = Some (b, ChainUnbonding)"
      using validate_withdraw [OF assms(1) [unfolded seen]] by blast
    from ledger_status [OF assms(3) this] WithdrawDelegationBond show ?thesis
      by (auto simp: db_act_def prepare_staking_action_def Let_def prepare_withdrawn_delegation_bond_def result_value_def ok_def)
  next
    case RetargetDelegationBond
    then have "map_of (delegation_bonds c) (arg32_0 a) \<noteq> None"
      using assms(2) by (auto simp: update_chain_tip_with_delegation_bond_def Let_def bind_ok_iff)
    then have "delegation_bond d (arg32_0 a) \<noteq> None" using ledger_bond [OF assms(4)] by blast
    then obtain b where "block_or_db_bond db created (arg32_0 a) = Some b"
      using assms(5) by (auto simp: block_consistent_def)
    with RetargetDelegationBond show ?thesis
      by (simp add: db_act_def prepare_staking_action_def Let_def prepare_retarget_delegation_bond_def result_value_def ok_def)
  qed (simp_all add: db_act_def prepare_staking_action_def result_value_def ok_def)
qed



definition keys_of :: "StakingActionKind \<Rightarrow> Transaction list \<Rightarrow> BondKey set" where
  "keys_of kind txs = arg32_0 ` {a \<in> set (actions_of txs). sa_kind a = kind}"

lemma keys_of_simps [simp]:
  "keys_of kind [] = {}"
  "keys_of kind (tx # txs) = (case staking_action tx of None \<Rightarrow> {} | Some a \<Rightarrow> if sa_kind a = kind then {arg32_0 a} else {}) \<union> keys_of kind txs"
  by (auto simp: keys_of_def split: option.splits)

lemma new_keys_step:
  assumes "validate_staking_action h c0 db a seen = ok seen'"
  shows "new_keys (fst seen') = new_keys (fst seen) \<union> (if sa_kind a = CreateNewDelegationBond then {arg32_0 a} else {})"
proof -
  obtain nb ub where seen: "seen = (nb, ub)" by (cases seen)
  show ?thesis
    using validate_create [OF assms [unfolded seen]] validate_unbond [OF assms [unfolded seen]]
      validate_withdraw [OF assms [unfolded seen]] validate_other [OF assms] seen
    by (cases "sa_kind a") auto
qed

lemma update_transaction_location:
  "update_transaction b i tx h c = ok c' \<Longrightarrow> \<exists>l. TransactionLocation_from_usize (cv_height b) i = Some l"
  by (auto simp: update_transaction_def bind_ok_iff)

lemma chain_ledger_same: "same_bonds c c' \<Longrightarrow> chain_ledger c' = chain_ledger c"
  by (simp add: same_bonds_def chain_ledger_def fun_eq_iff)

lemma write_batch_append: "write_batch (xs @ ys) d = Option.bind (write_batch xs d) (write_batch ys)"
proof (induction xs arbitrary: d)
  case (Cons w xs)
  then show ?case by (cases "apply_write w d") simp_all
qed simp

text \<open>
  The batch of the staking actions is prepared without an error, and brings the database to the ledger of
  the chain, unless a bond of the block is unbonded in it.
\<close>

lemma bonds_loop_refines:
  assumes "db_ledger db = chain_ledger c0" "db_ledger d = chain_ledger c" "block_consistent db (created, d)"
    "update_transactions b i (zip txs hs) c = ok c'" "length hs = length txs"
    "validate_loop (cv_height b) c0 db txs seen = ok seen'"
    "keys_of BeginDelegationUnbonding txs \<inter> (new_keys (fst seen) \<union> keys_of CreateNewDelegationBond txs) = {}"
  shows "\<exists>created' ws d'. prepare_bonds_loop db (cv_height b) i txs created = ok (created', ws) \<and>
    write_batch ws d = Some d' \<and> block_consistent db (created', d') \<and> db_ledger d' = chain_ledger c'"
  using assms(2-)
proof (induction txs arbitrary: hs seen c i created d)
  case (Cons tx txs)
  obtain hh hs' where hs: "hs = hh # hs'" using Cons.prems(4) by (cases hs) auto
  obtain c1 where c1: "update_transaction b i tx hh c = ok c1" "update_transactions b (Suc i) (zip txs hs') c1 = ok c'"
    using Cons.prems(3) hs by (auto simp: tryr_ok_iff)
  obtain l where l: "TransactionLocation_from_usize (cv_height b) i = Some l" using update_transaction_location [OF c1(1)] by blast
  obtain e1 e2 l' where e: "same_bonds c e1" "same_bonds e2 c1" "case staking_action tx of None \<Rightarrow> e2 = e1
      | Some a \<Rightarrow> update_chain_tip_with_delegation_bond a l' e1 = ok e2"
    using update_transaction_bonds [OF c1(1)] by blast
  have d1: "db_ledger d = chain_ledger e1" using Cons.prems(1) chain_ledger_same [OF e(1)] by simp
  show ?case
  proof (cases "staking_action tx")
    case None
    then have "db_ledger d = chain_ledger c1" using d1 e(2,3) chain_ledger_same by auto
    from Cons.IH [OF this Cons.prems(2) c1(2)] Cons.prems(4-) None hs show ?thesis by simp
  next
    case (Some a)
    then obtain s1 where s1: "validate_staking_action (cv_height b) c0 db a seen = ok s1" "validate_loop (cv_height b) c0 db txs s1 = ok seen'"
      using Cons.prems(5) by (auto simp: tryr_ok_iff)
    have step: "update_chain_tip_with_delegation_bond a l' e1 = ok e2" using e(3) Some by simp
    have "arg32_0 a \<notin> new_keys (fst seen)" if "sa_kind a = BeginDelegationUnbonding"
      using Cons.prems(6) Some that by auto
    then obtain s' where s': "db_act db a l (created, d) = Some s'"
      using action_accepted [OF s1(1) step assms(1) d1 Cons.prems(2)] by blast
    obtain created1 ws1 d1' where w: "prepare_staking_action db a l created = ok (created1, ws1)" "write_batch ws1 d = Some d1'"
      "s' = (created1, d1')"
      using s' by (auto simp: db_act_def bind_eq_Some_conv)
    note v = db_act_view [OF Cons.prems(2) s', unfolded w(3)]
    have "db_ledger d1' = chain_ledger c1"
      using v d1 chain_act_view [OF step] chain_ledger_same [OF e(2)] by simp
    moreover have "block_consistent db (created1, d1')" using v by simp
    moreover have "keys_of BeginDelegationUnbonding txs \<inter> (new_keys (fst s1) \<union> keys_of CreateNewDelegationBond txs) = {}"
      using Cons.prems(6) new_keys_step [OF s1(1)] Some by (auto split: if_splits)
    moreover have "length hs' = length txs" using Cons.prems(4) hs by simp
    ultimately obtain created' ws d' where r: "prepare_bonds_loop db (cv_height b) (Suc i) txs created1 = ok (created', ws)"
      "write_batch ws d1' = Some d'" "block_consistent db (created', d')" "db_ledger d' = chain_ledger c'"
      using Cons.IH [OF _ _ c1(2) _ s1(2)] by blast
    have "prepare_bonds_loop db (cv_height b) i (tx # txs) created = ok (created', ws1 @ ws)"
      using Some l w(1) r(1) by simp
    with r w(2) show ?thesis by (auto simp: write_batch_append)
  qed
qed simp


section \<open>Rewards\<close>

text \<open>A reward that can be added to the bond of its key.\<close>

definition reward_fits :: "ledger \<Rightarrow> BondKey \<times> u64 \<Rightarrow> bool" where
  "reward_fits L r \<longleftrightarrow> (\<exists>v t s. L (fst r) = Some (v, t, s) \<and> s = ChainActive \<and> amount_ok NonNegative (sint (snd r)) \<and>
     amount_add NonNegative v (sint (snd r)) = ok (v + sint (snd r)))"

definition bonds_ledger :: "bonds \<Rightarrow> ledger" where
  "bonds_ledger bs k = map_option (\<lambda>(b, s). (bond_amount b, target_finalizer b, s)) (map_of bs k)"

lemma chain_ledger_bonds: "chain_ledger c = bonds_ledger (delegation_bonds c)"
  by (simp add: chain_ledger_def bonds_ledger_def fun_eq_iff)

lemma add_reward_ok:
  assumes "add_reward b r = Some b'"
  shows "bond_amount b' = bond_amount b + sint r \<and> target_finalizer b' = target_finalizer b \<and>
    amount_ok NonNegative (sint r) \<and> amount_add NonNegative (bond_amount b) (sint r) = ok (bond_amount b + sint r)"
proof -
  obtain v where v: "0 \<le> sint r" "sint r \<le> MAX_MONEY" "amount_add NonNegative (bond_amount b) (sint r) = ok v"
    "b' = b\<lparr>bond_amount := v\<rparr>"
    using assms by (auto simp: add_reward_def amount_new_def bind_eq_Some_conv)
  then show ?thesis using amount_add_okD [OF v(3)] by (simp add: amount_ok_simps)
qed

lemma reward_loop_ledger:
  assumes "reward_loop m t bs f = Some (bs', f', store)" "distinct (map fst bs)"
  shows "map fst bs' = map fst bs \<and> distinct (map fst store) \<and> fst ` set store \<subseteq> fst ` set bs - {m} \<and>
    bonds_ledger bs' = ledger_rewards store (bonds_ledger bs) \<and> (\<forall>r \<in> set store. reward_fits (bonds_ledger bs) r)"
  using assms
proof (induction bs arbitrary: f f' bs' store)
  case Nil
  then show ?case by (simp add: bonds_ledger_def ledger_rewards_def fun_eq_iff)
next
  case (Cons x bs)
  obtain k b s where x: "x = (k, (b, s))" by (cases x) auto
  have k: "k \<notin> fst ` set bs" "distinct (map fst bs)" using Cons.prems(2) x by simp_all
  show ?case
  proof (cases "s = ChainActive \<and> k \<noteq> m")
    case True
    then obtain r f1 b1 rest store1 where l: "add_reward b r = Some b1" "reward_loop m t bs f1 = Some (rest, f', store1)"
      "bs' = (k, (b1, s)) # rest" "store = (k, r) # store1"
      using Cons.prems(1) x by (auto simp: bind_eq_Some_conv)
    note ih = Cons.IH [OF l(2) k(2)] and ar = add_reward_ok [OF l(1)]
    have k1: "map_of store1 k = None" using ih k(1) by (auto simp: map_of_eq_None_iff)
    have "bonds_ledger bs' = ledger_rewards store (bonds_ledger (x # bs))"
    proof
      fix k'
      show "bonds_ledger bs' k' = ledger_rewards store (bonds_ledger (x # bs)) k'"
        using ih ar k1 by (auto simp: l x bonds_ledger_def ledger_rewards_def fun_eq_iff split: option.splits)
    qed
    moreover have "reward_fits (bonds_ledger (x # bs)) q" if "q \<in> set store" for q
    proof (cases "q = (k, r)")
      case False
      with that l(4) have "reward_fits (bonds_ledger bs) q" "fst q \<noteq> k" using ih k(1) by auto
      then show ?thesis by (simp add: reward_fits_def bonds_ledger_def x)
    qed (use ar True in \<open>simp add: reward_fits_def bonds_ledger_def x\<close>)
    ultimately show ?thesis using ih l(3,4) x k(1) True by auto
  next
    case False
    then obtain rest where l: "reward_loop m t bs f = Some (rest, f', store)" "bs' = x # rest"
      using Cons.prems(1) x by (auto simp: bind_eq_Some_conv)
    note ih = Cons.IH [OF l(1) k(2)]
    have k1: "map_of store k = None" using ih k(1) by (auto simp: map_of_eq_None_iff)
    have "bonds_ledger bs' = ledger_rewards store (bonds_ledger (x # bs))"
    proof
      fix k'
      show "bonds_ledger bs' k' = ledger_rewards store (bonds_ledger (x # bs)) k'"
        using ih k1 by (auto simp: l x bonds_ledger_def ledger_rewards_def fun_eq_iff split: option.splits)
    qed
    moreover have "reward_fits (bonds_ledger (x # bs)) q" if "q \<in> set store" for q
    proof -
      have "reward_fits (bonds_ledger bs) q" "fst q \<noteq> k" using that ih k(1) by auto
      then show ?thesis by (simp add: reward_fits_def bonds_ledger_def x)
    qed
    ultimately show ?thesis using ih l(2) x k(1) by auto
  qed
qed


lemma max_staker_loop_key:
  "max_staker_loop bs (k, x, y) = Some (m, x', y') \<Longrightarrow> m = k \<or> m \<in> fst ` set bs"
proof (induction bs arbitrary: k x y)
  case (Cons p bs)
  obtain k' b s where p: "p = (k', (b, s))" by (cases p) auto
  show ?case
    using Cons.prems Cons.IH p by (fastforce simp: bind_eq_Some_conv split: if_splits)
qed simp

lemma find_max_staker_active:
  assumes "find_max_staker bs = Some (m, t)" "distinct (map fst bs)"
  shows "\<exists>b. map_of bs m = Some (b, ChainActive)"
proof -
  let ?as = "filter (\<lambda>(_, (_, status)). status = ChainActive) bs"
  obtain k b s rest where f: "?as = (k, (b, s)) # rest"
    using assms(1) by (cases ?as) (auto simp: find_max_staker_def)
  then have "m = k \<or> m \<in> fst ` set rest"
    using assms(1) by (auto simp: find_max_staker_def bind_eq_Some_conv dest: max_staker_loop_key)
  then have "m \<in> fst ` set ?as" using f by auto
  then obtain b' where "(m, (b', ChainActive)) \<in> set bs" by auto
  then show ?thesis using assms(2) by auto
qed

text \<open>
  The rewards that the chain stores for a block are those that it adds to its bonds; they go to active
  bonds, each bond at most once, and their total goes to the bonded pool.
\<close>

lemma distribute_rewards_ledger:
  assumes "distribute_rewards c = Some c'" "distinct (map fst (delegation_bonds c))"
  defines "rewards \<equiv> last (bond_rewards c')"
  shows "chain_ledger c' = ledger_rewards rewards (chain_ledger c)" "distinct (map fst rewards)"
    "\<And>r. r \<in> set rewards \<Longrightarrow> reward_fits (chain_ledger c) r"
proof -
  let ?bs = "delegation_bonds c"
  have "chain_ledger c' = ledger_rewards rewards (chain_ledger c) \<and> distinct (map fst rewards) \<and>
    (\<forall>r \<in> set rewards. reward_fits (chain_ledger c) r)"
  proof (cases "list_all (\<lambda>(_, (_, status)). status \<noteq> ChainActive) ?bs")
    case True
    then have "c' = c\<lparr>bond_rewards := bond_rewards c @ [[]]\<rparr>" using assms(1) by (simp add: distribute_rewards_def)
    then show ?thesis by (simp add: rewards_def ledger_rewards_def chain_ledger_def fun_eq_iff)
  next
    case False
    obtain m t bs' f store b s rw b' nb where d: "find_max_staker ?bs = Some (m, t)"
      "reward_loop m t ?bs 0 = Some (bs', f, store)" "map_of bs' m = Some (b, s)" "add_reward b rw = Some b'"
      "delegation_bonds c' = AList.update m (b', s) bs'" "bond_rewards c' = bond_rewards c @ [store @ [(m, rw)]]"
      using assms(1) False
      by (auto simp: distribute_rewards_def bind_eq_Some_conv Let_def set_bonded_def)
    note l = reward_loop_ledger [OF d(2) assms(2)] and ar = add_reward_ok [OF d(4)]
    have rewards: "rewards = store @ [(m, rw)]" by (simp add: rewards_def d(6))
    have m: "map_of store m = None" using l by (auto simp: map_of_eq_None_iff)
    have bm: "bonds_ledger ?bs m = Some (bond_amount b, target_finalizer b, s)"
    proof -
      have "bonds_ledger bs' m = Some (bond_amount b, target_finalizer b, s)" using d(3) by (simp add: bonds_ledger_def)
      then show ?thesis using l m by (simp add: ledger_rewards_def)
    qed
    obtain b0 where "map_of ?bs m = Some (b0, ChainActive)" using find_max_staker_active [OF d(1) assms(2)] by blast
    then have s: "s = ChainActive" using bm by (simp add: bonds_ledger_def)
    have "chain_ledger c' = ledger_rewards rewards (bonds_ledger ?bs)"
    proof
      fix k
      have "map_of (store @ [(m, rw)]) k = (if k = m then Some rw else map_of store k)" using m by (auto simp: map_add_def split: option.splits)
      moreover have "chain_ledger c' k = (if k = m then Some (bond_amount b', target_finalizer b', s) else bonds_ledger bs' k)"
        by (simp add: chain_ledger_bonds d(5) bonds_ledger_def update_conv')
      ultimately show "chain_ledger c' k = ledger_rewards rewards (bonds_ledger ?bs) k"
        using l bm ar by (simp add: rewards ledger_rewards_def)
    qed
    moreover have "reward_fits (bonds_ledger ?bs) (m, rw)" using bm ar s by (simp add: reward_fits_def)
    moreover have "m \<notin> fst ` set store" using l by blast
    ultimately show ?thesis using l by (auto simp: chain_ledger_bonds rewards)
  qed
  then show "chain_ledger c' = ledger_rewards rewards (chain_ledger c)" "distinct (map fst rewards)"
    "\<And>r. r \<in> set rewards \<Longrightarrow> reward_fits (chain_ledger c) r" by blast+
qed

text \<open>The database adds the same rewards.\<close>

lemma rewards_loop_refines:
  assumes "distinct (map fst rewards)" "\<And>r. r \<in> set rewards \<Longrightarrow> reward_fits (db_ledger d) r"
    "\<And>r. r \<in> set rewards \<Longrightarrow> delegation_bond d (fst r) = block_or_db_bond db created (fst r)"
  shows "\<exists>ws d'. prepare_rewards_loop db created rewards = ok ws \<and> write_batch ws d = Some d' \<and>
    db_ledger d' = ledger_rewards rewards (db_ledger d)"
  using assms
proof (induction rewards arbitrary: d)
  case Nil
  then show ?case by (simp add: ledger_rewards_def fun_eq_iff)
next
  case (Cons x rewards)
  obtain k r where x: "x = (k, r)" by (cases x)
  obtain v t s where f: "db_ledger d k = Some (v, t, s)" "amount_ok NonNegative (sint r)"
    "amount_add NonNegative v (sint r) = ok (v + sint r)"
    using Cons.prems(2) [of x] x by (auto simp: reward_fits_def)
  then obtain b where b: "delegation_bond d k = Some b" "bond_amount b = v"
    by (auto simp: db_ledger_def bind_eq_Some_conv)
  let ?b = "b\<lparr>bond_amount := v + sint r\<rparr>"
  let ?d = "d\<lparr>delegation_bond_by_key := Mapping.update k ?b (delegation_bond_by_key d)\<rparr>"
  have led: "db_ledger ?d = ledger_change (\<lambda>(v, t, s). (v + sint r, t, s)) k (db_ledger d)"
    using b by (intro bond_change) simp_all
  have k: "k \<notin> fst ` set rewards" using Cons.prems(1) x by simp
  have "\<exists>ws d'. prepare_rewards_loop db created rewards = ok ws \<and> write_batch ws ?d = Some d' \<and>
      db_ledger d' = ledger_rewards rewards (db_ledger ?d)"
  proof (rule Cons.IH)
    show "distinct (map fst rewards)" using Cons.prems(1) by simp
    show "reward_fits (db_ledger ?d) q" if "q \<in> set rewards" for q
    proof -
      have "fst q \<noteq> k" using that k by auto
      then show ?thesis using Cons.prems(2) [of q] that by (simp add: led reward_fits_def ledger_change_def)
    qed
    show "delegation_bond ?d (fst q) = block_or_db_bond db created (fst q)" if "q \<in> set rewards" for q
    proof -
      have "fst q \<noteq> k" using that k by auto
      then show ?thesis using Cons.prems(3) [of q] that by (simp add: lookup_update' lookup_columns)
    qed
  qed
  then obtain ws d' where w: "prepare_rewards_loop db created rewards = ok ws" "write_batch ws ?d = Some d'"
    "db_ledger d' = ledger_rewards rewards (db_ledger ?d)" by blast
  have "block_or_db_bond db created k = Some b" using Cons.prems(3) [of x] x b(1) by simp
  then have "prepare_rewards_loop db created (x # rewards) = ok (PutBond k ?b # ws)"
    using f(2,3) b(2) w(1) x by (simp add: validate_eq)
  moreover have "write_batch (PutBond k ?b # ws) d = Some d'" using w(2) by simp
  moreover have "db_ledger d' = ledger_rewards (x # rewards) (db_ledger d)"
  proof
    fix k'
    have "map_of rewards k = None" using k by (simp add: map_of_eq_None_iff)
    then show "db_ledger d' k' = ledger_rewards (x # rewards) (db_ledger d) k'"
      by (cases "k' = k") (simp_all add: w(3) led ledger_rewards_def ledger_change_def x split: option.split)
  qed
  ultimately show ?case by blast
qed


section \<open>Value pools\<close>

text \<open>A bond that is not active keeps its amount.\<close>

definition persists :: "ledger \<Rightarrow> ledger \<Rightarrow> bool" where
  "persists L L' \<longleftrightarrow> (\<forall>k v t s. L k = Some (v, t, s) \<and> s \<noteq> ChainActive \<longrightarrow>
     (\<exists>t' s'. L' k = Some (v, t', s') \<and> s' \<noteq> ChainActive))"

lemma persists_refl [simp]: "persists L L"
  by (auto simp: persists_def)

lemma persists_trans [trans]: "persists L M \<Longrightarrow> persists M N \<Longrightarrow> persists L N"
  by (fastforce simp: persists_def)

lemma persists_rewards: "(\<And>r. r \<in> set rewards \<Longrightarrow> reward_fits L r) \<Longrightarrow> persists L (ledger_rewards rewards L)"
  by (fastforce simp: persists_def ledger_rewards_def reward_fits_def split: option.splits dest: map_of_SomeD)

lemma persists_step:
  assumes "update_chain_tip_with_delegation_bond a l c = ok c'"
  shows "persists (chain_ledger c) (chain_ledger c')"
proof -
  have "chain_ledger c (arg32_0 a) = None" if "sa_kind a = CreateNewDelegationBond"
    using assms that
    by (auto simp: update_chain_tip_with_delegation_bond_def Let_def bind_ok_iff chain_ledger_def)
  then show ?thesis
    unfolding chain_act_view [OF assms]
    by (cases "sa_kind a") (auto simp: persists_def ledger_step_def ledger_change_def)
qed

definition amounts_ok :: "ledger \<Rightarrow> bool" where
  "amounts_ok L \<longleftrightarrow> (\<forall>k v t s. L k = Some (v, t, s) \<longrightarrow> amount_ok NonNegative v)"

lemma amounts_ok_chain: "bonds_ok (delegation_bonds c) \<Longrightarrow> amounts_ok (chain_ledger c)"
  by (auto simp: amounts_ok_def chain_ledger_def dest: bonds_ok_amount)

lemma amounts_ok_step:
  assumes "update_chain_tip_with_delegation_bond a l c = ok c'" "amounts_ok (chain_ledger c)"
  shows "amounts_ok (chain_ledger c')"
proof -
  have "amount_ok NonNegative (uint (amount_zats a))" if "sa_kind a = CreateNewDelegationBond"
    using assms(1) that try_from_u64_ok
    by (fastforce simp: update_chain_tip_with_delegation_bond_def Let_def bind_ok_iff)
  with assms(2) show ?thesis
    unfolding chain_act_view [OF assms(1)]
    by (cases "sa_kind a") (auto simp: amounts_ok_def ledger_step_def ledger_change_def)
qed

definition move_pools :: "int \<Rightarrow> ValueBalance \<Rightarrow> ValueBalance" where
  "move_pools x p = p\<lparr>staking_bonded := staking_bonded p - x, staking_unbonded := staking_unbonded p + x\<rparr>"

lemma move_pools_simps [simp]: "move_pools 0 p = p" "move_pools x (move_pools y p) = move_pools (x + y) p"
  by (simp_all add: move_pools_def)

lemma amount_sub_okD: "amount_sub c a b = ok r \<Longrightarrow> r = a - b \<and> amount_ok c r"
  by (auto simp: amount_sub_def i64_checked_def bind_ok_iff split: if_splits)

lemma pools_step:
  assumes "update_chain_tip_with_delegation_bond a l c = ok c'"
  shows "if sa_kind a = BeginDelegationUnbonding
    then \<exists>v t. chain_ledger c' (arg32_0 a) = Some (v, t, ChainUnbonding) \<and> (\<exists>s. chain_ledger c (arg32_0 a) = Some (v, t, s)) \<and>
      chain_value_pools c' = move_pools v (chain_value_pools c)
    else chain_value_pools c' = chain_value_pools c"
proof (cases "sa_kind a = BeginDelegationUnbonding")
  case True
  then obtain b s nb nu where b: "map_of (delegation_bonds c) (arg32_0 a) = Some (b, s)"
    "amount_sub NonNegative (bonded c) (bond_amount b) = ok nb" "amount_add NonNegative (unbonded c) (bond_amount b) = ok nu"
    "c' = set_unbonded nu (set_bonded nb (set_bond (arg32_0 a) (b\<lparr>created_at := l\<rparr>) ChainUnbonding c))"
    using assms by (auto simp: update_chain_tip_with_delegation_bond_def Let_def bind_ok_iff tryr_ok_iff)
  have "chain_value_pools c' = move_pools (bond_amount b) (chain_value_pools c)"
    using amount_sub_okD [OF b(2)] amount_add_okD [OF b(3)]
    by (simp add: b(4) set_unbonded_def set_bonded_def set_bond_def move_pools_def)
  then show ?thesis using True b(1) by (simp add: b(4)) (simp add: chain_ledger_def)
next
  case False
  then show ?thesis
    using assms by (cases "sa_kind a") (auto simp: update_chain_tip_with_delegation_bond_def Let_def bind_ok_iff set_bond_def)
qed

definition total_amount :: "(BondKey \<times> u64) list \<Rightarrow> int" where
  "total_amount us = (\<Sum>(k, u)\<leftarrow>us. uint u)"

lemma total_amount_simps [simp]:
  "total_amount [] = 0" "total_amount ((k, u) # us) = uint u + total_amount us"
  by (simp_all add: total_amount_def)

lemma amount_into_u64_ok:
  assumes "amount_ok NonNegative v"
  shows "\<exists>u. amount_into_u64 v = Some u \<and> uint u = v \<and> sint u = v"
proof -
  have v: "0 \<le> v" "v \<le> 2100000000000000" using assms by (simp_all add: amount_ok_simps MAX_MONEY_val)
  then have "uint (word_of_int v :: u64) = v" by (simp add: unsigned_of_int take_bit_int_eq_self)
  moreover from this have "sint (word_of_int v :: u64) = v"
    using v by (simp add: sint_uint signed_take_bit_int_eq_self)
  ultimately show ?thesis using v(1) by (simp add: amount_into_u64_def rassert_def)
qed

lemma unbonding_pools:
  assumes "update_transactions b i (zip txs hs) c = ok c1" "length hs = length txs" "amounts_ok (chain_ledger c)"
    "persists (chain_ledger c1) (chain_ledger cf)"
  shows "\<exists>us. unbonding_amounts txs cf = Some us \<and> (\<forall>(k, u) \<in> set us. sint u = uint u \<and> amount_ok NonNegative (uint u)) \<and>
    chain_value_pools c1 = move_pools (total_amount us) (chain_value_pools c) \<and> persists (chain_ledger c) (chain_ledger c1)"
  using assms
proof (induction txs arbitrary: hs c i)
  case (Cons tx txs)
  obtain hh hs' where hs: "hs = hh # hs'" using Cons.prems(2) by (cases hs) auto
  obtain c0 where c0: "update_transaction b i tx hh c = ok c0" "update_transactions b (Suc i) (zip txs hs') c0 = ok c1"
    using Cons.prems(1) hs by (auto simp: tryr_ok_iff)
  obtain e1 e2 l where e: "same_bonds c e1" "same_bonds e2 c0" "case staking_action tx of None \<Rightarrow> e2 = e1
      | Some a \<Rightarrow> update_chain_tip_with_delegation_bond a l e1 = ok e2"
    using update_transaction_bonds [OF c0(1)] by blast
  note le = chain_ledger_same [OF e(1)] chain_ledger_same [OF e(2)]
  have p: "chain_value_pools e1 = chain_value_pools c" "chain_value_pools c0 = chain_value_pools e2"
    using e(1,2) by (simp_all add: same_bonds_def)
  have "persists (chain_ledger e1) (chain_ledger e2) \<and> amounts_ok (chain_ledger e2)"
    using e(3) Cons.prems(3) le(1) persists_step [of _ l e1 e2] amounts_ok_step [of _ l e1 e2]
    by (cases "staking_action tx") auto
  then have 1: "amounts_ok (chain_ledger c0)" "persists (chain_ledger c) (chain_ledger c0)" using le by simp_all
  obtain us where us: "unbonding_amounts txs cf = Some us" "\<forall>(k, u) \<in> set us. sint u = uint u \<and> amount_ok NonNegative (uint u)"
    "chain_value_pools c1 = move_pools (total_amount us) (chain_value_pools c0)" "persists (chain_ledger c0) (chain_ledger c1)"
    using Cons.IH [OF c0(2) _ 1(1) Cons.prems(4)] Cons.prems(2) hs by auto
  have per: "persists (chain_ledger c) (chain_ledger c1)" using 1(2) us(4) by (rule persists_trans)
  show ?case
  proof (cases "\<exists>a. staking_action tx = Some a \<and> sa_kind a = BeginDelegationUnbonding")
    case False
    then have "chain_value_pools c0 = chain_value_pools c" using e(3) p pools_step by (auto split: option.splits)
    moreover have "unbonding_amounts (tx # txs) cf = Some us" using us(1) False by (auto split: option.splits)
    ultimately show ?thesis using us per by auto
  next
    case True
    then obtain a where a: "staking_action tx = Some a" "sa_kind a = BeginDelegationUnbonding" by blast
    then have step: "update_chain_tip_with_delegation_bond a l e1 = ok e2" using e(3) by simp
    obtain v t s where v: "chain_ledger e2 (arg32_0 a) = Some (v, t, ChainUnbonding)" "chain_ledger e1 (arg32_0 a) = Some (v, t, s)"
      "chain_value_pools e2 = move_pools v (chain_value_pools e1)"
      using pools_step [OF step] a(2) by auto
    have "amount_ok NonNegative v" using v(2) le(1) Cons.prems(3) unfolding amounts_ok_def by metis
    then obtain u where u: "amount_into_u64 v = Some u" "uint u = v" "sint u = v" using amount_into_u64_ok by blast
    have "persists (chain_ledger e2) (chain_ledger cf)" using us(4) Cons.prems(4) le(2) persists_trans by metis
    then obtain t' s' where "chain_ledger cf (arg32_0 a) = Some (v, t', s')" using v(1) unfolding persists_def by blast
    then obtain bond where bond: "map_of (delegation_bonds cf) (arg32_0 a) = Some (bond, s')" "bond_amount bond = v"
      by (auto simp: chain_ledger_def)
    have "unbonding_amounts (tx # txs) cf = Some ((arg32_0 a, u) # us)" using a bond u(1) us(1) by simp
    moreover have "chain_value_pools c1 = move_pools (total_amount ((arg32_0 a, u) # us)) (chain_value_pools c)"
      using us(3) p v(3) u(2) by (simp add: add.commute)
    ultimately show ?thesis using us(2) u \<open>amount_ok NonNegative v\<close> per by simp
  qed
qed simp

text \<open>The amounts that a block unbonds are moved between the pools of the database.\<close>

lemma move_unbonding_amounts_ok:
  assumes "\<forall>(k, u) \<in> set us. sint u = uint u \<and> amount_ok NonNegative (uint u)"
    "amount_ok NonNegative (staking_bonded p)" "amount_ok NonNegative (staking_unbonded p)"
    "0 \<le> staking_bonded p - total_amount us" "staking_unbonded p + total_amount us \<le> MAX_MONEY"
  shows "move_unbonding_amounts us p = ok (move_pools (total_amount us) p)"
  using assms
proof (induction us arbitrary: p)
  case (Cons x us)
  obtain k u where x: "x = (k, u)" by (cases x)
  have nn: "0 \<le> total_amount us" unfolding total_amount_def by (intro sum_list_nonneg) (auto simp: split_def)
  have u: "sint u = uint u" "amount_ok NonNegative (uint u)" using Cons.prems(1) x by auto
  have b: "amount_ok NonNegative (staking_bonded p - uint u)" "amount_ok NonNegative (staking_unbonded p + uint u)"
    using Cons.prems(2-5) nn unsigned_greater_eq [of u, where ?'a = int] unfolding amount_ok_simps x total_amount_simps by linarith+
  have s: "amount_sub NonNegative (staking_bonded p) (uint u) = ok (staking_bonded p - uint u)"
    "amount_add NonNegative (staking_unbonded p) (uint u) = ok (staking_unbonded p + uint u)"
    using Cons.prems u b
    by (simp_all add: amount_sub_eq [of NonNegative _ NonNegative] amount_add_eq [of NonNegative _ NonNegative] validate_eq)
  have "move_unbonding_amounts us (move_pools (uint u) p) = ok (move_pools (total_amount us) (move_pools (uint u) p))"
    using Cons.prems x b by (intro Cons.IH) (auto simp: move_pools_def algebra_simps)
  with s u show ?case by (simp add: x validate_eq move_pools_def add.commute)
qed simp

lemma u64_sum_ok:
  "(\<Sum>x\<leftarrow>xs. unat x) < 2 ^ 64 \<Longrightarrow> \<exists>s. u64_sum xs = Some s \<and> unat s = (\<Sum>x\<leftarrow>xs. unat x)"
proof (induction xs)
  case (Cons x xs)
  then obtain s where s: "u64_sum xs = Some s" "unat s = (\<Sum>x\<leftarrow>xs. unat x)" by auto
  with Cons.prems have "unat x + unat s < 2 ^ 64" by simp
  with s show ?case using unat_add_lem [of x s] by (simp add: checked_add_def)
qed simp


lemma reward_loop_total:
  "reward_loop m t bs f = Some (bs', f', store) \<Longrightarrow> unat f' = unat f + (\<Sum>r\<leftarrow>map snd store. unat r)"
proof (induction bs arbitrary: f f' bs' store)
  case (Cons x bs)
  obtain k b s where x: "x = (k, (b, s))" by (cases x) auto
  show ?case
  proof (cases "s = ChainActive \<and> k \<noteq> m")
    case True
    then obtain r f1 b1 rest store1 where l: "checked_add f r = Some f1" "reward_loop m t bs f1 = Some (rest, f', store1)"
      "store = (k, r) # store1"
      using Cons.prems x by (auto simp: bind_eq_Some_conv)
    have "unat f1 = unat f + unat r"
      using l(1) unat_add_lem [of f r] by (auto simp: checked_add_def split: if_splits)
    with Cons.IH [OF l(2)] l(3) show ?thesis by simp
  next
    case False
    then obtain rest where "reward_loop m t bs f = Some (rest, f', store)" using Cons.prems x by (auto simp: bind_eq_Some_conv)
    from Cons.IH [OF this] show ?thesis .
  qed
qed simp

lemma distribute_rewards_total:
  assumes "distribute_rewards c = Some c'"
  defines "R \<equiv> (\<Sum>r\<leftarrow>map snd (last (bond_rewards c')). unat r)"
  shows "R \<le> 500000000" "chain_value_pools c' = (chain_value_pools c)\<lparr>staking_bonded := bonded c + int R\<rparr>"
    "R \<noteq> 0 \<Longrightarrow> amount_ok NonNegative (bonded c + int R)" "bond_rewards c' = bond_rewards c @ [last (bond_rewards c')]"
proof -
  have "R \<le> 500000000 \<and> chain_value_pools c' = (chain_value_pools c)\<lparr>staking_bonded := bonded c + int R\<rparr> \<and>
    (R \<noteq> 0 \<longrightarrow> amount_ok NonNegative (bonded c + int R)) \<and> bond_rewards c' = bond_rewards c @ [last (bond_rewards c')]"
  proof (cases "list_all (\<lambda>(_, (_, status)). status \<noteq> ChainActive) (delegation_bonds c)")
    case True
    then have "c' = c\<lparr>bond_rewards := bond_rewards c @ [[]]\<rparr>" using assms(1) by (simp add: distribute_rewards_def)
    then show ?thesis by (simp add: R_def)
  next
    case False
    obtain m t bs' f store rw nb where d: "reward_loop m t (delegation_bonds c) 0 = Some (bs', f, store)"
      "checked_sub BOND_REWARD_TOTAL f = Some rw" "amount_add NonNegative (bonded c) (sint BOND_REWARD_TOTAL) = ok nb"
      "bond_rewards c' = bond_rewards c @ [store @ [(m, rw)]]"
      "chain_value_pools c' = (chain_value_pools c)\<lparr>staking_bonded := nb\<rparr>"
      using assms(1) False by (auto simp: distribute_rewards_def bind_eq_Some_conv Let_def set_bonded_def amount_new_def)
    have "unat BOND_REWARD_TOTAL = 500000000" "sint BOND_REWARD_TOTAL = 500000000"
      by (simp_all add: BOND_REWARD_TOTAL_def sint_uint)
    moreover from this have "R = 500000000"
      using reward_loop_total [OF d(1)] d(2,4)
      by (auto simp: R_def checked_sub_def unat_sub word_le_nat_alt split: if_splits)
    ultimately show ?thesis using amount_add_okD [OF d(3)] d(4,5) by auto
  qed
  then show "R \<le> 500000000" "chain_value_pools c' = (chain_value_pools c)\<lparr>staking_bonded := bonded c + int R\<rparr>"
    "R \<noteq> 0 \<Longrightarrow> amount_ok NonNegative (bonded c + int R)" "bond_rewards c' = bond_rewards c @ [last (bond_rewards c')]" by blast+
qed

lemma add_total_rewards_ok:
  assumes "amount_ok NonNegative (staking_bonded p)" "R = (\<Sum>r\<leftarrow>map snd rewards. unat r)" "R \<le> 500000000"
    "staking_bonded p + 500000000 \<le> MAX_MONEY"
  shows "add_total_rewards rewards p = ok (p\<lparr>staking_bonded := staking_bonded p + int R\<rparr>)"
proof -
  obtain s where s: "u64_sum (map snd rewards) = Some s" "unat s = R"
    using u64_sum_ok [of "map snd rewards"] assms(2,3) by auto
  have "uint s = int R" using s(2) by (simp add: uint_nat)
  moreover from this have "sint s = int R" using assms(3) by (simp add: sint_uint signed_take_bit_int_eq_self)
  moreover have "0 < s \<longleftrightarrow> R \<noteq> 0" using s(2) by (auto simp: word_less_nat_alt)
  moreover have "amount_ok NonNegative (int R)" "amount_ok NonNegative (staking_bonded p + int R)"
    using assms by (simp_all add: amount_ok_simps MAX_MONEY_val)
  ultimately show ?thesis
    using s(1) assms(1) by (simp add: add_total_rewards_def validate_eq amount_add_eq [of NonNegative _ NonNegative])
qed

lemma add_trees_bonds: "add_trees lib b nct c = ok c' \<Longrightarrow> same_bonds c c'"
  by (auto simp: add_trees_def bind_ok_iff same_bonds_def add_sprout_tree_and_anchor_def add_sapling_tree_and_anchor_def
      add_orchard_tree_and_anchor_def add_history_tree_def bind_eq_Some_conv Let_def split: option.splits if_splits)



section \<open>Refinement\<close>

lemma push_staking:
  assumes "push lib c b = ok c'"
  obtains c1 c2 c3 where "same_bonds (c\<lparr>bond_retargets := bond_retargets c @ [[]]\<rparr>) c1"
    "update_transactions b 0 (zip (cv_transactions b) (cv_transaction_hashes b)) c1 = ok c2"
    "add_chain_value_pool_change (chain_value_pools c2) (cv_chain_value_pool_change b) = ok (chain_value_pools c3)"
    "delegation_bonds c3 = delegation_bonds c2" "bond_rewards c3 = bond_rewards c2"
    "\<exists>c4. distribute_rewards c3 = Some c4 \<and> same_bonds c4 c'"
proof -
  obtain pr c4 nct c5 where "update_chain_tip_with_block_except_trees b c = Some pr" "Some pr = ok c4"
    and p': "add_trees lib b nct c4 = ok c5" "c' = c5\<lparr>blocks := btree_insert (cv_height b) b (blocks c5)\<rparr>"
    using assms by (auto simp: push_def update_chain_tip_with_block_parallel_def tryr_ok_iff bind_ok_iff)
  then have p: "update_chain_tip_with_block_except_trees b c = ok c4" "add_trees lib b nct c4 = ok c5"
    "c' = c5\<lparr>blocks := btree_insert (cv_height b) b (blocks c5)\<rparr>" by simp_all
  obtain w c2 c3 where c: "update_transactions b 0 (zip (cv_transactions b) (cv_transaction_hashes b))
      (c\<lparr>height_by_hash := Mapping.update (cv_hash b) (cv_height b) (height_by_hash c),
      partial_cumulative_work := w, bond_retargets := bond_retargets c @ [[]]\<rparr>) = ok c2"
    "update_value_pools (cv_chain_value_pool_change b) (cv_height b) (cv_size b) c2 = ok c3" "distribute_rewards c3 = Some c4"
    using p(1) by (auto simp: update_chain_tip_with_block_except_trees_def bind_ok_iff tryr_ok_iff Let_def)
  have "add_chain_value_pool_change (chain_value_pools c2) (cv_chain_value_pool_change b) = ok (chain_value_pools c3)"
    "delegation_bonds c3 = delegation_bonds c2" "bond_rewards c3 = bond_rewards c2"
    using c(2) by (auto simp: update_value_pools_def tryr_ok_iff)
  moreover have "same_bonds c4 c'" using add_trees_bonds [OF p(2)] p(3) by (simp add: same_bonds_def)
  ultimately show thesis using that [OF _ c(1)] c(3) by (auto simp: same_bonds_def)
qed

lemma staking_step_rewards:
  "update_chain_tip_with_delegation_bond a l c = ok c' \<Longrightarrow> bond_rewards c' = bond_rewards c"
  by (cases "sa_kind a") (auto simp: update_chain_tip_with_delegation_bond_def Let_def bind_ok_iff tryr_ok_iff
      set_bond_def set_bonded_def set_unbonded_def)

lemma update_transactions_rewards:
  "update_transactions b i txs c = ok c' \<Longrightarrow> bond_rewards c' = bond_rewards c"
proof (induction txs arbitrary: i c)
  case (Cons x txs)
  obtain tx h where x: "x = (tx, h)" by (cases x)
  obtain c1 where c1: "update_transaction b i tx h c = ok c1" "update_transactions b (Suc i) txs c1 = ok c'"
    using Cons.prems x by (auto simp: tryr_ok_iff)
  obtain e1 e2 l where e: "same_bonds c e1" "same_bonds e2 c1" "case staking_action tx of None \<Rightarrow> e2 = e1
      | Some a \<Rightarrow> update_chain_tip_with_delegation_bond a l e1 = ok e2"
    using update_transaction_bonds [OF c1(1)] by blast
  have "bond_rewards e2 = bond_rewards e1" using e(3) staking_step_rewards by (auto split: option.splits)
  with Cons.IH [OF c1(2)] e(1,2) show ?case by (simp add: same_bonds_def)
qed simp

lemma staking_step_distinct:
  "update_chain_tip_with_delegation_bond a l c = ok c' \<Longrightarrow> distinct (map fst (delegation_bonds c)) \<Longrightarrow>
    distinct (map fst (delegation_bonds c'))"
  by (cases "sa_kind a") (auto simp: update_chain_tip_with_delegation_bond_def Let_def bind_ok_iff tryr_ok_iff
      set_bond_def set_bonded_def set_unbonded_def distinct_update)

lemma block_consistent_start: "block_consistent db (Mapping.empty, db)"
  by (simp add: block_consistent_def block_or_db_bond_def or_else_def)

lemma update_transactions_distinct:
  "update_transactions b i txs c = ok c' \<Longrightarrow> distinct (map fst (delegation_bonds c)) \<Longrightarrow> distinct (map fst (delegation_bonds c'))"
proof (induction txs arbitrary: i c)
  case (Cons x txs)
  obtain tx h where x: "x = (tx, h)" by (cases x)
  obtain c1 where c1: "update_transaction b i tx h c = ok c1" "update_transactions b (Suc i) txs c1 = ok c'"
    using Cons.prems x by (auto simp: tryr_ok_iff)
  obtain e1 e2 l where e: "same_bonds c e1" "same_bonds e2 c1" "case staking_action tx of None \<Rightarrow> e2 = e1
      | Some a \<Rightarrow> update_chain_tip_with_delegation_bond a l e1 = ok e2"
    using update_transaction_bonds [OF c1(1)] by blast
  have "distinct (map fst (delegation_bonds e1))" using e(1) Cons.prems(2) by (simp add: same_bonds_def)
  then have "distinct (map fst (delegation_bonds e2))"
    using e(3) staking_step_distinct by (auto split: option.splits)
  with Cons.IH [OF c1(2)] e(2) show ?case by (simp add: same_bonds_def)
qed simp

lemma pool_change_okD: "add_chain_value_pool_change v d = ok r \<Longrightarrow> r = pool_plus v d \<and> vb_ok NonNegative r"
  by (auto simp: add_chain_value_pool_change_def tryr_ok_iff bind_ok_iff dest!: vb_add_okD)

text \<open>The bonds of a block that the chain accepts.\<close>

lemma finalize_bonds:
  assumes "db_ledger db = chain_ledger c" "bonds_ok (delegation_bonds c)"
    "validate_delegation_bonds (cv_height b) (cv_transactions b) c db = ok ()"
    "keys_of BeginDelegationUnbonding (cv_transactions b) \<inter> keys_of CreateNewDelegationBond (cv_transactions b) = {}"
    "length (cv_transaction_hashes b) = length (cv_transactions b)" "same_bonds (c\<lparr>bond_retargets := r\<rparr>) c1"
    "update_transactions b 0 (zip (cv_transactions b) (cv_transaction_hashes b)) c1 = ok c2"
    "delegation_bonds c3 = delegation_bonds c2" "distribute_rewards c3 = Some c4"
    "fb_height f = cv_height b" "fb_transactions f = cv_transactions b" "fb_bond_rewards f = last (bond_rewards c4)"
  shows "\<exists>ws db'. prepare_delegation_bonds_batch db f = ok ws \<and> write_batch ws db = Some db' \<and> db_ledger db' = chain_ledger c4"
proof -
  obtain seen' where v: "validate_loop (cv_height b) c db (cv_transactions b) ([], []) = ok seen'"
    using assms(3) by (auto simp: validate_delegation_bonds_def tryr_ok_iff)
  have l1: "db_ledger db = chain_ledger c1" using assms(1,6) by (simp add: chain_ledger_bonds same_bonds_def)
  obtain created ws d where w: "prepare_bonds_loop db (cv_height b) 0 (cv_transactions b) Mapping.empty = ok (created, ws)"
    "write_batch ws db = Some d" "block_consistent db (created, d)" "db_ledger d = chain_ledger c2"
    using bonds_loop_refines [OF assms(1) l1 block_consistent_start assms(7,5) v] assms(4) by auto
  have dist: "distinct (map fst (delegation_bonds c3))"
    using update_transactions_distinct [OF assms(7)] bonds_ok_distinct [OF assms(2)] assms(6,8) by (simp add: same_bonds_def)
  have l3: "chain_ledger c3 = db_ledger d" using assms(8) w(4) by (simp add: chain_ledger_bonds)
  obtain ws' d' where w': "prepare_rewards_loop db created (last (bond_rewards c4)) = ok ws'" "write_batch ws' d = Some d'"
    "db_ledger d' = ledger_rewards (last (bond_rewards c4)) (db_ledger d)"
    using rewards_loop_refines [of "last (bond_rewards c4)" d db created] distribute_rewards_ledger(2,3) [OF assms(9) dist]
      w(3) l3 by (auto simp: block_consistent_def)
  show ?thesis
    using w(1,2) w' distribute_rewards_ledger(1) [OF assms(9) dist] l3 assms(10-12)
    by (auto simp: prepare_delegation_bonds_batch_def write_batch_append)
qed

text \<open>The pools of a block that the chain accepts.\<close>

lemma finalize_pools:
  assumes "vb_ok NonNegative P" "vb_ok NegativeAllowed D" "vb_ok NonNegative (pool_plus P D)"
    "staking_bonded (pool_plus P D) + 500000000 \<le> MAX_MONEY"
    "add_chain_value_pool_change (move_pools (total_amount us) P) D = ok (chain_value_pools c3)" "distribute_rewards c3 = Some c4"
    "\<forall>(k, u) \<in> set us. sint u = uint u \<and> amount_ok NonNegative (uint u)"
    "chain_value_pool_change (fb_transactions f) utxos (fb_deferred_pool_balance_change f) = ok D"
    "fb_bond_rewards f = last (bond_rewards c4)" "fb_unbonding_amounts f = us"
  shows "prepare_chain_value_pools_batch f utxos P = ok
    [PutValuePool (chain_value_pools c4), PutBlockInfo (fb_height f) (chain_value_pools c4, word_of_nat (fb_size f))]"
proof -
  define T where "T = total_amount us"
  define R where "R = (\<Sum>r\<leftarrow>map snd (last (bond_rewards c4)). unat r)"
  note tot = distribute_rewards_total [OF assms(6), folded R_def]
  have c3: "chain_value_pools c3 = pool_plus (move_pools T P) D" "vb_ok NonNegative (chain_value_pools c3)"
    using pool_change_okD [OF assms(5)] unfolding T_def by blast+
  let ?p = "(pool_plus P D)\<lparr>staking_bonded := staking_bonded (pool_plus P D) + int R\<rparr>"
  have p1: "add_chain_value_pool_change P D = ok (pool_plus P D)" using pool_change_ok [OF assms(1,2)] assms(3) by simp
  have b: "amount_ok NonNegative (staking_bonded (pool_plus P D))" "amount_ok NonNegative (staking_unbonded (pool_plus P D))"
    using assms(3) by (simp_all add: vb_ok_def)
  have p2: "add_total_rewards (fb_bond_rewards f) (pool_plus P D) = ok ?p"
    using add_total_rewards_ok [OF b(1) R_def tot(1) assms(4)] assms(9) by simp
  have p3: "move_unbonding_amounts us ?p = ok (move_pools T ?p)"
    unfolding T_def
  proof (rule move_unbonding_amounts_ok [OF assms(7)], goal_cases)
    case 1 show ?case using b(1) tot(1) assms(4) by (simp add: amount_ok_def)
  next
    case 3 show ?case using c3 by (simp add: vb_ok_def amount_ok_def pool_plus_def move_pools_def T_def)
  next
    case 4 show ?case using c3 by (simp add: vb_ok_def amount_ok_def pool_plus_def move_pools_def T_def)
  qed (use b in simp)
  have "move_pools T ?p = chain_value_pools c4" using tot(2) c3(1) by (simp add: move_pools_def pool_plus_def)
  with p1 p2 p3 assms(8,10) show ?thesis by (simp add: prepare_chain_value_pools_batch_def)
qed

lemma pool_writes:
  "\<exists>d'. write_batch [PutValuePool p, PutBlockInfo h i] d = Some d' \<and> db_ledger d' = db_ledger d \<and> finalized_value_pool d' = p"
  by (simp add: db_ledger_def fun_eq_iff delegation_bond_def bond_status_def finalized_value_pool_def)

lemma contextual_change:
  assumes "with_block_and_spent_utxos sv spent = ok b"
  shows "chain_value_pool_change (cv_transactions b) (cv_spent_outputs b) (Some (deferred (cv_chain_value_pool_change b))) =
    ok (cv_chain_value_pool_change b)"
  using assms by (auto simp: with_block_and_spent_utxos_def tryr_ok_iff Let_def dest: chain_value_pool_change_deferred)

lemma chain_value_pool_change_spent:
  assumes "\<And>p. p \<in> set (spent_outpoints txs) \<Longrightarrow> Mapping.lookup u p = Mapping.lookup u' p"
  shows "chain_value_pool_change txs u d = chain_value_pool_change txs u' d"
  using assms by (intro chain_value_pool_change_cong) (force simp: spent_outpoints_def List.map_filter_def)


text \<open>A chain and a database with two active bonds, and a block that begins to unbond the second.\<close>

definition bond_of :: "amount \<Rightarrow> DelegationBond" where
  "bond_of a = \<lparr>bond_amount = a, target_finalizer = [9], created_at = \<lparr>tl_height = 1, tl_index = 0\<rparr>\<rparr>"

definition bond_db :: ZebraDb where
  "bond_db = (new_db Mainnet)\<lparr>tip_chain_value_pool := Some (vb_zero\<lparr>staking_bonded := 100\<rparr>),
     delegation_bond_by_key := Mapping.update [1] (bond_of 70) (Mapping.update [2] (bond_of 30) Mapping.empty),
     bond_status_by_key := Mapping.update [1] Active (Mapping.update [2] Active Mapping.empty)\<rparr>"

definition bond_chain :: Chain where
  "bond_chain = the (Chain_new sample_lib Mainnet 8 [1] [2] [3] [4] (vb_zero\<lparr>staking_bonded := 100\<rparr>)
     [([1], bond_of 70, Active), ([2], bond_of 30, Active)])"

definition unbond_txs :: "Transaction list" where
  "unbond_txs = [V5 [Coinbase 9] [] None None, staking_tx BeginDelegationUnbonding [2] 0]"

definition unbond_sv :: SemanticallyVerifiedBlock where
  "unbond_sv = \<lparr>sv_header = sample_header, sv_transactions = unbond_txs, sv_hash = [7], sv_height = 9,
     sv_new_outputs = Mapping.empty, sv_transaction_hashes = [[1], [2]], sv_deferred_pool_balance_change = None, sv_size = 1000\<rparr>"

lemma unbond_block:
  "with_block_and_spent_utxos unbond_sv Mapping.empty = ok (staking_block unbond_txs [[1], [2]] 0 0)"
  by (simp add: with_block_and_spent_utxos_def unbond_sv_def unbond_txs_def staking_block_def Contextual_Checks.extend_def chain_value_pool_change_def
      value_run_simps staking_action_value_balance_def staking_tx_def StakingAction_default_def vb_ok_def
      pools_unchanged(2) [unfolded vb_zero_def])

lemma bond_chain_ledger:
  "db_ledger bond_db = chain_ledger bond_chain" "finalized_value_pool bond_db = vb_zero\<lparr>staking_bonded := 100\<rparr>"
  "chain_value_pools bond_chain = vb_zero\<lparr>staking_bonded := 100\<rparr>" "bonds_ok (delegation_bonds bond_chain)"
  "blocks bond_chain = []" "bond_rewards bond_chain = []"
  "validate_delegation_bonds 9 unbond_txs bond_chain bond_db = ok ()"
  by (auto simp: bond_chain_def bond_db_def new_db_def tree_run_simps db_ledger_def chain_ledger_def fun_eq_iff delegation_bond_def bond_status_def
      lookup_update' bond_of_def finalized_value_pool_def bonds_ok_def amount_ok_simps MAX_MONEY_val
      validate_delegation_bonds_def unbond_txs_def validate_staking_action_def validate_bond_for_unbonding_def StakingAction_default_def)

lemma bond_chain_fields:
  "chain_network bond_chain = Mainnet" "height_by_hash bond_chain = Mapping.empty" "tx_loc_by_hash bond_chain = Mapping.empty"
  "partial_cumulative_work bond_chain = 0" "bond_retargets bond_chain = []" "block_info_by_height bond_chain = Mapping.empty"
  "delegation_bonds bond_chain = [([1], (bond_of 70, ChainActive)), ([2], (bond_of 30, ChainActive))]"
  "sprout_trees bond_chain = \<lparr>trees_by_height = [(8, [1])], anchors_by_height = [(8, [1])], anchors = {#[1]#}\<rparr>"
  "sapling_trees bond_chain = \<lparr>trees_by_height = [(8, [2])], anchors_by_height = [(8, [2])], anchors = {#[2]#}\<rparr>"
  "orchard_trees bond_chain = \<lparr>trees_by_height = [(8, [3])], anchors_by_height = [(8, [3])], anchors = {#[3]#}\<rparr>"
  "history_trees_by_height bond_chain = [(8, [4])]" "sapling_subtrees bond_chain = []" "orchard_subtrees bond_chain = []"
  by (simp_all add: bond_chain_def tree_run_simps)

definition unbonded_bonds :: bonds where
  "unbonded_bonds = [([1], (bond_of 70, ChainActive)),
     ([2], ((bond_of 30)\<lparr>created_at := \<lparr>tl_height = 9, tl_index = 1\<rparr>\<rparr>, ChainUnbonding))]"

definition unbond_chain :: Chain where
  "unbond_chain = bond_chain\<lparr>height_by_hash := Mapping.update [7] 9 (height_by_hash bond_chain),
       partial_cumulative_work := 8192, bond_retargets := [[]],
       tx_loc_by_hash := Mapping.update [2] \<lparr>tl_height = 9, tl_index = 1\<rparr>
         (Mapping.update [1] \<lparr>tl_height = 9, tl_index = 0\<rparr> Mapping.empty),
       delegation_bonds := unbonded_bonds, chain_value_pools := vb_zero\<lparr>staking_bonded := 70, staking_unbonded := 30\<rparr>\<rparr>"

lemma unbond_run:
  "update_transactions (staking_block unbond_txs [[1], [2]] 0 0) 0 (zip unbond_txs [[1], [2]])
     (bond_chain\<lparr>height_by_hash := Mapping.update [7] 9 (height_by_hash bond_chain),
       partial_cumulative_work := 8192, bond_retargets := bond_retargets bond_chain @ [[]]\<rparr>) =
   ok unbond_chain"
  by (simp add: unbond_txs_def unbond_chain_def bond_chain_fields bond_chain_ledger unbonded_bonds_def bond_of_def
      StakingAction_default_def vb_zero_def set_bond_def set_bonded_def set_unbonded_def staking_run_simps)

definition paid_chain :: Chain where
  "paid_chain = bond_chain\<lparr>height_by_hash := Mapping.update [7] 9 (height_by_hash bond_chain),
     partial_cumulative_work := 8192, bond_retargets := [[]],
     tx_loc_by_hash := Mapping.update [2] \<lparr>tl_height = 9, tl_index = 1\<rparr>
       (Mapping.update [1] \<lparr>tl_height = 9, tl_index = 0\<rparr> Mapping.empty),
     delegation_bonds := AList.update [1] (bond_of 500000070, ChainActive) unbonded_bonds,
     chain_value_pools := vb_zero\<lparr>staking_bonded := 500000070, staking_unbonded := 30\<rparr>,
     block_info_by_height := Mapping.update 9 (vb_zero\<lparr>staking_bonded := 70, staking_unbonded := 30\<rparr>, 1000) Mapping.empty,
     bond_rewards := [[([1], 500000000)]]\<rparr>"

lemma unbond_accepted:
  "update_chain_tip_with_block_except_trees (staking_block unbond_txs [[1], [2]] 0 0) bond_chain = ok paid_chain"
proof -
  have "distribute_rewards (unbond_chain\<lparr>chain_value_pools := vb_zero\<lparr>staking_bonded := 70, staking_unbonded := 30\<rparr>,
      block_info_by_height := Mapping.update 9 (vb_zero\<lparr>staking_bonded := 70, staking_unbonded := 30\<rparr>, 1000)
         (block_info_by_height unbond_chain)\<rparr>) = Some paid_chain"
    by (simp add: unbond_chain_def distribute_rewards_def unbonded_bonds_def bond_of_def find_max_staker_def zats_def bond_chain_fields bond_chain_ledger
      checked_sub_def BOND_REWARD_TOTAL_def add_reward_def amount_new_def staking_run_simps set_bonded_def paid_chain_def vb_zero_def)
  from staking_block_accepted [OF _ _ unbond_run refl _ _ _ _ this] show ?thesis
    by (simp add: unbond_chain_def bond_chain_fields pool_plus_def vb_zero_def vb_ok_def amount_ok_simps MAX_MONEY_val)
qed

definition pushed_chain :: Chain where
  "pushed_chain = paid_chain\<lparr>
     sprout_trees := \<lparr>trees_by_height = [(8, [1])], anchors_by_height = [(8, [1]), (9, [1])], anchors = {#[1], [1]#}\<rparr>,
     sprout_trees_by_anchor := Mapping.update [1] [1] (sprout_trees_by_anchor bond_chain),
     sapling_trees := \<lparr>trees_by_height = [(8, [2])], anchors_by_height = [(8, [2]), (9, [2])], anchors = {#[2], [2]#}\<rparr>,
     orchard_trees := \<lparr>trees_by_height = [(8, [3])], anchors_by_height = [(8, [3]), (9, [3])], anchors = {#[3], [3]#}\<rparr>,
     history_trees_by_height := [(8, [4]), (9, [4, 7])],
     blocks := [(9, staking_block unbond_txs [[1], [2]] 0 0)]\<rparr>"

lemma unbond_push: "push sample_lib bond_chain (staking_block unbond_txs [[1], [2]] 0 0) = ok pushed_chain"
  using unbond_accepted
  by (simp add: push_def update_chain_tip_with_block_parallel_def trees_for_tip_def sprout_note_commitment_tree_for_tip_def
      sapling_note_commitment_tree_for_tip_def
      orchard_note_commitment_tree_for_tip_def sapling_subtree_for_tip_def orchard_subtree_for_tip_def
      update_trees_parallel_def coinbase_height_def commitments_of_def unbond_txs_def staking_tx_def
      max_block_height_def add_trees_def history_block_commitment_tree_def btree_last_def insert_subtree_def bond_chain_fields
      bond_chain_ledger add_sprout_tree_and_anchor_def add_sapling_tree_and_anchor_def
      add_orchard_tree_and_anchor_def add_history_tree_def add_pool_tree_def is_new_tree_def height_previous_def
      HEIGHT_MAX_def rassert_def btree_at_most_def paid_chain_def sample_lib_def pushed_chain_def)

lemma pushed_treestate:
  "\<exists>ts. treestate (Height 9) pushed_chain = Some ts \<and> nct_sapling_subtree (ts_note_commitment_trees ts) = None \<and>
     nct_orchard_subtree (ts_note_commitment_trees ts) = None"
  by (simp add: treestate_def pushed_chain_def paid_chain_def sprout_tree_def sapling_tree_def orchard_tree_def history_tree_def
      sapling_subtree_def orchard_subtree_def height_or_else_def btree_at_most_def bond_chain_fields)

lemma pushed_revert:
  "\<exists>c''. revert_chain_with (staking_block unbond_txs [[1], [2]] 0 0) Root
     (pushed_chain\<lparr>blocks := [], bond_rewards := [], bond_retargets := []\<rparr>) = Some c''"
  using staking_block_work [of unbond_txs "[[1], [2]]" 0 0]
  by (simp add: unbond_txs_def pushed_chain_def paid_chain_def pop_simps bond_chain_fields rassert_def lookup_update' max_block_height_def
      revert_delegation_bond_def lookup_delete)

lemma unbond_pop: "\<exists>ts c''. pop_root pushed_chain = Some (staking_block unbond_txs [[1], [2]] 0 0, ts, [([1], 500000000)], [([2], 30)], c'')"
proof -
  have p: "blocks pushed_chain = [(9, staking_block unbond_txs [[1], [2]] 0 0)]" "bond_rewards pushed_chain = [[([1], 500000000)]]"
    "bond_retargets pushed_chain = [[]]"
    by (simp_all add: pushed_chain_def paid_chain_def)
  have "unbonding_amounts unbond_txs (pushed_chain\<lparr>blocks := [], bond_rewards := [], bond_retargets := []\<rparr>) = Some [([2], 30)]"
    by (simp add: unbond_txs_def pushed_chain_def paid_chain_def unbonded_bonds_def StakingAction_default_def bond_of_def
        amount_into_u64_def rassert_def)
  with pushed_treestate pushed_revert show ?thesis by (auto simp: pop_root_def p)
qed


text \<open>A block that creates a bond and begins to unbond it.\<close>

definition fresh_txs :: "Transaction list" where
  "fresh_txs = [staking_tx CreateNewDelegationBond [4] 50, staking_tx BeginDelegationUnbonding [4] 0]"

lemma fresh_run:
  "\<exists>c2. update_transactions (staking_block fresh_txs [[1], [2]] 50 0) 0 (zip fresh_txs [[1], [2]])
     (bond_chain\<lparr>height_by_hash := Mapping.update [7] 9 (height_by_hash bond_chain),
       partial_cumulative_work := 8192, bond_retargets := bond_retargets bond_chain @ [[]]\<rparr>) = ok c2 \<and>
     delegation_bonds c2 = delegation_bonds bond_chain @ [([4], (\<lparr>bond_amount = 50, target_finalizer = replicate 32 0,
       created_at = \<lparr>tl_height = 9, tl_index = 1\<rparr>\<rparr>, ChainUnbonding))] \<and>
     chain_value_pools c2 = vb_zero\<lparr>staking_bonded := 50, staking_unbonded := 50\<rparr>"
  by (simp add: fresh_txs_def bond_chain_fields bond_chain_ledger bond_of_def
      StakingAction_default_def vb_zero_def set_bond_def set_bonded_def set_unbonded_def staking_run_simps)

lemma fresh_accepted:
  "\<exists>c'. update_chain_tip_with_block_except_trees (staking_block fresh_txs [[1], [2]] 50 0) bond_chain = ok c'"
proof -
  obtain c2 where c2: "update_transactions (staking_block fresh_txs [[1], [2]] 50 0) 0 (zip fresh_txs [[1], [2]])
     (bond_chain\<lparr>height_by_hash := Mapping.update [7] 9 (height_by_hash bond_chain),
       partial_cumulative_work := 8192, bond_retargets := bond_retargets bond_chain @ [[]]\<rparr>) = ok c2"
     "delegation_bonds c2 = delegation_bonds bond_chain @ [([4], (\<lparr>bond_amount = 50, target_finalizer = replicate 32 0,
       created_at = \<lparr>tl_height = 9, tl_index = 1\<rparr>\<rparr>, ChainUnbonding))]"
     "chain_value_pools c2 = vb_zero\<lparr>staking_bonded := 50, staking_unbonded := 50\<rparr>"
    using fresh_run by blast
  define p where "p = pool_plus (chain_value_pools c2) (vb_zero\<lparr>staking_bonded := 50, staking_unbonded := 0\<rparr>)"
  let ?c3 = "c2\<lparr>chain_value_pools := p, block_info_by_height := Mapping.update 9 (p, 1000) (block_info_by_height c2)\<rparr>"
  have "rewards_payable ?c3"
    by (simp add: rewards_payable_def Let_def p_def c2 pool_plus_def bond_chain_fields bond_of_def MAX_MONEY_val)
  then obtain c' where "distribute_rewards ?c3 = Some c'"
    using distribute_rewards_eq [of ?c3] by (auto simp: c2 bond_chain_fields bond_of_def amount_ok_simps MAX_MONEY_val)
  from staking_block_accepted [OF _ _ c2(1) refl _ _ p_def _ this] show ?thesis
    by (auto simp: bond_chain_fields c2(3) p_def pool_plus_def vb_ok_def vb_zero_def amount_ok_simps MAX_MONEY_val)
qed

text \<open>C37: a block that creates a bond and begins to unbond it is valid, and accepted by the chain, but cannot be
finalized. The validation and the chain find the bond among those of the block; the batch of the finalized
state looks for its status in the database only, where it is not yet, and returns an error.\<close>

theorem same_block_unbond_not_finalizable:
  "db_ledger bond_db = chain_ledger bond_chain \<and> validate_delegation_bonds 9 fresh_txs bond_chain bond_db = ok () \<and>
   (\<exists>c'. update_chain_tip_with_block_except_trees (staking_block fresh_txs [[1], [2]] 50 0) bond_chain = ok c') \<and>
   (\<forall>ts rewards amounts. prepare_delegation_bonds_batch bond_db
      (from_contextually_verified (staking_block fresh_txs [[1], [2]] 50 0) ts rewards amounts) = err (Message ''bond not found''))"
proof (intro conjI)
  show "validate_delegation_bonds 9 fresh_txs bond_chain bond_db = ok ()"
    by (simp add: bond_chain_fields bond_db_def new_db_def delegation_bond_def lookup_update' validate_delegation_bonds_def
        fresh_txs_def validate_staking_action_def validate_create_new_bond_def validate_bond_for_unbonding_def
        StakingAction_default_def staking_run_simps)
  show "\<forall>ts rewards amounts. prepare_delegation_bonds_batch bond_db
      (from_contextually_verified (staking_block fresh_txs [[1], [2]] 50 0) ts rewards amounts) = err (Message ''bond not found'')"
    by (simp add: prepare_delegation_bonds_batch_def from_contextually_verified_def from_semantically_verified_def
        semantically_verified_def fresh_txs_def prepare_staking_action_def prepare_new_delegation_bond_def
        prepare_unbonding_delegation_bond_def bond_db_def new_db_def bond_status_def lookup_update' StakingAction_default_def
        staking_run_simps)
qed (fact bond_chain_ledger(1) fresh_accepted)+

end
