(* ===== verification/Pow_Header.thy ===== *)
theory Pow_Header
  imports Chain_Types
begin

text \<open>
  The header of a proof-of-work block as bytes: \<^verbatim>\<open>zebra-chain/src/block/serialize.rs\<close> and \<^verbatim>\<open>hash.rs\<close>, and the
  conversion of a header of the chain into the header that a BFT block carries, \<^verbatim>\<open>bc_hdr_to_lrz\<close> of
  \<^verbatim>\<open>zebra-crosslink/src/lib.rs\<close>. Both sides hash a header with SHA-256 applied twice; finality depends on
  the two hashes being the same.
\<close>

section \<open>Definitions\<close>

unbundle bit_operations_syntax

definition ZCASH_BLOCK_VERSION :: u32 where "ZCASH_BLOCK_VERSION = 4"

definition check_version :: "u32 \<Rightarrow> string + unit" where
  "check_version version =
     (if drop_bit 31 version \<noteq> 0 then Inl ''high bit was set in version field''
      else if version < ZCASH_BLOCK_VERSION then Inl ''version must be at least 4''
      else Inr ())"

text \<open>\<^verbatim>\<open>u32::reverse_bits\<close>.\<close>

definition reverse_bits :: "u32 \<Rightarrow> u32" where
  "reverse_bits w = horner_sum of_bool 2 (map (\<lambda>i. bit w (31 - i)) [0..<32])"

definition logical_version :: "u32 \<Rightarrow> u32" where
  "logical_version version = (if version AND 0xffff0000 \<noteq> 0 then reverse_bits version else version)"

definition timestamp_u32 :: "int \<Rightarrow> u32 rust" where
  "timestamp_u32 t = (if 0 \<le> t \<and> t < 2 ^ 32 then Some (word_of_int t) else None)"

definition Header_zcash_serialize :: "Header \<Rightarrow> (string, bytes) result" where
  "Header_zcash_serialize h = (case check_version (header_version h) of
       Inl e \<Rightarrow> err e
     | Inr _ \<Rightarrow> do {
         time \<leftarrow> timestamp_u32 (header_time h);
         ok (u32_le (header_version h) @ header_previous h @ header_merkle_root h @ header_commitment h @
           u32_le time @ u32_le (header_threshold h) @ header_nonce h @ vector_write (\<lambda>b. [b]) (header_solution h) @
           (if logical_version (header_version h) \<ge> 5 then FatPointer_zcash_serialize (header_fat_pointer h) else [])) })"

definition SOLUTION_SIZE :: nat where "SOLUTION_SIZE = 1344"
definition REGTEST_SOLUTION_SIZE :: nat where "REGTEST_SOLUTION_SIZE = 36"

definition Solution_zcash_deserialize :: "bytes reader" where
  "Solution_zcash_deserialize buf = do {
     (solution, buf) \<leftarrow> vector_read read_u8 buf;
     if length solution = SOLUTION_SIZE \<or> length solution = REGTEST_SOLUTION_SIZE then Some (solution, buf) else None }"

definition Header_zcash_deserialize :: "Header reader" where
  "Header_zcash_deserialize buf = do {
     (version, buf) \<leftarrow> read_u32 buf;
     (case check_version version of
        Inl _ \<Rightarrow> None
      | Inr _ \<Rightarrow> do {
          (previous, buf) \<leftarrow> read_exact 32 buf;
          (root, buf) \<leftarrow> read_exact 32 buf;
          (commitment, buf) \<leftarrow> read_exact 32 buf;
          (time, buf) \<leftarrow> read_u32 buf;
          (threshold, buf) \<leftarrow> read_u32 buf;
          (nonce, buf) \<leftarrow> read_exact 32 buf;
          (solution, buf) \<leftarrow> Solution_zcash_deserialize buf;
          (fp, buf) \<leftarrow> (if logical_version version \<ge> 5 then FatPointer_zcash_deserialize buf else Some (FatPointer_null, buf));
          Some (\<lparr>header_version = version, header_previous = previous, header_merkle_root = root,
            header_commitment = commitment, header_time = uint time, header_threshold = threshold,
            header_nonce = nonce, header_solution = solution, header_fat_pointer = fp\<rparr>, buf) }) }"

text \<open>\<^verbatim>\<open>Hash::from(&Header)\<close>.\<close>

definition Header_hash :: "(bytes \<Rightarrow> bytes) \<Rightarrow> Header \<Rightarrow> bytes rust" where
  "Header_hash sha256 h = do {
     bytes \<leftarrow> expect (Header_zcash_serialize h);
     Some (sha256 (sha256 bytes)) }"

text \<open>The result of the serialization is not looked at: an error leaves no bytes.\<close>

definition bc_hdr_to_lrz :: "Header \<Rightarrow> BlockHeaderData rust" where
  "bc_hdr_to_lrz h = do {
     r \<leftarrow> Header_zcash_serialize h;
     (d, _) \<leftarrow> read_data (case r of Inl _ \<Rightarrow> [] | Inr bytes \<Rightarrow> bytes);
     Some d }"

section \<open>Round trips\<close>

definition Header_ok :: "Header \<Rightarrow> bool" where
  "Header_ok h \<longleftrightarrow> check_version (header_version h) = Inr () \<and> length (header_previous h) = 32 \<and>
     length (header_merkle_root h) = 32 \<and> length (header_commitment h) = 32 \<and> 0 \<le> header_time h \<and> header_time h < 2 ^ 32 \<and>
     length (header_nonce h) = 32 \<and>
     (length (header_solution h) = SOLUTION_SIZE \<or> length (header_solution h) = REGTEST_SOLUTION_SIZE) \<and>
     FatPointer_ok (header_fat_pointer h) \<and>
     (logical_version (header_version h) < 5 \<longrightarrow> header_fat_pointer h = FatPointer_null)"

lemma solution_dec_enc [codec_simps]:
  "length s = SOLUTION_SIZE \<or> length s = REGTEST_SOLUTION_SIZE \<Longrightarrow>
     Solution_zcash_deserialize (vector_write (\<lambda>b. [b]) s @ rest) = Some (s, rest)"
  by (auto simp: Solution_zcash_deserialize_def SOLUTION_SIZE_def REGTEST_SOLUTION_SIZE_def MAX_COMPACT_SIZE_def
      u8c.vector_dec_enc list_all_iff)

lemma uint_timestamp [simp]: "0 \<le> t \<Longrightarrow> t < 4294967296 \<Longrightarrow> uint (word_of_int t :: u32) = t"
  by (simp add: unsigned_of_int take_bit_int_eq_self)

text \<open>The header of a BFT block with the fields of a header of the chain.\<close>

definition lrz_header :: "Header \<Rightarrow> BlockHeaderData" where
  "lrz_header h = \<lparr>hdr_version = header_version h, prev_block = header_previous h, merkle_root = header_merkle_root h,
     final_sapling_root = header_commitment h, hdr_time = word_of_int (header_time h), hdr_bits = header_threshold h,
     nonce = header_nonce h, solution = header_solution h, fat_pointer_to_bft_block = header_fat_pointer h\<rparr>"

lemma lrz_header_ok: "Header_ok h \<Longrightarrow> BlockHeaderData_ok (lrz_header h)"
  by (auto simp: Header_ok_def lrz_header_def BlockHeaderData_ok_def SOLUTION_SIZE_def REGTEST_SOLUTION_SIZE_def MAX_COMPACT_SIZE_def)

lemma Header_serialize_5:
  "Header_ok h \<Longrightarrow> 5 \<le> logical_version (header_version h) \<Longrightarrow> Header_zcash_serialize h = ok (write_data (lrz_header h))"
  by (simp add: Header_ok_def Header_zcash_serialize_def timestamp_u32_def write_data_def lrz_header_def)

lemma Header_serialize_4:
  assumes "Header_ok h" and "\<not> 5 \<le> logical_version (header_version h)"
  shows "\<exists>bytes. Header_zcash_serialize h = ok bytes \<and> write_data (lrz_header h) = bytes @ FatPointer_zcash_serialize FatPointer_null"
  using assms by (simp add: Header_ok_def Header_zcash_serialize_def timestamp_u32_def write_data_def lrz_header_def)

lemma Header_dec_enc:
  assumes "Header_ok h" and "Header_zcash_serialize h = ok bytes"
  shows "Header_zcash_deserialize (bytes @ rest) = Some (h, rest)"
proof (cases "5 \<le> logical_version (header_version h)")
  case True
  with assms show ?thesis by (cases h) (auto simp: Header_ok_def Header_zcash_serialize_def Header_zcash_deserialize_def
        timestamp_u32_def codec_simps fpc.dec_enc)
next
  case False
  with assms show ?thesis by (cases h) (auto simp: Header_ok_def Header_zcash_serialize_def Header_zcash_deserialize_def
        timestamp_u32_def codec_simps)
qed

lemma Header_serialize_total: "Header_ok h \<Longrightarrow> \<exists>bytes. Header_zcash_serialize h = ok bytes"
  by (auto simp: Header_ok_def Header_zcash_serialize_def timestamp_u32_def)

interpretation powc: codec "\<lambda>h. projr (the (Header_zcash_serialize h))" Header_zcash_deserialize Header_ok
proof unfold_locales
  fix h rest assume h: "Header_ok h"
  obtain bytes where "Header_zcash_serialize h = ok bytes" using Header_serialize_total [OF h] by blast
  with Header_dec_enc [OF h this, of rest]
  show "Header_zcash_deserialize (projr (the (Header_zcash_serialize h)) @ rest) = Some (h, rest)" by (simp add: ok_def)
qed

lemma read_data_short:
  assumes "read_data bytes = Some x" and "write_data d = bytes @ rest" and "BlockHeaderData_ok d"
  shows "rest = []"
proof -
  obtain d' buf where "bytes = write_data d' @ buf" "BlockHeaderData_ok d'"
    using assms(1) by (cases x) (auto simp: hdrc.dec_iff)
  with assms(2,3) hdrc.enc_prefix_free [of d d' "[]" "buf @ rest"] show ?thesis by simp
qed

text \<open>C34: a header of the chain is read back from its bytes, and the header that a BFT block carries for it has the
  same previous hash, the same fat pointer and the same hash, so that the hash which the finalizers decide is
  the hash under which the chain has the block. A header of version 4, which has no fat pointer in its
  bytes, cannot be converted: the conversion panics.\<close>

theorem pow_header_hash_agrees:
  assumes "Header_ok h"
  shows "\<exists>bytes. Header_zcash_serialize h = ok bytes \<and> Header_zcash_deserialize (bytes @ rest) = Some (h, rest) \<and>
    (if 5 \<le> logical_version (header_version h)
     then \<exists>d. bc_hdr_to_lrz h = Some d \<and> BlockHeaderData_ok d \<and> prev_block d = header_previous h \<and>
       fat_pointer_to_bft_block d = header_fat_pointer h \<and> Header_hash sha256 h = Some (from_header_data sha256 d)
     else bc_hdr_to_lrz h = None)"
proof (cases "5 \<le> logical_version (header_version h)")
  case True
  note s = Header_serialize_5 [OF assms True]
  have "bc_hdr_to_lrz h = Some (lrz_header h)"
    using s hdrc.dec_enc [OF lrz_header_ok [OF assms], of "[]"] by (simp add: bc_hdr_to_lrz_def ok_def)
  with True s lrz_header_ok [OF assms] Header_dec_enc [OF assms s, of rest] show ?thesis
    by (simp add: Header_hash_def from_header_data_def lrz_header_def)
next
  case False
  obtain bytes where b: "Header_zcash_serialize h = ok bytes"
      "write_data (lrz_header h) = bytes @ FatPointer_zcash_serialize FatPointer_null"
    using Header_serialize_4 [OF assms False] by blast
  have "read_data bytes = None"
    using read_data_short [OF _ b(2) lrz_header_ok [OF assms]]
    by (cases "read_data bytes") (auto simp: FatPointer_zcash_serialize_def FatPointer_null_def)
  with b(1) False Header_dec_enc [OF assms b(1), of rest] show ?thesis by (simp add: bc_hdr_to_lrz_def ok_def)
qed

definition pow_header :: "u32 \<Rightarrow> Header" where
  "pow_header version = \<lparr>header_version = version, header_previous = replicate 32 1, header_merkle_root = replicate 32 2,
     header_commitment = replicate 32 3, header_time = 1700000000, header_threshold = 0x1f07ffff, header_nonce = replicate 32 4,
     header_solution = replicate 36 5, header_fat_pointer = FatPointer_null\<rparr>"

lemma pow_header_ok: "Header_ok (pow_header 5)" "Header_ok (pow_header 4)"
  by (auto simp: Header_ok_def pow_header_def check_version_def ZCASH_BLOCK_VERSION_def REGTEST_SOLUTION_SIZE_def
      FatPointer_null_def FatPointer_ok_def drop_bit_eq_div)

theorem pow_header_hash_agrees_witness:
  "(\<exists>d. bc_hdr_to_lrz (pow_header 5) = Some d \<and> Header_hash (\<lambda>_. [9]) (pow_header 5) = Some (from_header_data (\<lambda>_. [9]) d)) \<and>
   bc_hdr_to_lrz (pow_header 4) = None"
proof -
  have v: "5 \<le> logical_version (header_version (pow_header 5))" "\<not> 5 \<le> logical_version (header_version (pow_header 4))"
    by (simp_all add: pow_header_def logical_version_def)
  from pow_header_hash_agrees [OF pow_header_ok(1), of "[]" "\<lambda>_. [9]"] v(1)
    pow_header_hash_agrees [OF pow_header_ok(2), of "[]" "\<lambda>_. [9]"] v(2)
  show ?thesis by (simp only: if_True if_False) blast
qed

end
