(* ===== verification/Chain_Find.thy ===== *)
theory Chain_Find
  imports Chain_Reads
begin

text \<open>
  Finding blocks for peers, \<^verbatim>\<open>zebra-state/src/service/read/find.rs\<close>: the block locator of a node, the
  intersection with the locator of a peer, and the hashes or headers that follow the intersection.
\<close>

section \<open>Definitions\<close>

definition MAX_BLOCK_REORG_HEIGHT :: u32 where "MAX_BLOCK_REORG_HEIGHT = 100 - 1"

definition read_hash_by_height :: "Chain option \<Rightarrow> ZebraDb \<Rightarrow> u32 \<Rightarrow> bytes option" where
  "read_hash_by_height chain db height =
     or_else (do { c \<leftarrow> chain; chain_hash_by_height height c }) (db_hash db height)"

definition chain_contains_hash :: "Chain option \<Rightarrow> ZebraDb \<Rightarrow> bytes \<Rightarrow> bool" where
  "chain_contains_hash chain db hash \<longleftrightarrow>
     (case chain of Some c \<Rightarrow> Mapping.lookup (height_by_hash c) hash \<noteq> None | None \<Rightarrow> False) \<or> contains_hash db hash"

text \<open>The depth of a block is a plain subtraction.\<close>

definition depth :: "Chain option \<Rightarrow> ZebraDb \<Rightarrow> bytes \<Rightarrow> u32 option rust" where
  "depth chain db hash = do {
     tip \<leftarrow> read_tip_height chain db;
     (case tip of
        None \<Rightarrow> Some None
      | Some tip \<Rightarrow> (case read_height_by_hash chain db hash of
            None \<Rightarrow> Some None
          | Some height \<Rightarrow> do { rassert (height \<le> tip); Some (Some (tip - height)) })) }"

subsection \<open>Block locators\<close>

text \<open>The steps double until they leave 32 bits; a step past genesis gives no height.\<close>

definition locator_steps :: "u32 list" where
  "locator_steps = map (\<lambda>i. 2 ^ i) [0..<32]"

definition block_locator_heights :: "u32 \<Rightarrow> u32 list" where
  "block_locator_heights tip_height =
    (let min_locator_height = (if MAX_BLOCK_REORG_HEIGHT \<le> tip_height then tip_height - MAX_BLOCK_REORG_HEIGHT else 0);
       exponential_locators = map (\<lambda>step. tip_height - step) (filter (\<lambda>step. step \<le> tip_height) locator_steps)
     in takeWhile (\<lambda>height. height > min_locator_height) (tip_height # exponential_locators) @ [min_locator_height])"

definition block_locator :: "Chain option \<Rightarrow> ZebraDb \<Rightarrow> bytes list option rust" where
  "block_locator chain db = do {
     tip \<leftarrow> read_tip_height chain db;
     Some (map_option (\<lambda>tip_height.
       List.map_filter (read_hash_by_height chain db) (block_locator_heights tip_height)) tip) }"

subsection \<open>Hashes and headers after the intersection\<close>

definition find_chain_intersection :: "Chain option \<Rightarrow> ZebraDb \<Rightarrow> bytes list \<Rightarrow> bytes option" where
  "find_chain_intersection chain db known_blocks =
     (if chain = None \<and> db_is_empty db then None else find (chain_contains_hash chain db) known_blocks)"

text \<open>The heights from a first one to a last one, both included; none when they cross.\<close>

definition height_range :: "u32 \<Rightarrow> u32 \<Rightarrow> u32 list" where
  "height_range start final = map of_nat [unat start..<Suc (unat final)]"

definition u32_add :: "u32 \<Rightarrow> u32 \<Rightarrow> u32 rust" where
  "u32_add a b = do { rassert (unat a + unat b < 2 ^ 32); Some (a + b) }"

definition find_chain_height_range ::
  "Chain option \<Rightarrow> ZebraDb \<Rightarrow> bytes option \<Rightarrow> bytes option \<Rightarrow> u32 \<Rightarrow> u32 list rust" where
  "find_chain_height_range chain db intersection stop max_len = do {
     rassert (max_len > 0);
     tip \<leftarrow> read_tip_height chain db;
     (case tip of None \<Rightarrow> Some [] | Some chain_tip_height \<Rightarrow>
       (case map_option (read_height_by_hash chain db) intersection of
          Some None \<Rightarrow> Some []
        | intersection_height \<Rightarrow> do {
            (start_height, max_height) \<leftarrow> (case intersection_height of
                Some (Some height) \<Rightarrow> do {
                  start_height \<leftarrow> u32_add height 1;
                  max_height \<leftarrow> u32_add height max_len;
                  Some (start_height, max_height) }
              | _ \<Rightarrow> Some (0, max_len - 1));
            let stop_height = Option.bind stop (read_height_by_hash chain db);
            let final_height = min max_height chain_tip_height;
            let final_height = (case stop_height of Some stop_height \<Rightarrow> min final_height stop_height | None \<Rightarrow> final_height);
            let range = height_range start_height final_height;
            rassert (length range \<le> unat max_len);
            Some range })) }"

fun map_while :: "('a \<Rightarrow> 'b option) \<Rightarrow> 'a list \<Rightarrow> 'b list" where
  "map_while f [] = []"
| "map_while f (x # xs) = (case f x of None \<Rightarrow> [] | Some y \<Rightarrow> y # map_while f xs)"

definition collect_chain_hashes ::
  "Chain option \<Rightarrow> ZebraDb \<Rightarrow> bytes option \<Rightarrow> bytes option \<Rightarrow> u32 \<Rightarrow> bytes list rust" where
  "collect_chain_hashes chain db intersection stop max_len = do {
     range \<leftarrow> find_chain_height_range chain db intersection stop max_len;
     let hashes = map_while (read_hash_by_height chain db) range;
     rassert (case intersection of Some hash \<Rightarrow> hash \<notin> set hashes | None \<Rightarrow> True);
     rassert (case stop of Some stop \<Rightarrow> hashes \<noteq> [] \<longrightarrow> stop \<notin> set (butlast hashes) | None \<Rightarrow> True);
     Some hashes }"

definition collect_chain_headers ::
  "Chain option \<Rightarrow> ZebraDb \<Rightarrow> bytes option \<Rightarrow> bytes option \<Rightarrow> u32 \<Rightarrow> Header list rust" where
  "collect_chain_headers chain db intersection stop max_len = do {
     range \<leftarrow> find_chain_height_range chain db intersection stop max_len;
     Some (map_while (\<lambda>height. read_block_header chain db (Height height)) range) }"

definition find_chain_hashes ::
  "Chain option \<Rightarrow> ZebraDb \<Rightarrow> bytes list \<Rightarrow> bytes option \<Rightarrow> u32 \<Rightarrow> bytes list rust" where
  "find_chain_hashes chain db known_blocks stop max_len =
     collect_chain_hashes chain db (find_chain_intersection chain db known_blocks) stop max_len"

definition find_chain_headers ::
  "Chain option \<Rightarrow> ZebraDb \<Rightarrow> bytes list \<Rightarrow> bytes option \<Rightarrow> u32 \<Rightarrow> Header list rust" where
  "find_chain_headers chain db known_blocks stop max_len =
     collect_chain_headers chain db (find_chain_intersection chain db known_blocks) stop max_len"

section \<open>Block locators\<close>

lemma locator_steps_sorted: "sorted_wrt (<) locator_steps"
  by code_simp

lemma sorted_wrt_takeWhile: "sorted_wrt P xs \<Longrightarrow> sorted_wrt P (takeWhile Q xs)"
  by (induction xs) (auto dest: set_takeWhileD)

lemma locator_step_pos: "step \<in> set locator_steps \<Longrightarrow> 0 < step"
proof -
  have "list_all (\<lambda>step. 0 < step) locator_steps" by code_simp
  then show "step \<in> set locator_steps \<Longrightarrow> 0 < step" by (simp add: list_all_iff)
qed

lemma sub_less_word: "(a::'a::len word) < b \<Longrightarrow> b \<le> t \<Longrightarrow> t - b < t - a"
  by (simp add: word_less_nat_alt word_le_nat_alt unat_sub)

lemma sub_less_self_word: "(0::'a::len word) < b \<Longrightarrow> b \<le> t \<Longrightarrow> t - b < t"
  using sub_less_word [of 0 b t] by simp

lemma exponential_descending:
  "sorted_wrt (<) steps \<Longrightarrow>
     sorted_wrt (>) (map (\<lambda>step. (tip::u32) - step) (filter (\<lambda>step. step \<le> tip) steps))"
  by (induction steps) (auto simp: sub_less_word)

lemma min_locator_height:
  "unat (if MAX_BLOCK_REORG_HEIGHT \<le> tip then tip - MAX_BLOCK_REORG_HEIGHT else (0::u32)) = unat tip - 99"
  by (auto simp: MAX_BLOCK_REORG_HEIGHT_def word_le_nat_alt unat_sub)

text \<open>A block locator starts at the tip, goes strictly down, and ends 99 blocks below the tip, or at
genesis when the chain is shorter.\<close>

theorem block_locator_heights_spec:
  "sorted_wrt (>) (block_locator_heights tip) \<and> hd (block_locator_heights tip) = tip \<and>
   unat (last (block_locator_heights tip)) = unat tip - 99"
proof -
  define m :: u32 where "m = (if MAX_BLOCK_REORG_HEIGHT \<le> tip then tip - MAX_BLOCK_REORG_HEIGHT else 0)"
  define xs where "xs = tip # map (\<lambda>step. tip - step) (filter (\<lambda>step. step \<le> tip) locator_steps)"
  have eq: "block_locator_heights tip = takeWhile (\<lambda>height. height > m) xs @ [m]"
    by (simp add: block_locator_heights_def m_def xs_def Let_def)
  have m: "unat m = unat tip - 99" by (simp only: m_def min_locator_height)
  have "sorted_wrt (>) xs"
    using exponential_descending [OF locator_steps_sorted, of tip]
    by (auto simp: xs_def intro!: sub_less_self_word locator_step_pos)
  then have "sorted_wrt (>) (block_locator_heights tip)"
    by (auto simp: eq sorted_wrt_append sorted_wrt_takeWhile dest: set_takeWhileD)
  moreover have "hd (block_locator_heights tip) = tip"
  proof (cases "m < tip")
    case False
    with m have "unat tip = unat m" by (auto simp: word_less_nat_alt)
    with False show ?thesis by (auto simp: eq xs_def word_unat_eq_iff)
  qed (simp add: eq xs_def)
  ultimately show ?thesis by (simp add: eq m)
qed

section \<open>Find responses\<close>

text \<open>
  A state is consistent when the blocks that it finds by hash are those that it finds by height, and
  these are the blocks up to the tip.
\<close>

definition consistent_reads :: "Chain option \<Rightarrow> ZebraDb \<Rightarrow> u32 \<Rightarrow> bool" where
  "consistent_reads chain db tip \<longleftrightarrow> read_tip_height chain db = Some (Some tip) \<and>
     (\<forall>hash height. read_height_by_hash chain db hash = Some height \<longleftrightarrow> read_hash_by_height chain db height = Some hash) \<and>
     (\<forall>height. read_hash_by_height chain db height \<noteq> None \<longleftrightarrow> height \<le> tip)"

lemma height_range_length [simp]: "length (height_range a b) = Suc (unat b) - unat a"
  by (simp add: height_range_def del: upt_Suc)

lemma height_range_nth:
  assumes "i < length (height_range a b)"
  shows "height_range a b ! i = a + of_nat i"
proof -
  have "i < length [unat a..<Suc (unat b)]" using assms by (simp del: upt_Suc)
  then have "height_range a b ! i = of_nat (unat a + i)"
    unfolding height_range_def by (subst nth_map) (simp_all del: upt_Suc)
  then show ?thesis by simp
qed

lemma height_range_le: "h \<in> set (height_range a b) \<Longrightarrow> a \<le> h \<and> h \<le> b"
proof -
  assume "h \<in> set (height_range a b)"
  then obtain n where n: "h = of_nat n" "unat a \<le> n" "n \<le> unat b" by (auto simp: height_range_def)
  moreover have "n < 2 ^ 32" using n(3) unsigned_less [of b, where ?'a = nat] by simp
  ultimately show ?thesis by (simp add: word_le_nat_alt unat_of_nat)
qed

lemma map_while_all: "(\<And>x. x \<in> set xs \<Longrightarrow> f x \<noteq> None) \<Longrightarrow> map_while f xs = map (\<lambda>x. the (f x)) xs"
  by (induction xs) (force split: option.splits)+

definition first_height :: "Chain option \<Rightarrow> ZebraDb \<Rightarrow> bytes option \<Rightarrow> u32" where
  "first_height chain db intersection =
     (case intersection of None \<Rightarrow> 0 | Some hash \<Rightarrow> the (read_height_by_hash chain db hash) + 1)"

definition final_height :: "Chain option \<Rightarrow> ZebraDb \<Rightarrow> u32 \<Rightarrow> u32 \<Rightarrow> bytes option \<Rightarrow> u32 \<Rightarrow> u32" where
  "final_height chain db tip start stop max_len =
     (let final = min (start + (max_len - 1)) tip in
      case Option.bind stop (read_height_by_hash chain db) of Some height \<Rightarrow> min final height | None \<Rightarrow> final)"

lemma final_height_cases:
  fixes chain db tip start stop max_len
  defines "f \<equiv> final_height chain db tip start stop max_len"
  shows "f = start + (max_len - 1) \<or> f = tip \<or> (\<exists>hash. stop = Some hash \<and> read_height_by_hash chain db hash = Some f)"
  by (cases "Option.bind stop (read_height_by_hash chain db)")
    (auto simp: f_def final_height_def Let_def min_def bind_eq_Some_conv)

lemma word_pred_nat: "0 < (m::u32) \<Longrightarrow> unat (m - 1) = unat m - 1"
  by (simp add: unat_minus_one word_neq_0_conv)

lemma unat_add_of_nat:
  fixes a :: u32
  assumes "unat a + i < 2 ^ 32"
  shows "unat (a + of_nat i) = unat a + i"
proof -
  have "unat (of_nat i :: u32) = i" using assms by (simp add: unat_of_nat)
  then show ?thesis using unat_add_lem [of a "of_nat i"] assms by simp
qed

lemma find_chain_height_range_eq:
  fixes intersection stop :: "bytes option"
  assumes "consistent_reads chain db tip" "0 < max_len" "unat tip + unat max_len < 2 ^ 32"
    and known: "pred_option (\<lambda>hash. read_height_by_hash chain db hash \<noteq> None) intersection"
  defines "start \<equiv> first_height chain db intersection"
  defines "final \<equiv> final_height chain db tip start stop max_len"
  shows "find_chain_height_range chain db intersection stop max_len = Some (height_range start final)"
    and "final \<le> tip" "Suc (unat final) - unat start \<le> unat max_len"
    and "unat start \<le> Suc (unat tip)"
    and "\<And>hash h. intersection = Some hash \<Longrightarrow> read_height_by_hash chain db hash = Some h \<Longrightarrow> unat start = Suc (unat h)"
    and "unat (start + (max_len - 1)) = unat start + (unat max_len - 1)"
proof -
  have tip: "read_tip_height chain db = Some (Some tip)"
    and le: "read_height_by_hash chain db hash = Some h \<Longrightarrow> h \<le> tip" for hash h
    using assms(1) by (auto simp: consistent_reads_def)
  show eq: "unat start = Suc (unat h)"
    if "intersection = Some hash" "read_height_by_hash chain db hash = Some h" for hash h
  proof -
    have "unat h + 1 < 2 ^ 32" using le [OF that(2)] assms(2,3) by (simp add: word_le_nat_alt word_less_nat_alt)
    then have "unat (h + 1) = Suc (unat h)" using unat_add_of_nat [of h 1] by simp
    with that show ?thesis by (simp add: start_def first_height_def)
  qed
  show start: "unat start \<le> Suc (unat tip)"
  proof (cases intersection)
    case (Some hash)
    with known obtain h where h: "read_height_by_hash chain db hash = Some h" by auto
    from eq [OF Some h] le [OF h] show ?thesis by (simp add: word_le_nat_alt)
  qed (simp add: start_def first_height_def)
  have "unat start + unat (max_len - 1) < 2 ^ 32"
    using start assms(2,3) by (simp add: word_pred_nat word_less_nat_alt)
  then have "unat (start + (max_len - 1)) = unat start + unat (max_len - 1)"
    using unat_add_lem [of start "max_len - 1"] by simp
  then show m: "unat (start + (max_len - 1)) = unat start + (unat max_len - 1)"
    using assms(2) by (simp add: word_pred_nat)
  have "final \<le> start + (max_len - 1) \<and> final \<le> tip"
    by (auto simp: final_def final_height_def Let_def min_le_iff_disj split: option.splits)
  then show tip_le: "final \<le> tip" and len: "Suc (unat final) - unat start \<le> unat max_len"
    using m assms(2) by (auto simp: word_le_nat_alt word_less_nat_alt)
  show "find_chain_height_range chain db intersection stop max_len = Some (height_range start final)"
  proof (cases intersection)
    case None
    then have "start = 0" by (simp add: start_def first_height_def)
    with None tip assms(2) len show ?thesis
      by (simp add: find_chain_height_range_def final_def final_height_def Let_def rassert_def)
  next
    case (Some hash)
    with known obtain h where h: "read_height_by_hash chain db hash = Some h" by auto
    have s: "start = h + 1" using Some h by (simp add: start_def first_height_def)
    have "unat h + unat max_len < 2 ^ 32" "unat h + 1 < 2 ^ 32"
      using le [OF h] assms(2,3) by (simp_all add: word_le_nat_alt word_less_nat_alt)
    moreover have "h + 1 + (max_len - 1) = h + max_len" by simp
    ultimately show ?thesis
      using Some h s tip assms(2) len
      by (simp add: find_chain_height_range_def final_def final_height_def Let_def rassert_def u32_add_def)
  qed
qed



definition find_db :: ZebraDb where
  "find_db = (new_db Mainnet)\<lparr>hash_by_height := [(0, [10]), (1, [11])],
     db_height_by_hash := Mapping.update [10] 0 (Mapping.update [11] 1 Mapping.empty)\<rparr>"

definition find_chain_2 :: Chain where
  "find_chain_2 = (empty_chain Mainnet vb_zero [])\<lparr>blocks := [(2, coinbase_block 2 [12] [3] [4])],
     height_by_hash := Mapping.update [12] 2 Mapping.empty\<rparr>"

lemma find_reads:
  "read_tip_height (Some find_chain_2) find_db = Some (Some 2)"
  "read_height_by_hash (Some find_chain_2) find_db hash =
     (if hash = [12] then Some 2 else if hash = [10] then Some 0 else if hash = [11] then Some 1 else None)"
  "read_hash_by_height (Some find_chain_2) find_db height =
     (if height = 2 then Some [12] else if height = 0 then Some [10] else if height = 1 then Some [11] else None)"
  by (simp_all add: read_tip_height_def read_tip_def non_finalized_tip_def non_finalized_tip_height_def max_block_height_def
      non_finalized_tip_hash_def find_chain_2_def coinbase_block_def read_height_by_hash_def or_else_def
      chain_height_by_hash_def db_height_def find_db_def read_hash_by_height_def chain_hash_by_height_def
      db_hash_def lookup_update' empty_chain_def new_db_def)

lemma word_le_2: "(h::u32) \<le> 2 \<longleftrightarrow> h = 0 \<or> h = 1 \<or> h = 2"
proof -
  have "h \<le> 2 \<longleftrightarrow> unat h \<le> 2" by (simp add: word_le_nat_alt)
  also have "\<dots> \<longleftrightarrow> unat h = 0 \<or> unat h = 1 \<or> unat h = 2" by auto
  also have "\<dots> \<longleftrightarrow> h = 0 \<or> h = 1 \<or> h = 2" by (auto simp: word_unat_eq_iff)
  finally show ?thesis .
qed



end
