(* ===== verification/Non_Finalized_State.thy ===== *)
theory Non_Finalized_State
  imports Chain_Find Finalized_State
begin

text \<open>
  The set of non-finalized chains, \<^verbatim>\<open>zebra-state/src/service/non_finalized_state.rs\<close>, with the iterator over
  the ancestors of a block, \<^verbatim>\<open>block_iter.rs\<close>, and the first check of a block, in \<^verbatim>\<open>check.rs\<close>. The chains are in
  the ascending order of \<^verbatim>\<open>Chain::cmp\<close>, the best chain is the last. Committing a block pushes it on the chain
  with its parent at the tip, on a fork of a chain that has its parent, or on a new chain over the
  finalized tip. Metrics and progress bars are left out. The lemmas show that every operation keeps
  the chains in order and at most ten, and the two ways in which the set stops the node.
\<close>

section \<open>Definitions\<close>

record NonFinalizedState =
  chain_set :: "Chain list"
  invalidated_blocks :: "(u32 \<times> ContextuallyVerifiedBlock list) list"
  nfs_network :: Network

definition NonFinalizedState_new :: "Network \<Rightarrow> NonFinalizedState" where
  "NonFinalizedState_new network = \<lparr>chain_set = [], invalidated_blocks = [], nfs_network = network\<rparr>"

definition MAX_NON_FINALIZED_CHAIN_FORKS :: nat where "MAX_NON_FINALIZED_CHAIN_FORKS = 10"

definition MAX_INVALIDATED_BLOCKS :: nat where "MAX_INVALIDATED_BLOCKS = 100"

datatype ReconsiderError =
    MissingInvalidatedBlock bytes
  | ParentChainNotFound bytes
  | InvalidatedBlocksEmpty
  | ValidationError ValidateContextError

subsection \<open>Ordered sets of chains\<close>

text \<open>
  A \<^verbatim>\<open>BTreeSet\<close> of at most eleven chains is one node, searched from its smallest element. An element
  that compares as equal cannot be found: the order of two chains with the same tip is a panic.
\<close>

fun chain_set_insert :: "Chain \<Rightarrow> Chain list \<Rightarrow> Chain list rust" where
  "chain_set_insert c [] = Some [c]"
| "chain_set_insert c (d # ds) = do {
     less \<leftarrow> chain_less c d;
     if less then Some (c # d # ds) else do { ds \<leftarrow> chain_set_insert c ds; Some (d # ds) } }"

fun chain_set_remove :: "Chain \<Rightarrow> Chain list \<Rightarrow> Chain list rust" where
  "chain_set_remove c [] = Some []"
| "chain_set_remove c (d # ds) = do {
     less \<leftarrow> chain_less c d;
     if less then Some (d # ds) else do { ds \<leftarrow> chain_set_remove c ds; Some (d # ds) } }"

text \<open>\<^verbatim>\<open>retain\<close>, \<^verbatim>\<open>find\<close> and \<^verbatim>\<open>find_map\<close> with closures that may panic.\<close>

fun retain :: "('a \<Rightarrow> bool rust) \<Rightarrow> 'a list \<Rightarrow> 'a list rust" where
  "retain P [] = Some []"
| "retain P (x # xs) = do {
     keep \<leftarrow> P x;
     xs \<leftarrow> retain P xs;
     Some (if keep then x # xs else xs) }"

fun find_first :: "('a \<Rightarrow> bool rust) \<Rightarrow> 'a list \<Rightarrow> 'a option rust" where
  "find_first P [] = Some None"
| "find_first P (x # xs) = do { found \<leftarrow> P x; if found then Some (Some x) else find_first P xs }"

fun find_map :: "('a \<Rightarrow> 'b option rust) \<Rightarrow> 'a list \<Rightarrow> 'b option rust" where
  "find_map f [] = Some None"
| "find_map f (x # xs) = do {
     y \<leftarrow> f x;
     (case y of Some y \<Rightarrow> Some (Some y) | None \<Rightarrow> find_map f xs) }"

definition insert_with ::
  "Chain \<Rightarrow> (Chain list \<Rightarrow> Chain list rust) \<Rightarrow> NonFinalizedState \<Rightarrow> NonFinalizedState rust" where
  "insert_with chain chain_filter s = do {
     cs \<leftarrow> chain_set_insert chain (chain_set s);
     cs \<leftarrow> chain_filter cs;
     Some (s\<lparr>chain_set := drop (length cs - MAX_NON_FINALIZED_CHAIN_FORKS) cs\<rparr>) }"

definition nfs_insert :: "Chain \<Rightarrow> NonFinalizedState \<Rightarrow> NonFinalizedState rust" where
  "nfs_insert chain s = insert_with chain Some s"

subsection \<open>Reads\<close>

definition chain_iter :: "NonFinalizedState \<Rightarrow> Chain list" where
  "chain_iter s = rev (chain_set s)"

definition best_chain :: "NonFinalizedState \<Rightarrow> Chain option" where
  "best_chain s = (case chain_iter s of [] \<Rightarrow> None | c # _ \<Rightarrow> Some c)"

definition chain_count :: "NonFinalizedState \<Rightarrow> nat" where
  "chain_count s = length (chain_set s)"

definition best_chain_len :: "NonFinalizedState \<Rightarrow> u32 option" where
  "best_chain_len s = map_option (\<lambda>c. word_of_nat (length (blocks c))) (best_chain s)"

definition root_height :: "NonFinalizedState \<Rightarrow> u32 option rust" where
  "root_height s = (case best_chain s of
       None \<Rightarrow> Some None
     | Some c \<Rightarrow> map_option Some (non_finalized_root_height c))"

definition any_chain_contains :: "NonFinalizedState \<Rightarrow> bytes \<Rightarrow> bool" where
  "any_chain_contains s hash = list_ex (contains_block_hash hash) (chain_iter s)"

definition find_chain :: "(Chain \<Rightarrow> bool rust) \<Rightarrow> NonFinalizedState \<Rightarrow> Chain option rust" where
  "find_chain predicate s = find_first predicate (chain_iter s)"

definition any_utxo :: "NonFinalizedState \<Rightarrow> outpoint \<Rightarrow> OrderedUtxo option rust" where
  "any_utxo s p = find_map (\<lambda>c. Some (created_utxo p c)) (chain_iter s)"

definition any_block_by_hash :: "NonFinalizedState \<Rightarrow> bytes \<Rightarrow> ContextuallyVerifiedBlock option rust" where
  "any_block_by_hash s hash = find_map (\<lambda>c. Some (do {
     height \<leftarrow> Mapping.lookup (height_by_hash c) hash;
     map_of (blocks c) height })) (chain_iter s)"

definition any_prev_block_hash_for_hash :: "NonFinalizedState \<Rightarrow> bytes \<Rightarrow> bytes option rust" where
  "any_prev_block_hash_for_hash s hash =
     map_option (map_option (\<lambda>b. header_previous (cv_header b))) (any_block_by_hash s hash)"

definition best_hash :: "NonFinalizedState \<Rightarrow> u32 \<Rightarrow> bytes option" where
  "best_hash s height = do { c \<leftarrow> best_chain s; map_option cv_hash (map_of (blocks c) height) }"

definition best_tip :: "NonFinalizedState \<Rightarrow> (u32 \<times> bytes) option rust" where
  "best_tip s = (case best_chain s of
       None \<Rightarrow> Some None
     | Some c \<Rightarrow> map_option Some (non_finalized_tip c))"

definition best_tip_block :: "NonFinalizedState \<Rightarrow> ContextuallyVerifiedBlock option" where
  "best_tip_block s = do { c \<leftarrow> best_chain s; tip_block c }"

definition best_height_by_hash :: "NonFinalizedState \<Rightarrow> bytes \<Rightarrow> u32 option" where
  "best_height_by_hash s hash = do { c \<leftarrow> best_chain s; Mapping.lookup (height_by_hash c) hash }"

definition any_height_by_hash :: "NonFinalizedState \<Rightarrow> bytes \<Rightarrow> u32 option rust" where
  "any_height_by_hash s hash = find_map (\<lambda>c. Some (Mapping.lookup (height_by_hash c) hash)) (chain_iter s)"

definition best_contains_sprout_nullifier :: "NonFinalizedState \<Rightarrow> bytes \<Rightarrow> bool" where
  "best_contains_sprout_nullifier s n = (case best_chain s of
       None \<Rightarrow> False | Some c \<Rightarrow> Mapping.lookup (sprout_nullifiers c) n \<noteq> None)"

definition best_contains_sapling_nullifier :: "NonFinalizedState \<Rightarrow> bytes \<Rightarrow> bool" where
  "best_contains_sapling_nullifier s n = (case best_chain s of
       None \<Rightarrow> False | Some c \<Rightarrow> Mapping.lookup (sapling_nullifiers c) n \<noteq> None)"

definition best_contains_orchard_nullifier :: "NonFinalizedState \<Rightarrow> bytes \<Rightarrow> bool" where
  "best_contains_orchard_nullifier s n = (case best_chain s of
       None \<Rightarrow> False | Some c \<Rightarrow> Mapping.lookup (orchard_nullifiers c) n \<noteq> None)"

definition tip_is :: "bytes \<Rightarrow> Chain \<Rightarrow> bool rust" where
  "tip_is hash c = map_option (\<lambda>h. h = hash) (non_finalized_tip_hash c)"

definition parent_chain :: "NonFinalizedState \<Rightarrow> bytes \<Rightarrow> (ValidateContextError, Chain) result" where
  "parent_chain s parent_hash = do {
     chain \<leftarrow> find_chain (tip_is parent_hash) s;
     (case chain of
        Some chain \<Rightarrow> ok chain
      | None \<Rightarrow> do {
          fork_chain \<leftarrow> find_map (\<lambda>chain. fork chain parent_hash) (chain_iter s);
          (case fork_chain of None \<Rightarrow> err NotReadyToBeCommitted | Some fork_chain \<Rightarrow> ok fork_chain) }) }"

subsection \<open>Ancestors of a block\<close>

text \<open>
  The iterator starts at a height, reads the chain and then the database, drops the chain below its
  root, and ends at the genesis block or at the first block that is missing.
\<close>

fun ancestor_iter :: "nat \<Rightarrow> Chain option \<Rightarrow> ZebraDb \<Rightarrow> u32 option \<Rightarrow> (Header \<times> Transaction list) list" where
  "ancestor_iter 0 chain db height = []"
| "ancestor_iter (Suc n) chain db height = (case height of
       None \<Rightarrow> []
     | Some current_height \<Rightarrow> (case read_block chain db (Height current_height) of
         None \<Rightarrow> []
       | Some item \<Rightarrow>
           let height = height_previous current_height;
             chain = (case (chain, height) of
                 (Some c, Some h) \<Rightarrow> if contains_block_height h c then Some c else None
               | _ \<Rightarrow> None)
           in item # ancestor_iter n chain db height))"

definition any_ancestor_blocks :: "NonFinalizedState \<Rightarrow> ZebraDb \<Rightarrow> bytes \<Rightarrow> (Header \<times> Transaction list) list rust" where
  "any_ancestor_blocks s db hash = do {
     chain \<leftarrow> find_chain (\<lambda>c. Some (contains_block_hash hash c)) s;
     let height = read_height_by_hash chain db hash;
     Some (ancestor_iter (case height of None \<Rightarrow> 0 | Some h \<Rightarrow> unat h + 1) chain db height) }"

definition initial_contextual_validity ::
  "ZebraDb \<Rightarrow> NonFinalizedState \<Rightarrow> SemanticallyVerifiedBlock \<Rightarrow> (ValidateContextError, unit) result" where
  "initial_contextual_validity db s b = do {
     relevant_chain \<leftarrow> any_ancestor_blocks s db (header_previous (sv_header b));
     tryr (block_is_valid_for_recent_chain b (nfs_network s) (finalized_tip_height db) relevant_chain) (\<lambda>_.
     tryr (no_duplicates_in_finalized_chain (sv_transactions b) db) (\<lambda>_. ok ())) }"

subsection \<open>Committing blocks\<close>

definition validate_and_update_parallel ::
  "TreeLib \<Rightarrow> Chain \<Rightarrow> ContextuallyVerifiedBlock \<Rightarrow> (bytes, tree) mapping \<Rightarrow> (ValidateContextError, Chain) result" where
  "validate_and_update_parallel lib new_chain contextual sprout_final_treestates = do {
     history_t \<leftarrow> history_block_commitment_tree new_chain;
     block_commitment_result \<leftarrow> block_commitment_is_valid_for_chain_history lib (cv_header contextual)
       (cv_transactions contextual) (cv_hash contextual) (chain_network new_chain) history_t;
     sprout_anchor_result \<leftarrow> block_sprout_anchors_refer_to_treestates lib sprout_final_treestates
       (cv_transactions contextual) (cv_transaction_hashes contextual) (cv_height contextual);
     chain_push_result \<leftarrow> push lib new_chain contextual;
     tryr (Some block_commitment_result) (\<lambda>_.
     tryr (Some sprout_anchor_result) (\<lambda>_.
     Some chain_push_result)) }"

definition validate_and_commit ::
  "TreeLib \<Rightarrow> NonFinalizedState \<Rightarrow> Chain \<Rightarrow> SemanticallyVerifiedBlock \<Rightarrow> ZebraDb \<Rightarrow> (ValidateContextError, Chain) result" where
  "validate_and_commit lib s new_chain prepared db =
     (if map_of (invalidated_blocks s) (sv_height prepared) \<noteq> None
      then err (BlockPreviouslyInvalidated (sv_hash prepared))
      else
        tryr (transparent_spend prepared (unspent_utxos new_chain) (spent_utxos new_chain) db) (\<lambda>spent_utxos.
        tryr (validate_delegation_bonds (sv_height prepared) (sv_transactions prepared) new_chain db) (\<lambda>_.
        tryr (block_sapling_orchard_anchors_refer_to_final_treestates db new_chain prepared) (\<lambda>_.
        let sprout_final_treestates = block_fetch_sprout_final_treestates db new_chain prepared in
        tryr (map_err (\<lambda>e. CalculateBlockChainValueChange e (sv_height prepared) (sv_hash prepared)
            (length (sv_transactions prepared)) (Mapping.size spent_utxos))
          (with_block_and_spent_utxos prepared spent_utxos)) (\<lambda>contextual.
        validate_and_update_parallel lib new_chain contextual sprout_final_treestates)))))"

definition chain_at_finalized_tip :: "TreeLib \<Rightarrow> NonFinalizedState \<Rightarrow> u32 \<Rightarrow> ZebraDb \<Rightarrow> Chain rust" where
  "chain_at_finalized_tip lib s tip_height db = do {
     sprout_t \<leftarrow> sprout_tree_for_tip lib db;
     sapling_t \<leftarrow> sapling_tree_for_tip lib db;
     orchard_t \<leftarrow> orchard_tree_for_tip lib db;
     Chain_new lib (nfs_network s) tip_height sprout_t sapling_t orchard_t (finalized_history_tree lib db)
       (finalized_value_pool db) (all_bonds db) }"

definition commit_new_chain ::
  "TreeLib \<Rightarrow> NonFinalizedState \<Rightarrow> SemanticallyVerifiedBlock \<Rightarrow> ZebraDb \<Rightarrow> (ValidateContextError, NonFinalizedState) result" where
  "commit_new_chain lib s prepared db = do {
     tip_height \<leftarrow> finalized_tip_height db;
     chain \<leftarrow> chain_at_finalized_tip lib s tip_height db;
     tryr (validate_and_commit lib s chain prepared db) (\<lambda>chain. do {
       s \<leftarrow> nfs_insert chain s;
       ok s }) }"

definition commit_block ::
  "TreeLib \<Rightarrow> NonFinalizedState \<Rightarrow> SemanticallyVerifiedBlock \<Rightarrow> ZebraDb \<Rightarrow> (ValidateContextError, NonFinalizedState) result" where
  "commit_block lib s prepared db =
    (let parent_hash = header_previous (sv_header prepared) in
     tryr (parent_chain s parent_hash) (\<lambda>chain.
     tryr (validate_and_commit lib s chain prepared db) (\<lambda>modified_chain. do {
       s \<leftarrow> insert_with modified_chain (retain (\<lambda>c. map_option Not (tip_is parent_hash c))) s;
       ok s })))"

subsection \<open>Finalizing\<close>

fun finalize_side_chains ::
  "bytes \<Rightarrow> Chain list \<Rightarrow> NonFinalizedState \<Rightarrow> NonFinalizedState rust" where
  "finalize_side_chains root_hash [] s = Some s"
| "finalize_side_chains root_hash (side_chain # rest) s = do {
     side_root \<leftarrow> non_finalized_root_hash side_chain;
     if side_root \<noteq> root_hash then finalize_side_chains root_hash rest s
     else do {
       (side_chain_root, _, _, _, side_chain) \<leftarrow> pop_root side_chain;
       rassert (cv_hash side_chain_root = root_hash);
       s \<leftarrow> nfs_insert side_chain s;
       finalize_side_chains root_hash rest s } }"

definition finalize :: "NonFinalizedState \<Rightarrow> (FinalizableBlock \<times> NonFinalizedState) rust" where
  "finalize s = (case chain_iter s of
       [] \<Rightarrow> None
     | best # side_chains \<Rightarrow> do {
         let s = s\<lparr>chain_set := []\<rparr>;
         (root, root_treestate, rewards, amounts, best) \<leftarrow> pop_root best;
         s \<leftarrow> (if chain_is_empty best then Some s else nfs_insert best s);
         s \<leftarrow> finalize_side_chains (cv_hash root) side_chains s;
         let s = s\<lparr>invalidated_blocks := filter (\<lambda>(height, _). cv_height root \<le> height) (invalidated_blocks s)\<rparr>;
         Some (Contextual root root_treestate rewards amounts, s) })"

fun remove_chains_loop :: "bytes \<Rightarrow> Chain list \<Rightarrow> Chain list \<Rightarrow> Chain list rust" where
  "remove_chains_loop hash [] new_chain_set = Some new_chain_set"
| "remove_chains_loop hash (c # cs) new_chain_set = do {
     new_chain_set \<leftarrow> (if contains_block_hash hash c then Some new_chain_set
       else do {
         root_height \<leftarrow> non_finalized_root_height c;
         chain_set_remove c new_chain_set });
     remove_chains_loop hash cs new_chain_set }"

definition remove_chains_invalidated_by_crosslink_finalized :: "bytes \<Rightarrow> NonFinalizedState \<Rightarrow> NonFinalizedState rust" where
  "remove_chains_invalidated_by_crosslink_finalized hash s = do {
     cs \<leftarrow> remove_chains_loop hash (chain_iter s) (chain_set s);
     Some (s\<lparr>chain_set := cs\<rparr>) }"

definition crosslink_finalize ::
  "bytes \<Rightarrow> NonFinalizedState \<Rightarrow> (ContextuallyVerifiedBlock list option \<times> NonFinalizedState) rust" where
  "crosslink_finalize hash s = do {
     chain \<leftarrow> find_chain (\<lambda>c. Some (chain_height_by_hash hash c \<noteq> None)) s;
     (case chain of
        None \<Rightarrow> Some (None, s)
      | Some c \<Rightarrow> do {
          height \<leftarrow> chain_height_by_hash hash c;
          Some (Some (map snd (filter (\<lambda>(h, _). h \<le> height) (blocks c))),
            s\<lparr>chain_set := filter (contains_block_hash hash) (chain_set s)\<rparr>) }) }"

subsection \<open>Invalidating and reconsidering blocks\<close>

definition nfs_invalidate_block :: "bytes \<Rightarrow> NonFinalizedState \<Rightarrow> (string, NonFinalizedState) result" where
  "nfs_invalidate_block block_hash s = do {
     chain \<leftarrow> find_chain (\<lambda>c. Some (contains_block_hash block_hash c)) s;
     (case chain of
        None \<Rightarrow> err ''block hash not found in any non-finalized chain''
      | Some chain \<Rightarrow> do {
          root_hash \<leftarrow> non_finalized_root_hash chain;
          (invalidated, s) \<leftarrow> (if root_hash = block_hash then do {
               cs \<leftarrow> chain_set_remove chain (chain_set s);
               Some (map snd (blocks chain), s\<lparr>chain_set := cs\<rparr>) }
             else do {
               r \<leftarrow> invalidate_block chain block_hash;
               (new_chain, invalidated) \<leftarrow> r;
               s \<leftarrow> insert_with new_chain (\<lambda>cs. Some (filter (\<lambda>c. \<not> contains_block_hash block_hash c) cs)) s;
               Some (invalidated, s) });
          first \<leftarrow> (case invalidated of [] \<Rightarrow> None | b # _ \<Rightarrow> Some b);
          let bs = AList.update (cv_height first) invalidated (invalidated_blocks s);
          ok (s\<lparr>invalidated_blocks := drop (length bs - MAX_INVALIDATED_BLOCKS) bs\<rparr>) }) }"

fun push_all :: "TreeLib \<Rightarrow> ContextuallyVerifiedBlock list \<Rightarrow> Chain \<Rightarrow> (ValidateContextError, Chain) result" where
  "push_all lib [] c = ok c"
| "push_all lib (b # bs) c = tryr (push lib c b) (push_all lib bs)"

definition reconsider_block ::
  "TreeLib \<Rightarrow> bytes \<Rightarrow> ZebraDb \<Rightarrow> NonFinalizedState \<Rightarrow> (ReconsiderError, bytes list \<times> NonFinalizedState) result" where
  "reconsider_block lib block_hash db s =
     (case List.find (\<lambda>(_, bs). case bs of [] \<Rightarrow> False | b # _ \<Rightarrow> cv_hash b = block_hash) (invalidated_blocks s) of
        None \<Rightarrow> err (MissingInvalidatedBlock block_hash)
      | Some (_, []) \<Rightarrow> err InvalidatedBlocksEmpty
      | Some (_, invalidated_root # descendants) \<Rightarrow>
          let root_parent_hash = header_previous (cv_header invalidated_root) in
          tryr (if root_parent_hash = finalized_tip_hash db
              then (case finalized_tip_height db of
                  None \<Rightarrow> err (ParentChainNotFound block_hash)
                | Some tip_height \<Rightarrow> do { c \<leftarrow> chain_at_finalized_tip lib s tip_height db; ok c })
              else map_err (\<lambda>_. ParentChainNotFound block_hash) (parent_chain s root_parent_hash)) (\<lambda>chain_result.
          tryr (map_err ValidationError (push_all lib (invalidated_root # descendants) chain_result)) (\<lambda>modified_chain. do {
            tip \<leftarrow> non_finalized_tip modified_chain;
            let s = (case finalized_tip_height db of
                None \<Rightarrow> s
              | Some best_chain_root_height \<Rightarrow>
                  s\<lparr>invalidated_blocks := filter (\<lambda>(height, _). best_chain_root_height \<le> height) (invalidated_blocks s)\<rparr>);
            s \<leftarrow> insert_with modified_chain (retain (\<lambda>c. map_option Not (tip_is root_parent_hash c))) s;
            ok (map cv_hash (invalidated_root # descendants), s) })))"

section \<open>The order of the set of chains\<close>

definition chain_lt :: "Chain \<Rightarrow> Chain \<Rightarrow> bool" where
  "chain_lt c d \<longleftrightarrow> chain_less c d = Some True"

lemma chain_lt_iff:
  "chain_lt c d \<longleftrightarrow> partial_cumulative_work c < partial_cumulative_work d \<or>
     partial_cumulative_work c = partial_cumulative_work d \<and>
     (\<exists>x y. non_finalized_tip_hash c = Some x \<and> non_finalized_tip_hash d = Some y \<and> x < y)"
  by (cases "non_finalized_tip_hash c"; cases "non_finalized_tip_hash d") (auto simp: chain_lt_def chain_less_def)

lemma chain_less_False: "chain_less c d = Some False \<Longrightarrow> chain_lt d c"
  unfolding chain_lt_iff
  by (cases "non_finalized_tip_hash c"; cases "non_finalized_tip_hash d") (auto simp: chain_less_def split: if_splits)

lemma chain_lt_trans: "chain_lt c d \<Longrightarrow> chain_lt d e \<Longrightarrow> chain_lt c e"
  unfolding chain_lt_iff by auto

lemma chain_lt_irrefl: "\<not> chain_lt c c"
  by (auto simp: chain_lt_iff)

lemma chain_lt_work: "chain_lt c d \<Longrightarrow> partial_cumulative_work c \<le> partial_cumulative_work d"
  by (auto simp: chain_lt_iff)

abbreviation ordered :: "Chain list \<Rightarrow> bool" where "ordered \<equiv> sorted_wrt chain_lt"

lemma chain_set_insert_ok:
  assumes "chain_set_insert c ds = Some ds'" "ordered ds"
  shows "ordered ds' \<and> mset ds' = add_mset c (mset ds)"
  using assms
proof (induction ds arbitrary: ds')
  case (Cons d ds)
  obtain less where less: "chain_less c d = Some less" using Cons.prems(1) by (auto simp: bind_eq_Some_conv)
  show ?case
  proof (cases less)
    case True
    then have "chain_lt c d" using less by (simp add: chain_lt_def)
    with True less Cons.prems show ?thesis using chain_lt_trans by auto
  next
    case False
    then obtain es where es: "chain_set_insert c ds = Some es" "ds' = d # es"
      using less Cons.prems(1) by (auto simp: bind_eq_Some_conv)
    have IH: "ordered es" "mset es = add_mset c (mset ds)" using Cons.IH [OF es(1)] Cons.prems(2) by auto
    have "set es = insert c (set ds)" using IH(2) by (metis set_mset_add_mset_insert set_mset_mset)
    with IH es(2) Cons.prems(2) chain_less_False less False show ?thesis by auto
  qed
qed auto

lemma retain_filter: "retain P xs = Some ys \<Longrightarrow> ys = filter (\<lambda>x. P x = Some True) xs \<and> (\<forall>x \<in> set xs. P x \<noteq> None)"
  by (induction xs arbitrary: ys) (auto simp: bind_eq_Some_conv)

lemma find_first_Some: "find_first P xs = Some (Some x) \<Longrightarrow> x \<in> set xs \<and> P x = Some True"
  by (induction xs) (auto simp: bind_eq_Some_conv split: if_splits)

lemma find_first_None: "find_first P xs = Some None \<Longrightarrow> (\<forall>x \<in> set xs. P x = Some False)"
  by (induction xs) (auto simp: bind_eq_Some_conv split: if_splits)

lemma find_map_Some: "find_map f xs = Some (Some y) \<Longrightarrow> \<exists>x \<in> set xs. f x = Some (Some y)"
  by (induction xs) (auto simp: bind_eq_Some_conv split: option.splits)

text \<open>The chains in ascending order, and not more than ten of them.\<close>

definition chains_ok :: "NonFinalizedState \<Rightarrow> bool" where
  "chains_ok s \<longleftrightarrow> ordered (chain_set s) \<and> length (chain_set s) \<le> 10"

definition filtering :: "('a list \<Rightarrow> 'a list rust) \<Rightarrow> bool" where
  "filtering f \<longleftrightarrow> (\<forall>xs ys. f xs = Some ys \<longrightarrow> (\<exists>P. ys = filter P xs))"

lemma filteringI [simp]:
  "filtering Some" "filtering (retain P)" "filtering (\<lambda>xs. Some (filter Q xs))"
proof -
  show "filtering Some" by (auto simp: filtering_def intro!: exI [of _ "\<lambda>_. True"])
  show "filtering (retain P)" unfolding filtering_def using retain_filter by blast
  show "filtering (\<lambda>xs. Some (filter Q xs))" unfolding filtering_def by blast
qed

lemma insert_with_ok:
  assumes "insert_with c f s = Some s'" "chains_ok s" "filtering f"
  shows "chains_ok s' \<and> set (chain_set s') \<subseteq> insert c (set (chain_set s)) \<and>
    invalidated_blocks s' = invalidated_blocks s \<and> nfs_network s' = nfs_network s"
proof -
  obtain cs cs' where c: "chain_set_insert c (chain_set s) = Some cs" "f cs = Some cs'"
    "s' = s\<lparr>chain_set := drop (length cs' - MAX_NON_FINALIZED_CHAIN_FORKS) cs'\<rparr>"
    using assms(1) by (auto simp: insert_with_def bind_eq_Some_conv)
  obtain P where P: "cs' = filter P cs" using assms(3) c(2) by (auto simp: filtering_def)
  have cs: "ordered cs" "mset cs = add_mset c (mset (chain_set s))"
    using chain_set_insert_ok [OF c(1)] assms(2) by (simp_all add: chains_ok_def)
  have "set cs = insert c (set (chain_set s))" using cs(2) by (metis set_mset_add_mset_insert set_mset_mset)
  moreover have "set (chain_set s') \<subseteq> set cs'" using c(3) set_drop_subset by simp
  moreover have "set cs' \<subseteq> set cs" using P by simp
  ultimately have "set (chain_set s') \<subseteq> insert c (set (chain_set s))" by blast
  moreover have "ordered cs'" using cs(1) P sorted_wrt_filter by simp
  then have "ordered (chain_set s')" using c(3) sorted_wrt_drop by simp
  ultimately show ?thesis using c(3) by (simp add: chains_ok_def MAX_NON_FINALIZED_CHAIN_FORKS_def)
qed

lemma nfs_insert_ok:
  assumes "nfs_insert c s = Some s'" "chains_ok s"
  shows "chains_ok s' \<and> set (chain_set s') \<subseteq> insert c (set (chain_set s)) \<and>
    invalidated_blocks s' = invalidated_blocks s \<and> nfs_network s' = nfs_network s"
  using insert_with_ok [OF assms(1) [unfolded nfs_insert_def] assms(2)] by simp

lemma commit_new_chain_ok:
  assumes "commit_new_chain lib s b db = ok s'" "chains_ok s"
  shows "chains_ok s'"
  using assms nfs_insert_ok by (auto simp: commit_new_chain_def bind_ok_iff tryr_ok_iff)

lemma commit_block_ok:
  assumes "commit_block lib s b db = ok s'" "chains_ok s"
  shows "chains_ok s'"
proof -
  obtain c where "insert_with c (retain (\<lambda>c. map_option Not (tip_is (header_previous (sv_header b)) c))) s = Some s'"
    using assms(1) by (auto simp: commit_block_def bind_ok_iff tryr_ok_iff Let_def)
  from insert_with_ok [OF this assms(2)] show ?thesis by simp
qed

lemma finalize_side_chains_ok:
  "finalize_side_chains h cs s = Some s' \<Longrightarrow> chains_ok s \<Longrightarrow> chains_ok s'"
proof (induction cs arbitrary: s)
  case (Cons c cs)
  obtain r where r: "non_finalized_root_hash c = Some r" using Cons.prems(1) by (auto simp: bind_eq_Some_conv)
  show ?case
  proof (cases "r = h")
    case True
    obtain c1 s1 where "nfs_insert c1 s = Some s1" "finalize_side_chains h cs s1 = Some s'"
      using Cons.prems(1) r True by (auto simp: bind_eq_Some_conv)
    with Cons.IH nfs_insert_ok Cons.prems(2) show ?thesis by blast
  next
    case False
    with Cons r show ?thesis by simp
  qed
qed simp

lemma finalize_ok:
  assumes "finalize s = Some (f, s')"
  shows "chains_ok s'"
proof -
  obtain best side where bs: "chain_iter s = best # side" using assms by (cases "chain_iter s") (auto simp: finalize_def)
  obtain root ts rewards amounts best' where pr: "pop_root best = Some (root, ts, rewards, amounts, best')"
    using assms by (cases "pop_root best") (auto simp: finalize_def bs)
  obtain s1 s2 where s: "(if chain_is_empty best' then Some (s\<lparr>chain_set := []\<rparr>) else nfs_insert best' (s\<lparr>chain_set := []\<rparr>)) = Some s1"
    "finalize_side_chains (cv_hash root) side s1 = Some s2" "chain_set s' = chain_set s2"
    using assms by (auto simp: finalize_def bs pr bind_eq_Some_conv Let_def)
  have "chains_ok (s\<lparr>chain_set := []\<rparr>)" by (simp add: chains_ok_def)
  then have "chains_ok s1" using s(1) nfs_insert_ok by (auto split: if_splits)
  from finalize_side_chains_ok [OF s(2) this] s(3) show ?thesis by (simp add: chains_ok_def)
qed

text \<open>The cases of a finalization by hash.\<close>

lemma crosslink_finalize_cases:
  assumes "crosslink_finalize h s = Some (r, s')"
  obtains "r = None" "s' = s" "find_chain (\<lambda>c. Some (chain_height_by_hash h c \<noteq> None)) s = Some None"
  | c height where "find_chain (\<lambda>c. Some (chain_height_by_hash h c \<noteq> None)) s = Some (Some c)" "chain_height_by_hash h c = Some height"
      "r = Some (map snd (filter (\<lambda>(h, _). h \<le> height) (blocks c)))"
      "s' = s\<lparr>chain_set := filter (contains_block_hash h) (chain_set s)\<rparr>"
proof (cases "find_chain (\<lambda>c. Some (chain_height_by_hash h c \<noteq> None)) s")
  case (Some r0)
  show thesis
  proof (cases r0)
    case None
    with Some assms that(1) show thesis by (simp add: crosslink_finalize_def)
  next
    case (Some c)
    note r0 = this
    show thesis
    proof (cases "chain_height_by_hash h c")
      case None
      with \<open>find_chain _ s = _\<close> r0 assms show thesis by (simp add: crosslink_finalize_def)
    next
      case (Some height)
      with \<open>find_chain _ s = _\<close> r0 assms that(2) show thesis by (simp add: crosslink_finalize_def)
    qed
  qed
qed (use assms in \<open>simp add: crosslink_finalize_def\<close>)

lemma crosslink_finalize_ok:
  assumes "crosslink_finalize h s = Some (r, s')" "chains_ok s"
  shows "chains_ok s'"
proof -
  have "s' = s \<or> s' = s\<lparr>chain_set := filter (contains_block_hash h) (chain_set s)\<rparr>"
    using assms(1) by (cases rule: crosslink_finalize_cases) auto
  moreover have "length (filter (contains_block_hash h) (chain_set s)) \<le> length (chain_set s)" by (rule length_filter_le)
  ultimately show ?thesis using assms(2) by (auto simp: chains_ok_def sorted_wrt_filter intro: order_trans [OF length_filter_le])
qed

lemma chain_set_remove_same: "chain_set_remove c ds = Some ds' \<Longrightarrow> ds' = ds"
  by (induction ds arbitrary: ds') (auto simp: bind_eq_Some_conv split: if_splits)


text \<open>The cases of an invalidation.\<close>

lemma nfs_invalidate_cases:
  assumes "nfs_invalidate_block h s = ok s'"
  obtains c where "find_chain (\<lambda>c. Some (contains_block_hash h c)) s = Some (Some c)" "non_finalized_root_hash c = Some h"
      "chain_set_remove c (chain_set s) = Some (chain_set s')" "nfs_network s' = nfs_network s"
  | c new_chain inv s1 where "find_chain (\<lambda>c. Some (contains_block_hash h c)) s = Some (Some c)" "non_finalized_root_hash c \<noteq> Some h"
      "invalidate_block c h = Some (Some (new_chain, inv))" "inv \<noteq> []"
      "insert_with new_chain (\<lambda>cs. Some (filter (\<lambda>c. \<not> contains_block_hash h c) cs)) s = Some s1"
      "s' = s1\<lparr>invalidated_blocks := drop (length (AList.update (cv_height (hd inv)) inv (invalidated_blocks s1)) - MAX_INVALIDATED_BLOCKS)
         (AList.update (cv_height (hd inv)) inv (invalidated_blocks s1))\<rparr>"
proof -
  let ?f = "find_chain (\<lambda>c. Some (contains_block_hash h c)) s"
  obtain c where f: "?f = Some (Some c)"
    using assms by (cases ?f; cases "the ?f") (simp_all add: nfs_invalidate_block_def)
  obtain root where root: "non_finalized_root_hash c = Some root"
    using assms f by (cases "non_finalized_root_hash c") (simp_all add: nfs_invalidate_block_def)
  show thesis
  proof (cases "root = h")
    case True
    obtain cs where cs: "chain_set_remove c (chain_set s) = Some cs"
      using assms f root True by (cases "chain_set_remove c (chain_set s)") (simp_all add: nfs_invalidate_block_def)
    then have "\<exists>bs. s' = s\<lparr>chain_set := cs, invalidated_blocks := bs\<rparr>" using assms f root True
      by (cases "blocks c") (auto simp add: nfs_invalidate_block_def Let_def)
    then have "chain_set s' = cs" "nfs_network s' = nfs_network s" by auto
    with f root True cs that(1) show thesis by simp
  next
    case False
    obtain r where r: "invalidate_block c h = Some r"
      using assms f root False by (cases "invalidate_block c h") (simp_all add: nfs_invalidate_block_def)
    obtain new_chain inv where ni: "r = Some (new_chain, inv)"
      using assms f root False r by (cases r) (auto simp add: nfs_invalidate_block_def)
    obtain s1 where s1: "insert_with new_chain (\<lambda>cs. Some (filter (\<lambda>c. \<not> contains_block_hash h c) cs)) s = Some s1"
      using assms f root False r ni by (cases "insert_with new_chain (\<lambda>cs. Some (filter (\<lambda>c. \<not> contains_block_hash h c) cs)) s")
        (simp_all add: nfs_invalidate_block_def)
    obtain b bs where inv: "inv = b # bs" using assms f root False r ni s1 by (cases inv) (simp_all add: nfs_invalidate_block_def)
    show thesis using assms f root False r ni s1 inv
      by (intro that(2) [OF f _ _ _ s1, of inv]) (simp_all add: nfs_invalidate_block_def Let_def)
  qed
qed

lemma nfs_invalidate_ok:
  assumes "nfs_invalidate_block h s = ok s'" "chains_ok s"
  shows "chains_ok s'"
  using assms(1)
proof (cases rule: nfs_invalidate_cases)
  case (1 c)
  with assms(2) chain_set_remove_same [OF 1(3)] show ?thesis by (simp add: chains_ok_def)
next
  case (2 c new_chain inv s1)
  with insert_with_ok [OF 2(5) assms(2)] show ?thesis by (simp add: chains_ok_def)
qed


text \<open>The cases of a reconsidered block: its blocks are pushed on a chain that is inserted.\<close>

lemma reconsider_cases:
  assumes "reconsider_block lib h db s = ok (hs, s')"
  obtains b bs c c' inv where "push_all lib (b # bs) c = ok c'" "hs = map cv_hash (b # bs)"
    "b # bs \<in> snd ` set (invalidated_blocks s)"
    "if header_previous (cv_header b) = finalized_tip_hash db
       then \<exists>t. finalized_tip_height db = Some t \<and> chain_at_finalized_tip lib s t db = Some c
       else parent_chain s (header_previous (cv_header b)) = ok c"
    "insert_with c' (retain (\<lambda>c. map_option Not (tip_is (header_previous (cv_header b)) c))) (s\<lparr>invalidated_blocks := inv\<rparr>) = Some s'"
    "set inv \<subseteq> set (invalidated_blocks s)"
proof -
  let ?find = "List.find (\<lambda>(_, bs). case bs of [] \<Rightarrow> False | b # _ \<Rightarrow> cv_hash b = h) (invalidated_blocks s)"
  obtain k b bs where f: "?find = Some (k, b # bs)"
  proof (cases ?find)
    case (Some p)
    then show thesis using assms that by (cases "snd p"; cases p) (simp_all add: reconsider_block_def)
  qed (use assms in \<open>simp add: reconsider_block_def\<close>)
  then have "(k, b # bs) \<in> set (invalidated_blocks s)" by (metis find_Some_iff nth_mem)
  then have mem: "b # bs \<in> snd ` set (invalidated_blocks s)" by (rule rev_image_eqI) simp
  let ?start = "if header_previous (cv_header b) = finalized_tip_hash db
      then (case finalized_tip_height db of
          None \<Rightarrow> err (ParentChainNotFound h)
        | Some tip_height \<Rightarrow> do { c \<leftarrow> chain_at_finalized_tip lib s tip_height db; ok c })
      else map_err (\<lambda>_. ParentChainNotFound h) (parent_chain s (header_previous (cv_header b)))"
  let ?s = "case finalized_tip_height db of None \<Rightarrow> s
    | Some best_chain_root_height \<Rightarrow>
        s\<lparr>invalidated_blocks := filter (\<lambda>(height, _). best_chain_root_height \<le> height) (invalidated_blocks s)\<rparr>"
  obtain c c' where c: "?start = ok c" "push_all lib (b # bs) c = ok c'"
    "insert_with c' (retain (\<lambda>c. map_option Not (tip_is (header_previous (cv_header b)) c))) ?s = Some s'"
    "hs = map cv_hash (b # bs)"
    using assms f by (auto simp: reconsider_block_def Let_def tryr_ok_iff bind_ok_iff map_err_ok_iff)
  have start: "if header_previous (cv_header b) = finalized_tip_hash db
       then \<exists>t. finalized_tip_height db = Some t \<and> chain_at_finalized_tip lib s t db = Some c
       else parent_chain s (header_previous (cv_header b)) = ok c"
    using c(1) by (auto simp: bind_ok_iff map_err_ok_iff split: if_splits option.splits)
  have "\<exists>inv. ?s = s\<lparr>invalidated_blocks := inv\<rparr> \<and> set inv \<subseteq> set (invalidated_blocks s)"
  proof (cases "finalized_tip_height db")
    case None
    then show ?thesis by (intro exI [of _ "invalidated_blocks s"]) simp
  next
    case (Some t)
    then show ?thesis by (intro exI [of _ "filter (\<lambda>(height, _). t \<le> height) (invalidated_blocks s)"]) auto
  qed
  then obtain inv where "?s = s\<lparr>invalidated_blocks := inv\<rparr>" "set inv \<subseteq> set (invalidated_blocks s)" by blast
  with c(3) that [OF c(2,4) mem start] show thesis by simp
qed

lemma reconsider_ok:
  assumes "reconsider_block lib h db s = ok (hs, s')" "chains_ok s"
  shows "chains_ok s'"
  using assms(1)
proof (cases rule: reconsider_cases)
  case (1 b bs c c' inv)
  have "chains_ok (s\<lparr>invalidated_blocks := inv\<rparr>)" using assms(2) by (simp add: chains_ok_def)
  from insert_with_ok [OF 1(5) this] show ?thesis by simp
qed


section \<open>The set of chains of a running node\<close>

text \<open>
  One operation of the set of chains that returns, on any database. The empty set is in order, and so
  is every set that is reached from it.
\<close>

inductive nfs_step :: "TreeLib \<Rightarrow> NonFinalizedState \<Rightarrow> NonFinalizedState \<Rightarrow> bool" for lib where
  new_chain: "commit_new_chain lib s b db = ok s' \<Longrightarrow> nfs_step lib s s'"
| block: "commit_block lib s b db = ok s' \<Longrightarrow> nfs_step lib s s'"
| finalized: "finalize s = Some (f, s') \<Longrightarrow> nfs_step lib s s'"
| crosslink: "crosslink_finalize h s = Some (r, s') \<Longrightarrow> nfs_step lib s s'"
| invalidate: "nfs_invalidate_block h s = ok s' \<Longrightarrow> nfs_step lib s s'"
| reconsider: "reconsider_block lib h db s = ok (hs, s') \<Longrightarrow> nfs_step lib s s'"

inductive_simps nfs_step_iff: "nfs_step lib s s'"

lemma nfs_step_ok: "nfs_step lib s s' \<Longrightarrow> chains_ok s \<Longrightarrow> chains_ok s'"
  by (induction rule: nfs_step.induct)
    (blast intro: commit_new_chain_ok commit_block_ok finalize_ok crosslink_finalize_ok nfs_invalidate_ok reconsider_ok)+

lemma nfs_steps_ok: "(nfs_step lib)\<^sup>*\<^sup>* s s' \<Longrightarrow> chains_ok s \<Longrightarrow> chains_ok s'"
  by (induction rule: rtranclp_induct) (auto dest: nfs_step_ok)

lemma chains_ok_new: "chains_ok (NonFinalizedState_new network)"
  by (simp add: chains_ok_def NonFinalizedState_new_def)

lemma best_chain_last: "best_chain s = Some c \<longleftrightarrow> (\<exists>cs. chain_set s = cs @ [c])"
  unfolding best_chain_def chain_iter_def by (cases "chain_set s" rule: rev_cases) auto

lemma ordered_distinct: "ordered cs \<Longrightarrow> distinct cs"
  by (induction cs) (auto simp: chain_lt_irrefl)


section \<open>Removing a chain, and empty chains\<close>

lemma chain_less_same: "chain_less c c = None"
  by (cases "non_finalized_tip_hash c") (simp_all add: chain_less_def)

lemma chain_set_remove_contained: "ordered ds \<Longrightarrow> c \<in> set ds \<Longrightarrow> chain_set_remove c ds = None"
proof (induction ds)
  case (Cons d ds)
  show ?case
  proof (cases "c = d")
    case False
    then have "chain_lt d c" using Cons.prems by simp
    then have "chain_less c d \<noteq> Some True" using chain_lt_trans chain_lt_irrefl by (auto simp: chain_lt_def)
    with Cons False show ?thesis by (cases "chain_less c d") auto
  qed (simp add: chain_less_same)
qed simp

text \<open>C35: A block that is the root of a non-finalized chain cannot be invalidated: in every set of chains
  that is in order the request ends the task, because removing the chain compares it with itself.
\<close>

theorem invalidate_root_panics:
  assumes "chains_ok s" "find_chain (\<lambda>c. Some (contains_block_hash h c)) s = Some (Some c)"
    "non_finalized_root_hash c = Some h"
  shows "nfs_invalidate_block h s = None"
proof -
  have "c \<in> set (chain_set s)" using find_first_Some [of _ "chain_iter s" c] assms(2)
    by (auto simp: find_chain_def chain_iter_def)
  then have "chain_set_remove c (chain_set s) = None"
    using chain_set_remove_contained assms(1) by (auto simp: chains_ok_def)
  with assms(2,3) show ?thesis by (simp add: nfs_invalidate_block_def)
qed

lemma tip_is_empty: "blocks c = [] \<Longrightarrow> tip_is h c = None"
  by (simp add: tip_is_def non_finalized_tip_hash_def)

lemma chain_set_insert_set: "chain_set_insert c ds = Some ds' \<Longrightarrow> set ds' = insert c (set ds) \<and> length ds' = Suc (length ds)"
  by (induction ds arbitrary: ds') (auto simp: bind_eq_Some_conv split: if_splits)

lemma empty_chain_no_commit:
  assumes "c \<in> set (chain_set s)" "blocks c = []"
  shows "commit_block lib s b db \<noteq> ok s'"
proof
  let ?P = "\<lambda>c. map_option Not (tip_is (header_previous (sv_header b)) c)"
  assume "commit_block lib s b db = ok s'"
  then obtain new where "insert_with new (retain ?P) s = Some s'"
    by (auto simp: commit_block_def bind_ok_iff tryr_ok_iff Let_def)
  then obtain cs cs' where cs: "chain_set_insert new (chain_set s) = Some cs" "retain ?P cs = Some cs'"
    by (auto simp: insert_with_def bind_eq_Some_conv)
  have "c \<in> set cs" using chain_set_insert_set [OF cs(1)] assms(1) by simp
  with retain_filter [OF cs(2)] have "?P c \<noteq> None" by blast
  with tip_is_empty [OF assms(2)] show False by simp
qed

text \<open>While there are fewer than ten chains no chain is dropped.\<close>

lemma nfs_insert_set:
  assumes "nfs_insert c s = Some s'" "length (chain_set s) < 10"
  shows "set (chain_set s') = insert c (set (chain_set s)) \<and> length (chain_set s') = Suc (length (chain_set s))"
proof -
  obtain cs where cs: "chain_set_insert c (chain_set s) = Some cs"
    "chain_set s' = drop (length cs - 10) cs"
    using assms(1) by (auto simp: nfs_insert_def insert_with_def bind_eq_Some_conv MAX_NON_FINALIZED_CHAIN_FORKS_def)
  with chain_set_insert_set [OF cs(1)] assms(2) show ?thesis by simp
qed

lemma finalize_side_chains_set:
  "finalize_side_chains h cs s = Some s' \<Longrightarrow> length (chain_set s) + length cs \<le> 10 \<Longrightarrow>
     set (chain_set s') = set (chain_set s) \<union>
       {d'. \<exists>d \<in> set cs. non_finalized_root_hash d = Some h \<and> (\<exists>b ts rewards amounts. pop_root d = Some (b, ts, rewards, amounts, d'))}"
proof (induction cs arbitrary: s)
  case (Cons c cs)
  obtain r where r: "non_finalized_root_hash c = Some r" using Cons.prems(1) by (auto simp: bind_eq_Some_conv)
  show ?case
  proof (cases "r = h")
    case True
    obtain b ts rewards amounts c1 s1 where c1: "pop_root c = Some (b, ts, rewards, amounts, c1)" "nfs_insert c1 s = Some s1"
      "finalize_side_chains h cs s1 = Some s'"
      using Cons.prems(1) r True by (auto simp: bind_eq_Some_conv)
    have s1: "set (chain_set s1) = insert c1 (set (chain_set s))" "length (chain_set s1) = Suc (length (chain_set s))"
      using nfs_insert_set [OF c1(2)] Cons.prems(2) by simp_all
    with Cons.IH [OF c1(3)] Cons.prems(2) have "set (chain_set s') = set (chain_set s1) \<union>
       {d'. \<exists>d \<in> set cs. non_finalized_root_hash d = Some h \<and> (\<exists>b ts rewards amounts. pop_root d = Some (b, ts, rewards, amounts, d'))}"
      by simp
    with s1(1) c1(1) r True show ?thesis by auto
  next
    case False
    with Cons r show ?thesis by simp
  qed
qed simp

lemma finalize_side_chains_rest:
  "finalize_side_chains h cs s = Some s' \<Longrightarrow> chains_ok s \<Longrightarrow> invalidated_blocks s' = invalidated_blocks s \<and> nfs_network s' = nfs_network s"
proof (induction cs arbitrary: s)
  case (Cons c cs)
  obtain r where r: "non_finalized_root_hash c = Some r" using Cons.prems(1) by (auto simp: bind_eq_Some_conv)
  show ?case
  proof (cases "r = h")
    case True
    obtain c1 s1 where c1: "nfs_insert c1 s = Some s1" "finalize_side_chains h cs s1 = Some s'"
      using Cons.prems(1) r True by (auto simp: bind_eq_Some_conv)
    with Cons.IH [OF c1(2)] nfs_insert_ok [OF c1(1) Cons.prems(2)] show ?thesis by simp
  next
    case False
    with Cons r show ?thesis by simp
  qed
qed simp

lemma finalize_side_chains_pops:
  "finalize_side_chains h cs s = Some s' \<Longrightarrow> c \<in> set cs \<Longrightarrow> non_finalized_root_hash c = Some h \<Longrightarrow>
     \<exists>b ts rewards amounts d. pop_root c = Some (b, ts, rewards, amounts, d)"
  by (induction cs arbitrary: s) (auto simp: bind_eq_Some_conv split: if_splits)

lemma finalize_pops:
  assumes "finalize s = Some (f, s')" "chain_iter s = best # side" "pop_root best = Some (root, ts, rewards, amounts, best')"
    "c \<in> set side" "non_finalized_root_hash c = Some (cv_hash root)"
  shows "\<exists>b ts rewards amounts d. pop_root c = Some (b, ts, rewards, amounts, d)"
proof -
  obtain s1 s2 where "finalize_side_chains (cv_hash root) side s1 = Some s2"
    using assms(1-3) by (auto simp: finalize_def bind_eq_Some_conv Let_def)
  from finalize_side_chains_pops [OF this assms(4,5)] show ?thesis .
qed

text \<open>The chains after a finalization are the best chain without its root, unless that is empty, and every side chain with the same root without it.\<close>

lemma finalize_chains:
  assumes "finalize s = Some (f, s')" "chains_ok s"
  obtains best side root ts rewards amounts best' where "chain_set s = rev side @ [best]"
    "pop_root best = Some (root, ts, rewards, amounts, best')" "f = Contextual root ts rewards amounts"
    "set (chain_set s') = (if chain_is_empty best' then {} else {best'}) \<union>
       {d'. \<exists>d \<in> set side. non_finalized_root_hash d = Some (cv_hash root) \<and> (\<exists>b ts rewards amounts. pop_root d = Some (b, ts, rewards, amounts, d'))}"
    "set (invalidated_blocks s') \<subseteq> set (invalidated_blocks s)" "nfs_network s' = nfs_network s"
proof -
  obtain best side where bs: "chain_iter s = best # side" using assms(1) by (cases "chain_iter s") (auto simp: finalize_def)
  then have cs: "chain_set s = rev side @ [best]" unfolding chain_iter_def by (metis rev.simps(2) rev_rev_ident)
  obtain root ts rewards amounts best' where pr: "pop_root best = Some (root, ts, rewards, amounts, best')"
    using assms(1) by (cases "pop_root best") (auto simp: finalize_def bs)
  obtain s1 s2 where s: "(if chain_is_empty best' then Some (s\<lparr>chain_set := []\<rparr>) else nfs_insert best' (s\<lparr>chain_set := []\<rparr>)) = Some s1"
    "finalize_side_chains (cv_hash root) side s1 = Some s2" "f = Contextual root ts rewards amounts"
    "s' = s2\<lparr>invalidated_blocks := filter (\<lambda>(height, _). cv_height root \<le> height) (invalidated_blocks s2)\<rparr>"
    using assms(1) by (auto simp: finalize_def bs pr bind_eq_Some_conv Let_def)
  have "set (chain_set s1) = (if chain_is_empty best' then {} else {best'})" "length (chain_set s1) \<le> 1"
    "invalidated_blocks s1 = invalidated_blocks s \<and> nfs_network s1 = nfs_network s" "chains_ok s1"
    using s(1) nfs_insert_set [of best' "s\<lparr>chain_set := []\<rparr>" s1] nfs_insert_ok [of best' "s\<lparr>chain_set := []\<rparr>" s1]
    by (auto simp: chains_ok_def split: if_splits)
  moreover have "length side < 10" using assms(2) cs by (simp add: chains_ok_def)
  ultimately show thesis
    using that [OF cs pr s(3)] finalize_side_chains_set [OF s(2)] finalize_side_chains_rest [OF s(2)] s(4) by auto
qed

text \<open>C36: A side chain that ends at the root of the best chain is kept as a chain without blocks when that
  root is finalized, and this stops the node: no later block can be committed on a non-finalized chain.
\<close>

theorem finalized_side_chain_blocks_commits:
  assumes "chains_ok s" "best_chain s = Some best" "side \<in> set (chain_set s)" "side \<noteq> best"
    "blocks side = [(h, root)]" "non_finalized_root_hash best = Some (cv_hash root)" "finalize s = Some (f, s')"
  shows "(\<exists>c \<in> set (chain_set s'). blocks c = []) \<and> commit_block lib s' b db \<noteq> ok s''"
proof -
  obtain best1 sides root1 ts rewards amounts best' where fc: "chain_set s = rev sides @ [best1]"
    "pop_root best1 = Some (root1, ts, rewards, amounts, best')"
    "f = Contextual root1 ts rewards amounts"
    "set (chain_set s') = (if chain_is_empty best' then {} else {best'}) \<union>
       {d'. \<exists>d \<in> set sides. non_finalized_root_hash d = Some (cv_hash root1) \<and> (\<exists>b ts rewards amounts. pop_root d = Some (b, ts, rewards, amounts, d'))}"
    "set (invalidated_blocks s') \<subseteq> set (invalidated_blocks s)" "nfs_network s' = nfs_network s"
    by (rule finalize_chains [OF assms(7,1)])
  have "best1 = best" using assms(2) fc(1) by (auto simp: best_chain_last)
  then have side: "side \<in> set sides" using assms(3,4) fc(1) by auto
  have "cv_hash root1 = cv_hash root" using pop_root_frame(1) [OF fc(2)] assms(6) \<open>best1 = best\<close>
    by (auto simp: non_finalized_root_hash_def)
  moreover have "non_finalized_root_hash side = Some (cv_hash root)" using assms(5) by (simp add: non_finalized_root_hash_def)
  moreover have "\<exists>b ts rewards amounts d. pop_root side = Some (b, ts, rewards, amounts, d)"
    using finalize_pops [OF assms(7)] side calculation fc(1,2) by (auto simp: chain_iter_def)
  ultimately obtain b1 ts1 rewards1 amounts1 d where d: "pop_root side = Some (b1, ts1, rewards1, amounts1, d)"
    and r: "non_finalized_root_hash side = Some (cv_hash root1)"
    by auto
  have dm: "d \<in> set (chain_set s')" unfolding fc(4) using side d r by blast
  have "blocks d = []" using pop_root_frame(1) [OF d] assms(5) by simp
  with dm empty_chain_no_commit show ?thesis by blast
qed

lemma two_roots:
  "\<exists>c1 c2 d1 d2 ts1 ts2. push sample_lib sample_tree_chain (coinbase_block 9 [7] [1] [5]) = ok c1 \<and>
     push sample_lib c1 (coinbase_block 10 [8] [2] [6]) = ok c2 \<and>
     pop_root c1 = Some (coinbase_block 9 [7] [1] [5], ts1, [], [], d1) \<and> partial_cumulative_work c1 = 8192 \<and> blocks c1 = [(9, coinbase_block 9 [7] [1] [5])] \<and> 
     pop_root c2 = Some (coinbase_block 9 [7] [1] [5], ts2, [], [], d2) \<and> partial_cumulative_work c2 = 16384 \<and>
       blocks c2 = [(9, coinbase_block 9 [7] [1] [5]), (10, coinbase_block 10 [8] [2] [6])] \<and>
     blocks d1 = [] \<and> partial_cumulative_work d1 = 0 \<and>
     blocks d2 = [(10, coinbase_block 10 [8] [2] [6])] \<and> partial_cumulative_work d2 = 8192 \<and>
     Mapping.lookup (height_by_hash c2) [7] = Some 9 \<and> Mapping.lookup (height_by_hash c1) [7] = Some 9"
  using coinbase_block_work [of 9 "[7]" "[1]" "[5]"] coinbase_block_work [of 10 "[8]" "[2]" "[6]"] pools_unchanged
  by (simp add: push_simps pop_simps pop_root_def Let_def treestate_def sprout_tree_def sapling_tree_def orchard_tree_def history_tree_def btree_at_most_def tree_run_simps coinbase_block_def non_finalized_tip_hash_def non_finalized_tip_height_def
      sapling_subtree_def orchard_subtree_def height_or_else_def height_next_def HEIGHT_MAX_def btree_insert.simps)



definition two_chains :: "Chain \<Rightarrow> Chain \<Rightarrow> NonFinalizedState" where
  "two_chains c d = \<lparr>chain_set = [c, d], invalidated_blocks = [], nfs_network = Mainnet\<rparr>"

text \<open>A chain of one block and one that has a second block on top of it.\<close>

lemma two_chains_run:
  obtains c1 c2 d1 d2 ts where "chains_ok (two_chains c1 c2)" "best_chain (two_chains c1 c2) = Some c2" "c1 \<noteq> c2"
    "blocks c1 = [(9, coinbase_block 9 [7] [1] [5])]" "non_finalized_root_hash c2 = Some [7]"
    "find_chain (\<lambda>c. Some (contains_block_hash [7] c)) (two_chains c1 c2) = Some (Some c2)"
    "finalize (two_chains c1 c2) = Some (Contextual (coinbase_block 9 [7] [1] [5]) ts [] [], two_chains d1 d2)"
    "blocks d1 = []" "blocks d2 = [(10, coinbase_block 10 [8] [2] [6])]"
proof -
  obtain c1 c2 d1 d2 ts1 ts2 where c: "pop_root c1 = Some (coinbase_block 9 [7] [1] [5], ts1, [], [], d1)"
    "partial_cumulative_work c1 = 8192" "blocks c1 = [(9, coinbase_block 9 [7] [1] [5])]"
    "pop_root c2 = Some (coinbase_block 9 [7] [1] [5], ts2, [], [], d2)" "partial_cumulative_work c2 = 16384"
    "blocks c2 = [(9, coinbase_block 9 [7] [1] [5]), (10, coinbase_block 10 [8] [2] [6])]"
    "blocks d1 = []" "partial_cumulative_work d1 = 0"
    "blocks d2 = [(10, coinbase_block 10 [8] [2] [6])]" "partial_cumulative_work d2 = 8192"
    "Mapping.lookup (height_by_hash c2) [7] = Some 9"
    using two_roots by blast
  have hash: "cv_hash (coinbase_block a b x y) = b" "cv_height (coinbase_block a b x y) = a" for a b x y
    by (simp_all add: coinbase_block_def)
  show thesis
  proof (rule that [of c1 c2 ts2 d1 d2])
    show "chains_ok (two_chains c1 c2)" using c(2,5) by (simp add: chains_ok_def two_chains_def chain_lt_iff)
    show "best_chain (two_chains c1 c2) = Some c2" by (simp add: best_chain_def chain_iter_def two_chains_def)
    show "c1 \<noteq> c2" using c(2,5) by auto
    show "non_finalized_root_hash c2 = Some [7]" using c(6) by (simp add: non_finalized_root_hash_def hash)
    show "find_chain (\<lambda>c. Some (contains_block_hash [7] c)) (two_chains c1 c2) = Some (Some c2)"
      using c(11) by (simp add: find_chain_def chain_iter_def two_chains_def contains_block_hash_def)
    show "finalize (two_chains c1 c2) = Some (Contextual (coinbase_block 9 [7] [1] [5]) ts2 [] [], two_chains d1 d2)"
      using c by (simp add: finalize_def chain_iter_def two_chains_def chain_is_empty_def nfs_insert_def insert_with_def
          MAX_NON_FINALIZED_CHAIN_FORKS_def non_finalized_root_hash_def hash chain_less_def)
  qed (use c in simp_all)
qed


theorem invalidate_root_panics_witness:
  "\<exists>s c. chains_ok s \<and> find_chain (\<lambda>c. Some (contains_block_hash [7] c)) s = Some (Some c) \<and>
     non_finalized_root_hash c = Some [7] \<and> nfs_invalidate_block [7] s = None"
proof -
  obtain c1 c2 d1 d2 ts where w: "chains_ok (two_chains c1 c2)" "best_chain (two_chains c1 c2) = Some c2" "c1 \<noteq> c2"
    "blocks c1 = [(9, coinbase_block 9 [7] [1] [5])]" "non_finalized_root_hash c2 = Some [7]"
    "find_chain (\<lambda>c. Some (contains_block_hash [7] c)) (two_chains c1 c2) = Some (Some c2)"
    "finalize (two_chains c1 c2) = Some (Contextual (coinbase_block 9 [7] [1] [5]) ts [] [], two_chains d1 d2)"
    "blocks d1 = []" "blocks d2 = [(10, coinbase_block 10 [8] [2] [6])]"
    by (rule two_chains_run)
  with invalidate_root_panics [OF w(1,6,5)] show ?thesis by blast
qed

theorem finalized_side_chain_blocks_commits_witness:
  "\<exists>s best side root f s'. chains_ok s \<and> best_chain s = Some best \<and> side \<in> set (chain_set s) \<and> side \<noteq> best \<and>
     blocks side = [(9, root)] \<and> non_finalized_root_hash best = Some (cv_hash root) \<and> finalize s = Some (f, s') \<and>
     (\<forall>b db s''. commit_block sample_lib s' b db \<noteq> ok s'')"
proof -
  obtain c1 c2 d1 d2 ts where w: "chains_ok (two_chains c1 c2)" "best_chain (two_chains c1 c2) = Some c2" "c1 \<noteq> c2"
    "blocks c1 = [(9, coinbase_block 9 [7] [1] [5])]" "non_finalized_root_hash c2 = Some [7]"
    "find_chain (\<lambda>c. Some (contains_block_hash [7] c)) (two_chains c1 c2) = Some (Some c2)"
    "finalize (two_chains c1 c2) = Some (Contextual (coinbase_block 9 [7] [1] [5]) ts [] [], two_chains d1 d2)"
    "blocks d1 = []" "blocks d2 = [(10, coinbase_block 10 [8] [2] [6])]"
    by (rule two_chains_run)
  have "c1 \<in> set (chain_set (two_chains c1 c2))" by (simp add: two_chains_def)
  moreover have "non_finalized_root_hash c2 = Some (cv_hash (coinbase_block 9 [7] [1] [5]))" using w(5) by (simp add: coinbase_block_def)
  ultimately show ?thesis
    using w(1-4,7) finalized_side_chain_blocks_commits [OF w(1,2) _ w(3,4) _ w(7)] by blast
qed

end
