(* ===== verification/Chain_Tip.thy ===== *)
theory Chain_Tip
  imports Non_Finalized_State
begin

text \<open>
  The best tip that the state shows to the rest of the node, \<^verbatim>\<open>zebra-state/src/service/chain_tip.rs\<close>. The
  sender keeps the last value of a watch channel; a follower turns the changes that it sees into actions:
  to grow by a child of the last block it returned, or to reset. Tracing is left out.
\<close>

section \<open>Definitions\<close>

record ChainTipBlock =
  ct_hash :: bytes
  ct_height :: u32
  ct_time :: int
  ct_transactions :: "Transaction list"
  ct_transaction_hashes :: "bytes list"
  ct_previous_block_hash :: bytes

definition ChainTipBlock_from_contextual :: "ContextuallyVerifiedBlock \<Rightarrow> ChainTipBlock" where
  "ChainTipBlock_from_contextual b = \<lparr>ct_hash = cv_hash b, ct_height = cv_height b, ct_time = header_time (cv_header b),
     ct_transactions = cv_transactions b, ct_transaction_hashes = cv_transaction_hashes b,
     ct_previous_block_hash = header_previous (cv_header b)\<rparr>"

definition ChainTipBlock_from_semantic :: "SemanticallyVerifiedBlock \<Rightarrow> ChainTipBlock" where
  "ChainTipBlock_from_semantic b = \<lparr>ct_hash = sv_hash b, ct_height = sv_height b, ct_time = header_time (sv_header b),
     ct_transactions = sv_transactions b, ct_transaction_hashes = sv_transaction_hashes b,
     ct_previous_block_hash = header_previous (sv_header b)\<rparr>"

subsection \<open>The sender\<close>

record ChainTipSender =
  use_non_finalized_tip :: bool
  sent_tip :: "ChainTipBlock option"

definition update_tip :: "ChainTipBlock option \<Rightarrow> ChainTipSender \<Rightarrow> ChainTipSender" where
  "update_tip new_tip s =
    (let active_hash = map_option ct_hash (sent_tip s);
       needs_update = (case (new_tip, active_hash) of
           (Some new_tip, Some active_hash) \<Rightarrow> ct_hash new_tip \<noteq> active_hash
         | (Some _, None) \<Rightarrow> True
         | (None, _) \<Rightarrow> False)
     in if needs_update then s\<lparr>sent_tip := new_tip\<rparr> else s)"

definition ChainTipSender_new :: "ChainTipBlock option \<Rightarrow> ChainTipSender" where
  "ChainTipSender_new initial_tip = update_tip initial_tip \<lparr>use_non_finalized_tip = False, sent_tip = None\<rparr>"

definition finalized_sender :: "ChainTipSender \<Rightarrow> ChainTipSender" where
  "finalized_sender s = s\<lparr>use_non_finalized_tip := False\<rparr>"

definition set_finalized_tip :: "ChainTipBlock option \<Rightarrow> ChainTipSender \<Rightarrow> ChainTipSender" where
  "set_finalized_tip new_tip s = (if \<not> use_non_finalized_tip s then update_tip new_tip s else s)"

definition set_best_non_finalized_tip :: "ChainTipBlock option \<Rightarrow> ChainTipSender \<Rightarrow> ChainTipSender" where
  "set_best_non_finalized_tip new_tip s =
     (if new_tip \<noteq> None then update_tip new_tip (s\<lparr>use_non_finalized_tip := True\<rparr>) else s)"

subsection \<open>The followers\<close>

record ChainTipChange =
  last_change_hash :: "bytes option"
  tip_network :: Network

datatype TipAction = Grow ChainTipBlock | Reset u32 bytes

definition ChainTipChange_new :: "Network \<Rightarrow> ChainTipChange" where
  "ChainTipChange_new network = \<lparr>last_change_hash = None, tip_network = network\<rparr>"

definition ChainTipChange_clone :: "ChainTipChange \<Rightarrow> ChainTipChange" where
  "ChainTipChange_clone c = \<lparr>last_change_hash = None, tip_network = tip_network c\<rparr>"

definition is_activation_height :: "Network \<Rightarrow> u32 \<Rightarrow> bool" where
  "is_activation_height network height \<longleftrightarrow> map_of (activation_list network) height \<noteq> None"

definition reset_with :: "ChainTipBlock \<Rightarrow> TipAction" where
  "reset_with b = Reset (ct_height b) (ct_hash b)"

definition tip_action :: "ChainTipChange \<Rightarrow> ChainTipBlock \<Rightarrow> TipAction rust" where
  "tip_action c b = do {
     rassert (Some (ct_hash b) \<noteq> last_change_hash c);
     Some (if Some (ct_previous_block_hash b) \<noteq> last_change_hash c \<or> is_activation_height (tip_network c) (ct_height b)
       then reset_with b else Grow b) }"

definition last_tip_change :: "ChainTipBlock option \<Rightarrow> ChainTipChange \<Rightarrow> (TipAction option \<times> ChainTipChange) rust" where
  "last_tip_change latest c = (case latest of
       None \<Rightarrow> Some (None, c)
     | Some b \<Rightarrow>
         if Some (ct_hash b) = last_change_hash c then Some (None, c)
         else do {
           a \<leftarrow> tip_action c b;
           Some (Some a, c\<lparr>last_change_hash := Some (ct_hash b)\<rparr>) })"

text \<open>
  Waiting for a change: the list has the value of the channel at each notification. No value left means
  that the sender is gone.
\<close>

fun tip_block_change :: "ChainTipChange \<Rightarrow> ChainTipBlock option list \<Rightarrow> ChainTipBlock option" where
  "tip_block_change c [] = None"
| "tip_block_change c (latest # rest) = (case latest of
       Some b \<Rightarrow> if Some (ct_hash b) \<noteq> last_change_hash c then Some b else tip_block_change c rest
     | None \<Rightarrow> tip_block_change c rest)"

definition wait_for_tip_change ::
  "ChainTipBlock option list \<Rightarrow> ChainTipChange \<Rightarrow> (unit, TipAction \<times> ChainTipChange) result" where
  "wait_for_tip_change seen c = (case tip_block_change c seen of
       None \<Rightarrow> err ()
     | Some b \<Rightarrow> do {
         a \<leftarrow> tip_action c b;
         ok (a, c\<lparr>last_change_hash := Some (ct_hash b)\<rparr>) })"

fun is_reset :: "TipAction \<Rightarrow> bool" where
  "is_reset (Reset _ _) = True" | "is_reset (Grow _) = False"

fun best_tip_hash_and_height :: "TipAction \<Rightarrow> bytes \<times> u32" where
  "best_tip_hash_and_height (Grow b) = (ct_hash b, ct_height b)"
| "best_tip_hash_and_height (Reset height hash) = (hash, height)"

section \<open>Properties\<close>

lemma tip_block_change_new: "tip_block_change c seen = Some b \<Longrightarrow> Some (ct_hash b) \<noteq> last_change_hash c \<and> Some b \<in> set seen"
  by (induction seen) (auto split: option.splits if_splits)

text \<open>
  A follower never fails: a block that it has already returned is skipped, so the assertion on
  unchanged tips holds. The action is for the tip that it has seen, and it is to grow only for a
  child of the block of its previous action that does not activate an upgrade.
\<close>

theorem wait_for_tip_change_follows:
  "case wait_for_tip_change seen c of
     None \<Rightarrow> False
   | Some (Inl _) \<Rightarrow> \<forall>b. Some b \<in> set seen \<longrightarrow> Some (ct_hash b) = last_change_hash c
   | Some (Inr (a, c')) \<Rightarrow> \<exists>b. Some b \<in> set seen \<and> best_tip_hash_and_height a = (ct_hash b, ct_height b) \<and>
       last_change_hash c' = Some (ct_hash b) \<and> last_change_hash c' \<noteq> last_change_hash c \<and>
       (\<not> is_reset a \<longrightarrow> a = Grow b \<and> last_change_hash c = Some (ct_previous_block_hash b) \<and>
          \<not> is_activation_height (tip_network c) (ct_height b))"
proof (cases "tip_block_change c seen")
  case None
  then have "\<forall>b. Some b \<in> set seen \<longrightarrow> Some (ct_hash b) = last_change_hash c"
    by (induction seen) (auto split: option.splits if_splits)
  with None show ?thesis by (simp add: wait_for_tip_change_def err_def)
next
  case (Some b)
  with tip_block_change_new [OF Some] show ?thesis
    by (auto simp: wait_for_tip_change_def tip_action_def rassert_def ok_def reset_with_def intro!: exI [of _ b])
qed

end
