(* ===== verification/Finalized_Blocks.thy ===== *)
theory Finalized_Blocks
  imports Finalized_State
begin

text \<open>
  The blocks of the finalized state. The columns that hold the headers, the hashes, the heights and the
  transactions of the blocks are written by one part of the batch of a block only. Finalizing a block
  appends it to the blocks that are there, and reading it gives back its header and its transactions.
\<close>

section \<open>The columns of the blocks\<close>

type_synonym block_columns =
  "Network \<times> (u32 \<times> bytes) list \<times> (bytes, u32) mapping \<times> (u32, Header) mapping \<times> (TransactionLocation \<times> Transaction) list"

definition block_columns :: "ZebraDb \<Rightarrow> block_columns" where
  "block_columns db = (db_network db, hash_by_height db, db_height_by_hash db, block_header_by_height db, tx_by_loc db)"

fun block_write :: "DiskWrite \<Rightarrow> bool" where
  "block_write (PutHeader _ _) = True"
| "block_write (PutHashByHeight _ _) = True"
| "block_write (PutHeightByHash _ _) = True"
| "block_write (PutTx _ _) = True"
| "block_write _ = False"

abbreviation no_block_writes :: "DiskWrite list \<Rightarrow> bool" where
  "no_block_writes ws \<equiv> list_all (\<lambda>w. \<not> block_write w) ws"

lemma apply_other_write: "apply_write w db = Some db' \<Longrightarrow> \<not> block_write w \<Longrightarrow> block_columns db' = block_columns db"
  by (cases w) (auto simp: block_columns_def bind_eq_Some_conv)

lemma write_other_batch: "write_batch ws db = Some db' \<Longrightarrow> no_block_writes ws \<Longrightarrow> block_columns db' = block_columns db"
proof (induction ws arbitrary: db)
  case (Cons w ws)
  then obtain d where d: "apply_write w db = Some d" "write_batch ws d = Some db'" by (auto simp: bind_eq_Some_conv)
  from Cons.IH [OF d(2)] apply_other_write [OF d(1)] Cons.prems(2) show ?case by simp
qed simp

lemma write_batch_split:
  "write_batch (xs @ ys) db = Some db' \<Longrightarrow> \<exists>d. write_batch xs db = Some d \<and> write_batch ys d = Some db'"
  by (induction xs arbitrary: db) (auto simp: bind_eq_Some_conv)

subsection \<open>The writes of the other columns\<close>

lemma collect_Nil [simp]: "collect f [] = Some []"
  by (simp add: collect_def)

lemma collect_Cons: "collect f (x # xs) = Some ys \<longleftrightarrow> (\<exists>y zs. f x = Some y \<and> collect f xs = Some zs \<and> ys = y # zs)"
  by (auto simp: collect_def split: option.splits)

lemma collect_elem: "collect f xs = Some ys \<Longrightarrow> y \<in> set ys \<Longrightarrow> \<exists>x \<in> set xs. f x = Some y"
  by (induction xs arbitrary: ys) (auto simp: collect_Cons)

lemma shielded_writes [simp]: "no_block_writes (prepare_shielded_transaction_batch f)"
  by (auto simp: prepare_shielded_transaction_batch_def prepare_nullifier_batch_def list_all_iff)

lemma tree_writes: "prepare_trees_batch lib db f prev = Some ws \<Longrightarrow> no_block_writes ws"
  by (auto simp: prepare_trees_batch_def bind_eq_Some_conv update_sprout_tree_def create_sapling_tree_def
      insert_sapling_subtree_def create_orchard_tree_def insert_orchard_subtree_def update_history_tree_def Let_def
      split: option.splits)

lemma new_output_writes: "prepare_new_transparent_outputs_batch ls bs = Some (ws, bs') \<Longrightarrow> no_block_writes ws"
proof (induction ls bs arbitrary: ws rule: prepare_new_transparent_outputs_batch.induct)
  case (2 l utxo rest bs)
  then show ?case by (fastforce simp: bind_eq_Some_conv Let_def split: option.splits)
qed simp

lemma spent_output_writes: "prepare_spent_transparent_outputs_batch ls bs = Some (ws, bs') \<Longrightarrow> no_block_writes ws"
proof (induction ls bs arbitrary: ws rule: prepare_spent_transparent_outputs_batch.induct)
  case (2 l utxo rest bs)
  then show ?case by (fastforce simp: bind_eq_Some_conv Let_def split: option.splits)
qed simp

lemma spending_writes: "prepare_spending_transparent_tx_ids_batch l tx m bs = Some ws \<Longrightarrow> no_block_writes ws"
  unfolding prepare_spending_transparent_tx_ids_batch_def list_all_iff
  by (fastforce simp: bind_eq_Some_conv dest: collect_elem split: option.splits)

lemma transparent_writes:
  assumes "prepare_transparent_transaction_batch f ls m ls' bs = Some ws"
  shows "no_block_writes ws"
proof -
  obtain ws1 bs1 ws2 bs2 wss where w: "prepare_new_transparent_outputs_batch ls bs = Some (ws1, bs1)"
    "prepare_spent_transparent_outputs_batch ls' bs1 = Some (ws2, bs2)"
    "collect (\<lambda>(i, tx). do {
       location \<leftarrow> TransactionLocation_from_usize (fb_height f) i;
       prepare_spending_transparent_tx_ids_batch location tx m bs2 }) (enumerate 0 (fb_transactions f)) = Some wss"
    "ws = ws1 @ ws2 @ concat wss @ prepare_transparent_balances_batch bs2"
    using assms by (auto simp: prepare_transparent_transaction_batch_def bind_eq_Some_conv)
  have "no_block_writes (concat wss)" unfolding list_all_iff
    using collect_elem [OF w(3)] spending_writes by (fastforce simp: bind_eq_Some_conv list_all_iff)
  with new_output_writes [OF w(1)] spent_output_writes [OF w(2)] show ?thesis
    by (auto simp: w(4) prepare_transparent_balances_batch_def list_all_iff)
qed

lemma staking_writes: "prepare_staking_action db a l created = ok (created', ws) \<Longrightarrow> no_block_writes ws"
  by (auto simp: prepare_staking_action_def prepare_new_delegation_bond_def prepare_unbonding_delegation_bond_def
      prepare_withdrawn_delegation_bond_def prepare_retarget_delegation_bond_def tryr_ok_iff Let_def
      split: StakingActionKind.splits option.splits if_splits)

lemma bonds_loop_writes: "prepare_bonds_loop db h i txs created = ok (created', ws) \<Longrightarrow> no_block_writes ws"
proof (induction db h i txs created arbitrary: ws created' rule: prepare_bonds_loop.induct)
  case (2 db h i tx txs created)
  show ?case
  proof (cases "staking_action tx")
    case None
    with 2 show ?thesis by simp
  next
    case (Some a)
    with 2(3) obtain l created1 ws1 ws2 where w: "TransactionLocation_from_usize h i = Some l"
      "prepare_staking_action db a l created = ok (created1, ws1)"
      "prepare_bonds_loop db h (Suc i) txs created1 = ok (created', ws2)" "ws = ws1 @ ws2"
      by (auto simp: bind_ok_iff tryr_ok_iff)
    from 2(2) [OF Some w(1) w(3)] staking_writes [OF w(2)] w(4) show ?thesis by simp
  qed
qed simp

lemma rewards_loop_writes: "prepare_rewards_loop db created rs = ok ws \<Longrightarrow> no_block_writes ws"
proof (induction db created rs arbitrary: ws rule: prepare_rewards_loop.induct)
  case (2 db created k r rest)
  then show ?case by (cases "block_or_db_bond db created k") (auto simp: tryr_ok_iff)
qed simp

lemma pool_writes_other: "prepare_chain_value_pools_batch f m pool = ok ws \<Longrightarrow> no_block_writes ws"
  by (auto simp: prepare_chain_value_pools_batch_def tryr_ok_iff)


text \<open>The batch of a block writes the columns of the blocks in its first part only.\<close>

lemma block_batch_columns:
  assumes "prepare_block_batch lib db f ls m ls' bs pool prev = ok ws" "write_batch ws db = Some db'"
  obtains data d where "prepare_block_header_and_transaction_data_batch f = Some data" "write_batch data db = Some d"
    "block_columns db' = block_columns d"
proof -
  let ?index = "if fb_height f \<noteq> 0 then do {
         transparent_ws \<leftarrow> prepare_transparent_transaction_batch f ls m ls' bs;
         tryr (prepare_delegation_bonds_batch db f) (\<lambda>bond_ws. ok (transparent_ws @ bond_ws)) }
       else ok []"
  obtain data trees index pools where w: "prepare_block_header_and_transaction_data_batch f = Some data"
    "prepare_trees_batch lib db f prev = Some trees" "?index = ok index" "prepare_chain_value_pools_batch f m pool = ok pools"
    "ws = data @ prepare_shielded_transaction_batch f @ trees @ index @ pools"
    using assms(1) by (auto simp: prepare_block_batch_def bind_ok_iff tryr_ok_iff)
  have "no_block_writes index" using w(3) transparent_writes bonds_loop_writes rewards_loop_writes
    by (fastforce simp: prepare_delegation_bonds_batch_def bind_ok_iff tryr_ok_iff split: if_splits)
  then have rest: "no_block_writes (prepare_shielded_transaction_batch f @ trees @ index @ pools)"
    using tree_writes [OF w(2)] pool_writes_other [OF w(4)] by simp
  obtain d where d: "write_batch data db = Some d"
    "write_batch (prepare_shielded_transaction_batch f @ trees @ index @ pools) d = Some db'"
    using write_batch_split [OF assms(2) [unfolded w(5)]] by blast
  from that [OF w(1) d(1) write_other_batch [OF d(2) rest]] show thesis .
qed

subsection \<open>The transactions of a block\<close>

lemma location_less:
  "(\<lparr>tl_height = h, tl_index = i\<rparr> :: TransactionLocation) < \<lparr>tl_height = h', tl_index = i'\<rparr> \<longleftrightarrow> h < h' \<or> h = h' \<and> i < i'"
  "(\<lparr>tl_height = h, tl_index = i\<rparr> :: TransactionLocation) \<le> \<lparr>tl_height = h', tl_index = i'\<rparr> \<longleftrightarrow> h < h' \<or> h = h' \<and> i \<le> i'"
  by (auto simp: less_TransactionLocation_ext_def less_eq_TransactionLocation_ext_def)

lemma below_snoc [simp]: "below h (m @ [(k, v)]) \<longleftrightarrow> below h m \<and> k < h"
  by (auto simp: below_def)

lemma below_mono: "below h m \<Longrightarrow> h \<le> h' \<Longrightarrow> below h' m"
  by (auto simp: below_def intro: less_le_trans)

definition tx_entries :: "u32 \<Rightarrow> nat \<Rightarrow> Transaction list \<Rightarrow> (TransactionLocation \<times> Transaction) list" where
  "tx_entries h n txs = map (\<lambda>(i, tx). (\<lparr>tl_height = h, tl_index = word_of_nat i\<rparr>, tx)) (enumerate n txs)"

lemma transaction_writes:
  assumes "collect (\<lambda>(i, tx, hash). do {
       l \<leftarrow> TransactionLocation_from_usize h i;
       Some [PutTx l tx, PutHashByTxLoc l hash, PutTxLocByHash hash l] }) (enumerate n ps) = Some wss"
    "write_batch (concat wss) db = Some db'" "below \<lparr>tl_height = h, tl_index = word_of_nat n\<rparr> (tx_by_loc db)"
  shows "block_columns db' = (db_network db, hash_by_height db, db_height_by_hash db, block_header_by_height db,
    tx_by_loc db @ tx_entries h n (map fst ps))"
  using assms
proof (induction ps arbitrary: n wss db)
  case Nil
  then show ?case by (simp add: block_columns_def tx_entries_def)
next
  case step: (Cons p ps)
  obtain tx hash where p: "p = (tx, hash)" by (cases p)
  let ?l = "\<lparr>tl_height = h, tl_index = word_of_nat n\<rparr>"
  obtain wss' where w: "n < 2 ^ 16" "wss = [PutTx ?l tx, PutHashByTxLoc ?l hash, PutTxLocByHash hash ?l] # wss'"
    "collect (\<lambda>(i, tx, hash). do {
       l \<leftarrow> TransactionLocation_from_usize h i;
       Some [PutTx l tx, PutHashByTxLoc l hash, PutTxLocByHash hash l] }) (enumerate (Suc n) ps) = Some wss'"
    using step.prems(1) by (auto simp: p collect_Cons TransactionLocation_from_usize_def TransactionIndex_from_usize_def
        bind_eq_Some_conv rassert_def split: if_splits)
  define d where "d = db\<lparr>tx_by_loc := tx_by_loc db @ [(?l, tx)], hash_by_tx_loc := Mapping.update ?l hash (hash_by_tx_loc db),
    db_tx_loc_by_hash := Mapping.update hash ?l (db_tx_loc_by_hash db)\<rparr>"
  have d: "write_batch (concat wss') d = Some db'"
    using step.prems(2,3) by (simp add: w(2) d_def btree_insert_above)
  show ?case
  proof (cases ps)
    case Nil
    then have "wss' = []" using w(3) by simp
    then have "db' = d" using d by simp
    with Nil show ?thesis by (simp add: block_columns_def tx_entries_def d_def p)
  next
    case (Cons q qs)
    then have "Suc n < 2 ^ 16" using w(3) by (cases q) (auto simp: collect_Cons TransactionLocation_from_usize_def
        TransactionIndex_from_usize_def bind_eq_Some_conv rassert_def split: if_splits)
    then have "(word_of_nat n :: u16) < word_of_nat (Suc n)" by (simp add: word_less_nat_alt unat_of_nat del: of_nat_Suc)
    then have lt: "?l < \<lparr>tl_height = h, tl_index = word_of_nat (Suc n)\<rparr>" by (simp add: location_less)
    have "below \<lparr>tl_height = h, tl_index = word_of_nat (Suc n)\<rparr> (tx_by_loc d)"
      using below_mono [OF step.prems(3)] lt by (simp add: d_def del: of_nat_Suc)
    from step.IH [OF w(3) d this] show ?thesis
      by (simp add: d_def block_columns_def tx_entries_def p)
  qed
qed

lemma tx_entries_locations: "l \<in> fst ` set (tx_entries h n txs) \<Longrightarrow> tl_height l = h"
  by (auto simp: tx_entries_def)

lemma tx_entries_snd: "map snd (tx_entries h n txs) = txs"
  by (induction txs arbitrary: n) (simp_all add: tx_entries_def)

lemma in_height_range: "min_for_height h \<le> l \<and> l \<le> max_for_height h \<longleftrightarrow> tl_height l = h"
proof (cases l)
  case (fields a b)
  have "unat b < 2 ^ 16" using unsigned_less [of b] by simp
  then have "b \<le> 65535" by (simp add: word_le_nat_alt)
  with fields show ?thesis by (auto simp: min_for_height_def max_for_height_def location_less)
qed

lemma transactions_by_height_filter: "transactions_by_height db h = filter (\<lambda>(l, _). tl_height l = h) (tx_by_loc db)"
  unfolding transactions_by_height_def transactions_by_location_range_def using in_height_range
  by (auto intro: filter_cong)


section \<open>Finalizing appends a block\<close>

definition blocks_ok :: "ZebraDb \<Rightarrow> bool" where
  "blocks_ok db \<longleftrightarrow> map fst (hash_by_height db) = map word_of_nat [0..<length (hash_by_height db)] \<and>
     length (hash_by_height db) \<le> HEIGHT_MAX + 1 \<and>
     (\<forall>l \<in> fst ` set (tx_by_loc db). unat (tl_height l) < length (hash_by_height db)) \<and>
     (\<forall>h x. Mapping.lookup (db_height_by_hash db) x = Some h \<longrightarrow> (h, x) \<in> set (hash_by_height db))"

lemma blocks_ok_new: "blocks_ok (new_db network)"
  by (simp add: blocks_ok_def new_db_def)

definition verified_block :: "FinalizableBlock \<Rightarrow> SemanticallyVerifiedBlock" where
  "verified_block b = (case b of Checkpoint b \<Rightarrow> b | Contextual b _ _ _ \<Rightarrow> semantically_verified b)"

text \<open>The height of the next block is the number of blocks.\<close>

lemma blocks_ok_tip:
  assumes "blocks_ok db"
  shows "finalized_tip_height db = (if hash_by_height db = [] then None else Some (word_of_nat (length (hash_by_height db) - 1)))"
proof (cases "hash_by_height db" rule: rev_cases)
  case (snoc xs x)
  then have "fst x = word_of_nat (length xs)" using assms by (auto simp: blocks_ok_def)
  with snoc show ?thesis by (simp add: finalized_tip_height_def db_tip_def)
qed (simp add: finalized_tip_height_def db_tip_def)

lemma next_height:
  assumes "blocks_ok db" "if db_is_empty db then h = 0 else (\<exists>t. finalized_tip_height db = Some t \<and> height_add t 1 = Some h)"
  shows "unat h = length (hash_by_height db) \<and> length (hash_by_height db) \<le> HEIGHT_MAX"
proof (cases "hash_by_height db = []")
  case True
  with assms(2) show ?thesis by (simp add: db_is_empty_def)
next
  case False
  let ?n = "length (hash_by_height db)"
  have n: "0 < ?n" "?n \<le> HEIGHT_MAX + 1" using False assms(1) by (auto simp: blocks_ok_def)
  have "height_add (word_of_nat (?n - 1)) 1 = Some h" using assms blocks_ok_tip [OF assms(1)] False by (simp add: db_is_empty_def)
  moreover have u: "unat (word_of_nat (?n - 1) :: u32) = ?n - 1" using n by (simp add: unat_of_nat HEIGHT_MAX_def)
  ultimately have "?n - 1 + 1 \<le> HEIGHT_MAX \<and> h = word_of_nat (?n - 1) + 1"
    unfolding height_add_def u by (simp only: of_nat_1 option.simps split: if_splits)
  moreover have "?n - 1 + 1 = ?n" using n(1) by simp
  moreover have "(word_of_nat (?n - 1) + 1 :: u32) = word_of_nat (?n - 1 + 1)" by (simp only: of_nat_add of_nat_1)
  ultimately have "?n \<le> HEIGHT_MAX" "h = word_of_nat ?n" by metis+
  then show ?thesis by (simp add: unat_of_nat HEIGHT_MAX_def)
qed

lemma commit_finalized_columns:
  assumes "commit_finalized_direct lib db b prev = ok (hash, trees, db')"
  obtains f ts rewards amounts data d where "f = from_semantically_verified (verified_block b) ts rewards amounts"
    "finalized_tip_hash db = header_previous (fb_header f)" "hash = fb_hash f"
    "if db_is_empty db then fb_height f = 0 else (\<exists>t. finalized_tip_height db = Some t \<and> height_add t 1 = Some (fb_height f))"
    "prepare_block_header_and_transaction_data_batch f = Some data" "write_batch data db = Some d"
    "block_columns db' = block_columns d"
proof -
  obtain f p where f: "finalized_block lib db b prev = ok (f, p)" "finalized_tip_hash db = header_previous (fb_header f)"
    "if db_is_empty db then fb_height f = 0 else (\<exists>t. finalized_tip_height db = Some t \<and> height_add t 1 = Some (fb_height f))"
    "write_block lib db f p = ok (hash, db')"
    using assms by (auto simp: commit_finalized_direct_def tryr_ok_iff bind_ok_iff bind_eq_Some_conv rassert_def split: if_splits)
  obtain ts rewards amounts where e: "f = from_semantically_verified (verified_block b) ts rewards amounts"
    using f(1) by (cases b) (auto simp: finalized_block_def verified_block_def from_checkpoint_verified_def
        from_contextually_verified_def tryr_ok_iff)
  obtain ls m ls' bs batch where w: "prepare_block_batch lib db f ls m ls' bs (finalized_value_pool db) p = ok batch"
    "write_batch batch db = Some db'" "hash = fb_hash f"
    using f(4) by (auto simp: write_block_def bind_ok_iff tryr_ok_iff Let_def)
  obtain data d where "prepare_block_header_and_transaction_data_batch f = Some data" "write_batch data db = Some d"
    "block_columns db' = block_columns d"
    by (rule block_batch_columns [OF w(1,2)])
  from that [OF e f(2) w(3) f(3) this] show thesis .
qed

lemma below_heights: "blocks_ok db \<Longrightarrow> unat h = length (hash_by_height db) \<Longrightarrow> below h (hash_by_height db)"
proof -
  assume ok: "blocks_ok db" and h: "unat h = length (hash_by_height db)"
  have "k < h" if "k \<in> fst ` set (hash_by_height db)" for k
  proof -
    have "k \<in> set (map fst (hash_by_height db))" using that by simp
    then have "k \<in> set (map word_of_nat [0..<length (hash_by_height db)])" using ok unfolding blocks_ok_def by metis
    then obtain i where i: "i < length (hash_by_height db)" "k = word_of_nat i" by auto
    then have "unat k \<le> i" by (simp add: unat_of_nat)
    with i(1) h show ?thesis by (simp add: word_less_nat_alt)
  qed
  then show ?thesis by (simp add: below_def)
qed

lemma commit_finalized_appends:
  assumes "commit_finalized_direct lib db b prev = ok (hash, trees, db')" "blocks_ok db"
  shows "hash = sv_hash (verified_block b)" "finalized_tip_hash db = header_previous (sv_header (verified_block b))"
    "unat (sv_height (verified_block b)) = length (hash_by_height db)" "length (hash_by_height db) \<le> HEIGHT_MAX"
    "block_columns db' = (db_network db, hash_by_height db @ [(sv_height (verified_block b), hash)],
       Mapping.update hash (sv_height (verified_block b)) (db_height_by_hash db),
       Mapping.update (sv_height (verified_block b)) (sv_header (verified_block b)) (block_header_by_height db),
       tx_by_loc db @ tx_entries (sv_height (verified_block b)) 0
         (map fst (zip (sv_transactions (verified_block b)) (sv_transaction_hashes (verified_block b)))))"
    "blocks_ok db'"
proof -
  let ?b = "verified_block b" let ?h = "sv_height (verified_block b)"
  obtain f ts rewards amounts data d where c: "f = from_semantically_verified ?b ts rewards amounts"
    "finalized_tip_hash db = header_previous (fb_header f)" "hash = fb_hash f"
    "if db_is_empty db then fb_height f = 0 else (\<exists>t. finalized_tip_height db = Some t \<and> height_add t 1 = Some (fb_height f))"
    "prepare_block_header_and_transaction_data_batch f = Some data" "write_batch data db = Some d"
    "block_columns db' = block_columns d"
    by (rule commit_finalized_columns [OF assms(1)])
  have f [simp]: "fb_header f = sv_header ?b" "fb_hash f = sv_hash ?b" "fb_height f = ?h" "fb_transactions f = sv_transactions ?b"
    "fb_transaction_hashes f = sv_transaction_hashes ?b"
    by (simp_all add: c(1) from_semantically_verified_def)
  show hash: "hash = sv_hash ?b" and "finalized_tip_hash db = header_previous (sv_header ?b)" using c(2,3) by simp_all
  show h: "unat ?h = length (hash_by_height db)" and le: "length (hash_by_height db) \<le> HEIGHT_MAX"
    using next_height [OF assms(2) c(4)] by simp_all
  note bl = below_heights [OF assms(2) h]
  obtain wss where wss: "collect (\<lambda>(i, tx, hash). do {
       l \<leftarrow> TransactionLocation_from_usize ?h i;
       Some [PutTx l tx, PutHashByTxLoc l hash, PutTxLocByHash hash l] }) (enumerate 0 (zip (sv_transactions ?b) (sv_transaction_hashes ?b))) = Some wss"
    "data = [PutHeader ?h (sv_header ?b), PutHashByHeight ?h hash, PutHeightByHash hash ?h] @ concat wss"
    using c(5) hash by (auto simp: prepare_block_header_and_transaction_data_batch_def bind_eq_Some_conv)
  define e where "e = db\<lparr>block_header_by_height := Mapping.update ?h (sv_header ?b) (block_header_by_height db),
    hash_by_height := hash_by_height db @ [(?h, hash)], db_height_by_hash := Mapping.update hash ?h (db_height_by_hash db)\<rparr>"
  have e: "write_batch (concat wss) e = Some d" using c(6) by (simp add: wss(2) e_def btree_insert_above [OF bl])
  have "l < \<lparr>tl_height = ?h, tl_index = 0\<rparr>" if "l \<in> fst ` set (tx_by_loc db)" for l
  proof -
    have "unat (tl_height l) < length (hash_by_height db)" using that assms(2) unfolding blocks_ok_def by blast
    then show ?thesis by (cases l) (simp add: location_less word_less_nat_alt h)
  qed
  then have "below \<lparr>tl_height = ?h, tl_index = word_of_nat 0\<rparr> (tx_by_loc e)" by (simp add: e_def below_def)
  from transaction_writes [OF wss(1) e this]
  show cols: "block_columns db' = (db_network db, hash_by_height db @ [(?h, hash)],
       Mapping.update hash ?h (db_height_by_hash db), Mapping.update ?h (sv_header ?b) (block_header_by_height db),
       tx_by_loc db @ tx_entries ?h 0 (map fst (zip (sv_transactions ?b) (sv_transaction_hashes ?b))))"
    using c(7) by (simp add: e_def)
  have "word_of_nat (unat ?h) = ?h" by simp
  then have "?h = word_of_nat (length (hash_by_height db))" using h by simp
  moreover have "\<forall>l \<in> fst ` set (tx_entries ?h 0 (map fst (zip (sv_transactions ?b) (sv_transaction_hashes ?b)))). unat (tl_height l) = length (hash_by_height db)"
    using h by (auto simp: tx_entries_def)
  moreover have d': "hash_by_height db' = hash_by_height db @ [(?h, hash)]"
    "db_height_by_hash db' = Mapping.update hash ?h (db_height_by_hash db)"
    "tx_by_loc db' = tx_by_loc db @ tx_entries ?h 0 (map fst (zip (sv_transactions ?b) (sv_transaction_hashes ?b)))"
    using cols by (simp_all add: block_columns_def)
  ultimately show "blocks_ok db'"
    using assms(2) le unfolding blocks_ok_def d'
    by (auto simp: lookup_update' split: if_splits)
qed

lemma blocks_ok_map_of:
  "hash_by_height db' = hash_by_height db @ [(h, x)] \<Longrightarrow> finalized_tip_hash db' = x \<and> finalized_tip_height db' = Some h"
  by (simp add: finalized_tip_hash_def finalized_tip_height_def db_tip_def)

lemma commit_finalized_reads:
  assumes "commit_finalized_direct lib db b prev = ok (hash, trees, db')" "blocks_ok db"
  shows "hash_by_height db' = hash_by_height db @ [(sv_height (verified_block b), sv_hash (verified_block b))]"
    "finalized_tip_hash db' = sv_hash (verified_block b)" "finalized_tip_height db' = Some (sv_height (verified_block b))"
    "Mapping.lookup (db_height_by_hash db') (sv_hash (verified_block b)) = Some (sv_height (verified_block b))"
    "db_block db' (Height (sv_height (verified_block b))) =
      Some (sv_header (verified_block b), map fst (zip (sv_transactions (verified_block b)) (sv_transaction_hashes (verified_block b))))"
    "h \<noteq> sv_height (verified_block b) \<Longrightarrow> db_block db' (Height h) = db_block db (Height h)"
proof -
  let ?b = "verified_block b" let ?h = "sv_height (verified_block b)"
  let ?txs = "map fst (zip (sv_transactions ?b) (sv_transaction_hashes ?b))"
  note a = commit_finalized_appends [OF assms]
  have cols: "hash_by_height db' = hash_by_height db @ [(?h, sv_hash ?b)]"
    "db_height_by_hash db' = Mapping.update (sv_hash ?b) ?h (db_height_by_hash db)"
    "block_header_by_height db' = Mapping.update ?h (sv_header ?b) (block_header_by_height db)"
    "tx_by_loc db' = tx_by_loc db @ tx_entries ?h 0 ?txs"
    using a(1,5) by (auto simp: block_columns_def)
  have entries: "filter (\<lambda>(l, _). tl_height l = h) (tx_entries ?h 0 ?txs) = (if h = ?h then tx_entries ?h 0 ?txs else [])" for h
    by (auto simp: tx_entries_def filter_empty_conv filter_id_conv)
  have "filter (\<lambda>(l, _). tl_height l = ?h) (tx_by_loc db) = []"
    using assms(2) a(3) by (fastforce simp: filter_empty_conv blocks_ok_def)
  then have "map snd (transactions_by_height db' ?h) = ?txs"
    using entries [of ?h] by (simp add: transactions_by_height_filter cols tx_entries_snd)
  then show "db_block db' (Height ?h) = Some (sv_header ?b, ?txs)"
    by (simp add: cols db_block_def block_header_def db_height_or_else_def lookup_update')
  show "db_block db' (Height h) = db_block db (Height h)" if "h \<noteq> ?h"
  proof -
    have "transactions_by_height db' h = transactions_by_height db h"
      using entries [of h] that by (simp add: transactions_by_height_filter cols)
    with that show ?thesis by (simp add: cols db_block_def block_header_def db_height_or_else_def lookup_update')
  qed
  show "hash_by_height db' = hash_by_height db @ [(?h, sv_hash ?b)]" by (rule cols(1))
  show "finalized_tip_hash db' = sv_hash ?b" "finalized_tip_height db' = Some ?h" using blocks_ok_map_of [OF cols(1)] by simp_all
  show "Mapping.lookup (db_height_by_hash db') (sv_hash ?b) = Some ?h" by (simp add: cols)
qed


text \<open>A block with a coinbase transaction that has no outputs, on an empty database and on top of it.\<close>

definition plain_block :: "u32 \<Rightarrow> bytes \<Rightarrow> bytes \<Rightarrow> ContextuallyVerifiedBlock" where
  "plain_block height hash previous = \<lparr>cv_header = \<lparr>header_version = 5, header_previous = previous, header_merkle_root = [],
         header_commitment = [], header_time = 0,
       header_threshold = 0x1f07ffff,
         header_nonce = [], header_solution = [], header_fat_pointer = FatPointer_null\<rparr>,
     cv_transactions = [V5 [Coinbase height] [] None None], cv_hash = hash, cv_height = height, cv_new_outputs = Mapping.empty,
     cv_spent_outputs = Mapping.empty, cv_transaction_hashes = [1 # hash], cv_chain_value_pool_change = vb_zero, cv_size = 100\<rparr>"

definition plain_treestate :: "tree \<Rightarrow> Treestate" where
  "plain_treestate hist = \<lparr>ts_note_commitment_trees = \<lparr>nct_sprout = [1], nct_sapling = [2], nct_sapling_subtree = None,
     nct_orchard = [3], nct_orchard_subtree = None\<rparr>, ts_history_tree = hist\<rparr>"

abbreviation genesis_block :: ContextuallyVerifiedBlock where "genesis_block \<equiv> plain_block 0 [7] GENESIS_PREVIOUS_BLOCK_HASH"

definition genesis_db :: ZebraDb where
  "genesis_db = (new_db Mainnet)\<lparr>hash_by_height := [(0, [7])], db_height_by_hash := Mapping.update [7] 0 Mapping.empty,
     block_header_by_height := Mapping.update 0 (cv_header genesis_block) Mapping.empty,
     tx_by_loc := [(\<lparr>tl_height = 0, tl_index = 0\<rparr>, V5 [Coinbase 0] [] None None)],
     hash_by_tx_loc := Mapping.update \<lparr>tl_height = 0, tl_index = 0\<rparr> [1, 7] Mapping.empty,
     db_tx_loc_by_hash := Mapping.update [1, 7] \<lparr>tl_height = 0, tl_index = 0\<rparr> Mapping.empty,
     db_sprout_anchors := Mapping.update [1] [1] Mapping.empty, db_sprout_tree := Some [1],
     db_sapling_anchors := {[2]}, db_sapling_trees := [(0, [2])], db_orchard_anchors := {[3]}, db_orchard_trees := [(0, [3])],
     db_history_tree := Some [4], tip_chain_value_pool := Some vb_zero, db_block_info := Mapping.update 0 (vb_zero, 100) Mapping.empty\<rparr>"

lemma plain_pools: "prepare_chain_value_pools_batch f Mapping.empty vb_zero = ok
    [PutValuePool vb_zero, PutBlockInfo (fb_height f) (vb_zero, word_of_nat (fb_size f))]"
  if "fb_transactions f = [V5 [Coinbase h] [] None None]" "fb_deferred_pool_balance_change f = Some 0" "fb_bond_rewards f = []" "fb_unbonding_amounts f = []"
proof -
  have "chain_value_pool_change [V5 [Coinbase h] [] None None] Mapping.empty (Some 0) = ok vb_zero"
  proof -
    have z: "vb_ok NegativeAllowed vb_zero" "pool_plus vb_zero vb_zero = vb_zero"
      by (simp_all add: vb_ok_def vb_zero_def amount_ok_simps MAX_MONEY_val pool_plus_def)
    then have add: "vb_add NegativeAllowed vb_zero vb_zero = ok vb_zero" using vb_add_ok [OF z(1,1)] by simp
    have t: "transparent_value_balance_from_outputs Mapping.empty (V5 [Coinbase h] [] None None) = ok vb_zero"
      by (simp add: transparent_value_balance_from_outputs_def sum_inputs_def value_from_outputs_def amount_sum_def
          from_transparent_amount_def vb_zero_def amount_sub_def amount_add_def i64_checked_def in_i64_def constrain_def validate_def MAX_MONEY_val)
    have s: "sprout_value_balance (V5 [Coinbase h] [] None None) = ok vb_zero" "sapling_value_balance (V5 [Coinbase h] [] None None) = vb_zero"
      "orchard_value_balance (V5 [Coinbase h] [] None None) = vb_zero" "staking_action_value_balance None = Some vb_zero"
      by (simp_all add: sprout_value_balance_def sprout_joinsplit_value_balances_def sapling_value_balance_def orchard_value_balance_def
          from_sapling_amount_def from_orchard_amount_def vb_zero_def vb_sum_def staking_action_value_balance_def)
    have "value_balance Mapping.empty (V5 [Coinbase h] [] None None) = ok vb_zero"
      by (simp add: value_balance_def t s add)
    then show ?thesis using pools_unchanged(2) add by (simp add: chain_value_pool_change_def vb_zero_def)
  qed
  with that pools_unchanged(1) show ?thesis by (simp add: prepare_chain_value_pools_batch_def add_total_rewards_def)
qed

lemmas write_run_simps = write_block_def spent_outpoints_def btree_collect_def mapping_collect_def
  List.map_filter_def prepare_block_batch_def prepare_block_header_and_transaction_data_batch_def collect_def
  TransactionLocation_from_usize_def TransactionIndex_from_usize_def rassert_def prepare_trees_batch_def
  sprout_tree_for_tip_def sapling_tree_for_tip_def orchard_tree_for_tip_def db_is_empty_def finalized_value_pool_def
  plain_treestate_def finalized_tip_height_def db_tip_def prepare_shielded_transaction_batch_def prepare_nullifier_batch_def
  update_sprout_tree_def create_sapling_tree_def insert_sapling_subtree_def create_orchard_tree_def insert_orchard_subtree_def
  update_history_tree_def sample_lib_def

lemma plain_finalized:
  "f = from_contextually_verified (plain_block h x p) ts [] [] \<Longrightarrow>
     fb_transactions f = [V5 [Coinbase h] [] None None] \<and> fb_deferred_pool_balance_change f = Some 0 \<and> fb_bond_rewards f = [] \<and>
     fb_unbonding_amounts f = [] \<and> fb_height f = h \<and> fb_hash f = x \<and> fb_transaction_hashes f = [1 # x] \<and>
     fb_new_outputs f = Mapping.empty \<and> fb_header f = cv_header (plain_block h x p) \<and> fb_treestate f = ts \<and> fb_size f = 100"
  by (simp add: from_contextually_verified_def from_semantically_verified_def semantically_verified_def plain_block_def vb_zero_def)

lemma map_entries_empty: "map_entries Mapping.empty = []"
  by (simp add: map_entries_def List.map_filter_def)

lemma genesis_commit:
  "commit_finalized_direct sample_lib (new_db Mainnet) (Contextual genesis_block (plain_treestate [4]) [] []) None =
     ok ([7], ts_note_commitment_trees (plain_treestate [4]), genesis_db)"
proof -
  define f where "f = from_contextually_verified genesis_block (plain_treestate [4]) [] []"
  note f = plain_finalized [OF f_def]
  have pools: "prepare_chain_value_pools_batch f Mapping.empty vb_zero = ok [PutValuePool vb_zero, PutBlockInfo 0 (vb_zero, 100)]"
    using plain_pools [of f 0] f by simp
  have "write_block sample_lib (new_db Mainnet) f None = ok ([7], genesis_db)"
    by (simp add: pools f map_entries_empty write_run_simps new_db_def genesis_db_def)
  moreover have "finalized_tip_hash (new_db Mainnet) = header_previous (fb_header f)" "db_is_empty (new_db Mainnet)"
    by (simp_all add: finalized_tip_hash_def db_tip_def new_db_def db_is_empty_def f plain_block_def)
  ultimately show ?thesis
    by (simp add: commit_finalized_direct_def finalized_block_def f_def [symmetric] f rassert_def)
qed

lemma plain_verified:
  "verified_block (Contextual (plain_block h x p) ts rs us) = semantically_verified (plain_block h x p)"
  "sv_height (semantically_verified (plain_block h x p)) = h" "sv_hash (semantically_verified (plain_block h x p)) = x"
  "sv_header (semantically_verified (plain_block h x p)) = cv_header (plain_block h x p)"
  "sv_transactions (semantically_verified (plain_block h x p)) = [V5 [Coinbase h] [] None None]"
  "sv_transaction_hashes (semantically_verified (plain_block h x p)) = [1 # x]"
  by (simp_all add: verified_block_def semantically_verified_def plain_block_def)

lemma genesis_db_ok: "blocks_ok genesis_db"
  using commit_finalized_appends(6) [OF genesis_commit blocks_ok_new] .


end
