(* ===== verification/Block_Writer.thy ===== *)
theory Block_Writer
  imports Chain_Tip Finalized_Blocks
begin

text \<open>
  The task that writes blocks, \<^verbatim>\<open>zebra-state/src/service/write.rs\<close>. It first commits the checkpoint-verified blocks
  to the database. Then it handles one message at a time: it commits a block to the non-finalized state
  and finalizes what is past the reorganisation limit, finalizes up to a block that the Crosslink protocol
  has decided, or invalidates and reconsiders blocks. Logging, metrics and the end of the task when a
  channel is closed are left out.
\<close>

section \<open>Definitions\<close>

datatype NonFinalizedWriteMessage =
    Commit SemanticallyVerifiedBlock
  | CrosslinkFinalized bytes
  | Invalidate bytes
  | Reconsider bytes

datatype WriteResponse =
    CommitResponse "ValidateContextError + bytes"
  | CrosslinkResponse "string + bytes \<times> (bytes \<times> u64) list"
  | InvalidateResponse "string + bytes"
  | ReconsiderResponse "ReconsiderError + bytes list"

record ShadowBlock =
  this_hash :: bytes
  parent_hash :: bytes
  this_height :: u32

datatype BlockEvent =
    DequeuedEvent ShadowBlock
  | CommittedEvent ShadowBlock
  | TradFinalizedEvent ShadowBlock
  | CrosslinkFinalizedEvent ShadowBlock

text \<open>
  The state of the task, with what it has sent: the last value of the channel for the non-finalized state,
  the best tip, the resets of the checkpoint queue and the block events.
\<close>

record BlockWriter =
  w_db :: ZebraDb
  w_nfs :: NonFinalizedState
  w_prev_trees :: "NoteCommitmentTrees option"
  w_parent_errors :: "(bytes \<times> ValidateContextError) list"
  w_chain_tip :: ChainTipSender
  w_nfs_sent :: "NonFinalizedState option"
  w_resets :: "bytes list"
  w_events :: "BlockEvent list"

definition PARENT_ERROR_MAP_LIMIT :: nat where "PARENT_ERROR_MAP_LIMIT = unat MAX_BLOCK_REORG_HEIGHT * 2"

definition push_block_event :: "BlockEvent \<Rightarrow> BlockWriter \<Rightarrow> BlockWriter" where
  "push_block_event e w = w\<lparr>w_events := w_events w @ [e]\<rparr>"

subsection \<open>Checkpoint-verified blocks\<close>

definition write_checkpoint_block :: "TreeLib \<Rightarrow> SemanticallyVerifiedBlock \<Rightarrow> BlockWriter \<Rightarrow> BlockWriter rust" where
  "write_checkpoint_block lib b w = do {
     next_valid_height \<leftarrow> (case finalized_tip_height (w_db w) of None \<Rightarrow> Some 0 | Some height \<Rightarrow> height_add height 1);
     if sv_height b \<noteq> next_valid_height then Some w
     else do {
       r \<leftarrow> commit_finalized lib (w_db w) b (w_prev_trees w);
       (case r of
          Inr (finalized, trees, db) \<Rightarrow> Some (w\<lparr>w_db := db, w_prev_trees := Some trees,
            w_chain_tip := set_finalized_tip (Some (ChainTipBlock_from_semantic finalized)) (w_chain_tip w)\<rparr>)
        | Inl _ \<Rightarrow> Some (w\<lparr>w_prev_trees := None, w_resets := w_resets w @ [finalized_tip_hash (w_db w)]\<rparr>)) } }"

subsection \<open>Other blocks\<close>

definition validate_and_commit_non_finalized ::
  "TreeLib \<Rightarrow> ZebraDb \<Rightarrow> NonFinalizedState \<Rightarrow> SemanticallyVerifiedBlock \<Rightarrow> (ValidateContextError, NonFinalizedState) result" where
  "validate_and_commit_non_finalized lib db s prepared =
     tryr (initial_contextual_validity db s prepared) (\<lambda>_.
       if finalized_tip_hash db = header_previous (sv_header prepared) then commit_new_chain lib s prepared db
       else commit_block lib s prepared db)"

definition update_latest_chain_channels :: "BlockWriter \<Rightarrow> BlockWriter rust" where
  "update_latest_chain_channels w = do {
     c \<leftarrow> best_chain (w_nfs w);
     tip \<leftarrow> tip_block c;
     Some (w\<lparr>w_nfs_sent := Some (w_nfs w),
       w_chain_tip := set_best_non_finalized_tip (Some (ChainTipBlock_from_contextual tip)) (w_chain_tip w)\<rparr>) }"

subsection \<open>Crosslink finality\<close>

definition shadow_block :: "SemanticallyVerifiedBlock \<Rightarrow> u32 \<Rightarrow> ShadowBlock" where
  "shadow_block b height = \<lparr>this_hash = sv_hash b, parent_hash = header_previous (sv_header b), this_height = height\<rparr>"

fun crosslink_finalize_loop :: "TreeLib \<Rightarrow> nat \<Rightarrow> BlockWriter \<Rightarrow> BlockWriter rust" where
  "crosslink_finalize_loop lib 0 w = Some w"
| "crosslink_finalize_loop lib (Suc n) w = do {
     (finalizable_block, nfs) \<leftarrow> finalize (w_nfs w);
     let inner_block = verified_block finalizable_block;
     height \<leftarrow> coinbase_height (sv_transactions inner_block);
     r \<leftarrow> commit_finalized_direct lib (w_db w) finalizable_block None;
     (case r of
        Inl _ \<Rightarrow> None
      | Inr (_, _, db) \<Rightarrow> crosslink_finalize_loop lib n
          (push_block_event (CrosslinkFinalizedEvent (shadow_block inner_block height)) (w\<lparr>w_nfs := nfs, w_db := db\<rparr>))) }"

fun aggregate_stakes :: "(BondKey \<times> DelegationBond) list \<Rightarrow> (bytes \<times> u64) list \<Rightarrow> (bytes \<times> u64) list rust" where
  "aggregate_stakes [] stakes = Some stakes"
| "aggregate_stakes ((_, bond) # bonds) stakes = do {
     amount \<leftarrow> amount_into_u64 (bond_amount bond);
     let stake = (case map_of stakes (target_finalizer bond) of Some s \<Rightarrow> s | None \<Rightarrow> 0);
     stake \<leftarrow> checked_add stake amount;
     aggregate_stakes bonds (AList.update (target_finalizer bond) stake stakes) }"

definition write_crosslink_finalized ::
  "TreeLib \<Rightarrow> bytes \<Rightarrow> BlockWriter \<Rightarrow> ((string + bytes \<times> (bytes \<times> u64) list) \<times> BlockWriter) rust" where
  "write_crosslink_finalized lib hash w = do {
     (newly_finalized_blocks, nfs) \<leftarrow> crosslink_finalize hash (w_nfs w);
     (case newly_finalized_blocks of
        Some bs \<Rightarrow> do {
          w \<leftarrow> update_latest_chain_channels (w\<lparr>w_nfs := nfs\<rparr>);
          w \<leftarrow> crosslink_finalize_loop lib (length bs) w;
          stakes \<leftarrow> aggregate_stakes (active_bonds (w_db w)) [];
          Some (Inr (hash, stakes), w) }
      | None \<Rightarrow>
          if contains_hash (w_db w) hash then Some (Inr (hash, []), w)
          else Some (Inl ''Couldn't find finalized block'', w)) }"

subsection \<open>Committing a block\<close>

text \<open>Every turn of the loop removes a block from every chain that is kept.\<close>

definition total_blocks :: "NonFinalizedState \<Rightarrow> nat" where
  "total_blocks s = sum_list (map (\<lambda>c. length (blocks c)) (chain_set s))"

lemma sum_drop_le: "sum_list (map f (drop n xs)) \<le> sum_list (map f xs :: nat list)"
proof -
  have "sum_list (map f xs) = sum_list (map f (take n xs)) + sum_list (map f (drop n xs))"
    by (metis append_take_drop_id map_append sum_list_append)
  then show ?thesis by simp
qed

lemma chain_set_insert_total:
  "chain_set_insert c ds = Some ds' \<Longrightarrow>
     sum_list (map (\<lambda>c. length (blocks c)) ds') = length (blocks c) + sum_list (map (\<lambda>c. length (blocks c)) ds)"
  by (induction ds arbitrary: ds') (auto simp: bind_eq_Some_conv split: if_splits)

lemma nfs_insert_total:
  assumes "nfs_insert c s = Some s'"
  shows "total_blocks s' \<le> length (blocks c) + total_blocks s"
proof -
  obtain cs n where cs: "chain_set_insert c (chain_set s) = Some cs" "chain_set s' = drop n cs"
    using assms by (auto simp: nfs_insert_def insert_with_def bind_eq_Some_conv)
  from sum_drop_le [of "\<lambda>c. length (blocks c)" n cs] chain_set_insert_total [OF cs(1)] cs(2) show ?thesis
    by (simp add: total_blocks_def)
qed

lemma pop_root_length: "pop_root c = Some (b, ts, rewards, amounts, c') \<Longrightarrow> length (blocks c) = Suc (length (blocks c'))"
  using pop_root_frame(1) by fastforce

lemma finalize_side_chains_total:
  "finalize_side_chains h cs s = Some s' \<Longrightarrow> total_blocks s' \<le> sum_list (map (\<lambda>c. length (blocks c)) cs) + total_blocks s"
proof (induction cs arbitrary: s)
  case (Cons c cs)
  obtain r where r: "non_finalized_root_hash c = Some r" using Cons.prems by (auto simp: bind_eq_Some_conv)
  show ?case
  proof (cases "r = h")
    case True
    obtain b ts rewards amounts c1 s1 where c1: "pop_root c = Some (b, ts, rewards, amounts, c1)" "nfs_insert c1 s = Some s1"
      "finalize_side_chains h cs s1 = Some s'"
      using Cons.prems r True by (auto simp: bind_eq_Some_conv)
    from Cons.IH [OF c1(3)] nfs_insert_total [OF c1(2)] pop_root_length [OF c1(1)] show ?thesis by simp
  next
    case False
    with Cons r show ?thesis by fastforce
  qed
qed simp

lemma finalize_total:
  assumes "finalize s = Some (f, s')"
  shows "total_blocks s' < total_blocks s"
proof -
  obtain best side where bs: "chain_iter s = best # side" using assms by (cases "chain_iter s") (auto simp: finalize_def)
  then have cs: "chain_set s = rev side @ [best]" unfolding chain_iter_def by (metis rev.simps(2) rev_rev_ident)
  obtain root ts rewards amounts best' where pr: "pop_root best = Some (root, ts, rewards, amounts, best')"
    using assms by (cases "pop_root best") (auto simp: finalize_def bs)
  obtain s1 s2 where s: "(if chain_is_empty best' then Some (s\<lparr>chain_set := []\<rparr>) else nfs_insert best' (s\<lparr>chain_set := []\<rparr>)) = Some s1"
    "finalize_side_chains (cv_hash root) side s1 = Some s2" "chain_set s' = chain_set s2"
    using assms by (auto simp: finalize_def bs pr bind_eq_Some_conv Let_def)
  have "total_blocks s1 \<le> length (blocks best')" using s(1) nfs_insert_total [of best' "s\<lparr>chain_set := []\<rparr>" s1]
    by (auto simp: total_blocks_def split: if_splits)
  with finalize_side_chains_total [OF s(2)] pop_root_length [OF pr] s(3) show ?thesis
    by (simp add: total_blocks_def cs rev_map [symmetric])
qed

function reorg_limit_loop :: "TreeLib \<Rightarrow> bytes \<Rightarrow> bytes \<Rightarrow> BlockWriter \<Rightarrow> BlockWriter rust" where
  "reorg_limit_loop lib child_hash parent w = do {
     len \<leftarrow> best_chain_len (w_nfs w);
     if len > MAX_BLOCK_REORG_HEIGHT then do {
       (finalizable_block, nfs) \<leftarrow> finalize (w_nfs w);
       height \<leftarrow> coinbase_height (sv_transactions (verified_block finalizable_block));
       (_, trees, db) \<leftarrow> expect (commit_finalized_direct lib (w_db w) finalizable_block (w_prev_trees w));
       reorg_limit_loop lib child_hash parent
         (push_block_event (TradFinalizedEvent \<lparr>this_hash = child_hash, parent_hash = parent, this_height = height\<rparr>)
           (w\<lparr>w_nfs := nfs, w_db := db, w_prev_trees := Some trees\<rparr>)) }
     else Some w }"
  by pat_completeness auto

termination
  by (relation "measure (\<lambda>(_, _, _, w). total_blocks (w_nfs w))") (auto simp: push_block_event_def dest: finalize_total)

declare reorg_limit_loop.simps [simp del]

definition write_commit :: "TreeLib \<Rightarrow> SemanticallyVerifiedBlock \<Rightarrow> BlockWriter \<Rightarrow> ((ValidateContextError + bytes) \<times> BlockWriter) rust" where
  "write_commit lib b w = do {
     let child_hash = sv_hash b;
     let parent = header_previous (sv_header b);
     let w = push_block_event (DequeuedEvent \<lparr>this_hash = child_hash, parent_hash = parent, this_height = - 1\<rparr>) w;
     queued_block_height \<leftarrow> coinbase_height (sv_transactions b);
     r \<leftarrow> (case map_of (w_parent_errors w) parent of
         Some parent_error \<Rightarrow> err parent_error
       | None \<Rightarrow> validate_and_commit_non_finalized lib (w_db w) (w_nfs w) b);
     (case r of
        Inl e \<Rightarrow>
          let errors = AList.update child_hash e (w_parent_errors w);
            errors = (if length errors > PARENT_ERROR_MAP_LIMIT then tl errors else errors)
          in Some (Inl e, w\<lparr>w_parent_errors := errors\<rparr>)
      | Inr nfs \<Rightarrow> do {
          w \<leftarrow> update_latest_chain_channels (w\<lparr>w_nfs := nfs\<rparr>);
          w \<leftarrow> reorg_limit_loop lib child_hash parent w;
          Some (Inr child_hash, push_block_event
            (CommittedEvent \<lparr>this_hash = child_hash, parent_hash = parent, this_height = queued_block_height\<rparr>) w) }) }"

subsection \<open>Messages\<close>

definition write_message :: "TreeLib \<Rightarrow> NonFinalizedWriteMessage \<Rightarrow> BlockWriter \<Rightarrow> (WriteResponse \<times> BlockWriter) rust" where
  "write_message lib msg w = (case msg of
       Commit b \<Rightarrow> do { (r, w) \<leftarrow> write_commit lib b w; Some (CommitResponse r, w) }
     | CrosslinkFinalized hash \<Rightarrow> do { (r, w) \<leftarrow> write_crosslink_finalized lib hash w; Some (CrosslinkResponse r, w) }
     | Invalidate hash \<Rightarrow> do {
         r \<leftarrow> nfs_invalidate_block hash (w_nfs w);
         let (response, w) = (case r of Inl e \<Rightarrow> (Inl e, w) | Inr nfs \<Rightarrow> (Inr hash, w\<lparr>w_nfs := nfs\<rparr>));
         w \<leftarrow> update_latest_chain_channels w;
         Some (InvalidateResponse response, w) }
     | Reconsider hash \<Rightarrow> do {
         r \<leftarrow> reconsider_block lib hash (w_db w) (w_nfs w);
         let (response, w) = (case r of Inl e \<Rightarrow> (Inl e, w) | Inr (hs, nfs) \<Rightarrow> (Inr hs, w\<lparr>w_nfs := nfs\<rparr>));
         w \<leftarrow> update_latest_chain_channels w;
         Some (ReconsiderResponse response, w) })"

fun write_messages :: "TreeLib \<Rightarrow> NonFinalizedWriteMessage list \<Rightarrow> BlockWriter \<Rightarrow> (WriteResponse list \<times> BlockWriter) rust" where
  "write_messages lib [] w = Some ([], w)"
| "write_messages lib (msg # msgs) w = do {
     (r, w) \<leftarrow> write_message lib msg w;
     (rs, w) \<leftarrow> write_messages lib msgs w;
     Some (r # rs, w) }"

section \<open>Finality\<close>

text \<open>A database that has all the finalized blocks of another, at the same heights.\<close>

definition extends :: "ZebraDb \<Rightarrow> ZebraDb \<Rightarrow> bool" where
  "extends db db' \<longleftrightarrow> (\<exists>xs. hash_by_height db' = hash_by_height db @ xs) \<and>
     (\<forall>h. unat h < length (hash_by_height db) \<longrightarrow> db_block db' (Height h) = db_block db (Height h))"

lemma extends_refl [simp]: "extends db db"
  by (simp add: extends_def)

lemma extends_trans [trans]: "extends db db' \<Longrightarrow> extends db' db'' \<Longrightarrow> extends db db''"
  unfolding extends_def by (elim conjE exE) simp

lemma commit_finalized_extends:
  assumes "commit_finalized_direct lib db b prev = ok (hash, trees, db')" "blocks_ok db"
  shows "extends db db' \<and> blocks_ok db'"
proof -
  have "h \<noteq> sv_height (verified_block b)" if "unat h < length (hash_by_height db)" for h
    using that commit_finalized_appends(3) [OF assms] by auto
  with commit_finalized_reads(1,6) [OF assms] commit_finalized_appends(6) [OF assms] show ?thesis
    by (auto simp: extends_def)
qed

lemma update_channels_db:
  "update_latest_chain_channels w = Some w' \<Longrightarrow> w_db w' = w_db w \<and> w_nfs w' = w_nfs w \<and> w_parent_errors w' = w_parent_errors w"
  by (auto simp: update_latest_chain_channels_def bind_eq_Some_conv)

lemma push_block_event_simps [simp]: "w_db (push_block_event e w) = w_db w" "w_nfs (push_block_event e w) = w_nfs w"
  "w_parent_errors (push_block_event e w) = w_parent_errors w"
  by (simp_all add: push_block_event_def)

text \<open>One turn of each loop.\<close>

lemma crosslink_finalize_loop_step:
  assumes "crosslink_finalize_loop lib (Suc n) w = Some w'"
  obtains f nfs hash trees db w1 where "finalize (w_nfs w) = Some (f, nfs)"
    "commit_finalized_direct lib (w_db w) f None = ok (hash, trees, db)" "w_db w1 = db" "w_nfs w1 = nfs"
    "crosslink_finalize_loop lib n w1 = Some w'"
proof -
  obtain f nfs height r where f: "finalize (w_nfs w) = Some (f, nfs)"
    "coinbase_height (sv_transactions (verified_block f)) = Some height" "commit_finalized_direct lib (w_db w) f None = Some r"
    using assms by (auto simp: bind_eq_Some_conv Let_def)
  show thesis
  proof (cases r)
    case (Inl e)
    with assms f show thesis by simp
  next
    case (Inr x)
    obtain hash trees db where x: "x = (hash, trees, db)" by (cases x)
    let ?w = "push_block_event (CrosslinkFinalizedEvent (shadow_block (verified_block f) height)) (w\<lparr>w_nfs := nfs, w_db := db\<rparr>)"
    have "crosslink_finalize_loop lib n ?w = Some w'" using assms f Inr x by simp
    with that [OF f(1), of hash trees db ?w] f(3) Inr x show thesis by (simp add: ok_def)
  qed
qed

lemma reorg_limit_loop_cases:
  assumes "reorg_limit_loop lib h p w = Some w'"
  obtains len where "best_chain_len (w_nfs w) = Some len" "len \<le> MAX_BLOCK_REORG_HEIGHT" "w' = w"
  | f nfs hash trees db w1 where "finalize (w_nfs w) = Some (f, nfs)"
      "commit_finalized_direct lib (w_db w) f (w_prev_trees w) = ok (hash, trees, db)" "w_db w1 = db" "w_nfs w1 = nfs" "w_parent_errors w1 = w_parent_errors w"
      "reorg_limit_loop lib h p w1 = Some w'"
proof -
  note unfolded = assms [unfolded reorg_limit_loop.simps [of lib h p w]]
  obtain len where len: "best_chain_len (w_nfs w) = Some len" using unfolded by (cases "best_chain_len (w_nfs w)") simp_all
  show thesis
  proof (cases "len > MAX_BLOCK_REORG_HEIGHT")
    case False
    then have "w' = w" using unfolded len by simp
    with that(1) [OF len] False show thesis by simp
  next
    case True
    obtain f nfs height hash trees db where f: "finalize (w_nfs w) = Some (f, nfs)"
      "expect (commit_finalized_direct lib (w_db w) f (w_prev_trees w)) = Some (hash, trees, db)"
      "reorg_limit_loop lib h p (push_block_event (TradFinalizedEvent \<lparr>this_hash = h, parent_hash = p, this_height = height\<rparr>)
        (w\<lparr>w_nfs := nfs, w_db := db, w_prev_trees := Some trees\<rparr>)) = Some w'"
      using unfolded len True by (auto simp: bind_eq_Some_conv)
    show thesis by (rule that(2) [OF f(1) _ _ _ _ f(3)]) (use f(2) in simp_all)
  qed
qed

lemma crosslink_finalize_loop_extends:
  "crosslink_finalize_loop lib n w = Some w' \<Longrightarrow> blocks_ok (w_db w) \<Longrightarrow> extends (w_db w) (w_db w') \<and> blocks_ok (w_db w')"
proof (induction n arbitrary: w)
  case (Suc n)
  obtain f nfs hash trees db w1 where f: "finalize (w_nfs w) = Some (f, nfs)"
    "commit_finalized_direct lib (w_db w) f None = ok (hash, trees, db)" "w_db w1 = db" "w_nfs w1 = nfs"
    "crosslink_finalize_loop lib n w1 = Some w'"
    by (rule crosslink_finalize_loop_step [OF Suc.prems(1)])
  from commit_finalized_extends [OF f(2) Suc.prems(2)] Suc.IH [OF f(5)] f(3) show ?case by (auto intro: extends_trans)
qed simp

lemma reorg_limit_loop_extends:
  "reorg_limit_loop lib h p w = Some w' \<Longrightarrow> blocks_ok (w_db w) \<Longrightarrow> extends (w_db w) (w_db w') \<and> blocks_ok (w_db w')"
proof (induction "total_blocks (w_nfs w)" arbitrary: w rule: less_induct)
  case less
  from less.prems(1) show ?case
  proof (cases rule: reorg_limit_loop_cases)
    case (1 len)
    with less.prems(2) show ?thesis by simp
  next
    case (2 f nfs hash trees db w1)
    from commit_finalized_extends [OF 2(2) less.prems(2)] less.hyps [OF _ 2(6)] 2(3,4) finalize_total [OF 2(1)]
    show ?thesis by (auto intro: extends_trans)
  qed
qed

lemma write_crosslink_cases:
  assumes "write_crosslink_finalized lib h w = Some (r, w')"
  obtains "crosslink_finalize h (w_nfs w) = Some (None, w_nfs w)" "w' = w"
      "r = (if contains_hash (w_db w) h then Inr (h, []) else Inl ''Couldn't find finalized block'')"
  | bs nfs w1 stakes where "crosslink_finalize h (w_nfs w) = Some (Some bs, nfs)" "w_db w1 = w_db w" "w_nfs w1 = nfs"
      "crosslink_finalize_loop lib (length bs) w1 = Some w'" "aggregate_stakes (active_bonds (w_db w')) [] = Some stakes"
      "r = Inr (h, stakes)"
proof -
  obtain x nfs where x: "crosslink_finalize h (w_nfs w) = Some (x, nfs)"
    using assms by (cases "crosslink_finalize h (w_nfs w)") (auto simp: write_crosslink_finalized_def)
  show thesis
  proof (cases x)
    case None
    from x None have "nfs = w_nfs w" by (cases rule: crosslink_finalize_cases) auto
    with None x assms that(1) show thesis by (auto simp: write_crosslink_finalized_def split: if_splits)
  next
    case (Some bs)
    obtain w1 stakes where w1: "update_latest_chain_channels (w\<lparr>w_nfs := nfs\<rparr>) = Some w1" "crosslink_finalize_loop lib (length bs) w1 = Some w'"
      "aggregate_stakes (active_bonds (w_db w')) [] = Some stakes" "r = Inr (h, stakes)"
      using assms x Some by (auto simp: write_crosslink_finalized_def bind_eq_Some_conv)
    with that(2) [of bs nfs w1 stakes] x Some update_channels_db [OF w1(1)] show thesis by simp
  qed
qed

lemma write_commit_cases:
  assumes "write_commit lib b w = Some (r, w')"
  obtains e where "r = Inl e" "w_db w' = w_db w" "w_nfs w' = w_nfs w"
      "w_parent_errors w' = (let errors = AList.update (sv_hash b) e (w_parent_errors w)
         in if length errors > PARENT_ERROR_MAP_LIMIT then tl errors else errors)"
  | nfs w1 w2 where "r = Inr (sv_hash b)" "validate_and_commit_non_finalized lib (w_db w) (w_nfs w) b = ok nfs"
      "w_db w1 = w_db w" "w_nfs w1 = nfs" "w_parent_errors w1 = w_parent_errors w" "reorg_limit_loop lib (sv_hash b) (header_previous (sv_header b)) w1 = Some w2"
      "w_db w' = w_db w2" "w_nfs w' = w_nfs w2" "w_parent_errors w' = w_parent_errors w2"
proof -
  let ?e = "push_block_event (DequeuedEvent \<lparr>this_hash = sv_hash b, parent_hash = header_previous (sv_header b), this_height = - 1\<rparr>) w"
  let ?r = "case map_of (w_parent_errors ?e) (header_previous (sv_header b)) of
      Some parent_error \<Rightarrow> err parent_error
    | None \<Rightarrow> validate_and_commit_non_finalized lib (w_db ?e) (w_nfs ?e) b"
  obtain height x where x: "coinbase_height (sv_transactions b) = Some height" "?r = Some x"
    using assms by (auto simp: write_commit_def bind_eq_Some_conv Let_def)
  show thesis
  proof (cases x)
    case (Inl e)
    with assms x have "r = Inl e \<and> w_db w' = w_db w \<and> w_nfs w' = w_nfs w \<and> w_parent_errors w' =
        (let errors = AList.update (sv_hash b) e (w_parent_errors w)
         in if length errors > PARENT_ERROR_MAP_LIMIT then tl errors else errors)" by (auto simp add: write_commit_def Let_def)
    with that(1) show thesis by blast
  next
    case (Inr nfs)
    have v: "validate_and_commit_non_finalized lib (w_db w) (w_nfs w) b = ok nfs"
      using x(2) Inr by (auto simp: ok_def err_def split: option.splits)
    obtain w1 w2 where w: "update_latest_chain_channels (?e\<lparr>w_nfs := nfs\<rparr>) = Some w1"
      "reorg_limit_loop lib (sv_hash b) (header_previous (sv_header b)) w1 = Some w2" "r = Inr (sv_hash b)"
      "w' = push_block_event (CommittedEvent \<lparr>this_hash = sv_hash b, parent_hash = header_previous (sv_header b), this_height = height\<rparr>) w2"
      using assms x Inr by (auto simp: write_commit_def Let_def bind_eq_Some_conv)
    show thesis by (rule that(2) [OF w(3) v _ _ _ w(2)]) (use w(4) update_channels_db [OF w(1)] in simp_all)
  qed
qed

lemma write_message_cases:
  assumes "write_message lib msg w = Some (r, w')"
  obtains b r1 where "msg = Commit b" "write_commit lib b w = Some (r1, w')" "r = CommitResponse r1"
  | h r1 where "msg = CrosslinkFinalized h" "write_crosslink_finalized lib h w = Some (r1, w')" "r = CrosslinkResponse r1"
  | h where "msg = Invalidate h" "w_db w' = w_db w" "w_nfs w' = w_nfs w \<or> nfs_invalidate_block h (w_nfs w) = ok (w_nfs w')"
  | h hs where "msg = Reconsider h" "w_db w' = w_db w" "w_nfs w' = w_nfs w \<or> reconsider_block lib h (w_db w) (w_nfs w) = ok (hs, w_nfs w')"
proof (cases msg)
  case (Commit b)
  with assms that(1) show thesis by (auto simp: write_message_def bind_eq_Some_conv)
next
  case (CrosslinkFinalized h)
  with assms that(2) show thesis by (auto simp: write_message_def bind_eq_Some_conv)
next
  case (Invalidate h)
  obtain x where x: "nfs_invalidate_block h (w_nfs w) = Some x"
    using assms Invalidate by (auto simp: write_message_def bind_eq_Some_conv)
  show thesis
  proof (cases x)
    case (Inl e)
    have "w_db w' = w_db w" "w_nfs w' = w_nfs w"
      using assms Invalidate x Inl by (auto simp: write_message_def bind_eq_Some_conv dest!: update_channels_db)
    with that(3) [OF Invalidate] show thesis by blast
  next
    case (Inr nfs)
    have "w_db w' = w_db w" "w_nfs w' = nfs"
      using assms Invalidate x Inr by (auto simp: write_message_def bind_eq_Some_conv dest!: update_channels_db)
    with that(3) [OF Invalidate] x Inr show thesis by (simp add: ok_def)
  qed
next
  case (Reconsider h)
  obtain x where x: "reconsider_block lib h (w_db w) (w_nfs w) = Some x"
    using assms Reconsider by (auto simp: write_message_def bind_eq_Some_conv)
  show thesis
  proof (cases x)
    case (Inl e)
    have "w_db w' = w_db w" "w_nfs w' = w_nfs w"
      using assms Reconsider x Inl by (auto simp: write_message_def bind_eq_Some_conv dest!: update_channels_db)
    with that(4) [OF Reconsider] show thesis by blast
  next
    case (Inr y)
    obtain hs nfs where y: "y = (hs, nfs)" by (cases y)
    have "w_db w' = w_db w" "w_nfs w' = nfs"
      using assms Reconsider x Inr y by (auto simp: write_message_def bind_eq_Some_conv dest!: update_channels_db)
    with that(4) [OF Reconsider, of hs] x Inr y show thesis by (simp add: ok_def)
  qed
qed


subsection \<open>Steps of the task\<close>

inductive writer_step :: "TreeLib \<Rightarrow> BlockWriter \<Rightarrow> BlockWriter \<Rightarrow> bool" for lib where
  checkpoint: "write_checkpoint_block lib b w = Some w' \<Longrightarrow> writer_step lib w w'"
| message: "write_message lib msg w = Some (r, w') \<Longrightarrow> writer_step lib w w'"

lemma write_checkpoint_cases:
  assumes "write_checkpoint_block lib b w = Some w'"
  obtains "w_db w' = w_db w" "w_nfs w' = w_nfs w"
  | prev hash trees where "commit_finalized_direct lib (w_db w) (Checkpoint b) prev = ok (hash, trees, w_db w')" "w_nfs w' = w_nfs w"
proof -
  obtain height where height: "(case finalized_tip_height (w_db w) of None \<Rightarrow> Some 0 | Some height \<Rightarrow> height_add height 1) = Some height"
    using assms unfolding write_checkpoint_block_def by (auto simp: bind_eq_Some_conv)
  show thesis
  proof (cases "sv_height b = height")
    case False
    with height assms that(1) show thesis by (simp add: write_checkpoint_block_def)
  next
    case True
    obtain r where r: "commit_finalized lib (w_db w) b (w_prev_trees w) = Some r"
      using assms height True by (auto simp: write_checkpoint_block_def bind_eq_Some_conv)
    show thesis
    proof (cases r)
      case (Inl e)
      with r height True assms that(1) show thesis by (auto simp: write_checkpoint_block_def)
    next
      case (Inr y)
      obtain f trees db where y: "y = (f, trees, db)" by (cases y)
      have "w_db w' = db" "w_nfs w' = w_nfs w" using r height True assms Inr y by (auto simp: write_checkpoint_block_def)
      moreover obtain hash where "commit_finalized_direct lib (w_db w) (Checkpoint b) (w_prev_trees w) = ok (hash, trees, db)"
        using r Inr y by (auto simp: commit_finalized_def tryr_ok_iff ok_def [symmetric])
      ultimately show thesis using that(2) by blast
    qed
  qed
qed

lemma writer_step_extends:
  assumes "writer_step lib w w'" "blocks_ok (w_db w)"
  shows "extends (w_db w) (w_db w') \<and> blocks_ok (w_db w')"
  using assms(1)
proof (cases rule: writer_step.cases)
  case (checkpoint b)
  then show ?thesis by (cases rule: write_checkpoint_cases) (use assms(2) commit_finalized_extends in auto)
next
  case (message msg r)
  then show ?thesis
  proof (cases rule: write_message_cases)
    case (1 b r1)
    from 1(2) show ?thesis
    proof (cases rule: write_commit_cases)
      case (2 nfs w1 w2)
      with reorg_limit_loop_extends [OF 2(6)] assms(2) show ?thesis by simp
    qed (use assms(2) in simp)
  next
    case (2 h r1)
    from 2(2) show ?thesis
    proof (cases rule: write_crosslink_cases)
      case (2 bs nfs w1 stakes)
      with crosslink_finalize_loop_extends [OF 2(4)] assms(2) show ?thesis by simp
    qed (use assms(2) in simp)
  qed (use assms(2) in simp_all)
qed

lemma writer_steps_extend:
  "(writer_step lib)\<^sup>*\<^sup>* w w' \<Longrightarrow> blocks_ok (w_db w) \<Longrightarrow> extends (w_db w) (w_db w') \<and> blocks_ok (w_db w')"
  by (induction rule: rtranclp_induct) (auto dest: writer_step_extends intro: extends_trans)

text \<open>C7: Finality is permanent. Whatever blocks and messages the task handles, the finalized blocks stay: the
  hashes by height are only extended at the end, and every finalized block keeps its header and its
  transactions.
\<close>

theorem finality_is_permanent:
  assumes "(writer_step lib)\<^sup>*\<^sup>* w w'" "blocks_ok (w_db w)"
  shows "(\<exists>xs. hash_by_height (w_db w') = hash_by_height (w_db w) @ xs) \<and>
    (\<forall>h. unat h < length (hash_by_height (w_db w)) \<longrightarrow>
       db_hash (w_db w') h = db_hash (w_db w) h \<and> db_block (w_db w') (Height h) = db_block (w_db w) (Height h))"
proof -
  obtain xs where xs: "hash_by_height (w_db w') = hash_by_height (w_db w) @ xs"
    using writer_steps_extend [OF assms] by (auto simp: extends_def)
  have "db_hash (w_db w') h = db_hash (w_db w) h" if "unat h < length (hash_by_height (w_db w))" for h
  proof -
    have "h \<in> fst ` set (hash_by_height (w_db w))"
    proof -
      have "map fst (hash_by_height (w_db w)) ! unat h = h" using assms(2) that by (auto simp: blocks_ok_def)
      with that show ?thesis by (metis length_map list.set_map nth_mem)
    qed
    then show ?thesis unfolding db_hash_def xs by (cases "map_of (hash_by_height (w_db w)) h") (auto simp: map_add_def map_of_eq_None_iff)
  qed
  with xs writer_steps_extend [OF assms] show ?thesis by (auto simp: extends_def)
qed

lemma reorg_limit_loop_bound: "reorg_limit_loop lib h p w = Some w' \<Longrightarrow> \<exists>n. best_chain_len (w_nfs w') = Some n \<and> n \<le> MAX_BLOCK_REORG_HEIGHT"
proof (induction "total_blocks (w_nfs w)" arbitrary: w rule: less_induct)
  case less
  from less.prems show ?case
  proof (cases rule: reorg_limit_loop_cases)
    case (2 f nfs hash trees db w1)
    from less.hyps [OF _ 2(6)] 2(4) finalize_total [OF 2(1)] show ?thesis by simp
  qed simp
qed

lemma reorg_limit_loop_errors: "reorg_limit_loop lib h p w = Some w' \<Longrightarrow> w_parent_errors w' = w_parent_errors w"
proof (induction "total_blocks (w_nfs w)" arbitrary: w rule: less_induct)
  case less
  from less.prems show ?case
  proof (cases rule: reorg_limit_loop_cases)
    case (2 f nfs hash trees db w1)
    from less.hyps [OF _ 2(6)] 2(4,5) finalize_total [OF 2(1)] show ?thesis by simp
  qed simp
qed

lemma update_length_le: "length (AList.update k v m) \<le> Suc (length m)"
  by (induction m) auto

text \<open>
  Committing a block leaves at most 99 blocks in the best chain, whatever was there before: the loop that
  finalizes past the limit ends, and only when the limit is kept. The map of rejected parents never has
  more than 198 entries.
\<close>

theorem commit_keeps_limits:
  assumes "write_commit lib b w = Some (r, w')" "length (w_parent_errors w) \<le> 198"
  shows "length (w_parent_errors w') \<le> 198 \<and>
    (\<forall>hash. r = Inr hash \<longrightarrow> hash = sv_hash b \<and> (\<exists>n. best_chain_len (w_nfs w') = Some n \<and> n \<le> 99))"
  using assms(1)
proof (cases rule: write_commit_cases)
  case (1 e)
  have "PARENT_ERROR_MAP_LIMIT = 198" by (simp add: PARENT_ERROR_MAP_LIMIT_def MAX_BLOCK_REORG_HEIGHT_def)
  with 1 assms(2) update_length_le [of "sv_hash b" e "w_parent_errors w"] show ?thesis by (auto simp: Let_def)
next
  case (2 nfs w1 w2)
  from reorg_limit_loop_bound [OF 2(6)] reorg_limit_loop_errors [OF 2(6)] 2 assms(2) show ?thesis
    by (simp add: MAX_BLOCK_REORG_HEIGHT_def)
qed
end
