(* ===== verification/State_Requests.thy ===== *)
theory State_Requests
  imports Block_Writer
begin

text \<open>
  The requests of the state service that only read, \<^verbatim>\<open>zebra-state/src/service.rs\<close> and \<^verbatim>\<open>service/read/find.rs\<close>: they are
  answered from the database and from the last non-finalized state that the block writer has sent. The answer
  to \<^verbatim>\<open>Request::KnownBlock\<close> is \<open>known_block\<close>; a request whose answer is an error has a message.
\<close>

section \<open>Definitions\<close>

datatype KnownBlockLocation = BestChain | SideChain | InQueue

record KnownBlock =
  known_location :: KnownBlockLocation
  known_height :: u32

definition latest_non_finalized_state :: "BlockWriter \<Rightarrow> NonFinalizedState" where
  "latest_non_finalized_state w = (case w_nfs_sent w of Some s \<Rightarrow> s | None \<Rightarrow> NonFinalizedState_new (nfs_network (w_nfs w)))"

definition latest_best_chain :: "BlockWriter \<Rightarrow> Chain option" where
  "latest_best_chain w = best_chain (latest_non_finalized_state w)"

fun side_chains_contain :: "Chain list \<Rightarrow> bytes \<Rightarrow> KnownBlock option" where
  "side_chains_contain [] hash = None"
| "side_chains_contain (c # cs) hash = (case chain_height_by_hash hash c of
       Some height \<Rightarrow> Some \<lparr>known_location = SideChain, known_height = height\<rparr>
     | None \<Rightarrow> side_chains_contain cs hash)"

definition non_finalized_state_contains_block_hash :: "NonFinalizedState \<Rightarrow> bytes \<Rightarrow> KnownBlock option" where
  "non_finalized_state_contains_block_hash s hash = (case chain_iter s of
       [] \<Rightarrow> None
     | best # side \<Rightarrow> (case chain_height_by_hash hash best of
         Some height \<Rightarrow> Some \<lparr>known_location = BestChain, known_height = height\<rparr>
       | None \<Rightarrow> side_chains_contain side hash))"

definition finalized_state_contains_block_hash :: "ZebraDb \<Rightarrow> bytes \<Rightarrow> KnownBlock option" where
  "finalized_state_contains_block_hash db hash = (case db_height db hash of
       Some height \<Rightarrow> Some \<lparr>known_location = BestChain, known_height = height\<rparr>
     | None \<Rightarrow> None)"

definition known_block :: "BlockWriter \<Rightarrow> bytes \<Rightarrow> KnownBlock option" where
  "known_block w hash = or_else (non_finalized_state_contains_block_hash (latest_non_finalized_state w) hash)
     (finalized_state_contains_block_hash (w_db w) hash)"

definition request_tip :: "BlockWriter \<Rightarrow> (u32 \<times> bytes) option rust" where
  "request_tip w = read_tip (latest_best_chain w) (w_db w)"

definition request_block :: "BlockWriter \<Rightarrow> HashOrHeight \<Rightarrow> (Header \<times> Transaction list) option" where
  "request_block w hash_or_height = read_block (latest_best_chain w) (w_db w) hash_or_height"

text \<open>The answer is the header, its hash, its height and the hash of the next block.\<close>

definition request_block_header :: "BlockWriter \<Rightarrow> HashOrHeight \<Rightarrow> string + Header \<times> bytes \<times> u32 \<times> bytes option" where
  "request_block_header w hash_or_height =
    (let best = latest_best_chain w; db = w_db w in
     case (case hash_or_height of Height height \<Rightarrow> Some height | Hash hash \<Rightarrow> read_height_by_hash best db hash) of
       None \<Rightarrow> Inl ''block hash or height not found''
     | Some height \<Rightarrow>
         (case (case hash_or_height of Hash hash \<Rightarrow> Some hash | Height height \<Rightarrow> read_hash_by_height best db height) of
            None \<Rightarrow> Inl ''block hash or height not found''
          | Some hash \<Rightarrow>
              (case height_next height of
                 None \<Rightarrow> Inl ''height overflow''
               | Some next_height \<Rightarrow>
                   (case read_block_header best db (Height height) of
                      None \<Rightarrow> Inl ''block hash or height not found''
                    | Some header \<Rightarrow> Inr (header, hash, height, read_hash_by_height best db next_height)))))"

definition request_transaction :: "BlockWriter \<Rightarrow> bytes \<Rightarrow> (Transaction \<times> u32 \<times> u32 \<times> int) option rust" where
  "request_transaction w hash = mined_transaction (latest_best_chain w) (w_db w) hash"

definition request_block_locator :: "BlockWriter \<Rightarrow> bytes list rust" where
  "request_block_locator w = do {
     locator \<leftarrow> block_locator (latest_best_chain w) (w_db w);
     Some (case locator of Some hashes \<Rightarrow> hashes | None \<Rightarrow> []) }"

definition MAX_FIND_BLOCK_HASHES_RESULTS :: u32 where "MAX_FIND_BLOCK_HASHES_RESULTS = 500"
definition MAX_FIND_BLOCK_HEADERS_RESULTS :: u32 where "MAX_FIND_BLOCK_HEADERS_RESULTS = 160"

definition request_find_block_hashes :: "BlockWriter \<Rightarrow> bytes list \<Rightarrow> bytes option \<Rightarrow> bytes list rust" where
  "request_find_block_hashes w known_blocks stop =
     find_chain_hashes (latest_best_chain w) (w_db w) known_blocks stop MAX_FIND_BLOCK_HASHES_RESULTS"

definition request_find_block_headers :: "BlockWriter \<Rightarrow> bytes list \<Rightarrow> bytes option \<Rightarrow> Header list rust" where
  "request_find_block_headers w known_blocks stop =
     find_chain_headers (latest_best_chain w) (w_db w) known_blocks stop MAX_FIND_BLOCK_HEADERS_RESULTS"

section \<open>Known blocks\<close>

end
