(* ===== verification/Crosslink_Finality.thy ===== *)
theory Crosslink_Finality
  imports Block_Writer
begin

text \<open>
  The non-finalized chains as chains of blocks: every block is the child of the block before it, and the
  first block of every chain is a child of the finalized tip. The messages of the block writer keep this,
  so that finalizing up to a block that the Crosslink protocol has decided makes that block the finalized
  tip, and leaves only chains that extend it.

  The identity of blocks is that of their hashes: the functions \<open>hgt\<close> and \<open>prv\<close> give the height and the parent
  that the block with a hash has, as they do when no two different blocks have the same hash.
\<close>

section \<open>Chains of blocks\<close>

definition linked :: "(u32 \<times> ContextuallyVerifiedBlock) list \<Rightarrow> bool" where
  "linked bs \<longleftrightarrow> successively (\<lambda>p q. header_previous (cv_header (snd q)) = cv_hash (snd p) \<and> unat (fst q) = Suc (unat (fst p))) bs"

definition block_id :: "(bytes \<Rightarrow> u32) \<Rightarrow> (bytes \<Rightarrow> bytes) \<Rightarrow> SemanticallyVerifiedBlock \<Rightarrow> bool" where
  "block_id hgt prv b \<longleftrightarrow> sv_height b = hgt (sv_hash b) \<and> header_previous (sv_header b) = prv (sv_hash b) \<and>
     coinbase_height (sv_transactions b) = Some (sv_height b) \<and> length (sv_transaction_hashes b) = length (sv_transactions b)"

text \<open>A block in a chain is one more than its parent.\<close>

definition cv_id :: "(bytes \<Rightarrow> u32) \<Rightarrow> (bytes \<Rightarrow> bytes) \<Rightarrow> ContextuallyVerifiedBlock \<Rightarrow> bool" where
  "cv_id hgt prv b \<longleftrightarrow> block_id hgt prv (semantically_verified b) \<and> unat (cv_height b) = Suc (unat (hgt (header_previous (cv_header b))))"

definition chain_inv :: "(bytes \<Rightarrow> u32) \<Rightarrow> (bytes \<Rightarrow> bytes) \<Rightarrow> Chain \<Rightarrow> bool" where
  "chain_inv hgt prv c \<longleftrightarrow> linked (blocks c) \<and> (\<forall>(h, b) \<in> set (blocks c). h = cv_height b \<and> cv_id hgt prv b) \<and>
     (\<forall>x h. Mapping.lookup (height_by_hash c) x = Some h \<longleftrightarrow> (\<exists>b. (h, b) \<in> set (blocks c) \<and> cv_hash b = x))"

definition rooted :: "ZebraDb \<Rightarrow> Chain \<Rightarrow> bool" where
  "rooted db c \<longleftrightarrow> (blocks c \<noteq> [] \<longrightarrow> header_previous (cv_header (snd (hd (blocks c)))) = finalized_tip_hash db)"

definition db_inv :: "(bytes \<Rightarrow> u32) \<Rightarrow> ZebraDb \<Rightarrow> bool" where
  "db_inv hgt db \<longleftrightarrow> blocks_ok db \<and> (\<forall>(h, x) \<in> set (hash_by_height db). hgt x = h \<and>
     (\<forall>header txs. db_block db (Height h) = Some (header, txs) \<longrightarrow> coinbase_height txs = Some h))"

definition invalidated_inv :: "(bytes \<Rightarrow> u32) \<Rightarrow> (bytes \<Rightarrow> bytes) \<Rightarrow> ContextuallyVerifiedBlock list \<Rightarrow> bool" where
  "invalidated_inv hgt prv bs \<longleftrightarrow> (\<forall>b \<in> set bs. cv_id hgt prv b) \<and> successively (\<lambda>a b. header_previous (cv_header b) = cv_hash a) bs"

definition nfs_inv :: "(bytes \<Rightarrow> u32) \<Rightarrow> (bytes \<Rightarrow> bytes) \<Rightarrow> ZebraDb \<Rightarrow> NonFinalizedState \<Rightarrow> bool" where
  "nfs_inv hgt prv db s \<longleftrightarrow> chains_ok s \<and> (\<forall>c \<in> set (chain_set s). chain_inv hgt prv c \<and> rooted db c) \<and>
     (\<forall>bs \<in> snd ` set (invalidated_blocks s). invalidated_inv hgt prv bs)"

definition writer_inv :: "(bytes \<Rightarrow> u32) \<Rightarrow> (bytes \<Rightarrow> bytes) \<Rightarrow> BlockWriter \<Rightarrow> bool" where
  "writer_inv hgt prv w \<longleftrightarrow> db_inv hgt (w_db w) \<and> hash_by_height (w_db w) \<noteq> [] \<and> nfs_inv hgt prv (w_db w) (w_nfs w)"

subsection \<open>Lists of linked blocks\<close>

lemma linked_snoc: "linked (bs @ [p]) \<longleftrightarrow> linked bs \<and>
    (bs = [] \<or> header_previous (cv_header (snd p)) = cv_hash (snd (last bs)) \<and> unat (fst p) = Suc (unat (fst (last bs))))"
  by (auto simp: linked_def successively_append_iff)

lemma linked_append_left: "linked (bs @ cs) \<Longrightarrow> linked bs"
  by (simp add: linked_def successively_append_iff)

lemma linked_Cons: "linked (p # bs) \<Longrightarrow> linked bs"
  by (cases bs) (simp_all add: linked_def)

lemma linked_height: "linked bs \<Longrightarrow> i < length bs \<Longrightarrow> unat (fst (bs ! i)) = unat (fst (hd bs)) + i"
proof (induction bs arbitrary: i)
  case (Cons p bs)
  show ?case
  proof (cases i)
    case (Suc j)
    then have bs: "bs \<noteq> []" using Cons.prems(2) by auto
    then have "unat (fst (hd bs)) = Suc (unat (fst p))" using Cons.prems(1) by (cases bs) (simp_all add: linked_def)
    with Cons.IH [OF linked_Cons [OF Cons.prems(1)], of j] Cons.prems(2) Suc show ?thesis by simp
  qed simp
qed simp

lemma linked_below: "linked bs \<Longrightarrow> bs \<noteq> [] \<Longrightarrow> unat h = Suc (unat (fst (last bs))) \<Longrightarrow> below h bs"
proof -
  assume l: "linked bs" and ne: "bs \<noteq> []" and h: "unat h = Suc (unat (fst (last bs)))"
  have "k < h" if k: "(k, b) \<in> set bs" for k b
  proof -
    obtain i where i: "i < length bs" "bs ! i = (k, b)" using k by (auto simp: in_set_conv_nth)
    have "unat (fst (last bs)) = unat (fst (hd bs)) + (length bs - 1)" using linked_height [OF l, of "length bs - 1"] ne by (simp add: last_conv_nth)
    moreover have "unat k = unat (fst (hd bs)) + i" using linked_height [OF l i(1)] i(2) by simp
    ultimately show ?thesis using h i(1) by (simp add: word_less_nat_alt)
  qed
  then show ?thesis by (auto simp: below_def)
qed

text \<open>A height occurs once.\<close>

lemma linked_inj: "linked bs \<Longrightarrow> (h, a) \<in> set bs \<Longrightarrow> (h, b) \<in> set bs \<Longrightarrow> a = b"
proof -
  assume l: "linked bs" and a: "(h, a) \<in> set bs" and b: "(h, b) \<in> set bs"
  obtain i j where ij: "i < length bs" "bs ! i = (h, a)" "j < length bs" "bs ! j = (h, b)"
    using a b by (auto simp: in_set_conv_nth)
  have "i = j" using linked_height [OF l ij(1)] linked_height [OF l ij(3)] ij by simp
  with ij show "a = b" by simp
qed

lemma linked_map_of: "linked bs \<Longrightarrow> map_of bs h = Some b \<longleftrightarrow> (h, b) \<in> set bs"
proof
  assume l: "linked bs" and "(h, b) \<in> set bs"
  then have "h \<in> fst ` set bs" by (intro rev_image_eqI [of "(h, b)"]) simp_all
  then obtain a where a: "map_of bs h = Some a" by (cases "map_of bs h") (simp_all add: map_of_eq_None_iff)
  with linked_inj [OF l map_of_SomeD [OF a] \<open>(h, b) \<in> set bs\<close>] show "map_of bs h = Some b" by simp
qed (rule map_of_SomeD)

subsection \<open>Pushing and popping\<close>

lemma chain_inv_tip:
  "chain_inv hgt prv c \<Longrightarrow> non_finalized_tip_hash c = Some x \<longleftrightarrow> blocks c \<noteq> [] \<and> cv_hash (snd (last (blocks c))) = x"
  by (auto simp: non_finalized_tip_hash_def split: if_splits)

lemma chain_inv_hgt: "chain_inv hgt prv c \<Longrightarrow> (h, b) \<in> set (blocks c) \<Longrightarrow> h = hgt (cv_hash b) \<and> h = cv_height b"
  by (auto simp: chain_inv_def cv_id_def block_id_def semantically_verified_def)

lemma chain_inv_contains:
  "chain_inv hgt prv c \<Longrightarrow> Mapping.lookup (height_by_hash c) x = Some h \<longleftrightarrow> h = hgt x \<and> x \<in> cv_hash ` snd ` set (blocks c)"
proof -
  assume inv: "chain_inv hgt prv c"
  have "Mapping.lookup (height_by_hash c) x = Some h \<longleftrightarrow> (\<exists>b. (h, b) \<in> set (blocks c) \<and> cv_hash b = x)"
    using inv by (simp add: chain_inv_def)
  also have "\<dots> \<longleftrightarrow> h = hgt x \<and> x \<in> cv_hash ` snd ` set (blocks c)" using chain_inv_hgt [OF inv] by force
  finally show ?thesis .
qed

lemma push_inv:
  assumes "push lib c b = ok c'" "chain_inv hgt prv c" "cv_id hgt prv b"
    "blocks c = [] \<or> cv_hash (snd (last (blocks c))) = header_previous (cv_header b)"
  shows "chain_inv hgt prv c'" "blocks c' = blocks c @ [(cv_height b, b)]"
proof -
  have step: "blocks c = [] \<or> unat (cv_height b) = Suc (unat (fst (last (blocks c))))"
  proof (cases "blocks c = []")
    case False
    then have "fst (last (blocks c)) = hgt (cv_hash (snd (last (blocks c))))"
      using chain_inv_hgt [OF assms(2), of "fst (last (blocks c))" "snd (last (blocks c))"] by simp
    with assms(3,4) False show ?thesis by (simp add: cv_id_def)
  qed simp
  have l: "linked (blocks c)" using assms(2) by (simp add: chain_inv_def)
  have "below (cv_height b) (blocks c)" using linked_below [OF l] step by (cases "blocks c = []") (simp_all add: below_def)
  then show bs: "blocks c' = blocks c @ [(cv_height b, b)]" using push_frame(3) [OF assms(1)] by (simp add: btree_insert_above)
  have "linked (blocks c')" using l step assms(4) by (auto simp: bs linked_snoc)
  moreover have "Mapping.lookup (height_by_hash c') x = Some h \<longleftrightarrow> (\<exists>b. (h, b) \<in> set (blocks c') \<and> cv_hash b = x)" for x h
  proof (cases "x = cv_hash b")
    case True
    have "\<not> (\<exists>a. (h, a) \<in> set (blocks c) \<and> cv_hash a = x)" for h
    proof
      assume "\<exists>a. (h, a) \<in> set (blocks c) \<and> cv_hash a = x"
      then have "Mapping.lookup (height_by_hash c) x = Some h" using assms(2) unfolding chain_inv_def by blast
      with push_frame(1) [OF assms(1)] True show False by simp
    qed
    with True show ?thesis using push_frame(4) [OF assms(1)] by (auto simp: bs)
  next
    case False
    with assms(2) show ?thesis using push_frame(4) [OF assms(1)] by (auto simp: bs lookup_update' chain_inv_def)
  qed
  ultimately show "chain_inv hgt prv c'" using assms(2,3) by (auto simp: chain_inv_def bs)
qed

lemma chain_inv_frame:
  "chain_inv hgt prv c \<Longrightarrow> blocks c' = blocks c \<Longrightarrow> height_by_hash c' = height_by_hash c \<Longrightarrow> chain_inv hgt prv c'"
  by (simp add: chain_inv_def)

text \<open>A part of the blocks of a chain, with the entries of the others deleted.\<close>

lemma chain_inv_hashes_distinct:
  "chain_inv hgt prv c \<Longrightarrow> (h, a) \<in> set (blocks c) \<Longrightarrow> (h', b) \<in> set (blocks c) \<Longrightarrow> cv_hash a = cv_hash b \<Longrightarrow> h = h' \<and> a = b"
proof -
  assume inv: "chain_inv hgt prv c" and a: "(h, a) \<in> set (blocks c)" and b: "(h', b) \<in> set (blocks c)" and eq: "cv_hash a = cv_hash b"
  have h: "h = h'" using chain_inv_hgt [OF inv a] chain_inv_hgt [OF inv b] eq by simp
  have "linked (blocks c)" using inv by (simp add: chain_inv_def)
  from h linked_inj [OF this a] b show ?thesis by simp
qed

lemma chain_inv_heights: "chain_inv hgt prv c \<Longrightarrow> distinct (map fst (blocks c))"
proof -
  assume "chain_inv hgt prv c"
  then have l: "linked (blocks c)" by (simp add: chain_inv_def)
  show ?thesis unfolding distinct_conv_nth
  proof (intro allI impI)
    fix i j
    assume "i < length (map fst (blocks c))" "j < length (map fst (blocks c))" "i \<noteq> j"
    then show "map fst (blocks c) ! i \<noteq> map fst (blocks c) ! j"
      using linked_height [OF l, of i] linked_height [OF l, of j] by (auto simp: nth_map)
  qed
qed

lemma chain_inv_delete:
  assumes "chain_inv hgt prv c" "blocks c = xs @ (h, b) # ys" "blocks c' = xs @ ys" "linked (blocks c')"
    "height_by_hash c' = Mapping.delete (cv_hash b) (height_by_hash c)"
  shows "chain_inv hgt prv c'"
proof -
  have new: "(h, b) \<notin> set (blocks c')"
  proof -
    have "h \<notin> fst ` set (xs @ ys)" using chain_inv_heights [OF assms(1)] by (auto simp: assms(2))
    then show ?thesis by (force simp: assms(3))
  qed
  have "set (blocks c) = insert (h, b) (set (blocks c'))" by (simp add: assms(2,3))
  then have ins: "(k, a) \<in> set (blocks c) \<longleftrightarrow> (k, a) = (h, b) \<or> (k, a) \<in> set (blocks c')" for k a by simp
  have mem: "(k, a) \<in> set (blocks c') \<longleftrightarrow> (k, a) \<in> set (blocks c) \<and> cv_hash a \<noteq> cv_hash b" for k a
  proof (cases "(k, a) \<in> set (blocks c)")
    case True
    then show ?thesis using new ins [of k a] chain_inv_hashes_distinct [OF assms(1) True, of h b] ins [of h b] by auto
  qed (use ins in simp)
  have look: "Mapping.lookup (height_by_hash c) x = Some k \<longleftrightarrow> (\<exists>a. (k, a) \<in> set (blocks c) \<and> cv_hash a = x)" for x k
    using assms(1) by (simp add: chain_inv_def)
  have "Mapping.lookup (height_by_hash c') x = Some k \<longleftrightarrow> (\<exists>a. (k, a) \<in> set (blocks c') \<and> cv_hash a = x)" for x k
    unfolding assms(5) mem by (cases "x = cv_hash b") (auto simp: look)
  moreover have "k = cv_height a \<and> cv_id hgt prv a" if "(k, a) \<in> set (blocks c')" for k a
    using that assms(1) mem [of k a] by (auto simp: chain_inv_def)
  ultimately show ?thesis using assms(4) by (auto simp: chain_inv_def)
qed

lemma pop_tip_inv:
  assumes "pop_tip c = Some c'" "chain_inv hgt prv c"
  shows "chain_inv hgt prv c' \<and> blocks c' \<noteq> [] \<and> hd (blocks c') = hd (blocks c)"
proof -
  obtain h b where p: "blocks c' \<noteq> []" "blocks c = blocks c' @ [(h, b)]"
    "height_by_hash c' = Mapping.delete (cv_hash b) (height_by_hash c)"
    using pop_tip_frame(1,2) [OF assms(1)] by blast
  have "linked (blocks c')" using assms(2) p(2) by (auto simp: chain_inv_def intro: linked_append_left)
  with chain_inv_delete [OF assms(2), of "blocks c'" h b "[]" c'] p show ?thesis by simp
qed

lemma pop_root_inv:
  assumes "pop_root c = Some (b, ts, rewards, amounts, c')" "chain_inv hgt prv c"
  shows "chain_inv hgt prv c'" "blocks c = (cv_height b, b) # blocks c'"
    "blocks c' = [] \<or> header_previous (cv_header (snd (hd (blocks c')))) = cv_hash b"
proof -
  obtain h where h: "blocks c = (h, b) # blocks c'" using pop_root_frame(1) [OF assms(1)] by blast
  show "blocks c = (cv_height b, b) # blocks c'" using h assms(2) by (auto simp: chain_inv_def)
  have "linked (blocks c)" using assms(2) by (simp add: chain_inv_def)
  then have l: "linked ((h, b) # blocks c')" by (simp only: h)
  then show "blocks c' = [] \<or> header_previous (cv_header (snd (hd (blocks c')))) = cv_hash b"
    by (cases "blocks c'") (simp_all add: linked_def)
  show "chain_inv hgt prv c'"
    using chain_inv_delete [OF assms(2), of "[]" h b "blocks c'" c'] h linked_Cons [OF l] pop_root_frame(4) [OF assms(1)] by simp
qed

lemma fork_inv:
  assumes "fork c x = Some (Some c')" "chain_inv hgt prv c"
  shows "chain_inv hgt prv c' \<and> blocks c' \<noteq> [] \<and> hd (blocks c') = hd (blocks c) \<and> cv_hash (snd (last (blocks c'))) = x"
proof -
  have "fork_loop x c = Some c'" using assms(1) by (auto simp: fork_def split: if_splits)
  then have "chain_inv hgt prv c' \<and> hd (blocks c') = hd (blocks c)" using assms(2)
  proof (induction x c arbitrary: c' rule: fork_loop.induct)
    case (1 x c)
    note unfolded = 1(2) [unfolded fork_loop.simps [of x c]]
    obtain t where t: "non_finalized_tip_hash c = Some t" using unfolded by (cases "non_finalized_tip_hash c") simp_all
    show ?case
    proof (cases "t = x")
      case True
      with unfolded t 1(3) show ?thesis by simp
    next
      case False
      then obtain d k where d: "pop_tip c = Some d" "non_finalized_tip_height d = Some k"
        "fork_loop x (d\<lparr>last_fork_height := Some k\<rparr>) = Some c'"
        using unfolded t by (auto simp: bind_eq_Some_conv)
      have "chain_inv hgt prv (d\<lparr>last_fork_height := Some k\<rparr>)" using pop_tip_inv [OF d(1) 1(3)] by (auto intro: chain_inv_frame)
      from 1(1) [OF t False d this] pop_tip_inv [OF d(1) 1(3)] show ?thesis by simp
    qed
  qed
  moreover have "blocks c' \<noteq> [] \<and> cv_hash (snd (last (blocks c'))) = x"
    using fork_loop_blocks [OF \<open>fork_loop x c = Some c'\<close>] by simp
  ultimately show ?thesis by simp
qed

section \<open>The operations of the set of chains\<close>

lemma rooted_hd: "rooted db c \<Longrightarrow> blocks c \<noteq> [] \<Longrightarrow> hd (blocks c') = hd (blocks c) \<Longrightarrow> rooted db c'"
  by (simp add: rooted_def)

lemma chain_at_finalized_tip_inv:
  assumes "chain_at_finalized_tip lib s t db = Some c"
  shows "chain_inv hgt prv c \<and> blocks c = []"
proof -
  have "blocks c = [] \<and> height_by_hash c = Mapping.empty"
    using assms by (auto simp: chain_at_finalized_tip_def Chain_new_def add_sprout_tree_and_anchor_def add_sapling_tree_and_anchor_def
        add_orchard_tree_and_anchor_def add_history_tree_def empty_chain_def bind_eq_Some_conv)
  then show ?thesis by (simp add: chain_inv_def linked_def)
qed

lemma parent_chain_inv:
  assumes "parent_chain s x = ok c" "\<forall>c \<in> set (chain_set s). chain_inv hgt prv c \<and> rooted db c"
  shows "chain_inv hgt prv c \<and> rooted db c \<and> blocks c \<noteq> [] \<and> cv_hash (snd (last (blocks c))) = x"
proof -
  obtain r where r: "find_chain (tip_is x) s = Some r" using assms(1) by (auto simp: parent_chain_def bind_ok_iff)
  show ?thesis
  proof (cases r)
    case (Some d)
    then have "d = c" using assms(1) r by (simp add: parent_chain_def)
    then have "c \<in> set (chain_set s)" "tip_is x c = Some True"
      using find_first_Some [of "tip_is x" "chain_iter s" d] r Some by (simp_all add: find_chain_def chain_iter_def)
    with assms(2) show ?thesis by (auto simp: tip_is_def non_finalized_tip_hash_def split: if_splits)
  next
    case None
    obtain q where q: "find_map (\<lambda>c. fork c x) (chain_iter s) = Some q" using assms(1) r None by (auto simp: parent_chain_def bind_ok_iff)
    then have "q = Some c" using assms(1) r None by (cases q) (simp_all add: parent_chain_def)
    then obtain d where d: "d \<in> set (chain_set s)" "fork d x = Some (Some c)"
      using find_map_Some [of "\<lambda>c. fork c x" "chain_iter s" c] q by (auto simp: chain_iter_def)
    from fork_inv [OF d(2)] assms(2) d(1) have "chain_inv hgt prv c \<and> blocks c \<noteq> [] \<and> hd (blocks c) = hd (blocks d) \<and> cv_hash (snd (last (blocks c))) = x"
      by blast
    moreover have "blocks d \<noteq> []"
    proof -
      have "fork_loop x d = Some c" using d(2) by (auto simp: fork_def split: if_splits)
      from fork_loop_blocks [OF this] show ?thesis by auto
    qed
    ultimately show ?thesis using assms(2) d(1) rooted_hd [of db d c] by simp
  qed
qed

lemma validate_and_commit_push:
  assumes "validate_and_commit lib s c b db = ok c'"
  obtains b' where "push lib c b' = ok c'" "cv_hash b' = sv_hash b" "cv_header b' = sv_header b" "cv_height b' = sv_height b"
    "cv_transactions b' = sv_transactions b" "cv_transaction_hashes b' = sv_transaction_hashes b"
proof -
  obtain spent b' sprout where b': "with_block_and_spent_utxos b spent = ok b'" "validate_and_update_parallel lib c b' sprout = ok c'"
    using assms by (auto simp: validate_and_commit_def tryr_ok_iff Let_def split: if_splits)
  have "push lib c b' = ok c'" using b'(2) by (auto simp: validate_and_update_parallel_def bind_ok_iff tryr_ok_iff)
  with that b'(1) show thesis by (auto simp: with_block_and_spent_utxos_def tryr_ok_iff Let_def)
qed

text \<open>The check of the height of a block.\<close>

lemma ancestor_height:
  assumes "any_ancestor_blocks s db x = Some ((header, txs) # rest)" "nfs_inv hgt prv db s" "db_inv hgt db"
  shows "coinbase_height txs = Some (hgt x)"
proof -
  obtain r where r: "find_chain (\<lambda>c. Some (contains_block_hash x c)) s = Some r"
    using assms(1) by (auto simp: any_ancestor_blocks_def bind_eq_Some_conv)
  obtain h where h: "read_height_by_hash r db x = Some h" "read_block r db (Height h) = Some (header, txs)"
    using assms(1) r by (cases "read_height_by_hash r db x")
      (auto simp: any_ancestor_blocks_def Let_def split: option.splits)
  show ?thesis
  proof (cases r)
    case (Some c)
    have c: "c \<in> set (chain_set s)" "contains_block_hash x c"
      using find_first_Some [of "\<lambda>c. Some (contains_block_hash x c)" "chain_iter s" c] r Some by (simp_all add: find_chain_def chain_iter_def)
    have inv: "chain_inv hgt prv c" using assms(2) c(1) by (simp add: nfs_inv_def)
    obtain k where k: "Mapping.lookup (height_by_hash c) x = Some k" using c(2) by (auto simp: contains_block_hash_def)
    then obtain b where b: "(k, b) \<in> set (blocks c)" "cv_hash b = x" using inv unfolding chain_inv_def by blast
    have "h = k" using h(1) k Some by (simp add: read_height_by_hash_def chain_height_by_hash_def or_else_def)
    moreover have l: "linked (blocks c)" using inv by (simp add: chain_inv_def)
    ultimately have "map_of (blocks c) h = Some b" using b(1) linked_map_of [OF l] by simp
    then have "txs = cv_transactions b" using h(2) Some by (simp add: read_block_def chain_block_def height_or_else_def or_else_def)
    moreover have "coinbase_height (cv_transactions b) = Some (cv_height b)" "cv_height b = hgt (cv_hash b)"
      using inv b(1) by (auto simp: chain_inv_def cv_id_def block_id_def semantically_verified_def)
    ultimately show ?thesis using b(2) by simp
  next
    case None
    have "(h, x) \<in> set (hash_by_height db)" "db_block db (Height h) = Some (header, txs)"
      using h None assms(3) by (auto simp: read_height_by_hash_def read_block_def or_else_def db_height_def db_inv_def blocks_ok_def)
    with assms(3) show ?thesis by (auto simp: db_inv_def)
  qed
qed

lemma initial_validity_height:
  assumes "initial_contextual_validity db s b = ok ()" "nfs_inv hgt prv db s" "db_inv hgt db"
  shows "unat (sv_height b) = Suc (unat (hgt (header_previous (sv_header b))))"
proof -
  obtain chain where a: "any_ancestor_blocks s db (header_previous (sv_header b)) = Some chain"
    "block_is_valid_for_recent_chain b (nfs_network s) (finalized_tip_height db) chain = ok ()"
    using assms(1) by (auto simp: initial_contextual_validity_def bind_ok_iff tryr_ok_iff)
  obtain header txs rest where c: "take POW_ADJUSTMENT_BLOCK_SPAN chain = (header, txs) # rest"
    using a(2) by (cases "take POW_ADJUSTMENT_BLOCK_SPAN chain") (auto simp: block_is_valid_for_recent_chain_def bind_ok_iff tryr_ok_iff)
  then obtain rest' where "chain = (header, txs) # rest'" by (cases chain) (auto simp: take_Cons split: nat.splits)
  then have "coinbase_height txs = Some (hgt (header_previous (sv_header b)))" using ancestor_height a(1) assms(2,3) by blast
  then have "height_add (hgt (header_previous (sv_header b))) 1 = Some (sv_height b)"
    using a(2) c by (auto simp: block_is_valid_for_recent_chain_def bind_ok_iff tryr_ok_iff height_one_more_than_parent_height_def split: if_splits)
  then have le: "unat (hgt (header_previous (sv_header b))) + 1 \<le> HEIGHT_MAX" "sv_height b = hgt (header_previous (sv_header b)) + 1"
    by (auto simp: height_add_def split: if_splits)
  then show ?thesis by (simp add: unat_add_lem [THEN iffD1] HEIGHT_MAX_def)
qed

lemma sv_cv_id:
  assumes "block_id hgt prv b" "unat (sv_height b) = Suc (unat (hgt (header_previous (sv_header b))))"
    "cv_hash b' = sv_hash b" "cv_header b' = sv_header b" "cv_height b' = sv_height b"
    "cv_transactions b' = sv_transactions b" "cv_transaction_hashes b' = sv_transaction_hashes b"
  shows "cv_id hgt prv b'"
  using assms by (simp add: cv_id_def block_id_def semantically_verified_def)

lemma nfs_inv_insert:
  assumes "insert_with c f s = Some s'" "nfs_inv hgt prv db s" "filtering f" "chain_inv hgt prv c" "rooted db c"
  shows "nfs_inv hgt prv db s'"
proof -
  have "chains_ok s" using assms(2) by (simp add: nfs_inv_def)
  from insert_with_ok [OF assms(1) this assms(3)] assms(2,4,5) show ?thesis by (auto simp: nfs_inv_def)
qed

lemma nfs_inv_chains: "nfs_inv hgt prv db s \<Longrightarrow> \<forall>c \<in> set (chain_set s). chain_inv hgt prv c \<and> rooted db c"
  by (simp add: nfs_inv_def)

lemma commit_new_chain_inv:
  assumes "commit_new_chain lib s b db = ok s'" "nfs_inv hgt prv db s" "block_id hgt prv b"
    "unat (sv_height b) = Suc (unat (hgt (header_previous (sv_header b))))" "finalized_tip_hash db = header_previous (sv_header b)"
  shows "nfs_inv hgt prv db s'"
proof -
  obtain t c c' where c: "chain_at_finalized_tip lib s t db = Some c" "validate_and_commit lib s c b db = ok c'" "nfs_insert c' s = Some s'"
    using assms(1) by (auto simp: commit_new_chain_def bind_ok_iff tryr_ok_iff)
  obtain b' where b': "push lib c b' = ok c'" "cv_hash b' = sv_hash b" "cv_header b' = sv_header b" "cv_height b' = sv_height b"
    "cv_transactions b' = sv_transactions b" "cv_transaction_hashes b' = sv_transaction_hashes b"
    by (rule validate_and_commit_push [OF c(2)])
  note new = chain_at_finalized_tip_inv [OF c(1), of hgt prv]
  have id: "cv_id hgt prv b'" by (rule sv_cv_id [OF assms(3,4) b'(2-6)])
  have "chain_inv hgt prv c'" "blocks c' = [(cv_height b', b')]" using push_inv [OF b'(1) _ id] new by simp_all
  moreover from this(2) have "rooted db c'" using b'(3) assms(5) by (simp add: rooted_def)
  ultimately show ?thesis using nfs_inv_insert [OF c(3) [unfolded nfs_insert_def] assms(2)] by simp
qed

lemma commit_block_inv:
  assumes "commit_block lib s b db = ok s'" "nfs_inv hgt prv db s" "block_id hgt prv b"
    "unat (sv_height b) = Suc (unat (hgt (header_previous (sv_header b))))"
  shows "nfs_inv hgt prv db s'"
proof -
  obtain c c' where c: "parent_chain s (header_previous (sv_header b)) = ok c" "validate_and_commit lib s c b db = ok c'"
    "insert_with c' (retain (\<lambda>c. map_option Not (tip_is (header_previous (sv_header b)) c))) s = Some s'"
    using assms(1) by (auto simp: commit_block_def bind_ok_iff tryr_ok_iff Let_def)
  have p: "chain_inv hgt prv c" "rooted db c" "blocks c \<noteq> []" "cv_hash (snd (last (blocks c))) = header_previous (sv_header b)"
    using parent_chain_inv [OF c(1) nfs_inv_chains [OF assms(2)]] by simp_all
  obtain b' where b': "push lib c b' = ok c'" "cv_hash b' = sv_hash b" "cv_header b' = sv_header b" "cv_height b' = sv_height b"
    "cv_transactions b' = sv_transactions b" "cv_transaction_hashes b' = sv_transaction_hashes b"
    by (rule validate_and_commit_push [OF c(2)])
  have id: "cv_id hgt prv b'" by (rule sv_cv_id [OF assms(3,4) b'(2-6)])
  have c': "chain_inv hgt prv c'" "blocks c' = blocks c @ [(cv_height b', b')]" using push_inv [OF b'(1) p(1) id] p(4) b'(3) by simp_all
  have "rooted db c'" using rooted_hd [OF p(2,3)] c'(2) p(3) by simp
  with c'(1) show ?thesis using nfs_inv_insert [OF c(3) assms(2)] by simp
qed

lemma validate_and_commit_non_finalized_inv:
  assumes "validate_and_commit_non_finalized lib db s b = ok s'" "nfs_inv hgt prv db s" "db_inv hgt db" "block_id hgt prv b"
  shows "nfs_inv hgt prv db s'"
proof -
  have v: "initial_contextual_validity db s b = ok ()" using assms(1) by (auto simp: validate_and_commit_non_finalized_def tryr_ok_iff)
  note h = initial_validity_height [OF v assms(2,3)]
  show ?thesis
  proof (cases "finalized_tip_hash db = header_previous (sv_header b)")
    case True
    then have "commit_new_chain lib s b db = ok s'" using assms(1) v by (simp add: validate_and_commit_non_finalized_def)
    from commit_new_chain_inv [OF this assms(2,4) h True] show ?thesis .
  next
    case False
    then have "commit_block lib s b db = ok s'" using assms(1) v by (simp add: validate_and_commit_non_finalized_def)
    from commit_block_inv [OF this assms(2,4) h] show ?thesis .
  qed
qed

subsection \<open>Invalidated blocks\<close>

lemma linked_ge: "linked bs \<Longrightarrow> q \<in> set bs \<Longrightarrow> unat (fst (hd bs)) \<le> unat (fst q)"
  using linked_height by (fastforce simp: in_set_conv_nth)

lemma linked_filter: "linked bs \<Longrightarrow> \<exists>n. filter (\<lambda>(h, _). k \<le> h) bs = drop n bs"
proof (induction bs)
  case (Cons p bs)
  show ?case
  proof (cases "k \<le> fst p")
    case True
    have "k \<le> fst q" if "q \<in> set (p # bs)" for q
      using linked_ge [OF Cons.prems that] True by (simp add: word_le_nat_alt)
    then have "\<forall>q \<in> set (p # bs). case q of (h, _) \<Rightarrow> k \<le> h" by (simp add: case_prod_unfold)
    then have "filter (\<lambda>(h, _). k \<le> h) (p # bs) = p # bs" by (rule filter_True)
    then show ?thesis by (intro exI [of _ 0]) (simp only: drop0)
  next
    case False
    from Cons.IH [OF linked_Cons [OF Cons.prems]] obtain n where "filter (\<lambda>(h, _). k \<le> h) bs = drop n bs" by blast
    with False show ?thesis by (intro exI [of _ "Suc n"]) (simp add: case_prod_unfold)
  qed
qed simp

lemma linked_drop: "linked bs \<Longrightarrow> linked (drop n bs)"
proof (induction n arbitrary: bs)
  case (Suc n)
  then show ?case by (cases bs) (auto dest: linked_Cons)
qed simp

lemma linked_parents: "linked bs \<Longrightarrow> successively (\<lambda>a b. header_previous (cv_header b) = cv_hash a) (map snd bs)"
  unfolding linked_def successively_map by (rule successively_mono [where P = "\<lambda>p q. header_previous (cv_header (snd q)) = cv_hash (snd p) \<and> unat (fst q) = Suc (unat (fst p))"]) auto

lemma child_blocks_inv: "chain_inv hgt prv c \<Longrightarrow> invalidated_inv hgt prv (child_blocks c h)"
proof -
  assume inv: "chain_inv hgt prv c"
  then have l: "linked (blocks c)" by (simp add: chain_inv_def)
  obtain n where n: "filter (\<lambda>(k, _). h \<le> k) (blocks c) = drop n (blocks c)" using linked_filter [OF l] by blast
  have "cv_id hgt prv b" if "b \<in> set (child_blocks c h)" for b
    using that inv by (auto simp: child_blocks_def chain_inv_def)
  moreover have "successively (\<lambda>a b. header_previous (cv_header b) = cv_hash a) (child_blocks c h)"
    unfolding child_blocks_def n by (rule linked_parents [OF linked_drop [OF l]])
  ultimately show ?thesis by (simp add: invalidated_inv_def)
qed

lemma in_update: "p \<in> set (AList.update k v m) \<Longrightarrow> p = (k, v) \<or> p \<in> set m"
  by (induction m) (auto split: if_splits)

lemma nfs_invalidate_inv:
  assumes "nfs_invalidate_block h s = ok s'" "nfs_inv hgt prv db s"
  shows "nfs_inv hgt prv db s'"
  using assms(1)
proof (cases rule: nfs_invalidate_cases)
  case (1 c)
  have "c \<in> set (chain_set s)" using find_first_Some [of _ "chain_iter s" c] 1(1) by (auto simp: find_chain_def chain_iter_def)
  with 1(3) chain_set_remove_contained assms(2) show ?thesis by (auto simp: nfs_inv_def chains_ok_def)
next
  case (2 c new_chain inv s1)
  have c: "c \<in> set (chain_set s)" using find_first_Some [of _ "chain_iter s" c] 2(1) by (auto simp: find_chain_def chain_iter_def)
  then have ci: "chain_inv hgt prv c" "rooted db c" using assms(2) by (simp_all add: nfs_inv_def)
  obtain k c1 c2 lf where k: "fork c h = Some (Some c1)" "pop_tip c1 = Some c2" "new_chain = c2\<lparr>last_fork_height := lf\<rparr>" "inv = child_blocks c k"
    using 2(3) by (auto simp: invalidate_block_def bind_eq_Some_conv Let_def split: option.splits)
  have f: "chain_inv hgt prv c1" "hd (blocks c1) = hd (blocks c)" using fork_inv [OF k(1) ci(1)] by simp_all
  have n: "chain_inv hgt prv new_chain" "hd (blocks new_chain) = hd (blocks c)"
    using pop_tip_inv [OF k(2) f(1)] f(2) by (auto simp: k(3) intro: chain_inv_frame)
  have "fork_loop h c = Some c1" using k(1) by (auto simp: fork_def split: if_splits)
  then have "blocks c \<noteq> []" using fork_loop_blocks by fastforce
  then have "rooted db new_chain" using rooted_hd [OF ci(2)] n(2) by simp
  with nfs_inv_insert [OF 2(5) assms(2)] n(1) have s1: "nfs_inv hgt prv db s1" by simp
  let ?bs = "AList.update (cv_height (hd inv)) inv (invalidated_blocks s1)"
  have "invalidated_inv hgt prv bs" if "(x, bs) \<in> set (drop (length ?bs - MAX_INVALIDATED_BLOCKS) ?bs)" for x bs
  proof -
    have "(x, bs) \<in> set ?bs" using that by (rule in_set_dropD)
    then have "bs = inv \<or> (x, bs) \<in> set (invalidated_blocks s1)" using in_update by fastforce
    then show ?thesis using s1 child_blocks_inv [OF ci(1), of k] k(4) by (force simp: nfs_inv_def)
  qed
  with s1 2(6) show ?thesis by (auto simp: nfs_inv_def chains_ok_def)
qed

lemma push_all_inv:
  "push_all lib bs c = ok c' \<Longrightarrow> chain_inv hgt prv c \<Longrightarrow> invalidated_inv hgt prv bs \<Longrightarrow> bs \<noteq> [] \<Longrightarrow>
     blocks c = [] \<or> cv_hash (snd (last (blocks c))) = header_previous (cv_header (hd bs)) \<Longrightarrow>
     chain_inv hgt prv c' \<and> hd (blocks c') = (if blocks c = [] then (cv_height (hd bs), hd bs) else hd (blocks c)) \<and> blocks c' \<noteq> []"
proof (induction bs arbitrary: c)
  case (Cons b bs)
  obtain d where d: "push lib c b = ok d" "push_all lib bs d = ok c'" using Cons.prems(1) by (auto simp: tryr_ok_iff)
  have id: "cv_id hgt prv b" using Cons.prems(3) by (simp add: invalidated_inv_def)
  have di: "chain_inv hgt prv d" "blocks d = blocks c @ [(cv_height b, b)]" using push_inv [OF d(1) Cons.prems(2) id] Cons.prems(5) by simp_all
  show ?case
  proof (cases bs)
    case Nil
    with d(2) di show ?thesis by auto
  next
    case (Cons b' bs')
    have "invalidated_inv hgt prv bs" "header_previous (cv_header b') = cv_hash b"
      using Cons.prems(3) Cons by (simp_all add: invalidated_inv_def)
    with Cons.IH [OF d(2) di(1)] di(2) Cons show ?thesis by auto
  qed
qed simp

lemma reconsider_inv:
  assumes "reconsider_block lib h db s = ok (hs, s')" "nfs_inv hgt prv db s"
  shows "nfs_inv hgt prv db s'"
  using assms(1)
proof (cases rule: reconsider_cases)
  case (1 b bs c c' inv)
  let ?p = "header_previous (cv_header b)"
  have inv: "invalidated_inv hgt prv (b # bs)" using 1(3) assms(2) by (auto simp: nfs_inv_def)
  have c: "chain_inv hgt prv c \<and> (if ?p = finalized_tip_hash db then blocks c = [] else
      blocks c \<noteq> [] \<and> cv_hash (snd (last (blocks c))) = ?p \<and> rooted db c)"
  proof (cases "?p = finalized_tip_hash db")
    case True
    then show ?thesis using 1(4) chain_at_finalized_tip_inv by auto
  next
    case False
    then have "parent_chain s ?p = ok c" using 1(4) by simp
    from parent_chain_inv [OF this nfs_inv_chains [OF assms(2)]] False show ?thesis by simp
  qed
  then have c': "chain_inv hgt prv c'" "hd (blocks c') = (if blocks c = [] then (cv_height b, b) else hd (blocks c))"
    using push_all_inv [OF 1(1) _ inv] by (auto split: if_splits)
  have "rooted db c'"
    using c c'(2) rooted_hd [of db c c'] by (cases "?p = finalized_tip_hash db") (auto simp: rooted_def)
  moreover have "nfs_inv hgt prv db (s\<lparr>invalidated_blocks := inv\<rparr>)" using assms(2) 1(6) by (auto simp: nfs_inv_def chains_ok_def)
  ultimately show ?thesis using nfs_inv_insert [OF 1(5)] c'(1) by simp
qed

section \<open>Finalizing\<close>

lemma blocks_ok_heights: "blocks_ok db \<Longrightarrow> (h, x) \<in> set (hash_by_height db) \<Longrightarrow> unat h < length (hash_by_height db)"
proof -
  assume ok: "blocks_ok db" and mem: "(h, x) \<in> set (hash_by_height db)"
  have "h \<in> set (map fst (hash_by_height db))" using mem by force
  then have "h \<in> set (map word_of_nat [0..<length (hash_by_height db)])" using ok unfolding blocks_ok_def by metis
  then obtain i where i: "i < length (hash_by_height db)" "h = word_of_nat i" by auto
  then have "unat h \<le> i" by (simp add: unat_of_nat)
  with i(1) show ?thesis by simp
qed

lemma commit_db_inv:
  assumes "commit_finalized_direct lib db f prev = ok (hash, trees, db')" "db_inv hgt db" "block_id hgt prv (verified_block f)"
  shows "db_inv hgt db'"
proof -
  have ok: "blocks_ok db" using assms(2) by (simp add: db_inv_def)
  note a = commit_finalized_appends [OF assms(1) ok] and r = commit_finalized_reads [OF assms(1) ok]
  let ?b = "verified_block f"
  have new: "hgt (sv_hash ?b) = sv_height ?b" "coinbase_height (sv_transactions ?b) = Some (sv_height ?b)"
    "map fst (zip (sv_transactions ?b) (sv_transaction_hashes ?b)) = sv_transactions ?b"
    using assms(3) by (simp_all add: block_id_def)
  have "hgt x = h \<and> (\<forall>header txs. db_block db' (Height h) = Some (header, txs) \<longrightarrow> coinbase_height txs = Some h)"
    if "(h, x) \<in> set (hash_by_height db')" for h x
  proof (cases "(h, x) \<in> set (hash_by_height db)")
    case True
    then have "h \<noteq> sv_height ?b" using blocks_ok_heights [OF ok True] a(3) by auto
    with r(6) True assms(2) show ?thesis by (auto simp: db_inv_def)
  next
    case False
    then have "h = sv_height ?b" "x = sv_hash ?b" using that r(1) by simp_all
    with new r(5) show ?thesis by simp
  qed
  with a(6) show ?thesis by (auto simp: db_inv_def)
qed

lemma finalize_commit:
  assumes "finalize s = Some (f, s')" "commit_finalized_direct lib db f prev = ok (hash, trees, db')"
    "nfs_inv hgt prv db s" "db_inv hgt db"
  obtains best root where "best \<in> set (chain_set s)" "hd (blocks best) = (cv_height root, root)" "blocks best \<noteq> []"
    "finalized_tip_hash db' = cv_hash root" "finalized_tip_height db' = Some (cv_height root)"
    "hash_by_height db' \<noteq> []" "nfs_inv hgt prv db' s'" "db_inv hgt db'"
    "\<forall>d \<in> set (chain_set s'). \<exists>c \<in> set (chain_set s). \<exists>b. blocks c = (cv_height b, b) # blocks d \<and> cv_hash b = cv_hash root"
proof -
  have cok: "chains_ok s" using assms(3) by (simp add: nfs_inv_def)
  obtain best side root ts rewards amounts best' where fc: "chain_set s = rev side @ [best]"
    "pop_root best = Some (root, ts, rewards, amounts, best')" "f = Contextual root ts rewards amounts"
    "set (chain_set s') = (if chain_is_empty best' then {} else {best'}) \<union>
       {d'. \<exists>d \<in> set side. non_finalized_root_hash d = Some (cv_hash root) \<and> (\<exists>b ts rewards amounts. pop_root d = Some (b, ts, rewards, amounts, d'))}"
    "set (invalidated_blocks s') \<subseteq> set (invalidated_blocks s)" "nfs_network s' = nfs_network s"
    by (rule finalize_chains [OF assms(1) cok])
  have best: "best \<in> set (chain_set s)" by (simp add: fc(1))
  then have bi: "chain_inv hgt prv best" "rooted db best" using assms(3) by (simp_all add: nfs_inv_def)
  note pr = pop_root_inv [OF fc(2) bi(1)]
  have vb: "verified_block f = semantically_verified root" by (simp add: fc(3) verified_block_def)
  have "cv_id hgt prv root" using bi(1) pr(2) by (auto simp: chain_inv_def)
  then have id: "block_id hgt prv (verified_block f)" by (simp add: vb cv_id_def)
  have ok: "blocks_ok db" using assms(4) by (simp add: db_inv_def)
  have tip: "finalized_tip_hash db' = cv_hash root" "finalized_tip_height db' = Some (cv_height root)" "hash_by_height db' \<noteq> []"
    using commit_finalized_reads(1-3) [OF assms(2) ok] by (simp_all add: vb semantically_verified_def)
  have popped: "\<exists>c \<in> set (chain_set s). \<exists>b. blocks c = (cv_height b, b) # blocks d \<and> cv_hash b = cv_hash root \<and>
      chain_inv hgt prv d \<and> rooted db' d" if "d \<in> set (chain_set s')" for d
  proof -
    have "d = best' \<or> (\<exists>c \<in> set side. non_finalized_root_hash c = Some (cv_hash root) \<and> (\<exists>b ts rewards amounts. pop_root c = Some (b, ts, rewards, amounts, d)))"
      using that unfolding fc(4) by (auto split: if_splits)
    then show ?thesis
    proof
      assume "d = best'"
      with best pr tip(1) show ?thesis by (auto simp: rooted_def)
    next
      assume "\<exists>c \<in> set side. non_finalized_root_hash c = Some (cv_hash root) \<and> (\<exists>b ts rewards amounts. pop_root c = Some (b, ts, rewards, amounts, d))"
      then obtain c b ts1 rewards1 amounts1 where c: "c \<in> set side" "non_finalized_root_hash c = Some (cv_hash root)"
        "pop_root c = Some (b, ts1, rewards1, amounts1, d)" by blast
      have cs: "c \<in> set (chain_set s)" using c(1) fc(1) by simp
      have "chain_inv hgt prv c" using cs assms(3) by (simp add: nfs_inv_def)
      note p = pop_root_inv [OF c(3) this]
      have "cv_hash b = cv_hash root" using c(2) p(2) by (simp add: non_finalized_root_hash_def)
      with cs p tip(1) show ?thesis by (auto simp: rooted_def)
    qed
  qed
  have "nfs_inv hgt prv db' s'"
    using finalize_ok [OF assms(1)] popped fc(5) assms(3) by (fastforce simp: nfs_inv_def)
  moreover have "\<forall>d \<in> set (chain_set s'). \<exists>c \<in> set (chain_set s). \<exists>b. blocks c = (cv_height b, b) # blocks d \<and> cv_hash b = cv_hash root"
    using popped by blast
  ultimately show thesis
    using that [OF best _ _ tip _ commit_db_inv [OF assms(2,4) id]] pr(2) by simp
qed

lemma reorg_limit_loop_inv:
  "reorg_limit_loop lib h p w = Some w' \<Longrightarrow> writer_inv hgt prv w \<Longrightarrow> writer_inv hgt prv w'"
proof (induction "total_blocks (w_nfs w)" arbitrary: w rule: less_induct)
  case less
  from less.prems(1) show ?case
  proof (cases rule: reorg_limit_loop_cases)
    case (1 len)
    with less.prems(2) show ?thesis by simp
  next
    case (2 f nfs hash trees db w1)
    have inv: "nfs_inv hgt prv (w_db w) (w_nfs w)" "db_inv hgt (w_db w)" using less.prems(2) by (simp_all add: writer_inv_def)
    have "nfs_inv hgt prv db nfs \<and> db_inv hgt db \<and> hash_by_height db \<noteq> []"
      by (rule finalize_commit [OF 2(1,2) inv]) simp
    with less.hyps [OF _ 2(6)] 2(3,4) finalize_total [OF 2(1)] show ?thesis by (simp add: writer_inv_def)
  qed
qed

subsection \<open>Up to the decided block\<close>

definition contains_all :: "(bytes \<Rightarrow> u32) \<Rightarrow> bytes \<Rightarrow> nat \<Rightarrow> BlockWriter \<Rightarrow> bool" where
  "contains_all hgt x n w \<longleftrightarrow> (if n = 0 then finalized_tip_hash (w_db w) = x else
     (\<forall>c \<in> set (chain_set (w_nfs w)). x \<in> cv_hash ` snd ` set (blocks c)) \<and>
     (\<exists>t. finalized_tip_height (w_db w) = Some t \<and> unat (hgt x) = unat t + n))"

lemma tip_hash_hgt:
  assumes "db_inv hgt db" "finalized_tip_height db = Some t"
  shows "hgt (finalized_tip_hash db) = t"
proof -
  obtain xs y where "hash_by_height db = xs @ [(t, y)]"
    using assms(2) by (cases "hash_by_height db" rule: rev_cases) (auto simp: finalized_tip_height_def db_tip_def)
  with assms(1) show ?thesis by (simp add: db_inv_def finalized_tip_hash_def db_tip_def)
qed

text \<open>The first block of a chain is one above the finalized tip.\<close>

lemma root_height_next:
  assumes "chain_inv hgt prv c" "rooted db c" "db_inv hgt db" "finalized_tip_height db = Some t" "blocks c \<noteq> []"
  shows "unat (fst (hd (blocks c))) = Suc (unat t)"
proof -
  obtain h b bs where c: "blocks c = (h, b) # bs" using assms(5) by (cases "blocks c") auto
  have "cv_id hgt prv b" "h = cv_height b" using assms(1) c by (simp_all add: chain_inv_def)
  moreover have "header_previous (cv_header b) = finalized_tip_hash db" using assms(2) c by (simp add: rooted_def)
  ultimately show ?thesis using tip_hash_hgt [OF assms(3,4)] c by (simp add: cv_id_def)
qed

lemma crosslink_finalize_loop_tip:
  "crosslink_finalize_loop lib n w = Some w' \<Longrightarrow> writer_inv hgt prv w \<Longrightarrow> contains_all hgt x n w \<Longrightarrow>
     writer_inv hgt prv w' \<and> finalized_tip_hash (w_db w') = x"
proof (induction n arbitrary: w)
  case 0
  then show ?case by (simp add: contains_all_def)
next
  case (Suc n)
  obtain f nfs hash trees db w1 where f: "finalize (w_nfs w) = Some (f, nfs)"
    "commit_finalized_direct lib (w_db w) f None = ok (hash, trees, db)" "w_db w1 = db" "w_nfs w1 = nfs"
    "crosslink_finalize_loop lib n w1 = Some w'"
    by (rule crosslink_finalize_loop_step [OF Suc.prems(1)])
  have inv: "nfs_inv hgt prv (w_db w) (w_nfs w)" "db_inv hgt (w_db w)" using Suc.prems(2) by (simp_all add: writer_inv_def)
  obtain best root where fc: "best \<in> set (chain_set (w_nfs w))" "hd (blocks best) = (cv_height root, root)" "blocks best \<noteq> []"
    "finalized_tip_hash db = cv_hash root" "finalized_tip_height db = Some (cv_height root)"
    "hash_by_height db \<noteq> []" "nfs_inv hgt prv db nfs" "db_inv hgt db"
    "\<forall>d \<in> set (chain_set nfs). \<exists>c \<in> set (chain_set (w_nfs w)). \<exists>b. blocks c = (cv_height b, b) # blocks d \<and> cv_hash b = cv_hash root"
    by (rule finalize_commit [OF f(1,2) inv])
  have w1: "writer_inv hgt prv w1" using fc(6-8) f(3,4) by (simp add: writer_inv_def)
  obtain t where t: "finalized_tip_height (w_db w) = Some t" "unat (hgt x) = unat t + Suc n"
    "\<forall>c \<in> set (chain_set (w_nfs w)). x \<in> cv_hash ` snd ` set (blocks c)"
    using Suc.prems(3) by (auto simp: contains_all_def)
  have bi: "chain_inv hgt prv best" "rooted (w_db w) best" using inv(1) fc(1) by (simp_all add: nfs_inv_def)
  have root: "unat (cv_height root) = Suc (unat t)" using root_height_next [OF bi inv(2) t(1) fc(3)] fc(2) by simp
  have rh: "hgt (cv_hash root) = cv_height root" using chain_inv_hgt [OF bi(1), of "cv_height root" root] fc(2,3) by (metis list.set_sel(1))
  have "contains_all hgt x n w1"
  proof (cases "n = 0")
    case True
    obtain h b where b: "(h, b) \<in> set (blocks best)" "cv_hash b = x" using t(3) fc(1) by force
    have "h = hgt x" using chain_inv_hgt [OF bi(1) b(1)] b(2) by simp
    then have "h = cv_height root" using t(2) True root by (simp add: word_unat_eq_iff)
    moreover have "(cv_height root, root) \<in> set (blocks best)" using fc(2,3) by (metis list.set_sel(1))
    ultimately have "b = root" using linked_inj bi(1) b(1) by (auto simp: chain_inv_def)
    with b(2) fc(4) True f(3) show ?thesis by (simp add: contains_all_def)
  next
    case False
    have "x \<noteq> cv_hash root" using rh root t(2) False by auto
    have "x \<in> cv_hash ` snd ` set (blocks d)" if d: "d \<in> set (chain_set nfs)" for d
    proof -
      obtain c b where "c \<in> set (chain_set (w_nfs w))" "blocks c = (cv_height b, b) # blocks d" "cv_hash b = cv_hash root"
        using bspec [OF fc(9) d] by blast
      moreover from this(1) have "x \<in> cv_hash ` snd ` set (blocks c)" using t(3) by simp
      ultimately show ?thesis using \<open>x \<noteq> cv_hash root\<close> by simp
    qed
    with False f(3,4) fc(5) t(2) root show ?thesis by (simp add: contains_all_def)
  qed
  with Suc.IH [OF f(5) w1] show ?case by blast
qed


lemma linked_count:
  "linked bs \<Longrightarrow> (h, b) \<in> set bs \<Longrightarrow> length (filter (\<lambda>(k, _). k \<le> h) bs) + unat (fst (hd bs)) = Suc (unat h)"
proof (induction bs)
  case (Cons p bs)
  show ?case
  proof (cases "(h, b) = p")
    case True
    have "\<not> fst q \<le> h" if "q \<in> set bs" for q
    proof -
      have ne: "bs \<noteq> []" using that by auto
      then have "unat (fst (hd bs)) = Suc (unat h)" using Cons.prems(1) True by (cases bs) (auto simp: linked_def)
      with linked_ge [OF linked_Cons [OF Cons.prems(1)] that] show ?thesis by (simp add: word_le_nat_alt)
    qed
    then have "filter (\<lambda>(k, _). k \<le> h) bs = []" by (auto simp: filter_empty_conv)
    with True show ?thesis by auto
  next
    case False
    then have mem: "(h, b) \<in> set bs" using Cons.prems(2) by simp
    then have ne: "bs \<noteq> []" by auto
    then have hd: "unat (fst (hd bs)) = Suc (unat (fst p))" using Cons.prems(1) by (cases bs) (auto simp: linked_def)
    have "fst p \<le> h" using linked_ge [OF Cons.prems(1,2)] by (simp add: word_le_nat_alt)
    with Cons.IH [OF linked_Cons [OF Cons.prems(1)] mem] hd show ?thesis by (simp add: case_prod_unfold)
  qed
qed simp

lemma crosslink_finalize_start:
  assumes "crosslink_finalize x s = Some (Some bs, s')" "nfs_inv hgt prv db s" "db_inv hgt db" "hash_by_height db \<noteq> []"
    "w_db w = db" "w_nfs w = s'"
  shows "writer_inv hgt prv w \<and> contains_all hgt x (length bs) w"
  using assms(1)
proof (cases rule: crosslink_finalize_cases)
  case (2 c height)
  have c: "c \<in> set (chain_set s)"
    using find_first_Some [of "\<lambda>c. Some (chain_height_by_hash x c \<noteq> None)" "chain_iter s" c] 2(1) by (simp add: find_chain_def chain_iter_def)
  then have inv: "chain_inv hgt prv c" "rooted db c" using assms(2) by (simp_all add: nfs_inv_def)
  have height: "height = hgt x" "x \<in> cv_hash ` snd ` set (blocks c)"
    using 2(2) chain_inv_contains [OF inv(1)] by (simp_all add: chain_height_by_hash_def)
  obtain h b where b: "(h, b) \<in> set (blocks c)" "cv_hash b = x" using height(2) by force
  have h: "h = hgt x" using chain_inv_hgt [OF inv(1) b(1)] b(2) by simp
  obtain t where t: "finalized_tip_height db = Some t"
    using assms(4) by (cases "hash_by_height db" rule: rev_cases) (auto simp: finalized_tip_height_def db_tip_def)
  have ne: "blocks c \<noteq> []" using b(1) by auto
  have l: "linked (blocks c)" using inv(1) by (simp add: chain_inv_def)
  have "length bs + unat (fst (hd (blocks c))) = Suc (unat (hgt x))"
    using linked_count [OF l b(1)] 2(3) height(1) h by simp
  then have len: "unat (hgt x) = unat t + length bs" using root_height_next [OF inv assms(3) t ne] by simp
  have "x \<in> cv_hash ` snd ` set (blocks d)" if "d \<in> set (chain_set s')" for d
  proof -
    have d: "d \<in> set (chain_set s)" "contains_block_hash x d" using that 2(4) by simp_all
    then show ?thesis using assms(2) chain_inv_contains [of hgt prv d x] by (auto simp: nfs_inv_def contains_block_hash_def)
  qed
  moreover have "length bs \<noteq> 0"
  proof -
    have "(h, b) \<in> set (filter (\<lambda>(k, _). k \<le> height) (blocks c))" using b(1) h height(1) by simp
    then show ?thesis using 2(3) by (auto simp: filter_empty_conv)
  qed
  ultimately have "contains_all hgt x (length bs) w" using t len assms(5,6) by (simp add: contains_all_def)
  moreover have "nfs_inv hgt prv db s'"
    using crosslink_finalize_ok [OF assms(1)] 2(4) assms(2) by (auto simp: nfs_inv_def)
  ultimately show ?thesis using assms(3-6) by (simp add: writer_inv_def)
qed simp

section \<open>Messages\<close>

text \<open>The blocks that a message brings.\<close>

fun message_ids :: "(bytes \<Rightarrow> u32) \<Rightarrow> (bytes \<Rightarrow> bytes) \<Rightarrow> NonFinalizedWriteMessage \<Rightarrow> bool" where
  "message_ids hgt prv (Commit b) = block_id hgt prv b"
| "message_ids hgt prv _ = True"

lemma write_crosslink_inv:
  assumes "write_crosslink_finalized lib x w = Some (r, w')" "writer_inv hgt prv w"
  shows "writer_inv hgt prv w' \<and> (w_db w' = w_db w \<and> w_nfs w' = w_nfs w \<or> finalized_tip_hash (w_db w') = x)"
  using assms(1)
proof (cases rule: write_crosslink_cases)
  case 1
  with assms(2) show ?thesis by simp
next
  case (2 bs nfs w1 stakes)
  have "writer_inv hgt prv w1 \<and> contains_all hgt x (length bs) w1"
    by (rule crosslink_finalize_start [OF 2(1) _ _ _ 2(2,3)]) (use assms(2) in \<open>simp_all add: writer_inv_def\<close>)
  with crosslink_finalize_loop_tip [OF 2(4)] show ?thesis by blast
qed

lemma write_crosslink_found:
  assumes "write_crosslink_finalized lib x w = Some (r, w')" "writer_inv hgt prv w" "any_chain_contains (w_nfs w) x"
  shows "finalized_tip_hash (w_db w') = x \<and> (\<exists>stakes. r = Inr (x, stakes))"
  using assms(1)
proof (cases rule: write_crosslink_cases)
  case 1
  have "find_chain (\<lambda>c. Some (chain_height_by_hash x c \<noteq> None)) (w_nfs w) = Some None"
    using 1(1) by (cases rule: crosslink_finalize_cases) simp_all
  then have "\<forall>c \<in> set (chain_iter (w_nfs w)). chain_height_by_hash x c = None"
    using find_first_None by (fastforce simp: find_chain_def)
  with assms(3) show ?thesis by (auto simp: any_chain_contains_def list_ex_iff contains_block_hash_def chain_height_by_hash_def)
next
  case (2 bs nfs w1 stakes)
  have "writer_inv hgt prv w1 \<and> contains_all hgt x (length bs) w1"
    by (rule crosslink_finalize_start [OF 2(1) _ _ _ 2(2,3)]) (use assms(2) in \<open>simp_all add: writer_inv_def\<close>)
  with crosslink_finalize_loop_tip [OF 2(4)] 2(6) show ?thesis by blast
qed

lemma blocks_ok_distinct: "blocks_ok db \<Longrightarrow> distinct (map fst (hash_by_height db))"
proof -
  assume ok: "blocks_ok db"
  let ?n = "length (hash_by_height db)"
  have n: "?n \<le> 2 ^ 31" using ok by (simp add: blocks_ok_def HEIGHT_MAX_def)
  have "i = j" if "i < ?n" "j < ?n" "(word_of_nat i :: u32) = word_of_nat j" for i j
  proof -
    have "unat (word_of_nat i :: u32) = i" "unat (word_of_nat j :: u32) = j" using that(1,2) n by (simp_all add: unat_of_nat)
    with that(3) show ?thesis by metis
  qed
  then have "distinct (map (word_of_nat :: nat \<Rightarrow> u32) [0..<?n])" by (simp add: distinct_map inj_on_def)
  then show ?thesis using ok unfolding blocks_ok_def by metis
qed

lemma write_message_inv:
  assumes "write_message lib msg w = Some (r, w')" "writer_inv hgt prv w" "message_ids hgt prv msg"
  shows "writer_inv hgt prv w'"
  using assms(1)
proof (cases rule: write_message_cases)
  case (1 b r1)
  from 1(2) show ?thesis
  proof (cases rule: write_commit_cases)
    case (1 e)
    with assms(2) show ?thesis by (simp add: writer_inv_def)
  next
    case (2 nfs w1 w2)
    have "nfs_inv hgt prv (w_db w) nfs"
      using validate_and_commit_non_finalized_inv [OF 2(2)] assms(2,3) \<open>msg = Commit b\<close> by (simp add: writer_inv_def)
    then have "writer_inv hgt prv w1" using assms(2) 2(3,4) by (simp add: writer_inv_def)
    from reorg_limit_loop_inv [OF 2(6) this] 2(7,8) show ?thesis by (simp add: writer_inv_def)
  qed
next
  case (2 h r1)
  with write_crosslink_inv [OF 2(2) assms(2)] show ?thesis by blast
next
  case (3 h)
  with assms(2) nfs_invalidate_inv show ?thesis by (auto simp: writer_inv_def)
next
  case (4 h hs)
  with assms(2) reconsider_inv show ?thesis by (auto simp: writer_inv_def)
qed

lemma write_messages_inv:
  "write_messages lib msgs w = Some (rs, w') \<Longrightarrow> writer_inv hgt prv w \<Longrightarrow> \<forall>msg \<in> set msgs. message_ids hgt prv msg \<Longrightarrow>
     writer_inv hgt prv w' \<and> (writer_step lib)\<^sup>*\<^sup>* w w'"
proof (induction msgs arbitrary: w rs)
  case (Cons msg msgs)
  obtain r w1 rs1 where w1: "write_message lib msg w = Some (r, w1)" "write_messages lib msgs w1 = Some (rs1, w')"
    using Cons.prems(1) by (auto simp: bind_eq_Some_conv)
  have "writer_inv hgt prv w1" using write_message_inv [OF w1(1) Cons.prems(2)] Cons.prems(3) by simp
  with Cons.IH [OF w1(2)] Cons.prems(3) writer_step.message [OF w1(1)] show ?case
    by (auto intro: converse_rtranclp_into_rtranclp)
qed simp



section \<open>A run\<close>

text \<open>A node with the genesis block finalized, and a chain of one block over it.\<close>

abbreviation decided_block :: ContextuallyVerifiedBlock where
  "decided_block \<equiv> plain_block 1 [8] [7]"

lemma decided_chain:
  "\<exists>c c' d. Chain_new sample_lib Mainnet 0 [1] [2] [3] [4] vb_zero [] = Some c \<and> push sample_lib c decided_block = ok c' \<and>
     blocks c' = [(1, decided_block)] \<and> height_by_hash c' = Mapping.update [8] 1 Mapping.empty \<and>
     pop_root c' = Some (decided_block, plain_treestate [4, 7], [], [], d) \<and> blocks d = []"
proof -
  have w: "block_work decided_block = Some 8192"
    by (simp add: block_work_def plain_block_def to_work_eq expanded_of_def compact_value_def)
  then show ?thesis
    using pools_unchanged
    by (simp add: push_simps pop_simps pop_root_def Let_def treestate_def sprout_tree_def sapling_tree_def orchard_tree_def
        history_tree_def btree_at_most_def tree_run_simps plain_block_def plain_treestate_def sapling_subtree_def
        orchard_subtree_def height_or_else_def height_next_def HEIGHT_MAX_def)
qed

lemma decided_commit:
  "\<exists>trees db. commit_finalized_direct sample_lib genesis_db (Contextual decided_block (plain_treestate [4, 7]) [] []) None =
     ok ([8], trees, db) \<and> active_bonds db = []"
proof -
  define f where "f = from_contextually_verified decided_block (plain_treestate [4, 7]) [] []"
  note f = plain_finalized [OF f_def]
  have pools: "prepare_chain_value_pools_batch f Mapping.empty vb_zero = ok [PutValuePool vb_zero, PutBlockInfo 1 (vb_zero, 100)]"
    using plain_pools [of f 1] f by simp
  have "\<exists>db. write_block sample_lib genesis_db f None = ok ([8], db) \<and> active_bonds db = []"
    by (simp add: pools f map_entries_empty write_run_simps new_db_def genesis_db_def tree_by_height_def sapling_tree_by_height_def orchard_tree_by_height_def btree_at_most_def Let_def
        prepare_transparent_transaction_batch_def prepare_delegation_bonds_batch_def prepare_spending_transparent_tx_ids_batch_def
        prepare_transparent_balances_batch_def
        active_bonds_def all_bonds_def)
  then obtain db where "write_block sample_lib genesis_db f None = ok ([8], db)" "active_bonds db = []" by blast
  moreover have "finalized_tip_hash genesis_db = header_previous (fb_header f)" "\<not> db_is_empty genesis_db"
    "finalized_tip_height genesis_db = Some 0"
    by (simp_all add: finalized_tip_hash_def finalized_tip_height_def db_tip_def genesis_db_def db_is_empty_def f plain_block_def)
  ultimately show ?thesis
    by (simp add: commit_finalized_direct_def finalized_block_def f_def [symmetric] f rassert_def height_add_def HEIGHT_MAX_def)
qed

definition decided_writer :: "Chain \<Rightarrow> BlockWriter" where
  "decided_writer c = \<lparr>w_db = genesis_db, w_nfs = (NonFinalizedState_new Mainnet)\<lparr>chain_set := [c]\<rparr>, w_prev_trees = None,
     w_parent_errors = [], w_chain_tip = ChainTipSender_new None, w_nfs_sent = None, w_resets = [], w_events = []\<rparr>"

definition decided_hgt :: "bytes \<Rightarrow> u32" where "decided_hgt x = (if x = [8] then 1 else 0)"

definition decided_prv :: "bytes \<Rightarrow> bytes" where "decided_prv x = (if x = [8] then [7] else [])"

lemma decided_run:
  obtains c r w' where "writer_inv decided_hgt decided_prv (decided_writer c)" "any_chain_contains (w_nfs (decided_writer c)) [8]"
    "write_message sample_lib (CrosslinkFinalized [8]) (decided_writer c) = Some (r, w')" "chain_set (w_nfs (decided_writer c)) = [c]"
    "write_messages sample_lib [CrosslinkFinalized [7]] (decided_writer c) = Some ([CrosslinkResponse (Inr ([7], []))], decided_writer c)"
proof -
  obtain c d where c: "blocks c = [(1, decided_block)]" "height_by_hash c = Mapping.update [8] 1 Mapping.empty"
    "pop_root c = Some (decided_block, plain_treestate [4, 7], [], [], d)" "blocks d = []"
    using decided_chain by blast
  obtain trees db where db: "commit_finalized_direct sample_lib genesis_db (Contextual decided_block (plain_treestate [4, 7]) [] []) None =
     ok ([8], trees, db)" "active_bonds db = []"
    using decided_commit by blast
  have id: "cv_id decided_hgt decided_prv decided_block"
    by (simp add: cv_id_def block_id_def decided_hgt_def decided_prv_def semantically_verified_def plain_block_def coinbase_height_def)
  have ci: "chain_inv decided_hgt decided_prv c"
    using id by (auto simp: chain_inv_def c(1,2) linked_def plain_block_def lookup_update')
  have tip: "finalized_tip_hash genesis_db = [7]" by (simp add: finalized_tip_hash_def db_tip_def genesis_db_def)
  have "coinbase_height txs = Some 0" if "db_block genesis_db (Height 0) = Some (header, txs)" for header txs
    using that by (auto simp: db_block_def block_header_def db_height_or_else_def genesis_db_def transactions_by_height_filter coinbase_height_def)
  then have "db_inv decided_hgt genesis_db" using genesis_db_ok
    by (auto simp: db_inv_def decided_hgt_def) (auto simp: genesis_db_def)
  then have "writer_inv decided_hgt decided_prv (decided_writer c)"
    using ci tip by (simp add: writer_inv_def decided_writer_def nfs_inv_def chains_ok_def NonFinalizedState_new_def rooted_def c(1))
      (simp add: genesis_db_def plain_block_def)
  moreover have "any_chain_contains (w_nfs (decided_writer c)) [8]"
    by (simp add: any_chain_contains_def chain_iter_def decided_writer_def NonFinalizedState_new_def contains_block_hash_def c(2))
  moreover have "\<exists>r w'. write_message sample_lib (CrosslinkFinalized [8]) (decided_writer c) = Some (r, w')"
  proof -
    have fin: "finalize ((NonFinalizedState_new Mainnet)\<lparr>chain_set := [c]\<rparr>) =
        Some (Contextual decided_block (plain_treestate [4, 7]) [] [], NonFinalizedState_new Mainnet)"
      by (simp add: finalize_def chain_iter_def c(3,4) chain_is_empty_def NonFinalizedState_new_def)
    show ?thesis
      by (simp add: write_message_def write_crosslink_finalized_def crosslink_finalize_def find_chain_def chain_iter_def decided_writer_def
          NonFinalizedState_new_def [symmetric] chain_height_by_hash_def c(1,2) contains_block_hash_def update_latest_chain_channels_def
          best_chain_def tip_block_def btree_last_def fin db plain_verified coinbase_height_def ok_def)
  qed
  moreover have "chain_set (w_nfs (decided_writer c)) = [c]" by (simp add: decided_writer_def)
  moreover have "write_messages sample_lib [CrosslinkFinalized [7]] (decided_writer c) =
      Some ([CrosslinkResponse (Inr ([7], []))], decided_writer c)"
    by (simp add: write_message_def write_crosslink_finalized_def crosslink_finalize_def find_chain_def chain_iter_def decided_writer_def
        chain_height_by_hash_def c(2) contains_hash_def lookup_update') (simp add: genesis_db_def NonFinalizedState_new_def)
  ultimately show thesis using that by blast
qed



theorem finality_is_permanent_witness:
  "\<exists>c w'. (writer_step sample_lib)\<^sup>*\<^sup>* (decided_writer c) w' \<and> blocks_ok (w_db (decided_writer c)) \<and>
     w_db w' \<noteq> w_db (decided_writer c) \<and> db_hash (w_db w') 0 = Some [7] \<and>
     db_block (w_db w') (Height 0) = Some (cv_header genesis_block, [V5 [Coinbase 0] [] None None])"
proof -
  obtain c r w' where w: "writer_inv decided_hgt decided_prv (decided_writer c)" "any_chain_contains (w_nfs (decided_writer c)) [8]"
    "write_message sample_lib (CrosslinkFinalized [8]) (decided_writer c) = Some (r, w')" "chain_set (w_nfs (decided_writer c)) = [c]"
    "write_messages sample_lib [CrosslinkFinalized [7]] (decided_writer c) = Some ([CrosslinkResponse (Inr ([7], []))], decided_writer c)"
    by (rule decided_run)
  have steps: "(writer_step sample_lib)\<^sup>*\<^sup>* (decided_writer c) w'" using writer_step.message [OF w(3)] by blast
  have db: "w_db (decided_writer c) = genesis_db" by (simp add: decided_writer_def)
  have ok: "blocks_ok (w_db (decided_writer c))" by (simp add: db genesis_db_ok)
  obtain r1 where "write_crosslink_finalized sample_lib [8] (decided_writer c) = Some (r1, w')"
    using w(3) by (cases rule: write_message_cases) simp_all
  then have "finalized_tip_hash (w_db w') = [8]" using write_crosslink_found [OF _ w(1,2)] by blast
  then have "w_db w' \<noteq> w_db (decided_writer c)" by (auto simp: db finalized_tip_hash_def db_tip_def genesis_db_def)
  moreover have "db_hash genesis_db 0 = Some [7]" "unat (0 :: u32) < length (hash_by_height genesis_db)"
    "db_block genesis_db (Height 0) = Some (cv_header genesis_block, [V5 [Coinbase 0] [] None None])"
    by (simp_all add: genesis_db_def db_hash_def db_block_def block_header_def db_height_or_else_def transactions_by_height_filter)
  ultimately have "db_hash (w_db w') 0 = Some [7]"
    "db_block (w_db w') (Height 0) = Some (cv_header genesis_block, [V5 [Coinbase 0] [] None None])"
    "w_db w' \<noteq> w_db (decided_writer c)"
    using finality_is_permanent [OF steps ok, unfolded db] by simp_all
  with steps ok show ?thesis by blast
qed

end
