(* ===== verification/Crosslink_Service.thy ===== *)
theory Crosslink_Service
  imports Pow_Header State_Requests Crosslink_Finality Tendermint "HOL-Library.Sublist"
begin

text \<open>
  The Crosslink service of a node, \<^verbatim>\<open>zebra-crosslink/src/lib.rs\<close> and \<^verbatim>\<open>service.rs\<close>: it proposes BFT blocks from the
  proof-of-work chain, validates the proposals of others, stores decided BFT blocks and asks the state to finalize
  the block they decide, and answers whether a block is final. It is the application of the Tenderlink state
  machine, which gets three of these functions as closures.

  The state service that it calls is the model of its reads and of its block writer. The messages that wait in
  the channel of the writer are part of the state, since a request to finalize a block is handled after them. The
  tracing, the strings shown to users and the visualisation are left out.
\<close>

section \<open>Definitions\<close>

text \<open>BLAKE3 keyed for values, SHA-256 and the batch verification of Ed25519 signatures.\<close>

record CryptoLib =
  lib_hash_value_id :: "bytes \<Rightarrow> bytes"
  lib_sha256 :: "bytes \<Rightarrow> bytes"
  lib_batch_verify :: "(bytes \<times> bytes \<times> bytes) list \<Rightarrow> bool"

text \<open>
  The file of decided blocks is its bytes; \<^term>\<open>None\<close> is the empty path. The own key, the channel of final blocks, the
  message flags and the strings of peers are left out: nothing that is modelled reads them.
\<close>

record TFLServiceInternal =
  latest_final_block :: "(u32 \<times> bytes) option"
  tfl_is_activated :: bool
  bft_blocks :: "BftBlock list"
  fat_pointer_to_tip :: FatPointerToBftBlock
  validators_at_current_height :: "RosterMember list"
  current_bc_final :: "(u32 \<times> bytes) option"
  pos_store :: "bytes option"

record CrosslinkApp =
  app_tfl :: TFLServiceInternal
  app_writer :: BlockWriter
  app_pending :: "NonFinalizedWriteMessage list"
  app_checkpoints_done :: bool

subsection \<open>Fat pointers of block headers\<close>

fun bft_position :: "(bytes \<Rightarrow> bytes) \<Rightarrow> FatPointerToBftBlock \<Rightarrow> BftBlock list \<Rightarrow> nat option rust" where
  "bft_position hash_value_id fp [] = Some None"
| "bft_position hash_value_id fp (b # bs) = do {
     hash \<leftarrow> blake3_hash hash_value_id b;
     target \<leftarrow> points_at_block_hash fp;
     if hash = target then Some (Some 0)
     else do { i \<leftarrow> bft_position hash_value_id fp bs; Some (map_option Suc i) } }"

definition fat_pointer_height :: "CryptoLib \<Rightarrow> TFLServiceInternal \<Rightarrow> FatPointerToBftBlock \<Rightarrow> nat option rust" where
  "fat_pointer_height cr t fp =
     (if fp = FatPointer_null then Some (Some 0) else bft_position (lib_hash_value_id cr) fp (bft_blocks t))"

definition call_from_state_to_crosslink_to_ask_about_fat_pointers ::
  "CryptoLib \<Rightarrow> TFLServiceInternal \<Rightarrow> FatPointerToBftBlock \<Rightarrow> FatPointerToBftBlock \<Rightarrow> bool rust" where
  "call_from_state_to_crosslink_to_ask_about_fat_pointers cr t parent_fat_pointer child_fat_pointer = do {
     parent_height \<leftarrow> fat_pointer_height cr t parent_fat_pointer;
     (case parent_height of
        None \<Rightarrow> Some False
      | Some parent_height \<Rightarrow> do {
          child_height \<leftarrow> fat_pointer_height cr t child_fat_pointer;
          (case child_height of
             None \<Rightarrow> Some False
           | Some child_height \<Rightarrow> Some (child_height \<ge> parent_height)) }) }"

subsection \<open>The final block\<close>

definition block_height_from_hash :: "BlockWriter \<Rightarrow> bytes \<Rightarrow> u32 option" where
  "block_height_from_hash w hash = map_option known_height (known_block w hash)"

definition tfl_reorg_final_block_height_hash :: "BlockWriter \<Rightarrow> (u32 \<times> bytes) option rust" where
  "tfl_reorg_final_block_height_hash w = do {
     hashes \<leftarrow> request_block_locator w;
     Some (if hashes = [] then None
       else map_option (\<lambda>height. (height, List.last hashes)) (block_height_from_hash w (List.last hashes))) }"

definition tfl_final_block_height_hash :: "CrosslinkApp \<Rightarrow> (u32 \<times> bytes) option rust" where
  "tfl_final_block_height_hash a = (case latest_final_block (app_tfl a) of
       Some b \<Rightarrow> Some (Some b)
     | None \<Rightarrow> tfl_reorg_final_block_height_hash (app_writer a))"

subsection \<open>Proposing\<close>

definition height_sub :: "u32 \<Rightarrow> u64 \<Rightarrow> u32 option" where
  "height_sub height d = (if uint d \<le> uint height \<and> nat (uint height - uint d) \<le> HEIGHT_MAX
     then Some (word_of_int (uint height - uint d)) else None)"

definition propose_new_bft_block :: "CrosslinkApp \<Rightarrow> BftBlock option rust" where
  "propose_new_bft_block a = do {
     let w = app_writer a;
     let t = app_tfl a;
     let sigma = bc_confirmation_depth_sigma PROTOTYPE_PARAMETERS;
     tip \<leftarrow> request_tip w;
     (case tip of None \<Rightarrow> Some None | Some (tip_height, _) \<Rightarrow>
       (case height_sub tip_height sigma of None \<Rightarrow> Some None | Some cand_height \<Rightarrow>
          if \<not> (case latest_final_block t of None \<Rightarrow> True | Some (fin_height, _) \<Rightarrow> cand_height > fin_height)
          then Some None
          else do {
            limit \<leftarrow> (case latest_final_block t of Some (fin_height, _) \<Rightarrow> checked_add fin_height 10 | None \<Rightarrow> Some (- 1));
            let cand_height = min cand_height limit;
            (case request_block_header w (Height cand_height) of
               Inl _ \<Rightarrow> None
             | Inr (_, candidate_hash, _, _) \<Rightarrow> do {
                 hdrs \<leftarrow> request_find_block_headers w [candidate_hash] None;
                 headers \<leftarrow> rust_map bc_hdr_to_lrz hdrs;
                 height \<leftarrow> checked_add (word_of_nat (length (bft_blocks t))) 1;
                 (case BftBlock_try_from PROTOTYPE_PARAMETERS height (fat_pointer_to_tip t) 0 (take (unat sigma) headers) of
                    Inr b \<Rightarrow> Some (Some b)
                  | Inl _ \<Rightarrow> Some None) }) })) }"

subsection \<open>Validating\<close>

definition validate_bft_block :: "CryptoLib \<Rightarrow> CrosslinkApp \<Rightarrow> BftBlock \<Rightarrow> (TMStatus \<times> TMStatusReason) rust" where
  "validate_bft_block cr a new_block = do {
     previous \<leftarrow> points_at_block_hash (previous_block_fat_ptr new_block);
     tip \<leftarrow> points_at_block_hash (fat_pointer_to_tip (app_tfl a));
     if previous \<noteq> tip then Some (Fail, NoReason)
     else do {
       header \<leftarrow> finalization_candidate new_block;
       let new_final_hash = from_header_data (lib_sha256 cr) header;
       Some (case block_height_from_hash (app_writer a) new_final_hash of
           Some _ \<Rightarrow> (Pass, NoReason)
         | None \<Rightarrow> (Indeterminate, NeedsBlock new_final_hash)) } }"

subsection \<open>Deciding\<close>

text \<open>\<^verbatim>\<open>Request::CrosslinkFinalizeBlock\<close>: the message is handled after those that wait.\<close>

definition crosslink_finalize_block ::
  "TreeLib \<Rightarrow> bytes \<Rightarrow> CrosslinkApp \<Rightarrow> ((string + bytes \<times> (bytes \<times> u64) list) \<times> CrosslinkApp) rust" where
  "crosslink_finalize_block lib hash a =
     (if app_checkpoints_done a then do {
        (_, w) \<leftarrow> write_messages lib (app_pending a) (app_writer a);
        (r, w) \<leftarrow> write_crosslink_finalized lib hash w;
        Some (r, a\<lparr>app_writer := w, app_pending := []\<rparr>) }
      else Some (Inl ''not ready to crosslink-finalize blocks'', a))"

definition placeholder_block :: "nat \<Rightarrow> BftBlock" where
  "placeholder_block i = \<lparr>bb_version = 0, bb_height = word_of_nat i, previous_block_fat_ptr = FatPointer_null,
     finalization_candidate_height = 0, bb_headers = []\<rparr>"

text \<open>What a decision appends to the file.\<close>

definition pos_record :: "BftBlock \<Rightarrow> FatPointerToBftBlock \<Rightarrow> RosterMember list \<Rightarrow> bytes list \<Rightarrow> bytes rust" where
  "pos_record block fat_pointer validators sigs = do {
     bytes \<leftarrow> BftBlock_zcash_serialize block;
     Some (bytes @ FatPointer_zcash_serialize fat_pointer @
       u64_le (word_of_nat (length validators)) @ concat (map RosterMember_write validators) @
       u64_le (word_of_nat (length sigs)) @ concat sigs) }"

definition store_bft_block :: "CryptoLib \<Rightarrow> BftBlock \<Rightarrow> BftBlock list \<Rightarrow> BftBlock list rust" where
  "store_bft_block cr new_block bbs = do {
     insert_i \<leftarrow> usize_sub (unat (bb_height new_block)) 1;
     let bbs = bbs @ map placeholder_block [length bbs..<Suc insert_i];
     (if insert_i > 0 then do {
        parent \<leftarrow> index bbs (insert_i - 1);
        parent_hash \<leftarrow> blake3_hash (lib_hash_value_id cr) parent;
        previous \<leftarrow> points_at_block_hash (previous_block_fat_ptr new_block);
        rassert (parent_hash = previous) }
      else Some ());
     previous \<leftarrow> previous_block_hash new_block;
     rassert (insert_i = 0 \<or> previous \<noteq> replicate 32 0);
     old \<leftarrow> index bbs insert_i;
     rassert (bb_headers old = []);
     rassert (bb_headers new_block \<noteq> []);
     Some (bbs[insert_i := new_block]) }"

definition handle_new_decided_bft_block ::
  "TreeLib \<Rightarrow> CryptoLib \<Rightarrow> BftBlock \<Rightarrow> FatPointerToBftBlock \<Rightarrow> bytes list \<Rightarrow> CrosslinkApp \<Rightarrow> (roster \<times> CrosslinkApp) rust" where
  "handle_new_decided_bft_block lib cr new_block fat_pointer tender_proposal_sigs a = do {
     target \<leftarrow> points_at_block_hash fat_pointer;
     hash \<leftarrow> blake3_hash (lib_hash_value_id cr) new_block;
     rassert (target = hash);
     valid_sigs \<leftarrow> validate_signatures (lib_batch_verify cr) fat_pointer;
     rassert valid_sigs;
     tm_status \<leftarrow> validate_bft_block cr a new_block;
     rassert (tm_status = (Pass, NoReason));
     header \<leftarrow> finalization_candidate new_block;
     let new_final_hash = from_header_data (lib_sha256 cr) header;
     new_final_height \<leftarrow> block_height_from_hash (app_writer a) new_final_hash;
     bbs \<leftarrow> store_bft_block cr new_block (bft_blocks (app_tfl a));
     let a = a\<lparr>app_tfl := (app_tfl a)\<lparr>bft_blocks := bbs, fat_pointer_to_tip := fat_pointer,
       latest_final_block := Some (new_final_height, new_final_hash)\<rparr>\<rparr>;
     (r, a) \<leftarrow> crosslink_finalize_block lib new_final_hash a;
     got_stakes \<leftarrow> (case r of
         Inr (hash, aggregated_stakes) \<Rightarrow> do { rassert (hash = new_final_hash); Some aggregated_stakes }
       | Inl _ \<Rightarrow> Some []);
     let t = app_tfl a;
     let validators = (if length got_stakes > 0
       then map (\<lambda>(k, p). \<lparr>rm_pub_key = k, voting_power = p, rm_txids = []\<rparr>) got_stakes
       else validators_at_current_height t);
     store \<leftarrow> (case pos_store t of
         None \<Rightarrow> Some None
       | Some file \<Rightarrow> do {
           bytes \<leftarrow> pos_record new_block fat_pointer validators tender_proposal_sigs;
           Some (Some (file @ bytes)) });
     roster \<leftarrow> tenderlink_roster_from_internal validators;
     Some (roster, a\<lparr>app_tfl := t\<lparr>validators_at_current_height := validators, pos_store := store\<rparr>\<rparr>) }"

definition force_feed_pos ::
  "TreeLib \<Rightarrow> CryptoLib \<Rightarrow> BftBlock \<Rightarrow> FatPointerToBftBlock \<Rightarrow> CrosslinkApp \<Rightarrow> (string, CrosslinkApp) result" where
  "force_feed_pos lib cr block fat_pointer a = do {
     target \<leftarrow> points_at_block_hash fat_pointer;
     hash \<leftarrow> blake3_hash (lib_hash_value_id cr) block;
     if target \<noteq> hash then err ''block is not the one signed for''
     else do {
       (tm_status, _) \<leftarrow> validate_bft_block cr a block;
       if tm_status = Pass then do {
         (_, a) \<leftarrow> handle_new_decided_bft_block lib cr block fat_pointer [] a;
         ok a }
       else err ''PoS validation'' } }"

subsection \<open>Decided blocks\<close>

definition fat_pointer_to_block_at_height :: "BftBlock list \<Rightarrow> FatPointerToBftBlock \<Rightarrow> u64 \<Rightarrow> FatPointerToBftBlock option rust" where
  "fat_pointer_to_block_at_height bbs tip at_height =
     (if at_height = 0 \<or> unat at_height - 1 \<ge> length bbs then Some None
      else if unat at_height = length bbs then Some (Some tip)
      else do { b \<leftarrow> index bbs (unat at_height); Some (Some (previous_block_fat_ptr b)) })"

definition get_historical_bft_block_at_height ::
  "TFLServiceInternal \<Rightarrow> u64 \<Rightarrow> (BftBlock \<times> FatPointerToBftBlock) option rust" where
  "get_historical_bft_block_at_height t at_height =
     (if at_height = 0 \<or> unat at_height - 1 \<ge> length (bft_blocks t) then Some None
      else do {
        block \<leftarrow> index (bft_blocks t) (unat at_height - 1);
        fp \<leftarrow> fat_pointer_to_block_at_height (bft_blocks t) (fat_pointer_to_tip t) at_height;
        fp \<leftarrow> fp;
        Some (Some (block, fp)) })"

subsection \<open>Requests\<close>

datatype TFLBlockFinality = NotYetFinalized | Finalized | CantBeFinalized

datatype TFLServiceError = NotImplemented | Misc string

datatype TFLServiceRequest =
    IsTFLActivated
  | FinalBlockHeightHash
  | FinalBlockRx
  | SetFinalBlockHash bytes
  | BlockFinalityStatus u32 bytes
  | TxFinalityStatus bytes
  | RosterRequest
  | FatPointerToBFTChainTip
  | StakingCmd string
  | Faucet string

text \<open>A receiver of final blocks carries no data.\<close>

datatype TFLServiceResponse =
    IsTFLActivatedResponse bool
  | FinalBlockHeightHashResponse "(u32 \<times> bytes) option"
  | FinalBlockRxResponse
  | SetFinalBlockHashResponse "u32 option"
  | BlockFinalityStatusResponse "TFLBlockFinality option"
  | TxFinalityStatusResponse "TFLBlockFinality option"
  | RosterResponse "RosterMember list"
  | FatPointerToBFTChainTipResponse FatPointerToBftBlock
  | StakingCmdResponse
  | FaucetResponse "string + u64"

definition tfl_block_finality_from_height_hash ::
  "CrosslinkApp \<Rightarrow> u32 \<Rightarrow> bytes \<Rightarrow> (TFLServiceError, TFLBlockFinality option) result" where
  "tfl_block_finality_from_height_hash a height hash = do {
     final \<leftarrow> tfl_final_block_height_hash a;
     (case final of
        None \<Rightarrow> err (Misc ''There is no final block.'')
      | Some (fin_height, final_hash) \<Rightarrow>
          if height > fin_height then ok (Some NotYetFinalized)
          else if height = fin_height then ok (Some (if hash = final_hash then Finalized else CantBeFinalized))
          else (case request_block_header (app_writer a) (Height height) of
              Inl e \<Rightarrow> err (Misc e)
            | Inr (_, cmp_hash, _, _) \<Rightarrow> ok (Some (if hash = cmp_hash then Finalized else CantBeFinalized)))) }"

definition tfl_set_finality_by_hash :: "bytes \<Rightarrow> CrosslinkApp \<Rightarrow> u32 option \<times> CrosslinkApp" where
  "tfl_set_finality_by_hash hash a =
     (if tfl_is_activated (app_tfl a)
      then (case block_height_from_hash (app_writer a) hash of
          Some height \<Rightarrow> (Some height, a\<lparr>app_tfl := (app_tfl a)\<lparr>latest_final_block := Some (height, hash)\<rparr>\<rparr>)
        | None \<Rightarrow> (None, a))
      else (None, a))"

definition tx_finality_status :: "CrosslinkApp \<Rightarrow> bytes \<Rightarrow> (TFLServiceError, TFLBlockFinality option) result" where
  "tx_finality_status a hash = do {
     tx \<leftarrow> request_transaction (app_writer a) hash;
     (case tx of
        None \<Rightarrow> ok None
      | Some (_, height, _, _) \<Rightarrow> do {
          final \<leftarrow> tfl_final_block_height_hash a;
          (case final of
             None \<Rightarrow> err (Misc ''There is no final block.'')
           | Some (fin_height, _) \<Rightarrow> ok (Some (if height \<le> fin_height then Finalized else NotYetFinalized))) }) }"

text \<open>\<open>faucet\<close> is the closure that the wallet has registered.\<close>

definition tfl_service_incoming_request ::
  "(string \<Rightarrow> string + u64) option \<Rightarrow> TFLServiceRequest \<Rightarrow> CrosslinkApp \<Rightarrow> (TFLServiceError, TFLServiceResponse \<times> CrosslinkApp) result" where
  "tfl_service_incoming_request faucet request a = (case request of
       IsTFLActivated \<Rightarrow> ok (IsTFLActivatedResponse (tfl_is_activated (app_tfl a)), a)
     | FinalBlockHeightHash \<Rightarrow> do { final \<leftarrow> tfl_final_block_height_hash a; ok (FinalBlockHeightHashResponse final, a) }
     | FinalBlockRx \<Rightarrow> ok (FinalBlockRxResponse, a)
     | SetFinalBlockHash hash \<Rightarrow>
         let (height, a) = tfl_set_finality_by_hash hash a in ok (SetFinalBlockHashResponse height, a)
     | BlockFinalityStatus height hash \<Rightarrow>
         tryr (tfl_block_finality_from_height_hash a height hash) (\<lambda>val. ok (BlockFinalityStatusResponse val, a))
     | TxFinalityStatus hash \<Rightarrow> tryr (tx_finality_status a hash) (\<lambda>val. ok (TxFinalityStatusResponse val, a))
     | RosterRequest \<Rightarrow> ok (RosterResponse (map (\<lambda>v. v\<lparr>rm_txids := []\<rparr>) (validators_at_current_height (app_tfl a))), a)
     | FatPointerToBFTChainTip \<Rightarrow> ok (FatPointerToBFTChainTipResponse (fat_pointer_to_tip (app_tfl a)), a)
     | Faucet request \<Rightarrow> ok (FaucetResponse (case faucet of Some closure \<Rightarrow> closure request | None \<Rightarrow> Inl ''No faucet available''), a)
     | StakingCmd _ \<Rightarrow> err NotImplemented)"

text \<open>The activation at the start of a turn of the main loop.\<close>

definition TFL_ACTIVATION_HEIGHT :: u32 where "TFL_ACTIVATION_HEIGHT = 0"

definition tfl_activate :: "CrosslinkApp \<Rightarrow> CrosslinkApp rust" where
  "tfl_activate a = do {
     new_bc_tip \<leftarrow> request_tip (app_writer a);
     Some (if tfl_is_activated (app_tfl a) then a
       else case new_bc_tip of
           Some (height, _) \<Rightarrow>
             if height < TFL_ACTIVATION_HEIGHT then a else a\<lparr>app_tfl := (app_tfl a)\<lparr>tfl_is_activated := True\<rparr>\<rparr>
         | None \<Rightarrow> a) }"

subsection \<open>The closures given to Tenderlink\<close>

definition crosslink_closures :: "TreeLib \<Rightarrow> CryptoLib \<Rightarrow> CrosslinkApp closures" where
  "crosslink_closures lib cr = \<lparr>
     propose_closure = (\<lambda>a. do {
       b \<leftarrow> propose_new_bft_block a;
       (case b of
          None \<Rightarrow> Some (None, a)
        | Some b \<Rightarrow> do { bytes \<leftarrow> BftBlock_zcash_serialize b; Some (Some bytes, a) }) }),
     validate_closure = (\<lambda>v a. (case BftBlock_zcash_deserialize v of
         Some (bft_block, _) \<Rightarrow> do { v \<leftarrow> validate_bft_block cr a bft_block; Some (v, a) }
       | None \<Rightarrow> Some ((Fail, NoReason), a))),
     push_block_closure = (\<lambda>v fat_pointer sigs a. do {
       (bft_block, _) \<leftarrow> BftBlock_zcash_deserialize v;
       handle_new_decided_bft_block lib cr bft_block fat_pointer sigs a })\<rparr>"

section \<open>The chain of decided blocks\<close>

text \<open>The hash that the next BFT block has to point at.\<close>

definition parent_hash_of :: "CryptoLib \<Rightarrow> BftBlock list \<Rightarrow> bytes rust" where
  "parent_hash_of cr bbs = (if bbs = [] then Some (replicate 32 0) else blake3_hash (lib_hash_value_id cr) (List.last bbs))"

definition bft_chain :: "CryptoLib \<Rightarrow> BftBlock list \<Rightarrow> bool" where
  "bft_chain cr bbs \<longleftrightarrow> (\<forall>i < length bbs. BftBlock_ok (bbs ! i) \<and> bb_headers (bbs ! i) \<noteq> [] \<and> unat (bb_height (bbs ! i)) = Suc i \<and>
     points_at_block_hash (previous_block_fat_ptr (bbs ! i)) = parent_hash_of cr (take i bbs))"

definition tfl_inv :: "CryptoLib \<Rightarrow> TFLServiceInternal \<Rightarrow> bool" where
  "tfl_inv cr t \<longleftrightarrow> bft_chain cr (bft_blocks t) \<and> points_at_block_hash (fat_pointer_to_tip t) = parent_hash_of cr (bft_blocks t)"

text \<open>No block with headers has the hash of a block that only fills a gap.\<close>

definition placeholder_free :: "CryptoLib \<Rightarrow> bool" where
  "placeholder_free cr \<longleftrightarrow> (\<forall>i. blake3_hash (lib_hash_value_id cr) (placeholder_block i) \<noteq> Some (replicate 32 0) \<and>
     (\<forall>b. BftBlock_ok b \<longrightarrow> bb_headers b \<noteq> [] \<longrightarrow> blake3_hash (lib_hash_value_id cr) b \<noteq> blake3_hash (lib_hash_value_id cr) (placeholder_block i)))"

lemma bft_chain_Nil [simp]: "bft_chain cr []"
  by (simp add: bft_chain_def)

lemma bft_chain_snoc:
  "bft_chain cr (bbs @ [b]) \<longleftrightarrow> bft_chain cr bbs \<and> BftBlock_ok b \<and> bb_headers b \<noteq> [] \<and> unat (bb_height b) = Suc (length bbs) \<and>
     points_at_block_hash (previous_block_fat_ptr b) = parent_hash_of cr bbs"
  by (auto simp: bft_chain_def less_Suc_eq nth_append)

lemma parent_hash_of_snoc [simp]: "parent_hash_of cr (bbs @ [b]) = blake3_hash (lib_hash_value_id cr) b"
  by (simp add: parent_hash_of_def)

lemma bft_chain_last_headers: "bft_chain cr bbs \<Longrightarrow> bbs \<noteq> [] \<Longrightarrow> BftBlock_ok (List.last bbs) \<and> bb_headers (List.last bbs) \<noteq> []"
  by (simp add: bft_chain_def last_conv_nth)

lemma placeholder_not_parent:
  "placeholder_free cr \<Longrightarrow> bft_chain cr bbs \<Longrightarrow> blake3_hash (lib_hash_value_id cr) (placeholder_block i) \<noteq> parent_hash_of cr bbs"
  using bft_chain_last_headers [of cr bbs] unfolding placeholder_free_def parent_hash_of_def by metis

text \<open>A decided block is stored at its height, or the node panics: only the next height is accepted.\<close>

lemma store_bft_block_next:
  assumes "store_bft_block cr b bbs = Some bbs'" and "bft_chain cr bbs" and "placeholder_free cr"
    and "points_at_block_hash (previous_block_fat_ptr b) = parent_hash_of cr bbs" and "BftBlock_ok b"
  shows "bbs' = bbs @ [b] \<and> bft_chain cr bbs'"
proof -
  obtain n where n0: "usize_sub (unat (bb_height b)) 1 = Some n"
    using assms(1) by (cases "usize_sub (unat (bb_height b)) 1") (simp_all add: store_bft_block_def)
  then have n: "unat (bb_height b) = Suc n" by (auto simp: usize_sub_def split: if_splits)
  define xs where "xs = bbs @ map placeholder_block [length bbs..<Suc n]"
  have s: "(if n > 0 then do {
        parent \<leftarrow> index xs (n - 1);
        parent_hash \<leftarrow> blake3_hash (lib_hash_value_id cr) parent;
        previous \<leftarrow> points_at_block_hash (previous_block_fat_ptr b);
        rassert (parent_hash = previous) }
      else Some ()) = Some ()" "index xs n = Some (xs ! n)" "n < length xs" "bb_headers (xs ! n) = []" "bb_headers b \<noteq> []" "bbs' = xs[n := b]"
    using assms(1) unfolding store_bft_block_def n0 Let_def Option.bind.bind_lunit xs_def [symmetric]
    by (auto simp: bind_eq_Some_conv index_Some)
  have parent: "blake3_hash (lib_hash_value_id cr) (xs ! (n - 1)) = points_at_block_hash (previous_block_fat_ptr b)" if "0 < n"
    using s(1) that by (auto simp: bind_eq_Some_conv index_Some)
  note old = s(4) and b = s(5) and bbs' = s(6)
  have ge: "length bbs \<le> n"
  proof (rule ccontr)
    assume "\<not> length bbs \<le> n"
    then have "xs ! n = bbs ! n" "n < length bbs" by (simp_all add: xs_def nth_append)
    with assms(2) old show False by (simp add: bft_chain_def)
  qed
  have "n \<le> length bbs"
  proof (rule ccontr)
    assume gt: "\<not> n \<le> length bbs"
    then have "xs ! (n - 1) = placeholder_block (n - 1)" by (auto simp: xs_def nth_append)
    with parent gt assms(4) placeholder_not_parent [OF assms(3,2), of "n - 1"] show False by simp
  qed
  with ge have "n = length bbs" by simp
  with bbs' have "bbs' = bbs @ [b]" by (simp add: xs_def)
  with assms(2,4,5) b n \<open>n = length bbs\<close> show ?thesis by (simp add: bft_chain_snoc)
qed

lemma validate_bft_block_Pass:
  "validate_bft_block cr a b = Some (Pass, NoReason) \<longleftrightarrow>
     (\<exists>p header height. points_at_block_hash (previous_block_fat_ptr b) = Some p \<and>
        points_at_block_hash (fat_pointer_to_tip (app_tfl a)) = Some p \<and> finalization_candidate b = Some header \<and>
        block_height_from_hash (app_writer a) (from_header_data (lib_sha256 cr) header) = Some height)"
  by (auto simp: validate_bft_block_def bind_eq_Some_conv Let_def split: option.splits)

lemma crosslink_finalize_block_tfl:
  "crosslink_finalize_block lib h (a\<lparr>app_tfl := t\<rparr>) = map_option (\<lambda>(r, a). (r, a\<lparr>app_tfl := t\<rparr>)) (crosslink_finalize_block lib h a)"
  by (cases a) (simp add: crosslink_finalize_block_def map_option_bind case_prod_unfold comp_def)

lemma crosslink_finalize_block_tfl_keeps: "crosslink_finalize_block lib h a = Some (r, a1) \<Longrightarrow> app_tfl a1 = app_tfl a"
  by (auto simp: crosslink_finalize_block_def bind_eq_Some_conv split: if_splits)

definition new_validators :: "string + bytes \<times> (bytes \<times> u64) list \<Rightarrow> RosterMember list \<Rightarrow> RosterMember list" where
  "new_validators r vs = (case r of
       Inr (_, s # ss) \<Rightarrow> map (\<lambda>(k, p). \<lparr>rm_pub_key = k, voting_power = p, rm_txids = []\<rparr>) (s # ss)
     | _ \<Rightarrow> vs)"

lemma handle_decided_cases:
  assumes "handle_new_decided_bft_block lib cr b fp sigs a = Some (roster, a')"
  obtains hash header height bbs r a1 vs store where
    "points_at_block_hash fp = Some hash" "blake3_hash (lib_hash_value_id cr) b = Some hash"
    "validate_signatures (lib_batch_verify cr) fp = Some True"
    "validate_bft_block cr a b = Some (Pass, NoReason)"
    "finalization_candidate b = Some header"
    "block_height_from_hash (app_writer a) (from_header_data (lib_sha256 cr) header) = Some height"
    "store_bft_block cr b (bft_blocks (app_tfl a)) = Some bbs"
    "crosslink_finalize_block lib (from_header_data (lib_sha256 cr) header) a = Some (r, a1)"
    "(\<exists>e. r = Inl e) \<or> (\<exists>ss. r = Inr (from_header_data (lib_sha256 cr) header, ss))"
    "vs = new_validators r (validators_at_current_height (app_tfl a))"
    "case pos_store (app_tfl a) of None \<Rightarrow> store = None
     | Some file \<Rightarrow> (\<exists>bytes. pos_record b fp vs sigs = Some bytes \<and> store = Some (file @ bytes))"
    "tenderlink_roster_from_internal vs = Some roster"
    "a' = a1\<lparr>app_tfl := (app_tfl a)\<lparr>bft_blocks := bbs, fat_pointer_to_tip := fp,
       latest_final_block := Some (height, from_header_data (lib_sha256 cr) header),
       validators_at_current_height := vs, pos_store := store\<rparr>\<rparr>"
proof -
  let ?h = "lib_hash_value_id cr" and ?t = "app_tfl a"
  obtain hash where hash: "points_at_block_hash fp = Some hash" "blake3_hash ?h b = Some hash"
    using assms unfolding handle_new_decided_bft_block_def by (auto simp: bind_eq_Some_conv)
  have sig: "validate_signatures (lib_batch_verify cr) fp = Some True"
    using assms unfolding handle_new_decided_bft_block_def hash by (auto simp: bind_eq_Some_conv)
  have v: "validate_bft_block cr a b = Some (Pass, NoReason)"
    using assms unfolding handle_new_decided_bft_block_def hash sig by (auto simp: bind_eq_Some_conv)
  then obtain header height where h: "finalization_candidate b = Some header"
      "block_height_from_hash (app_writer a) (from_header_data (lib_sha256 cr) header) = Some height"
    unfolding validate_bft_block_Pass by blast
  let ?f = "from_header_data (lib_sha256 cr) header"
  note start = assms [unfolded handle_new_decided_bft_block_def hash sig v h Let_def Option.bind.bind_lunit]
  obtain bbs where bbs: "store_bft_block cr b (bft_blocks ?t) = Some bbs"
    using start by (cases "store_bft_block cr b (bft_blocks ?t)") (simp_all add: h)
  let ?t1 = "?t\<lparr>bft_blocks := bbs, fat_pointer_to_tip := fp, latest_final_block := Some (height, ?f)\<rparr>"
  obtain r a1 where r: "crosslink_finalize_block lib ?f a = Some (r, a1)"
    using start by (cases "crosslink_finalize_block lib ?f a") (auto simp: h bbs crosslink_finalize_block_tfl)
  have got: "(\<exists>e. r = Inl e) \<or> (\<exists>ss. r = Inr (?f, ss))"
    using start by (auto simp: h bbs crosslink_finalize_block_tfl r bind_eq_Some_conv split: sum.splits prod.splits)
  define ss where "ss = (case r of Inr (_, ss) \<Rightarrow> ss | Inl _ \<Rightarrow> [])"
  have ss: "(case r of Inr (hash, ss) \<Rightarrow> do { rassert (hash = ?f); Some ss } | Inl _ \<Rightarrow> Some []) = Some ss"
    using got by (auto simp: ss_def)
  define vs where "vs = new_validators r (validators_at_current_height ?t)"
  have vs: "(if 0 < length ss then map (\<lambda>(k, p). \<lparr>rm_pub_key = k, voting_power = p, rm_txids = []\<rparr>) ss
      else validators_at_current_height ?t) = vs"
    using got by (auto simp: vs_def ss_def new_validators_def split: list.splits)
  have fin: "do {
     store \<leftarrow> (case pos_store ?t of None \<Rightarrow> Some None
       | Some file \<Rightarrow> do { bytes \<leftarrow> pos_record b fp vs sigs; Some (Some (file @ bytes)) });
     roster \<leftarrow> tenderlink_roster_from_internal vs;
     Some (roster, a1\<lparr>app_tfl := ?t1\<lparr>validators_at_current_height := vs, pos_store := store\<rparr>\<rparr>) } = Some (roster, a')"
    using start by (simp add: h bbs crosslink_finalize_block_tfl r ss vs [simplified] cong: option.case_cong if_cong)
  then obtain store where store: "(case pos_store ?t of None \<Rightarrow> Some None
       | Some file \<Rightarrow> do { bytes \<leftarrow> pos_record b fp vs sigs; Some (Some (file @ bytes)) }) = Some store"
      "tenderlink_roster_from_internal vs = Some roster"
      "a' = a1\<lparr>app_tfl := ?t1\<lparr>validators_at_current_height := vs, pos_store := store\<rparr>\<rparr>"
    by (auto simp: bind_eq_Some_conv)
  have "case pos_store ?t of None \<Rightarrow> store = None
     | Some file \<Rightarrow> (\<exists>bytes. pos_record b fp vs sigs = Some bytes \<and> store = Some (file @ bytes))"
    using store(1) by (auto simp: bind_eq_Some_conv split: option.splits)
  from that [OF hash sig v h bbs r got vs_def this store(2)] store(3) show thesis by simp
qed

section \<open>Finality of the decided blocks\<close>

lemma extends_db_hash: "extends db db' \<Longrightarrow> db_hash db h = Some x \<Longrightarrow> db_hash db' h = Some x"
  by (auto simp: extends_def db_hash_def map_add_Some_iff)

lemma finalized_db_hash:
  assumes "writer_inv hgt prv w" "(h, x) \<in> set (hash_by_height (w_db w))"
  shows "db_hash (w_db w) (hgt x) = Some x"
proof -
  have "h = hgt x" "blocks_ok (w_db w)" using assms by (auto simp: writer_inv_def db_inv_def)
  with assms(2) blocks_ok_distinct show ?thesis by (auto simp: db_hash_def intro: map_of_is_SomeI)
qed

lemma tip_db_hash:
  assumes "writer_inv hgt prv w" "finalized_tip_hash (w_db w) = x"
  shows "db_hash (w_db w) (hgt x) = Some x"
proof -
  obtain ys t where "hash_by_height (w_db w) = ys @ [(t, x)]"
    using assms by (cases "hash_by_height (w_db w)" rule: rev_cases) (auto simp: writer_inv_def finalized_tip_hash_def db_tip_def)
  then show ?thesis using finalized_db_hash [OF assms(1), of t x] by simp
qed

lemma write_messages_extends:
  assumes "write_messages lib msgs w = Some (rs, w')" "writer_inv hgt prv w" "\<forall>msg \<in> set msgs. message_ids hgt prv msg"
  shows "writer_inv hgt prv w' \<and> extends (w_db w) (w_db w')"
  using write_messages_inv [OF assms] writer_steps_extend [of lib w w'] assms(2) by (simp add: writer_inv_def db_inv_def)

lemma write_crosslink_final:
  assumes "write_crosslink_finalized lib x w = Some (r, w')" "writer_inv hgt prv w"
  shows "writer_inv hgt prv w' \<and> extends (w_db w) (w_db w') \<and> (\<forall>y ss. r = Inr (y, ss) \<longrightarrow> y = x \<and> db_hash (w_db w') (hgt x) = Some x)"
proof -
  have inv: "writer_inv hgt prv w'" using write_crosslink_inv [OF assms] by blast
  have "writer_step lib w w'" using assms(1) by (intro writer_step.message [of _ "CrosslinkFinalized x"]) (simp add: write_message_def)
  then have ext: "extends (w_db w) (w_db w')" using writer_step_extends assms(2) by (simp add: writer_inv_def db_inv_def)
  have "y = x \<and> db_hash (w_db w') (hgt x) = Some x" if "r = Inr (y, ss)" for y ss
    using assms(1)
  proof (cases rule: write_crosslink_cases)
    case 1
    then have c: "contains_hash (w_db w) x" and y: "y = x" using that by (auto split: if_splits)
    obtain h where "Mapping.lookup (db_height_by_hash (w_db w)) x = Some h" using c by (auto simp: contains_hash_def)
    then have "(h, x) \<in> set (hash_by_height (w_db w))" using assms(2) by (simp add: writer_inv_def db_inv_def blocks_ok_def)
    with finalized_db_hash [OF assms(2)] 1(2) y show ?thesis by simp
  next
    case (2 bs nfs w1 stakes)
    have "writer_inv hgt prv w1 \<and> contains_all hgt x (length bs) w1"
      by (rule crosslink_finalize_start [OF 2(1) _ _ _ 2(2,3)]) (use assms(2) in \<open>simp_all add: writer_inv_def\<close>)
    with crosslink_finalize_loop_tip [OF 2(4)] have "finalized_tip_hash (w_db w') = x" by blast
    with tip_db_hash [OF inv] 2(6) that show ?thesis by simp
  qed
  with inv ext show ?thesis by blast
qed

lemma write_crosslink_reply:
  assumes "write_crosslink_finalized lib x w = Some (r, w')" "writer_inv hgt prv w"
    "any_chain_contains (w_nfs w) x \<or> contains_hash (w_db w) x"
  shows "\<exists>ss. r = Inr (x, ss)"
proof (cases "any_chain_contains (w_nfs w) x")
  case True
  with write_crosslink_found [OF assms(1,2)] show ?thesis by blast
next
  case False
  with assms(3) have "contains_hash (w_db w) x" by simp
  with assms(1) show ?thesis by (cases rule: write_crosslink_cases) auto
qed

definition app_inv :: "(bytes \<Rightarrow> u32) \<Rightarrow> (bytes \<Rightarrow> bytes) \<Rightarrow> CryptoLib \<Rightarrow> CrosslinkApp \<Rightarrow> bool" where
  "app_inv hgt prv cr a \<longleftrightarrow> tfl_inv cr (app_tfl a) \<and> writer_inv hgt prv (app_writer a) \<and>
     (\<forall>msg \<in> set (app_pending a). message_ids hgt prv msg)"

lemma crosslink_finalize_block_inv:
  assumes "crosslink_finalize_block lib x a = Some (r, a1)" "writer_inv hgt prv (app_writer a)"
    "\<forall>msg \<in> set (app_pending a). message_ids hgt prv msg"
  shows "writer_inv hgt prv (app_writer a1) \<and> extends (w_db (app_writer a)) (w_db (app_writer a1)) \<and>
    (\<forall>msg \<in> set (app_pending a1). message_ids hgt prv msg) \<and>
    (\<forall>y ss. r = Inr (y, ss) \<longrightarrow> db_hash (w_db (app_writer a1)) (hgt x) = Some x)"
proof (cases "app_checkpoints_done a")
  case False
  with assms show ?thesis by (auto simp: crosslink_finalize_block_def)
next
  case True
  then obtain rs w1 w2 where w: "write_messages lib (app_pending a) (app_writer a) = Some (rs, w1)"
      "write_crosslink_finalized lib x w1 = Some (r, w2)" "a1 = a\<lparr>app_writer := w2, app_pending := []\<rparr>"
    using assms(1) by (auto simp: crosslink_finalize_block_def bind_eq_Some_conv)
  have w1: "writer_inv hgt prv w1" "extends (w_db (app_writer a)) (w_db w1)"
    using write_messages_extends [OF w(1) assms(2,3)] by simp_all
  from write_crosslink_final [OF w(2) w1(1)] w1(2) w(3) show ?thesis by (auto intro: extends_trans)
qed

lemma handle_decided_inv:
  assumes "handle_new_decided_bft_block lib cr b fp sigs a = Some (roster, a')" "app_inv hgt prv cr a" "placeholder_free cr" "BftBlock_ok b"
  shows "app_inv hgt prv cr a' \<and> bft_blocks (app_tfl a') = bft_blocks (app_tfl a) @ [b] \<and>
    extends (w_db (app_writer a)) (w_db (app_writer a'))"
  using assms(1)
proof (cases rule: handle_decided_cases)
  case (1 hash header height bbs r a1 vs store)
  have t: "bft_chain cr (bft_blocks (app_tfl a))" "points_at_block_hash (fat_pointer_to_tip (app_tfl a)) = parent_hash_of cr (bft_blocks (app_tfl a))"
    and w: "writer_inv hgt prv (app_writer a)" "\<forall>msg \<in> set (app_pending a). message_ids hgt prv msg"
    using assms(2) by (simp_all add: app_inv_def tfl_inv_def)
  have "points_at_block_hash (previous_block_fat_ptr b) = parent_hash_of cr (bft_blocks (app_tfl a))"
    using 1(4) t(2) by (auto simp: validate_bft_block_Pass)
  from store_bft_block_next [OF 1(7) t(1) assms(3) this assms(4)]
  have bbs: "bbs = bft_blocks (app_tfl a) @ [b]" "bft_chain cr bbs" by blast+
  with 1(1,2,13) crosslink_finalize_block_inv [OF 1(8) w] show ?thesis
    by (simp add: app_inv_def tfl_inv_def)
qed

text \<open>The types of what Tenderlink hands over: keys of 32 and signatures of 64 bytes.\<close>

definition decision_ok :: "BftBlock \<Rightarrow> FatPointerToBftBlock \<Rightarrow> bytes list \<Rightarrow> bool" where
  "decision_ok b fp sigs \<longleftrightarrow> BftBlock_ok b \<and> FatPointer_ok fp \<and> list_all (\<lambda>s. length s = 64) sigs \<and> length sigs < 2 ^ 64"

text \<open>
  Steps of the service: Tenderlink decides a block, a client makes a request, the main loop turns, the state
  queues a message for the block writer, and the block writer handles the first message.
\<close>

inductive service_step ::
  "TreeLib \<Rightarrow> CryptoLib \<Rightarrow> (bytes \<Rightarrow> u32) \<Rightarrow> (bytes \<Rightarrow> bytes) \<Rightarrow> CrosslinkApp \<Rightarrow> CrosslinkApp \<Rightarrow> bool" for lib cr hgt prv where
  decided: "decision_ok b fp sigs \<Longrightarrow> handle_new_decided_bft_block lib cr b fp sigs a = Some (roster, a') \<Longrightarrow> service_step lib cr hgt prv a a'"
| request: "tfl_service_incoming_request faucet req a = ok (resp, a') \<Longrightarrow> service_step lib cr hgt prv a a'"
| activate: "tfl_activate a = Some a' \<Longrightarrow> service_step lib cr hgt prv a a'"
| queue_message: "message_ids hgt prv msg \<Longrightarrow> service_step lib cr hgt prv a (a\<lparr>app_pending := app_pending a @ [msg]\<rparr>)"
| write_first: "app_pending a = msg # msgs \<Longrightarrow> write_message lib msg (app_writer a) = Some (r, w) \<Longrightarrow>
    service_step lib cr hgt prv a (a\<lparr>app_writer := w, app_pending := msgs\<rparr>)"

lemma request_keeps:
  assumes "tfl_service_incoming_request faucet req a = ok (resp, a')"
  shows "app_writer a' = app_writer a \<and> app_pending a' = app_pending a \<and> bft_blocks (app_tfl a') = bft_blocks (app_tfl a) \<and>
    fat_pointer_to_tip (app_tfl a') = fat_pointer_to_tip (app_tfl a) \<and>
    validators_at_current_height (app_tfl a') = validators_at_current_height (app_tfl a) \<and> pos_store (app_tfl a') = pos_store (app_tfl a)"
proof (cases "\<exists>hash. req = SetFinalBlockHash hash")
  case True
  with assms show ?thesis
    by (auto simp: tfl_service_incoming_request_def tfl_set_finality_by_hash_def ok_def split: if_splits option.splits)
next
  case False
  with assms have "a' = a"
    by (cases req) (auto simp: tfl_service_incoming_request_def bind_eq_Some_conv tryr_def err_def ok_def split: option.splits sum.splits)
  then show ?thesis by simp
qed

lemma activate_keeps:
  assumes "tfl_activate a = Some a'"
  shows "app_writer a' = app_writer a \<and> app_pending a' = app_pending a \<and> bft_blocks (app_tfl a') = bft_blocks (app_tfl a) \<and>
    fat_pointer_to_tip (app_tfl a') = fat_pointer_to_tip (app_tfl a) \<and>
    validators_at_current_height (app_tfl a') = validators_at_current_height (app_tfl a) \<and> pos_store (app_tfl a') = pos_store (app_tfl a)"
  using assms by (auto simp: tfl_activate_def bind_eq_Some_conv split: if_splits option.splits)

lemma service_step_inv:
  assumes "service_step lib cr hgt prv a a'" "app_inv hgt prv cr a" "placeholder_free cr"
  shows "app_inv hgt prv cr a' \<and> prefix (bft_blocks (app_tfl a)) (bft_blocks (app_tfl a')) \<and>
    extends (w_db (app_writer a)) (w_db (app_writer a'))"
  using assms(1)
proof (cases rule: service_step.cases)
  case (decided b fp sigs roster)
  from handle_decided_inv [OF decided(2) assms(2,3)] decided(1) show ?thesis by (simp add: decision_ok_def)
next
  case (request req resp)
  with request_keeps [OF request] assms(2) show ?thesis by (simp add: app_inv_def tfl_inv_def)
next
  case activate
  with activate_keeps [OF activate] assms(2) show ?thesis by (simp add: app_inv_def tfl_inv_def)
next
  case (queue_message msg)
  with assms(2) show ?thesis by (auto simp: app_inv_def)
next
  case (write_first msg msgs r w)
  have inv: "writer_inv hgt prv (app_writer a)" "message_ids hgt prv msg" using assms(2) write_first by (simp_all add: app_inv_def)
  have "blocks_ok (w_db (app_writer a))" using inv(1) by (simp add: writer_inv_def db_inv_def)
  with write_message_inv [OF write_first(3) inv] writer_step_extends [OF writer_step.message [OF write_first(3)]] write_first(1,2) assms(2)
  show ?thesis by (simp add: app_inv_def)
qed

lemma service_steps_inv:
  "(service_step lib cr hgt prv)\<^sup>*\<^sup>* a a' \<Longrightarrow> app_inv hgt prv cr a \<Longrightarrow> placeholder_free cr \<Longrightarrow>
     app_inv hgt prv cr a' \<and> prefix (bft_blocks (app_tfl a)) (bft_blocks (app_tfl a')) \<and>
     extends (w_db (app_writer a)) (w_db (app_writer a'))"
proof (induction rule: rtranclp_induct)
  case (step b c)
  from service_step_inv [OF step.hyps(2)] step.IH step.prems show ?case by (blast intro: extends_trans prefix_order.trans)
qed simp

end
