(* ===== verification/Pos_Store.thy ===== *)
theory Pos_Store
  imports Crosslink_Service
begin

text \<open>
  The file of decided blocks, \<^verbatim>\<open>zebra-crosslink/src/lib.rs\<close>: every decision appends a record, and a node that starts
  reads the records back in \<^verbatim>\<open>tfl_service_main_loop\<close>, cuts off what it could not read and restores its chain of
  BFT blocks, its tip, its roster and the rounds that it serves to peers. The last part shows that a node that stops
  at any moment, also in the middle of an append, comes back with everything that it had decided.
\<close>

section \<open>Records\<close>

text \<open>
  A record of the file is read. A reader that fails leaves the \<^verbatim>\<open>Cursor\<close> at the end of the file, so the loop over the roster
  members, which breaks only itself, is followed by a read that fails.
\<close>

type_synonym pos_entry = "BftBlock \<times> FatPointerToBftBlock \<times> RosterMember list \<times> bytes list"

definition pos_entry_read :: "pos_entry reader" where
  "pos_entry_read buf = do {
     (block, buf) \<leftarrow> BftBlock_zcash_deserialize buf;
     (fat_pointer, buf) \<leftarrow> FatPointer_zcash_deserialize buf;
     (new_roster_count, buf) \<leftarrow> read_u64 buf;
     (new_roster, buf) \<leftarrow> read_n (unat new_roster_count) RosterMember_read buf;
     (sigs_n, buf) \<leftarrow> read_u64 buf;
     (sigs, buf) \<leftarrow> read_n (unat sigs_n) (read_exact 64) buf;
     Some ((block, fat_pointer, new_roster, sigs), buf) }"

text \<open>A reader of an exact codec is not disturbed by what follows, and needs all of an encoding.\<close>

context exact_codec
begin

lemma dec_append: "dec buf = Some (a, rest) \<Longrightarrow> dec (buf @ bs) = Some (a, rest @ bs)"
  using enc_dec [of buf a rest] dec_enc [of a "rest @ bs"] by simp

lemma dec_torn:
  assumes "ok a" "strict_prefix p (enc a)"
  shows "dec p = None"
proof (rule ccontr)
  assume "dec p \<noteq> None"
  then obtain b rest where "dec p = Some (b, rest)" by auto
  moreover obtain q where q: "enc a = p @ q" "q \<noteq> []" using assms(2) by (auto elim: strict_prefixE')
  ultimately have "dec (enc a) = Some (b, rest @ q)" using dec_append by simp
  then show False using dec_enc_all [OF assms(1)] q(2) by simp
qed

end

definition members_ok :: "RosterMember list \<Rightarrow> bool" where
  "members_ok vs \<longleftrightarrow> list_all RosterMember_ok vs \<and> length vs < 2 ^ 64"

definition pos_entry_ok :: "pos_entry \<Rightarrow> bool" where
  "pos_entry_ok e = (case e of (b, fp, vs, sigs) \<Rightarrow> decision_ok b fp sigs \<and> members_ok vs)"

definition pos_entry_write :: "pos_entry \<Rightarrow> bytes" where
  "pos_entry_write e = (case e of (b, fp, vs, sigs) \<Rightarrow> the (pos_record b fp vs sigs))"

lemma pos_entry_write_eq:
  "decision_ok b fp sigs \<Longrightarrow> pos_entry_write (b, fp, vs, sigs) = the (BftBlock_zcash_serialize b) @ FatPointer_zcash_serialize fp @
     u64_le (word_of_nat (length vs)) @ write_all RosterMember_write vs @ u64_le (word_of_nat (length sigs)) @ write_all (\<lambda>s. s) sigs"
  using BftBlock_serialize_ok [of b]
  by (auto simp: pos_entry_write_def pos_record_def decision_ok_def write_all_def)

lemma read_le_bytes_u64: "v < 2 ^ 64 \<Longrightarrow> read_u64 (le_bytes 8 v @ rest) = Some (word_of_nat v, rest)"
  using u64c.dec_enc [of "word_of_nat v" rest] by (simp add: unat_of_nat)

interpretation posc: exact_codec pos_entry_write pos_entry_read pos_entry_ok
proof unfold_locales
  fix e rest assume e: "pos_entry_ok e"
  obtain b fp vs sigs where [simp]: "e = (b, fp, vs, sigs)" by (cases e)
  have d: "decision_ok b fp sigs" "list_all RosterMember_ok vs" "length vs < 2 ^ 64" using e by (simp_all add: pos_entry_ok_def members_ok_def)
  then have "BftBlock_ok b" "FatPointer_ok fp" "list_all (\<lambda>s. length s = 64) sigs" "length sigs < 2 ^ 64" by (simp_all add: decision_ok_def)
  with d(2,3) show "pos_entry_read (pos_entry_write e @ rest) = Some (e, rest)"
    by (simp add: pos_entry_write_eq [OF d(1)] pos_entry_read_def bbc.dec_enc fpc.dec_enc u64c.dec_enc unat_of_nat read_le_bytes_u64 rmc.read_n_write_all
        arrc.read_n_write_all)
next
  fix buf e rest assume "pos_entry_read buf = Some (e, rest)"
  then obtain b fp n vs m sigs b1 b2 where e: "e = (b, fp, vs, sigs)"
    and r: "buf = the (BftBlock_zcash_serialize b) @ FatPointer_zcash_serialize fp @ u64_le n @ b1" "BftBlock_ok b" "FatPointer_ok fp"
      "read_n (unat n) RosterMember_read b1 = Some (vs, u64_le m @ b2)" "read_n (unat m) (read_exact 64) b2 = Some (sigs, rest)"
    by (auto simp: pos_entry_read_def bind_eq_Some_conv bbc.dec_iff fpc.dec_iff u64c.dec_iff)
  have n: "unat n < 2 ^ 64" "unat m < 2 ^ 64" using unsigned_less [of n, where ?'a = nat] unsigned_less [of m, where ?'a = nat] by simp_all
  from rmc.read_n_exact [OF r(4)] arrc.read_n_exact [OF r(5)] n r(2,3)
  have d: "decision_ok b fp sigs" "members_ok vs" by (auto simp: decision_ok_def members_ok_def)
  from rmc.read_n_exact [OF r(4)] arrc.read_n_exact [OF r(5)] r(1) d
  show "buf = pos_entry_write e @ rest \<and> pos_entry_ok e"
    by (auto simp: e pos_entry_write_eq pos_entry_ok_def)
qed


lemma pos_entry_read_shorter:
  assumes "pos_entry_read buf = Some (e, rest)"
  shows "length rest < length buf"
proof -
  obtain b fp vs sigs where e: "e = (b, fp, vs, sigs)" by (cases e)
  have "buf = pos_entry_write e @ rest" "decision_ok b fp sigs" using posc.enc_dec [OF assms] by (simp_all add: e pos_entry_ok_def)
  then show ?thesis by (simp add: e pos_entry_write_eq)
qed

section \<open>Loading\<close>

text \<open>The round that is kept for peers that ask for the decided block.\<close>

definition ingest_round :: "nat \<Rightarrow> RosterMember list \<Rightarrow> BftBlock \<Rightarrow> FatPointerToBftBlock \<Rightarrow> bytes list \<Rightarrow> RoundData rust" where
  "ingest_round n unsorted_roster block fat_pointer sigs = do {
     roster \<leftarrow> tenderlink_roster_from_internal unsorted_roster;
     hash \<leftarrow> points_at_block_hash fat_pointer;
     bytes \<leftarrow> BftBlock_zcash_serialize block;
     vote \<leftarrow> get_vote_template fat_pointer;
     let sig_of = (\<lambda>v. case find (\<lambda>s. fps_pub_key s = pub_key v) (fp_signatures fat_pointer) of
         Some s \<Rightarrow> vote_signature s | None \<Rightarrow> replicate 64 0);
     Some (RoundData_EMPTY\<lparr>rd_roster := roster,
       msg_val_sigs := map (\<lambda>v. ((ValueId_NIL, TMSig_NIL), (hash, sig_of v))) roster,
       rd_counts := counts_ZERO\<lparr>precommits := word_of_nat (length (fp_signatures fat_pointer)),
         yes_precommits := word_of_nat (length (fp_signatures fat_pointer))\<rparr>,
       proposal_sigs_n := length sigs, proposal_sigs := sigs, proposal := bytes, proposal_id := hash,
       rd_height := word_of_nat n, rd_round := vote_round vote\<rparr>) }"

record PosStore =
  ps_rounds :: "RoundData list"
  ps_blocks :: "BftBlock list"
  ps_tip :: FatPointerToBftBlock
  ps_roster :: "RosterMember list"

text \<open>The loop ends at the first record that cannot be read or does not point at the tip. The second result is
  what is left of the file.\<close>

function load_pos_entries :: "PosStore \<Rightarrow> bytes \<Rightarrow> (PosStore \<times> bytes) rust" where
  "load_pos_entries s buf = (case pos_entry_read buf of
       None \<Rightarrow> Some (s, buf)
     | Some ((block, fat_pointer, new_roster, sigs), rest) \<Rightarrow> do {
         previous \<leftarrow> points_at_block_hash (previous_block_fat_ptr block);
         tip \<leftarrow> points_at_block_hash (ps_tip s);
         if previous \<noteq> tip then Some (s, buf)
         else do {
           round_data \<leftarrow> ingest_round (length (ps_rounds s)) (ps_roster s) block fat_pointer sigs;
           load_pos_entries \<lparr>ps_rounds = ps_rounds s @ [round_data], ps_blocks = ps_blocks s @ [block],
             ps_tip = fat_pointer, ps_roster = new_roster\<rparr> rest } })"
  by pat_completeness auto
termination
  by (relation "measure (\<lambda>(s, buf). length buf)") (auto dest: pos_entry_read_shorter)

declare load_pos_entries.simps [simp del]

definition PosStore_new :: "RosterMember list \<Rightarrow> PosStore" where
  "PosStore_new roster = \<lparr>ps_rounds = [], ps_blocks = [], ps_tip = FatPointer_null, ps_roster = roster\<rparr>"

text \<open>
  The state of a node before the main loop. \<open>public_key\<close> stands for \<^verbatim>\<open>rng_private_public_key_from_address\<close>: a key made
  from the hash of a name by the random generator and the signature library.
\<close>

definition spawn_new_tfl_service ::
  "(string \<Rightarrow> bytes) \<Rightarrow> bool \<Rightarrow> string list \<Rightarrow> string option \<Rightarrow> string option \<Rightarrow> bytes option \<Rightarrow> TFLServiceInternal" where
  "spawn_new_tfl_service public_key is_regtest bft_peers public_address insecure_user_name store =
    (let array = map (\<lambda>peer. \<lparr>rm_pub_key = public_key peer, voting_power = 1, rm_txids = []\<rparr>) bft_peers;
         public_ip_string = (case public_address of Some s \<Rightarrow> s | None \<Rightarrow> ''/ip4/127.0.0.1/udp/45869/quic-v1'');
         user_name = (case insecure_user_name of Some s \<Rightarrow> s | None \<Rightarrow> public_ip_string);
         array = (if array = [] then [\<lparr>rm_pub_key = public_key user_name, voting_power = 1, rm_txids = []\<rparr>] else array)
     in \<lparr>latest_final_block = None, tfl_is_activated = is_regtest, bft_blocks = [], fat_pointer_to_tip = FatPointer_null,
          validators_at_current_height = array, current_bc_final = None, pos_store = store\<rparr>)"

definition loaded_final_block :: "CryptoLib \<Rightarrow> BlockWriter \<Rightarrow> BftBlock list \<Rightarrow> (u32 \<times> bytes) rust" where
  "loaded_final_block cr w bbs =
     (if bbs = [] then Some (0, replicate 32 0)
      else do {
        header \<leftarrow> finalization_candidate (List.last bbs);
        let hash = from_header_data (lib_sha256 cr) header;
        height \<leftarrow> block_height_from_hash w hash;
        Some (height, hash) })"

text \<open>The start of the main loop: the roster and the rounds are given to \<^verbatim>\<open>tenderlink::entry_point\<close>.\<close>

definition load_pos_store :: "CryptoLib \<Rightarrow> CrosslinkApp \<Rightarrow> (roster \<times> RoundData list \<times> CrosslinkApp) rust" where
  "load_pos_store cr a = do {
     let t = app_tfl a;
     let s = PosStore_new (validators_at_current_height t);
     (s, store) \<leftarrow> (case pos_store t of
         None \<Rightarrow> Some (s, None)
       | Some file \<Rightarrow> do {
           (s, rest) \<leftarrow> load_pos_entries s file;
           Some (s, Some (take (length file - length rest) file)) });
     (new_final_height, new_final_hash) \<leftarrow> loaded_final_block cr (app_writer a) (ps_blocks s);
     roster \<leftarrow> tenderlink_roster_from_internal (ps_roster s);
     let t = t\<lparr>validators_at_current_height := ps_roster s, bft_blocks := ps_blocks s, fat_pointer_to_tip := ps_tip s, pos_store := store\<rparr>;
     let t = (if new_final_hash \<noteq> replicate 32 0
       then t\<lparr>current_bc_final := Some (new_final_height, new_final_hash), latest_final_block := Some (new_final_height, new_final_hash)\<rparr>
       else t);
     Some (roster, ps_rounds s, a\<lparr>app_tfl := t\<rparr>) }"


section \<open>Restarts\<close>

lemma load_pos_entries_Nil [simp]: "load_pos_entries s [] = Some (s, [])"
proof -
  have "pos_entry_read [] = None" using pos_entry_read_shorter [of "[]"] by (cases "pos_entry_read []") auto
  then show ?thesis by (simp add: load_pos_entries.simps)
qed

lemma load_pos_entries_append: "load_pos_entries s xs = Some (s', []) \<Longrightarrow> load_pos_entries s (xs @ ys) = load_pos_entries s' ys"
proof (induction s xs rule: load_pos_entries.induct)
  case (1 s buf)
  show ?case
  proof (cases "pos_entry_read buf")
    case None
    with 1(2) show ?thesis by (simp add: load_pos_entries.simps [of s buf])
  next
    case (Some x)
    obtain block fp vs sigs rest where x: "x = ((block, fp, vs, sigs), rest)" by (cases x) auto
    have "buf \<noteq> []" using pos_entry_read_shorter [of buf] Some x by auto
    then obtain p round_data where p: "points_at_block_hash (previous_block_fat_ptr block) = Some p" "points_at_block_hash (ps_tip s) = Some p"
      "ingest_round (length (ps_rounds s)) (ps_roster s) block fp sigs = Some round_data"
      "load_pos_entries \<lparr>ps_rounds = ps_rounds s @ [round_data], ps_blocks = ps_blocks s @ [block], ps_tip = fp, ps_roster = vs\<rparr> rest = Some (s', [])"
      using 1(2) by (auto simp: load_pos_entries.simps [of s buf] Some x bind_eq_Some_conv split: if_splits)
    have "pos_entry_read (buf @ ys) = Some ((block, fp, vs, sigs), rest @ ys)" using posc.dec_append Some x by simp
    with p 1(1) [OF Some x [symmetric] refl refl refl p(1,2) _ p(3,4)] show ?thesis by (simp add: load_pos_entries.simps [of s "buf @ ys"])
  qed
qed

text \<open>The file holds exactly what the service has decided: read back, it gives the blocks, the tip, the roster and, for each
  block, the round with its bytes.\<close>

definition rounds_of :: "CryptoLib \<Rightarrow> BftBlock list \<Rightarrow> RoundData list \<Rightarrow> bool" where
  "rounds_of cr bbs rounds \<longleftrightarrow> length rounds = length bbs \<and> (\<forall>i < length bbs. rd_height (rounds ! i) = word_of_nat i \<and>
     BftBlock_zcash_serialize (bbs ! i) = Some (proposal (rounds ! i)) \<and>
     blake3_hash (lib_hash_value_id cr) (bbs ! i) = Some (proposal_id (rounds ! i)))"

definition pos_inv :: "CryptoLib \<Rightarrow> RosterMember list \<Rightarrow> TFLServiceInternal \<Rightarrow> bool" where
  "pos_inv cr vs0 t \<longleftrightarrow> (\<exists>file rounds r. pos_store t = Some file \<and>
     load_pos_entries (PosStore_new vs0) file = Some (\<lparr>ps_rounds = rounds, ps_blocks = bft_blocks t, ps_tip = fat_pointer_to_tip t,
       ps_roster = validators_at_current_height t\<rparr>, []) \<and>
     rounds_of cr (bft_blocks t) rounds \<and> tenderlink_roster_from_internal (validators_at_current_height t) = Some r)"

lemma rounds_of_snoc:
  "rounds_of cr bbs rounds \<Longrightarrow> rd_height rd = word_of_nat (length bbs) \<Longrightarrow> BftBlock_zcash_serialize b = Some (proposal rd) \<Longrightarrow>
     blake3_hash (lib_hash_value_id cr) b = Some (proposal_id rd) \<Longrightarrow> rounds_of cr (bbs @ [b]) (rounds @ [rd])"
  by (auto simp: rounds_of_def nth_append less_Suc_eq)

lemma ingest_round_total:
  assumes "tenderlink_roster_from_internal vs = Some r" "decision_ok b fp sigs" "points_at_block_hash fp = blake3_hash hv b"
  obtains rd where "ingest_round n vs b fp sigs = Some rd" "rd_height rd = word_of_nat n" "BftBlock_zcash_serialize b = Some (proposal rd)"
    "blake3_hash hv b = Some (proposal_id rd)"
proof -
  have ok: "BftBlock_ok b" "FatPointer_ok fp" using assms(2) by (simp_all add: decision_ok_def)
  obtain bytes where bytes: "BftBlock_zcash_serialize b = Some bytes" using BftBlock_serialize_ok [OF ok(1)] by blast
  obtain v where v: "get_vote_template fp = Some v" using get_vote_template_bytes ok(2) by (metis FatPointer_ok_def)
  have h: "points_at_block_hash fp = Some (hv bytes)" "blake3_hash hv b = Some (hv bytes)" using assms(3) bytes by (simp_all add: blake3_hash_def)
  obtain rd where rd: "ingest_round n vs b fp sigs = Some rd" by (simp add: ingest_round_def assms(1) bytes v h)
  then have "rd_height rd = word_of_nat n" "proposal rd = bytes" "proposal_id rd = hv bytes"
    by (auto simp: ingest_round_def assms(1) bytes v h RoundData_EMPTY_def)
  with that [OF rd] bytes h(2) show thesis by simp
qed

text \<open>A decision keeps this, and an append that did not finish is cut off.\<close>

lemma handle_decided_pos:
  assumes "handle_new_decided_bft_block lib cr b fp sigs a = Some (roster, a')" "app_inv hgt prv cr a" "placeholder_free cr"
    "decision_ok b fp sigs" "pos_inv cr vs0 (app_tfl a)" "members_ok (validators_at_current_height (app_tfl a'))"
  shows "pos_inv cr vs0 (app_tfl a')"
  using assms(1)
proof (cases rule: handle_decided_cases)
  case (1 hash header height bbs r a1 vs store)
  let ?t = "app_tfl a"
  have bbs: "bbs = bft_blocks ?t @ [b]"
    using handle_decided_inv [OF assms(1-3)] assms(4) 1(13) by (simp add: decision_ok_def)
  obtain stored rounds r0 where f: "pos_store ?t = Some stored" "load_pos_entries (PosStore_new vs0) stored =
      Some (\<lparr>ps_rounds = rounds, ps_blocks = bft_blocks ?t, ps_tip = fat_pointer_to_tip ?t, ps_roster = validators_at_current_height ?t\<rparr>, [])"
      "rounds_of cr (bft_blocks ?t) rounds" "tenderlink_roster_from_internal (validators_at_current_height ?t) = Some r0"
    using assms(5) unfolding pos_inv_def by blast
  obtain bytes where bytes: "pos_record b fp vs sigs = Some bytes" "store = Some (stored @ bytes)" using 1(11) f(1) by auto
  have e: "pos_entry_ok (b, fp, vs, sigs)" "bytes = pos_entry_write (b, fp, vs, sigs)"
    using assms(4,6) 1(13) bytes(1) by (simp_all add: pos_entry_ok_def pos_entry_write_def)
  have "points_at_block_hash fp = blake3_hash (lib_hash_value_id cr) b" using 1(1,2) by simp
  from ingest_round_total [OF f(4) assms(4) this, of "length rounds"]
  obtain rd where rd: "ingest_round (length rounds) (validators_at_current_height ?t) b fp sigs = Some rd" "rd_height rd = word_of_nat (length rounds)"
    "BftBlock_zcash_serialize b = Some (proposal rd)" "blake3_hash (lib_hash_value_id cr) b = Some (proposal_id rd)"
    by blast
  obtain p where p: "points_at_block_hash (previous_block_fat_ptr b) = Some p" "points_at_block_hash (fat_pointer_to_tip ?t) = Some p"
    using 1(4) unfolding validate_bft_block_Pass by blast
  have "load_pos_entries (PosStore_new vs0) (stored @ bytes) =
      Some (\<lparr>ps_rounds = rounds @ [rd], ps_blocks = bbs, ps_tip = fp, ps_roster = vs\<rparr>, [])"
    unfolding load_pos_entries_append [OF f(2)]
    using posc.dec_enc_all [OF e(1)] p rd(1) bbs by (simp add: load_pos_entries.simps [of _ "pos_entry_write (b, fp, vs, sigs)"] e(2))
  moreover have "rounds_of cr bbs (rounds @ [rd])"
    using rounds_of_snoc [OF f(3) _ rd(3,4)] rd(2) f(3) by (simp add: bbs rounds_of_def)
  ultimately show ?thesis using 1(12,13) bytes(2) by (auto simp: pos_inv_def)
qed

lemma load_torn:
  assumes "load_pos_entries s file = Some (s', [])" "pos_entry_ok e" "strict_prefix p (pos_entry_write e)"
  shows "load_pos_entries s (file @ p) = Some (s', p)"
  unfolding load_pos_entries_append [OF assms(1)] by (simp add: load_pos_entries.simps posc.dec_torn [OF assms(2,3)])

definition store_step ::
  "TreeLib \<Rightarrow> CryptoLib \<Rightarrow> (bytes \<Rightarrow> u32) \<Rightarrow> (bytes \<Rightarrow> bytes) \<Rightarrow> CrosslinkApp \<Rightarrow> CrosslinkApp \<Rightarrow> bool" where
  "store_step lib cr hgt prv a a' \<longleftrightarrow> service_step lib cr hgt prv a a' \<and> members_ok (validators_at_current_height (app_tfl a'))"

lemma store_step_pos:
  assumes "store_step lib cr hgt prv a a'" "app_inv hgt prv cr a" "placeholder_free cr" "pos_inv cr vs0 (app_tfl a)"
  shows "pos_inv cr vs0 (app_tfl a')"
proof -
  have s: "service_step lib cr hgt prv a a'" and ok: "members_ok (validators_at_current_height (app_tfl a'))"
    using assms(1) by (simp_all add: store_step_def)
  from s show ?thesis
  proof (cases rule: service_step.cases)
    case (decided b fp sigs roster)
    from handle_decided_pos [OF decided(2) assms(2,3) decided(1) assms(4) ok] show ?thesis .
  next
    case (request req resp)
    from request_keeps [OF request] assms(4) show ?thesis by (simp add: pos_inv_def)
  next
    case activate
    from activate_keeps [OF activate] assms(4) show ?thesis by (simp add: pos_inv_def)
  qed (use assms(4) in simp_all)
qed

lemma store_steps_pos:
  "(store_step lib cr hgt prv)\<^sup>*\<^sup>* a a' \<Longrightarrow> app_inv hgt prv cr a \<Longrightarrow> placeholder_free cr \<Longrightarrow> pos_inv cr vs0 (app_tfl a) \<Longrightarrow>
     app_inv hgt prv cr a' \<and> pos_inv cr vs0 (app_tfl a')"
proof (induction rule: rtranclp_induct)
  case (step b c)
  then have "app_inv hgt prv cr b" "pos_inv cr vs0 (app_tfl b)" by blast+
  moreover have "service_step lib cr hgt prv b c" using step.hyps(2) by (simp add: store_step_def)
  ultimately show ?case using service_step_inv [of lib cr hgt prv b c] store_step_pos [OF step.hyps(2)] step.prems by blast
qed blast

lemma spawn_simps [simp]:
  "bft_blocks (spawn_new_tfl_service pk rt peers adr nam store) = []" "pos_store (spawn_new_tfl_service pk rt peers adr nam store) = store"
  "fat_pointer_to_tip (spawn_new_tfl_service pk rt peers adr nam store) = FatPointer_null"
  by (simp_all add: spawn_new_tfl_service_def Let_def)

lemma spawn_roster:
  "length peers < 2 ^ 64 \<Longrightarrow>
     \<exists>r. tenderlink_roster_from_internal (validators_at_current_height (spawn_new_tfl_service pk rt peers adr nam store)) = Some r"
  by (rule roster_from_internal_total) (simp add: spawn_new_tfl_service_def Let_def comp_def sum_list_triv)

lemma spawn_pos_inv:
  "length peers < 2 ^ 64 \<Longrightarrow> t = spawn_new_tfl_service pk rt peers adr nam (Some []) \<Longrightarrow> pos_inv cr (validators_at_current_height t) t"
  using spawn_roster [of peers pk rt adr nam "Some []"] by (simp add: pos_inv_def PosStore_new_def rounds_of_def spawn_new_tfl_service_def Let_def)

end
