(* ===== verification/Crosslink_Decisions.thy ===== *)
theory Crosslink_Decisions
  imports Pos_Store
begin

text \<open>
  What the decisions of Tenderlink do to a node: they extend the chain of BFT blocks and finalize blocks of the
  proof-of-work chain, for good. The second part shows decisions that pass the validation of every node and
  then make the node panic or forget what was final.
\<close>

section \<open>Decisions\<close>

text \<open>C2: A decision is final. When the service handles a decided BFT block, the block is appended to the chain of
  decided blocks under its height, the fat pointer is a signed certificate for its hash, and the block of the
  first header becomes the latest final block. If the block writer still knows that block after the
  messages that wait for it, it is in the database at its height.
\<close>

theorem decided_block_is_final:
  assumes "handle_new_decided_bft_block lib cr b fp sigs a = Some (roster, a')" "app_inv hgt prv cr a" "placeholder_free cr" "BftBlock_ok b"
  shows "\<exists>header height. finalization_candidate b = Some header \<and>
    bft_blocks (app_tfl a') = bft_blocks (app_tfl a) @ [b] \<and> unat (bb_height b) = length (bft_blocks (app_tfl a')) \<and>
    fat_pointer_to_tip (app_tfl a') = fp \<and> points_at_block_hash fp = blake3_hash (lib_hash_value_id cr) b \<and>
    validate_signatures (lib_batch_verify cr) fp = Some True \<and>
    latest_final_block (app_tfl a') = Some (height, from_header_data (lib_sha256 cr) header) \<and>
    (\<forall>rs w. app_checkpoints_done a \<longrightarrow> write_messages lib (app_pending a) (app_writer a) = Some (rs, w) \<longrightarrow>
       any_chain_contains (w_nfs w) (from_header_data (lib_sha256 cr) header) \<or> contains_hash (w_db w) (from_header_data (lib_sha256 cr) header) \<longrightarrow>
       db_hash (w_db (app_writer a')) (hgt (from_header_data (lib_sha256 cr) header)) = Some (from_header_data (lib_sha256 cr) header))"
  using assms(1)
proof (cases rule: handle_decided_cases)
  case (1 hash header height bbs r a1 vs store)
  let ?x = "from_header_data (lib_sha256 cr) header"
  have inv: "app_inv hgt prv cr a'" "bft_blocks (app_tfl a') = bft_blocks (app_tfl a) @ [b]"
    using handle_decided_inv [OF assms] by simp_all
  have w: "writer_inv hgt prv (app_writer a)" "\<forall>msg \<in> set (app_pending a). message_ids hgt prv msg"
    using assms(2) by (simp_all add: app_inv_def)
  have h: "unat (bb_height b) = length (bft_blocks (app_tfl a'))"
    using inv by (simp add: app_inv_def tfl_inv_def bft_chain_snoc)
  have "db_hash (w_db (app_writer a')) (hgt ?x) = Some ?x"
    if pend: "app_checkpoints_done a" "write_messages lib (app_pending a) (app_writer a) = Some (rs, w1)"
      "any_chain_contains (w_nfs w1) ?x \<or> contains_hash (w_db w1) ?x" for rs w1
  proof -
    have w1: "writer_inv hgt prv w1" using write_messages_extends [OF pend(2) w] by simp
    obtain w2 where w2: "write_crosslink_finalized lib ?x w1 = Some (r, w2)" "app_writer a1 = w2"
      using 1(8) pend(1,2) by (auto simp: crosslink_finalize_block_def bind_eq_Some_conv)
    obtain ss where "r = Inr (?x, ss)" using write_crosslink_reply [OF w2(1) w1 pend(3)] by blast
    then have "db_hash (w_db w2) (hgt ?x) = Some ?x" using write_crosslink_final [OF w2(1) w1] by blast
    with w2(2) 1(13) show ?thesis by simp
  qed
  note final = this
  show ?thesis by (intro exI [of _ header] exI [of _ height]) (use 1(1,2,3,5,13) inv(2) h final in simp)
qed

text \<open>C4: The two chains of a node only grow. Whatever is decided, requested, queued or written, the decided BFT blocks
  stay a chain, each at its height and pointing at the hash of the one before it, earlier blocks stay, and every
  finalized block of the proof-of-work chain stays at its height.
\<close>

theorem service_chains_only_grow:
  assumes "(service_step lib cr hgt prv)\<^sup>*\<^sup>* a a'" "app_inv hgt prv cr a" "placeholder_free cr"
  shows "bft_chain cr (bft_blocks (app_tfl a')) \<and>
    points_at_block_hash (fat_pointer_to_tip (app_tfl a')) = parent_hash_of cr (bft_blocks (app_tfl a')) \<and>
    prefix (bft_blocks (app_tfl a)) (bft_blocks (app_tfl a')) \<and>
    (\<forall>h x. db_hash (w_db (app_writer a)) h = Some x \<longrightarrow> db_hash (w_db (app_writer a')) h = Some x)"
proof -
  have "app_inv hgt prv cr a'" "prefix (bft_blocks (app_tfl a)) (bft_blocks (app_tfl a'))"
    "extends (w_db (app_writer a)) (w_db (app_writer a'))"
    using service_steps_inv [OF assms] by blast+
  then show ?thesis using extends_db_hash by (simp add: app_inv_def tfl_inv_def)
qed

text \<open>C30: The decided blocks are served with certificates. For every height that has been decided, the node serves the
  block with that height and a fat pointer to its hash; for every other height it serves nothing.
\<close>

theorem historical_blocks_served:
  assumes "tfl_inv cr t"
  shows "if 1 \<le> unat h \<and> unat h \<le> length (bft_blocks t)
    then \<exists>b fp. get_historical_bft_block_at_height t h = Some (Some (b, fp)) \<and> b = bft_blocks t ! (unat h - 1) \<and>
      unat (bb_height b) = unat h \<and> points_at_block_hash fp = blake3_hash (lib_hash_value_id cr) b
    else get_historical_bft_block_at_height t h = Some None"
proof (cases "1 \<le> unat h \<and> unat h \<le> length (bft_blocks t)")
  case False
  then show ?thesis by (auto simp: get_historical_bft_block_at_height_def unat_eq_0 not_le Suc_le_eq)
next
  case True
  let ?b = "bft_blocks t ! (unat h - 1)"
  have h: "h \<noteq> 0" "unat h - 1 < length (bft_blocks t)" using True by auto
  have b: "unat (bb_height ?b) = unat h" using assms h True by (simp add: tfl_inv_def bft_chain_def)
  have "\<exists>fp. fat_pointer_to_block_at_height (bft_blocks t) (fat_pointer_to_tip t) h = Some (Some fp) \<and>
      points_at_block_hash fp = blake3_hash (lib_hash_value_id cr) ?b"
  proof (cases "unat h = length (bft_blocks t)")
    case True
    with assms h show ?thesis by (auto simp: fat_pointer_to_block_at_height_def tfl_inv_def parent_hash_of_def last_conv_nth)
  next
    case False
    then have "unat h < length (bft_blocks t)" using True by simp
    moreover have "parent_hash_of cr (take (unat h) (bft_blocks t)) = blake3_hash (lib_hash_value_id cr) ?b"
      using h True by (auto simp: parent_hash_of_def last_conv_nth)
    ultimately show ?thesis using assms h by (simp add: fat_pointer_to_block_at_height_def tfl_inv_def bft_chain_def)
  qed
  with True h b show ?thesis by (auto simp: get_historical_bft_block_at_height_def)
qed

text \<open>C5: Decisions survive a restart. A node that starts with an empty file, runs, stops at any moment, also in the middle
  of an append to the file, and starts again has the BFT blocks, the tip and the roster that it had before, the rounds
  that it serves have the bytes and hashes of the blocks at their heights, and the unfinished record is gone from
  the file. The block that was decided last has to be known to the state, or the start panics.
\<close>

theorem pos_store_recovers:
  assumes "(store_step lib cr hgt prv)\<^sup>*\<^sup>* a0 a" "app_inv hgt prv cr a0" "placeholder_free cr"
    "app_tfl a0 = spawn_new_tfl_service public_key is_regtest peers address name (Some [])" "length peers < 2 ^ 64"
    "pos_store (app_tfl a) = Some stored" "pos_entry_ok e" "strict_prefix torn (pos_entry_write e)"
    "app_tfl b = spawn_new_tfl_service public_key is_regtest peers address name (Some (stored @ torn))"
    "\<forall>block header. bft_blocks (app_tfl a) \<noteq> [] \<and> block = List.last (bft_blocks (app_tfl a)) \<and> finalization_candidate block = Some header \<longrightarrow>
       (\<exists>height. block_height_from_hash (app_writer b) (from_header_data (lib_sha256 cr) header) = Some height)"
  shows "\<exists>roster rounds b'. load_pos_store cr b = Some (roster, rounds, b') \<and> bft_blocks (app_tfl b') = bft_blocks (app_tfl a) \<and>
    fat_pointer_to_tip (app_tfl b') = fat_pointer_to_tip (app_tfl a) \<and>
    validators_at_current_height (app_tfl b') = validators_at_current_height (app_tfl a) \<and>
    tenderlink_roster_from_internal (validators_at_current_height (app_tfl a)) = Some roster \<and>
    rounds_of cr (bft_blocks (app_tfl a)) rounds \<and> pos_store (app_tfl b') = Some stored"
proof -
  let ?t = "app_tfl a"
  define vs0 where "vs0 = validators_at_current_height (app_tfl a0)"
  have vs0: "validators_at_current_height (app_tfl b) = vs0" by (simp add: vs0_def assms(4,9) spawn_new_tfl_service_def Let_def)
  have "pos_inv cr vs0 (app_tfl a0)" unfolding vs0_def by (rule spawn_pos_inv [OF assms(5,4)])
  from store_steps_pos [OF assms(1-3) this] obtain rounds r where
    inv: "app_inv hgt prv cr a" and
    l: "load_pos_entries (PosStore_new vs0) stored = Some (\<lparr>ps_rounds = rounds, ps_blocks = bft_blocks ?t, ps_tip = fat_pointer_to_tip ?t,
      ps_roster = validators_at_current_height ?t\<rparr>, [])" "rounds_of cr (bft_blocks ?t) rounds"
      "tenderlink_roster_from_internal (validators_at_current_height ?t) = Some r"
    using assms(6) unfolding pos_inv_def by auto
  have torn: "load_pos_entries (PosStore_new vs0) (stored @ torn) = Some (\<lparr>ps_rounds = rounds, ps_blocks = bft_blocks ?t,
      ps_tip = fat_pointer_to_tip ?t, ps_roster = validators_at_current_height ?t\<rparr>, torn)"
    by (rule load_torn [OF l(1) assms(7,8)])
  obtain height hash where f: "loaded_final_block cr (app_writer b) (bft_blocks ?t) = Some (height, hash)"
  proof (cases "bft_blocks ?t = []")
    case False
    have "bb_headers (List.last (bft_blocks ?t)) \<noteq> []"
      using bft_chain_last_headers [of cr "bft_blocks ?t"] inv False by (simp add: app_inv_def tfl_inv_def)
    then obtain header where h: "finalization_candidate (List.last (bft_blocks ?t)) = Some header"
      by (cases "bb_headers (List.last (bft_blocks ?t))") (auto simp: finalization_candidate_def)
    with assms(10) False obtain height where "block_height_from_hash (app_writer b) (from_header_data (lib_sha256 cr) header) = Some height" by blast
    with False h that show thesis by (simp add: loaded_final_block_def)
  qed (use that in \<open>simp add: loaded_final_block_def\<close>)
  show ?thesis
    unfolding load_pos_store_def Let_def vs0 using assms(9) by (simp add: torn f l)
qed

section \<open>Decisions that are not checked\<close>

lemma closure_simps:
  "validate_closure (crosslink_closures lib cr) v a = (case BftBlock_zcash_deserialize v of
       Some (b, _) \<Rightarrow> do { s \<leftarrow> validate_bft_block cr a b; Some (s, a) } | None \<Rightarrow> Some ((Fail, NoReason), a))"
  "push_block_closure (crosslink_closures lib cr) v fp sigs a = do {
       (b, _) \<leftarrow> BftBlock_zcash_deserialize v; handle_new_decided_bft_block lib cr b fp sigs a }"
  by (simp_all add: crosslink_closures_def)

text \<open>The bytes of the block that a value starts with.\<close>

lemma deserialized_bytes:
  assumes "BftBlock_zcash_deserialize v = Some (b, rest)"
  obtains bytes where "BftBlock_ok b" "BftBlock_zcash_serialize b = Some bytes" "v = bytes @ rest"
proof -
  have b: "BftBlock_ok b" "v = the (BftBlock_zcash_serialize b) @ rest" using assms bbc.dec_iff by blast+
  with BftBlock_serialize_ok [OF b(1)] that show thesis by auto
qed


text \<open>A proposal without headers panics the node that receives it: the reader accepts a block with no header, and the
  validation takes the first one.
\<close>

theorem empty_proposal_panics:
  assumes "BftBlock_ok b" "bb_headers b = []" "points_at_block_hash (previous_block_fat_ptr b) = Some p"
    "points_at_block_hash (fat_pointer_to_tip (app_tfl a)) = Some p"
  shows "\<exists>bytes. BftBlock_zcash_serialize b = Some bytes \<and> validate_closure (crosslink_closures lib cr) (bytes @ rest) a = None"
proof -
  obtain bytes where bytes: "BftBlock_zcash_serialize b = Some bytes" using BftBlock_serialize_ok [OF assms(1)] by blast
  have "validate_bft_block cr a b = None"
    using assms(2-4) by (simp add: validate_bft_block_def finalization_candidate_def)
  with bytes bbc.dec_enc [OF assms(1), of rest] show ?thesis by (simp add: closure_simps)
qed

text \<open>C33: Finality can be forgotten. A decision for an older block makes it the latest final block, whatever was final
  before; from then on the service reports blocks above it as not yet finalized, also those that the database
  has finalized.
\<close>

theorem final_block_moves_back:
  assumes "handle_new_decided_bft_block lib cr b fp sigs a = Some (roster, a')" "finalization_candidate b = Some header"
    "known_block (app_writer a) (from_header_data (lib_sha256 cr) header) = Some k" "known_height k < h"
  shows "latest_final_block (app_tfl a') = Some (known_height k, from_header_data (lib_sha256 cr) header) \<and>
    tfl_block_finality_from_height_hash a' h x = ok (Some NotYetFinalized)"
  using assms(1)
proof (cases rule: handle_decided_cases)
  case (1 hash header' height bbs r a1 vs store)
  then have "latest_final_block (app_tfl a') = Some (known_height k, from_header_data (lib_sha256 cr) header)"
    using assms(2,3) by (simp add: block_height_from_hash_def)
  with assms(4) show ?thesis by (simp add: tfl_block_finality_from_height_hash_def tfl_final_block_height_hash_def)
qed

section \<open>Fat pointers in block headers\<close>

lemma bft_position_nth:
  assumes "\<forall>j < length bbs. \<exists>x. blake3_hash hv (bbs ! j) = Some x" "i < length bbs" "points_at_block_hash fp = blake3_hash hv (bbs ! i)"
    "\<forall>j < i. blake3_hash hv (bbs ! j) \<noteq> blake3_hash hv (bbs ! i)"
  shows "bft_position hv fp bbs = Some (Some i)"
  using assms
proof (induction bbs arbitrary: i)
  case (Cons b bs)
  obtain x where x: "blake3_hash hv b = Some x" using Cons.prems(1) by (metis length_greater_0_conv list.discI nth_Cons_0)
  show ?case
  proof (cases i)
    case 0
    with Cons.prems(3) x show ?thesis by simp
  next
    case (Suc k)
    have "\<forall>j < length bs. \<exists>x. blake3_hash hv (bs ! j) = Some x" using Cons.prems(1) by fastforce
    moreover have "\<forall>j < k. blake3_hash hv (bs ! j) \<noteq> blake3_hash hv (bs ! k)" using Cons.prems(4) Suc by fastforce
    ultimately have "bft_position hv fp bs = Some (Some k)" using Cons.IH [of k] Cons.prems(2,3) Suc by simp
    moreover obtain y where "points_at_block_hash fp = Some y" "x \<noteq> y"
      using Cons.prems(1,2,3,4) Suc x by (metis nth_Cons_0 zero_less_Suc)
    ultimately show ?thesis using x Suc by simp
  qed
qed simp

text \<open>C31: The check of the fat pointers of block headers. For pointers to decided blocks the state accepts a block
  exactly if its pointer is not to an earlier BFT block than that of its parent. The null pointer counts as a
  pointer to the first BFT block: after a parent that points at the first BFT block, a block that points at nothing
  is accepted.
\<close>

theorem fat_pointer_order:
  assumes "bft_chain cr (bft_blocks t)" "inj_on (\<lambda>i. blake3_hash (lib_hash_value_id cr) (bft_blocks t ! i)) {..<length (bft_blocks t)}"
    "i < length (bft_blocks t)" "j < length (bft_blocks t)" "parent \<noteq> FatPointer_null" "child \<noteq> FatPointer_null"
    "points_at_block_hash parent = blake3_hash (lib_hash_value_id cr) (bft_blocks t ! i)"
    "points_at_block_hash child = blake3_hash (lib_hash_value_id cr) (bft_blocks t ! j)"
  shows "call_from_state_to_crosslink_to_ask_about_fat_pointers cr t parent child = Some (i \<le> j) \<and>
    call_from_state_to_crosslink_to_ask_about_fat_pointers cr t FatPointer_null child = Some True \<and>
    call_from_state_to_crosslink_to_ask_about_fat_pointers cr t parent FatPointer_null = Some (i = 0)"
proof -
  let ?h = "lib_hash_value_id cr" and ?b = "bft_blocks t"
  have total: "\<forall>j < length ?b. \<exists>x. blake3_hash ?h (?b ! j) = Some x"
    using assms(1) BftBlock_serialize_ok by (fastforce simp: bft_chain_def blake3_hash_def)
  have ne: "\<forall>j < k. blake3_hash ?h (?b ! j) \<noteq> blake3_hash ?h (?b ! k)" if "k < length ?b" for k
    using inj_onD [OF assms(2)] that by fastforce
  have "fat_pointer_height cr t parent = Some (Some i)" "fat_pointer_height cr t child = Some (Some j)"
    using bft_position_nth [OF total assms(3,7) ne [OF assms(3)]] bft_position_nth [OF total assms(4,8) ne [OF assms(4)]] assms(5,6)
    by (simp_all add: fat_pointer_height_def)
  moreover have "fat_pointer_height cr t FatPointer_null = Some (Some 0)" by (simp add: fat_pointer_height_def)
  ultimately show ?thesis by (simp add: call_from_state_to_crosslink_to_ask_about_fat_pointers_def)
qed

section \<open>A node\<close>

text \<open>Hashes that tell blocks with headers from blocks that fill a gap, and signatures that are all accepted.\<close>

definition node_cr :: "bytes \<Rightarrow> CryptoLib" where
  "node_cr x = \<lparr>lib_hash_value_id = (\<lambda>v. if length v = 62 then replicate 32 1 else replicate 32 7), lib_sha256 = (\<lambda>_. x),
     lib_batch_verify = (\<lambda>_. True)\<rparr>"

lemma node_cr_simps [simp]: "lib_sha256 (node_cr x) = (\<lambda>_. x)" "lib_batch_verify (node_cr x) = (\<lambda>_. True)"
  "lib_hash_value_id (node_cr x) v = (if length v = 62 then replicate 32 1 else replicate 32 7)"
  by (simp_all add: node_cr_def)

lemma length_BftBlock:
  assumes "BftBlock_ok b" "BftBlock_zcash_serialize b = Some bs" "bb_headers b \<noteq> []"
  shows "62 < length bs"
proof -
  have "46 \<le> length (FatPointer_zcash_serialize (previous_block_fat_ptr b))"
    using assms(1) by (simp add: BftBlock_ok_def FatPointer_ok_def FatPointer_zcash_serialize_def)
  moreover obtain d ds where "bb_headers b = d # ds" using assms(3) by (cases "bb_headers b") auto
  ultimately show ?thesis using assms(2) by (auto simp: BftBlock_zcash_serialize_def write_all_def write_data_def split: if_splits)
qed

lemma placeholder_serialize: "\<exists>bs. BftBlock_zcash_serialize (placeholder_block i) = Some bs \<and> length bs = 62"
  by (simp add: BftBlock_zcash_serialize_def placeholder_block_def FatPointer_null_def FatPointer_zcash_serialize_def write_all_def)

lemma node_cr_hash: "BftBlock_ok b \<Longrightarrow> bb_headers b \<noteq> [] \<Longrightarrow> blake3_hash (lib_hash_value_id (node_cr x)) b = Some (replicate 32 7)"
proof -
  assume b: "BftBlock_ok b" "bb_headers b \<noteq> []"
  obtain bs where bs: "BftBlock_zcash_serialize b = Some bs" using BftBlock_serialize_ok [OF b(1)] by blast
  with length_BftBlock [OF b(1) bs b(2)] show ?thesis by (simp add: blake3_hash_def)
qed

lemma node_cr_free: "placeholder_free (node_cr x)"
  unfolding placeholder_free_def
proof (intro allI conjI impI)
  fix i
  obtain bs where bs: "BftBlock_zcash_serialize (placeholder_block i) = Some bs" "length bs = 62" using placeholder_serialize by blast
  then show "blake3_hash (lib_hash_value_id (node_cr x)) (placeholder_block i) \<noteq> Some (replicate 32 0)" by (simp add: blake3_hash_def)
  fix b assume "BftBlock_ok b" "bb_headers b \<noteq> []"
  from node_cr_hash [OF this, of x] bs
  show "blake3_hash (lib_hash_value_id (node_cr x)) b \<noteq> blake3_hash (lib_hash_value_id (node_cr x)) (placeholder_block i)"
    by (simp add: blake3_hash_def [of _ "placeholder_block i"])
qed

definition node_block :: "u32 \<Rightarrow> BftBlock" where
  "node_block h = \<lparr>bb_version = 1, bb_height = h, previous_block_fat_ptr = FatPointer_null, finalization_candidate_height = 0,
     bb_headers = [lrz_header (pow_header 5)]\<rparr>"

lemma FatPointer_null_ok [simp]: "FatPointer_ok FatPointer_null"
  by (simp add: FatPointer_null_def FatPointer_ok_def)

lemma points_at_null [simp]: "points_at_block_hash FatPointer_null = Some (replicate 32 0)"
  by (simp add: points_at_block_hash_def FatPointer_null_def slice_def)

lemma node_block_ok [simp]: "BftBlock_ok (node_block h)"
  using lrz_header_ok [OF pow_header_ok(1)] by (simp add: BftBlock_ok_def node_block_def)

lemma node_block_hash [simp]: "blake3_hash (lib_hash_value_id (node_cr x)) (node_block h) = Some (replicate 32 7)"
  by (rule node_cr_hash) (simp_all, simp add: node_block_def)

definition node_pointer :: FatPointerToBftBlock where
  "node_pointer = \<lparr>vote_for_block = replicate 32 7 @ replicate 12 0, fp_signatures = []\<rparr>"

lemma node_pointer_facts [simp]:
  "points_at_block_hash node_pointer = Some (replicate 32 7)" "validate_signatures (\<lambda>_. True) node_pointer = Some True"
  "node_pointer \<noteq> FatPointer_null"
proof -
  have "FatPointer_ok node_pointer" by (simp add: node_pointer_def FatPointer_ok_def)
  then show "validate_signatures (\<lambda>_. True) node_pointer = Some True" by (simp add: validate_signatures_eq)
  show "points_at_block_hash node_pointer = Some (replicate 32 7)" by (simp add: node_pointer_def points_at_block_hash_def slice_def)
  show "node_pointer \<noteq> FatPointer_null"
    by (auto simp: node_pointer_def FatPointer_null_def dest: arg_cong [of _ _ hd])
qed

lemma node_decision_ok: "decision_ok (node_block h) node_pointer []"
  by (simp add: decision_ok_def) (simp add: node_pointer_def FatPointer_ok_def)

definition node_at :: "(u32 \<times> bytes) option \<Rightarrow> BlockWriter \<Rightarrow> CrosslinkApp" where
  "node_at f w = \<lparr>app_tfl = (spawn_new_tfl_service (\<lambda>_. replicate 32 1) True [] None None (Some []))\<lparr>latest_final_block := f\<rparr>,
     app_writer = w, app_pending = [], app_checkpoints_done = True\<rparr>"

lemma node_at_inv: "writer_inv hgt prv w \<Longrightarrow> app_inv hgt prv (node_cr x) (node_at f w)"
  by (simp add: app_inv_def node_at_def tfl_inv_def parent_hash_of_def)

definition node_member :: RosterMember where
  "node_member = \<lparr>rm_pub_key = replicate 32 1, voting_power = 1, rm_txids = []\<rparr>"

definition node_roster :: roster where
  "node_roster = [\<lparr>pub_key = replicate 32 1, stake = 1, cumulative_stake = 1\<rparr>]"

lemma node_roster: "tenderlink_roster_from_internal [node_member] = Some node_roster"
  by (simp add: tenderlink_roster_from_internal_def sort_by_key_desc_def accumulate_stake.simps node_member_def node_roster_def checked_add_def)

text \<open>The state after the decision.\<close>

definition node_tfl :: TFLServiceInternal where
  "node_tfl = \<lparr>latest_final_block = Some (0, [7]), tfl_is_activated = True, bft_blocks = [node_block 1], fat_pointer_to_tip = node_pointer,
     validators_at_current_height = [node_member], current_bc_final = None, pos_store = pos_record (node_block 1) node_pointer [node_member] []\<rparr>"

lemma node_tfl_simps [simp]: "bft_blocks node_tfl = [node_block 1]" "fat_pointer_to_tip node_tfl = node_pointer"
  by (simp_all add: node_tfl_def)

text \<open>The first decision of a node, for a block that its writer knows.\<close>

lemma node_decides:
  assumes "known_block w x = Some k" "write_crosslink_finalized lib x w = Some (Inr (x, []), w')"
  shows "handle_new_decided_bft_block lib (node_cr x) (node_block 1) node_pointer [] (node_at f w) =
    Some (node_roster, (node_at f w')\<lparr>app_tfl := node_tfl\<lparr>latest_final_block := Some (known_height k, x)\<rparr>\<rparr>)"
proof -
  have c: "finalization_candidate (node_block 1) = Some (lrz_header (pow_header 5))" by (simp add: finalization_candidate_def node_block_def)
  have v: "validate_bft_block (node_cr x) (node_at f w) (node_block 1) = Some (Pass, NoReason)"
    unfolding validate_bft_block_Pass
    using assms(1) c by (auto simp: node_at_def block_height_from_hash_def from_header_data_def) (simp add: node_block_def)
  have s: "store_bft_block (node_cr x) (node_block 1) [] = Some [node_block 1]"
    by (simp add: store_bft_block_def usize_sub_def previous_block_hash_def) (simp add: node_block_def placeholder_block_def)
  obtain bytes where bytes: "pos_record (node_block 1) node_pointer [node_member] [] = Some bytes"
    using BftBlock_serialize_ok [OF node_block_ok [of 1]] by (auto simp: pos_record_def)
  have m: "validators_at_current_height (spawn_new_tfl_service (\<lambda>_. replicate 32 1) True [] None None (Some [])) = [node_member]"
    by (simp add: spawn_new_tfl_service_def node_member_def)
  show ?thesis
    unfolding handle_new_decided_bft_block_def v c Let_def
    using assms by (simp add: crosslink_finalize_block_def s bytes m node_roster block_height_from_hash_def from_header_data_def node_at_def)
      (simp add: node_tfl_def bytes [unfolded node_member_def] spawn_new_tfl_service_def node_member_def)
qed

text \<open>A node whose database has the block that is decided, with a longer chain above it.\<close>

lemma node_run:
  obtains c where "app_inv decided_hgt decided_prv (node_cr [7]) (node_at None (decided_writer c))"
    "known_block (decided_writer c) [7] = Some \<lparr>known_location = BestChain, known_height = 0\<rparr>"
    "\<And>f. handle_new_decided_bft_block sample_lib (node_cr [7]) (node_block 1) node_pointer [] (node_at f (decided_writer c)) =
      Some (node_roster, (node_at (Some (0, [7])) (decided_writer c))\<lparr>app_tfl := node_tfl\<rparr>)"
    "contains_hash (w_db (decided_writer c)) [7]"
proof -
  obtain c r w' where w: "writer_inv decided_hgt decided_prv (decided_writer c)" "any_chain_contains (w_nfs (decided_writer c)) [8]"
    "write_message sample_lib (CrosslinkFinalized [8]) (decided_writer c) = Some (r, w')" "chain_set (w_nfs (decided_writer c)) = [c]"
    "write_messages sample_lib [CrosslinkFinalized [7]] (decided_writer c) = Some ([CrosslinkResponse (Inr ([7], []))], decided_writer c)"
    by (rule decided_run)
  have k: "known_block (decided_writer c) [7] = Some \<lparr>known_location = BestChain, known_height = 0\<rparr>" "contains_hash (w_db (decided_writer c)) [7]"
    by (simp_all add: known_block_def latest_non_finalized_state_def non_finalized_state_contains_block_hash_def chain_iter_def
        finalized_state_contains_block_hash_def decided_writer_def NonFinalizedState_new_def genesis_db_def contains_hash_def db_height_def or_else_def)
  have "write_crosslink_finalized sample_lib [7] (decided_writer c) = Some (Inr ([7], []), decided_writer c)"
    using w(5) by (auto simp: write_message_def bind_eq_Some_conv)
  from that [OF node_at_inv [OF w(1)] k(1) _ k(2)] node_decides [OF k(1) this] show thesis by (simp add: node_tfl_def node_at_def)
qed

lemma node_candidate: "finalization_candidate (node_block h) = Some (lrz_header (pow_header 5))"
  by (simp add: finalization_candidate_def node_block_def)

theorem decided_block_is_final_witness:
  "\<exists>c a'. handle_new_decided_bft_block sample_lib (node_cr [7]) (node_block 1) node_pointer [] (node_at None (decided_writer c)) = Some (node_roster, a') \<and>
     app_inv decided_hgt decided_prv (node_cr [7]) (node_at None (decided_writer c)) \<and> placeholder_free (node_cr [7]) \<and> BftBlock_ok (node_block 1) \<and>
     bft_blocks (app_tfl a') = [node_block 1] \<and> fat_pointer_to_tip (app_tfl a') = node_pointer \<and>
     db_hash (w_db (app_writer a')) 0 = Some [7]"
proof -
  obtain c a' where n: "app_inv decided_hgt decided_prv (node_cr [7]) (node_at None (decided_writer c))"
    "handle_new_decided_bft_block sample_lib (node_cr [7]) (node_block 1) node_pointer [] (node_at None (decided_writer c)) = Some (node_roster, a')"
    "contains_hash (w_db (decided_writer c)) [7]"
    by (rule node_run) blast
  from decided_block_is_final [OF n(2,1) node_cr_free node_block_ok] n(3)
  have "bft_blocks (app_tfl a') = [node_block 1]" "fat_pointer_to_tip (app_tfl a') = node_pointer" "db_hash (w_db (app_writer a')) 0 = Some [7]"
    by (auto simp: node_at_def from_header_data_def decided_hgt_def)
  with n(1,2) node_cr_free node_block_ok show ?thesis by blast
qed

theorem service_chains_only_grow_witness:
  "\<exists>c a'. (service_step sample_lib (node_cr [7]) decided_hgt decided_prv)\<^sup>*\<^sup>* (node_at None (decided_writer c)) a' \<and>
     app_inv decided_hgt decided_prv (node_cr [7]) (node_at None (decided_writer c)) \<and> placeholder_free (node_cr [7]) \<and>
     bft_blocks (app_tfl a') = [node_block 1] \<and> bft_chain (node_cr [7]) [node_block 1]"
proof -
  obtain c a' where n: "app_inv decided_hgt decided_prv (node_cr [7]) (node_at None (decided_writer c))"
    "handle_new_decided_bft_block sample_lib (node_cr [7]) (node_block 1) node_pointer [] (node_at None (decided_writer c)) = Some (node_roster, a')"
    "bft_blocks (app_tfl a') = [node_block 1]"
    by (rule node_run) auto
  have s: "(service_step sample_lib (node_cr [7]) decided_hgt decided_prv)\<^sup>*\<^sup>* (node_at None (decided_writer c)) a'"
    using service_step.decided [OF node_decision_ok n(2)] by blast
  have "bft_chain (node_cr [7]) [node_block 1]" using service_chains_only_grow [OF s n(1) node_cr_free] n(3) by simp
  with s n(1,3) node_cr_free show ?thesis by blast
qed

lemma node_tfl_inv: "bft_blocks t = [node_block 1] \<Longrightarrow> fat_pointer_to_tip t = node_pointer \<Longrightarrow> tfl_inv (node_cr x) t"
  by (simp add: tfl_inv_def bft_chain_def parent_hash_of_def) (simp add: node_block_def)

theorem pos_store_recovers_witness:
  "\<exists>c a' stored roster rounds b'. (store_step sample_lib (node_cr [7]) decided_hgt decided_prv)\<^sup>*\<^sup>* (node_at None (decided_writer c)) a' \<and>
     bft_blocks (app_tfl a') = [node_block 1] \<and> pos_store (app_tfl a') = Some stored \<and>
     load_pos_store (node_cr [7]) ((node_at None (decided_writer c))\<lparr>app_tfl := spawn_new_tfl_service (\<lambda>_. replicate 32 1) True [] None None
       (Some (stored @ take 9 (pos_entry_write (node_block 2, node_pointer, [node_member], []))))\<rparr>) = Some (roster, rounds, b') \<and>
     bft_blocks (app_tfl b') = [node_block 1] \<and> length rounds = 1 \<and> pos_store (app_tfl b') = Some stored"
proof -
  let ?e = "(node_block 2, node_pointer, [node_member], [])"
  obtain c where n: "app_inv decided_hgt decided_prv (node_cr [7]) (node_at None (decided_writer c))"
    "known_block (decided_writer c) [7] = Some \<lparr>known_location = BestChain, known_height = 0\<rparr>"
    "\<And>f. handle_new_decided_bft_block sample_lib (node_cr [7]) (node_block 1) node_pointer [] (node_at f (decided_writer c)) =
      Some (node_roster, (node_at (Some (0, [7])) (decided_writer c))\<lparr>app_tfl := node_tfl\<rparr>)"
    by (rule node_run) blast
  let ?a = "(node_at (Some (0, [7])) (decided_writer c))\<lparr>app_tfl := node_tfl\<rparr>"
  have m: "members_ok [node_member]" by (simp add: members_ok_def node_member_def RosterMember_ok_def)
  have "store_step sample_lib (node_cr [7]) decided_hgt decided_prv (node_at None (decided_writer c)) ?a"
    using service_step.decided [OF node_decision_ok n(3)] m by (simp add: store_step_def node_tfl_def)
  then have s: "(store_step sample_lib (node_cr [7]) decided_hgt decided_prv)\<^sup>*\<^sup>* (node_at None (decided_writer c)) ?a" by blast
  obtain stored where st: "pos_store (app_tfl ?a) = Some stored"
    using BftBlock_serialize_ok [OF node_block_ok [of 1]] by (auto simp: node_tfl_def pos_record_def)
  let ?b = "(node_at None (decided_writer c))\<lparr>app_tfl := spawn_new_tfl_service (\<lambda>_. replicate 32 1) True [] None None
       (Some (stored @ take 9 (pos_entry_write ?e)))\<rparr>"
  have e: "pos_entry_ok ?e" using node_decision_ok m by (simp add: pos_entry_ok_def)
  have t: "strict_prefix (take 9 (pos_entry_write ?e)) (pos_entry_write ?e)"
  proof -
    have "9 < length (pos_entry_write ?e)" by (simp add: pos_entry_write_eq [OF node_decision_ok])
    then show ?thesis by (simp only: strict_prefix_def take_is_prefix take_all_iff) simp
  qed
  have a0: "app_tfl (node_at None (decided_writer c)) = spawn_new_tfl_service (\<lambda>_. replicate 32 1) True [] None None (Some [])"
    by (simp add: node_at_def spawn_new_tfl_service_def)
  have k: "block_height_from_hash (app_writer ?b) (from_header_data (lib_sha256 (node_cr [7])) header) = Some 0" for header
    using n(2) by (simp add: block_height_from_hash_def node_at_def from_header_data_def)
  from pos_store_recovers [OF s n(1) node_cr_free a0 _ st e t, of ?b] k
  obtain roster rounds b' where "load_pos_store (node_cr [7]) ?b = Some (roster, rounds, b')" "bft_blocks (app_tfl b') = [node_block 1]"
    "rounds_of (node_cr [7]) [node_block 1] rounds" "pos_store (app_tfl b') = Some stored"
    by auto
  with s st show ?thesis
    by (intro exI [of _ c] exI [of _ ?a] exI [of _ stored] exI [of _ roster] exI [of _ rounds] exI [of _ b']) (simp add: rounds_of_def)
qed

theorem historical_blocks_served_witness:
  "tfl_inv (node_cr [7]) node_tfl \<and> get_historical_bft_block_at_height node_tfl 1 = Some (Some (node_block 1, node_pointer)) \<and>
     get_historical_bft_block_at_height node_tfl 2 = Some None"
proof -
  have i: "tfl_inv (node_cr [7]) node_tfl" by (rule node_tfl_inv) simp_all
  have "get_historical_bft_block_at_height node_tfl 2 = Some None" using historical_blocks_served [OF i, of 2] by simp
  moreover have "get_historical_bft_block_at_height node_tfl 1 = Some (Some (node_block 1, node_pointer))"
    by (simp add: get_historical_bft_block_at_height_def fat_pointer_to_block_at_height_def)
  ultimately show ?thesis using i by blast
qed


theorem empty_proposal_panics_witness:
  "BftBlock_ok (placeholder_block 1) \<and> (\<exists>bytes. BftBlock_zcash_serialize (placeholder_block 1) = Some bytes \<and>
     (\<forall>w. validate_closure (crosslink_closures sample_lib (node_cr [7])) bytes (node_at None w) = None))"
proof -
  have p: "BftBlock_ok (placeholder_block 1)" "bb_headers (placeholder_block 1) = []"
    "points_at_block_hash (previous_block_fat_ptr (placeholder_block 1)) = Some (replicate 32 0)"
    "points_at_block_hash (fat_pointer_to_tip (app_tfl (node_at None w))) = Some (replicate 32 0)" for w
    by (simp_all add: placeholder_block_def node_at_def BftBlock_ok_def)
  obtain bytes where bytes: "BftBlock_zcash_serialize (placeholder_block 1) = Some bytes" using placeholder_serialize by blast
  have "validate_closure (crosslink_closures sample_lib (node_cr [7])) bytes (node_at None w) = None" for w
    using empty_proposal_panics [OF p, of sample_lib "node_cr [7]" "[]"] bytes by auto
  with p(1) bytes show ?thesis by blast
qed

theorem final_block_moves_back_witness:
  "\<exists>c a'. handle_new_decided_bft_block sample_lib (node_cr [7]) (node_block 1) node_pointer [] (node_at (Some (1, [8])) (decided_writer c)) =
       Some (node_roster, a') \<and> known_block (decided_writer c) [7] = Some \<lparr>known_location = BestChain, known_height = 0\<rparr> \<and>
     latest_final_block (app_tfl a') = Some (0, [7]) \<and> tfl_block_finality_from_height_hash a' 1 [8] = ok (Some NotYetFinalized)"
proof -
  obtain c where n: "known_block (decided_writer c) [7] = Some \<lparr>known_location = BestChain, known_height = 0\<rparr>"
    "\<And>f. handle_new_decided_bft_block sample_lib (node_cr [7]) (node_block 1) node_pointer [] (node_at f (decided_writer c)) =
      Some (node_roster, (node_at (Some (0, [7])) (decided_writer c))\<lparr>app_tfl := node_tfl\<rparr>)"
    by (rule node_run) blast
  have k: "known_block (app_writer (node_at (Some (1, [8])) (decided_writer c))) (from_header_data (lib_sha256 (node_cr [7])) (lrz_header (pow_header 5))) =
      Some \<lparr>known_location = BestChain, known_height = 0\<rparr>"
    using n(1) by (simp add: node_at_def from_header_data_def)
  from final_block_moves_back [OF n(2) node_candidate k, of 1 "[8]"] 
  have "latest_final_block node_tfl = Some (0, [7])" "tfl_block_finality_from_height_hash
      ((node_at (Some (0, [7])) (decided_writer c))\<lparr>app_tfl := node_tfl\<rparr>) 1 [8] = ok (Some NotYetFinalized)"
    by (auto simp: from_header_data_def)
  with n(1) n(2) [of "Some (1, [8])"] show ?thesis
    by (intro exI [of _ c] exI [of _ "(node_at (Some (0, [7])) (decided_writer c))\<lparr>app_tfl := node_tfl\<rparr>"]) simp
qed

theorem fat_pointer_order_witness:
  "call_from_state_to_crosslink_to_ask_about_fat_pointers (node_cr [7]) node_tfl node_pointer node_pointer = Some True \<and>
   call_from_state_to_crosslink_to_ask_about_fat_pointers (node_cr [7]) node_tfl node_pointer FatPointer_null = Some True"
proof -
  have "bft_chain (node_cr [7]) (bft_blocks node_tfl)" using node_tfl_inv [of node_tfl "[7]"] by (simp add: tfl_inv_def)
  from fat_pointer_order [OF this, of 0 0 node_pointer node_pointer] show ?thesis by (simp add: inj_on_def)
qed

end
