(* ===== verification/Spec2Isabelle.thy ===== *)
theory Spec2Isabelle
  imports Tendermint_Safety Bond_Pools Finalized_Bonds Crosslink_Decisions
begin

text \<open>
  A verification of the Crosslink node: a proof-of-work chain with the state of a Zebra node
  (\<^verbatim>\<open>src/zebra-crosslink\<close>), made final by a Tendermint protocol among staked finalizers
  (\<^verbatim>\<open>src/tenderlink\<close>), with the shared data of both (\<^verbatim>\<open>src/librustzcash\<close>).

  \<^bold>\<open>The program.\<close> Finalizers exchange packets with proposals and votes; the state machine of Tenderlink
  decides one value per height, and the signatures of the decision form a fat pointer. A decision
  finalizes a block of the proof-of-work chain. The node keeps the blocks above the finalized tip as a
  set of chains in memory; a block is checked against its context, pushed on a chain, and leaves it for
  the database when it is final. Staking transactions create, unbond, withdraw and retarget bonds; the
  bonds earn rewards, and the amounts are accounted in two value pools. The stakes of the finalized bonds
  are the roster of the finalizers.

  \<^bold>\<open>Conventions.\<close> A panic is \<^term>\<open>None\<close> of the type \<^typ>\<open>'a rust\<close>, a \<^verbatim>\<open>Result\<close> is \<^typ>\<open>('e, 'a) result\<close>, a sum
  inside it. Integers are words of their width, with a panic where the source has checked or plain
  arithmetic that overflows; amounts are integers with their constraint; byte arrays are lists. Ordered maps
  are ascending association lists, hash maps are mappings, or association lists where they are
  iterated. Records and functions have the names of the source.

  \<^bold>\<open>Shared theories.\<close>
  \<^item> \<^verbatim>\<open>Rust_Base\<close>, \<^verbatim>\<open>Rust_Result\<close>: panics, checked arithmetic, slices, binary search, results.
  \<^item> \<^verbatim>\<open>Codec\<close>: little-endian integers, \<^verbatim>\<open>CompactSize\<close>, \<^verbatim>\<open>Vector\<close>, \<^verbatim>\<open>Optional\<close> (\<^verbatim>\<open>zcash_encoding\<close>, \<^verbatim>\<open>helpers.rs\<close>). The
    locales \<^verbatim>\<open>codec\<close> and \<^verbatim>\<open>exact_codec\<close> state what a reader and a writer promise each other, and are interpreted
    on the codecs of the source.

  \<^bold>\<open>Finality\<close> (\<^verbatim>\<open>tenderlink/src/lib.rs\<close>, \<^verbatim>\<open>zcash_primitives/src/bft.rs\<close>).
  \<^item> \<^verbatim>\<open>Bft_Types\<close>: votes, fat pointers, BFT blocks and the block header, with encodings and signature checks.
  \<^item> \<^verbatim>\<open>Wire\<close>: the packets and the bytes that a vote signs.
  \<^item> \<^verbatim>\<open>Roster\<close>: the sorted roster, the weighted draw of the proposer, thresholds; the locale \<^verbatim>\<open>weighted_quorum\<close>
    gives the intersection of quorums.
  \<^item> \<^verbatim>\<open>Round_Data\<close>: one round, its incremental counts, proposal chunks and votes, the certificate of a decision.
  \<^item> \<^verbatim>\<open>Tendermint\<close>, \<^verbatim>\<open>Tendermint_Safety\<close>: the rules of \<^verbatim>\<open>bft_update\<close>, messages and timeouts; runs of a node as a step
    relation, in which no node signs two votes for a round.

  \<^bold>\<open>Stake\<close> (\<^verbatim>\<open>zebra-chain\<close>, \<^verbatim>\<open>zebra-state/src/service/check/delegation.rs\<close>).
  \<^item> \<^verbatim>\<open>Amounts\<close>, \<^verbatim>\<open>Value_Balance\<close>, \<^verbatim>\<open>Tx_Values\<close>: amounts, value pools, balances of transactions and blocks.
  \<^item> \<^verbatim>\<open>Staking_Action\<close>: staking actions, their encoding and the consensus checks on them.
  \<^item> \<^verbatim>\<open>Bonds\<close>, \<^verbatim>\<open>Bond_Rewards\<close>, \<^verbatim>\<open>Bond_Pools\<close>: the validation of actions, bonds and rewards on the non-finalized
    chain, and that the pools are the sums of the bonds.

  \<^bold>\<open>Chain state\<close> (\<^verbatim>\<open>zebra-state/src\<close>).
  \<^item> \<^verbatim>\<open>Difficulty\<close>: thresholds, work and the difficulty adjustment.
  \<^item> \<^verbatim>\<open>Chain_Types\<close>, \<^verbatim>\<open>Chain_Trees\<close>, \<^verbatim>\<open>Chain_Indexes\<close>, \<^verbatim>\<open>Chain_State\<close>: one non-finalized chain, \<^verbatim>\<open>chain.rs\<close>: its trees,
    indexes, pushing and popping blocks at both ends, forking.
  \<^item> \<^verbatim>\<open>Disk_Format\<close>, \<^verbatim>\<open>Zebra_Db\<close>, \<^verbatim>\<open>Finalized_State\<close>: keys and values of the database, its reads, and the batch that a
    block writes.
  \<^item> \<^verbatim>\<open>Finalized_Bonds\<close>: the chain and the database as two implementations of one ledger of bonds, the
    locale \<^verbatim>\<open>bond_store\<close> interpreted on both, and that finalizing a block refines pushing it.
  \<^item> \<^verbatim>\<open>Chain_Reads\<close>, \<^verbatim>\<open>Chain_Find\<close>: reads of a chain over the database, block locators.
  \<^item> \<^verbatim>\<open>Contextual_Checks\<close>: the checks of a block against its chain.
  \<^item> \<^verbatim>\<open>Non_Finalized_State\<close>: the ordered set of chains and its operations; runs of them as a step relation, in
    which the best chain stays the greatest.
  \<^item> \<^verbatim>\<open>Finalized_Blocks\<close>: the columns of blocks and transactions of the database, and that a committed block is
    read back.
  \<^item> \<^verbatim>\<open>Chain_Tip\<close>: the channel of the best tip, \<^verbatim>\<open>chain_tip.rs\<close>, and what a follower of the tip is told.
  \<^item> \<^verbatim>\<open>Pow_Header\<close>: the bytes and the hash of a block header, and that a BFT block refers to it by the same hash.
  \<^item> \<^verbatim>\<open>State_Requests\<close>: the requests of the state service that read the chain for the Crosslink service.
  \<^item> \<^verbatim>\<open>Block_Writer\<close>: the task that writes blocks, \<^verbatim>\<open>write.rs\<close>, and that it only appends to the finalized blocks.
  \<^item> \<^verbatim>\<open>Crosslink_Finality\<close>: the composition of all of these: every chain in memory extends the finalized tip, and a
    block that the finalizers have decided stays final, with its ancestors, in every later run of the writer.

  \<^bold>\<open>The Crosslink service\<close> (\<^verbatim>\<open>zebra-crosslink/src/lib.rs\<close>, \<^verbatim>\<open>service.rs\<close>), between Tenderlink and the state.
  \<^item> \<^verbatim>\<open>Crosslink_Service\<close>: proposing, validating and storing BFT blocks, finalizing what they decide, the requests of
    clients and the closures of Tenderlink; runs of the service and the block writer as a step relation.
  \<^item> \<^verbatim>\<open>Pos_Store\<close>: the file of decided blocks and its restoration at the start; the contract \<^verbatim>\<open>exact_codec\<close> gives
    that records are read back and torn records are not.
  \<^item> \<^verbatim>\<open>Crosslink_Decisions\<close>: a decision is final, both chains only grow, a restart loses nothing, decided blocks are
    served with certificates; and decisions that the validation does not keep out.

  \<^bold>\<open>Parameters.\<close> Code that is not in the repository is an argument: BLAKE3, SHA-256 and Ed25519, the
  closures that Tenderlink is given (which \<^verbatim>\<open>Crosslink_Service\<close> defines), and the trees of notes and of the chain history with their roots, the
  fields of the record \<^verbatim>\<open>TreeLib\<close>. Loops are structural recursions or have a termination proof; no fuel is
  used.

  \<^bold>\<open>Not modelled.\<close> The gossip loop of Tenderlink, which chooses what to send to which peer over sockets and timers; the secure transport over third-party
  cryptography; RocksDB itself; proof verification and scripts; the RPC server, the wallets, the indexer and the
  user interface; metrics, logging and formatting.
\<close>

end
